(* ===== verification/Prelude.thy ===== *)
theory Prelude
  imports "HOL-Library.Word" "HOL-Library.Sublist" "HOL-Library.Monad_Syntax"
begin

text \<open>
  Shared vocabulary of the development: the machine types of the C++ sources
  (\<open>uint8_t\<close>, \<open>uint32_t\<close>, \<open>uint64_t\<close> as words, \<open>std::vector<uint8_t>\<close> as a byte list),
  the theorem collections the component theories fill, the conversion between
  \<open>std::string\<close> and bytes, and generic facts on words, prefixes and lists.
  Sizes and offsets (\<open>size_t\<close>) are \<open>nat\<close>: a vector's size never reaches the
  width of \<open>size_t\<close>. Times (\<open>int64_t\<close>, unix seconds) are \<open>int\<close>.
\<close>

unbundle bit_operations_syntax

type_synonym byte = "8 word"
type_synonym bytes = "8 word list"
type_synonym u32 = "32 word"
type_synonym u64 = "64 word"
type_synonym time = int

named_theorems read_iff \<open>when a cursor read succeeds, in terms of the bytes written so far\<close>
named_theorems prefix_intro \<open>what was written stays a prefix of what is written later\<close>
named_theorems codec_defs \<open>definitions of encoders, decoders and their validity predicates\<close>

subsection \<open>Lists\<close>

lemma find_holds: "List.find P xs = Some x \<Longrightarrow> P x"
  by (induction xs) (auto split: if_splits)

subsection \<open>Strings as bytes\<close>

definition byte_of_char :: "char \<Rightarrow> byte" where
  "byte_of_char c = word_of_nat (of_char c)"

definition char_of_byte :: "byte \<Rightarrow> char" where
  "char_of_byte b = char_of (unat b)"

definition bytes_of_string :: "string \<Rightarrow> bytes" where
  "bytes_of_string s = map byte_of_char s"

definition string_of_bytes :: "bytes \<Rightarrow> string" where
  "string_of_bytes b = map char_of_byte b"

lemma of_char_less_256: "(of_char c :: nat) < 256"
  by (metis of_char_mod_256 mod_less_divisor zero_less_numeral)

lemma char_of_byte_of_char [simp]: "char_of_byte (byte_of_char c) = c"
  using of_char_less_256 [of c] by (simp add: char_of_byte_def byte_of_char_def unat_of_nat)

lemma byte_of_char_of_byte [simp]: "byte_of_char (char_of_byte b) = b"
proof -
  have "unat b < 2 ^ LENGTH(8)" by (rule unsigned_less)
  then show ?thesis by (simp add: char_of_byte_def byte_of_char_def)
qed

lemma byte_of_char_inject [simp]: "byte_of_char c = byte_of_char d \<longleftrightarrow> c = d"
  by (metis char_of_byte_of_char)

lemma string_of_bytes_of_string [simp]: "string_of_bytes (bytes_of_string s) = s"
  by (simp add: string_of_bytes_def bytes_of_string_def comp_def)

lemma bytes_of_string_of_bytes [simp]: "bytes_of_string (string_of_bytes b) = b"
  by (simp add: string_of_bytes_def bytes_of_string_def comp_def)

lemma length_bytes_of_string [simp]: "length (bytes_of_string s) = length s"
  by (simp add: bytes_of_string_def)

lemma length_string_of_bytes [simp]: "length (string_of_bytes b) = length b"
  by (simp add: string_of_bytes_def)

lemma bytes_of_string_inject [simp]: "bytes_of_string s = bytes_of_string t \<longleftrightarrow> s = t"
  by (metis string_of_bytes_of_string)

lemma string_of_bytes_eq_iff: "string_of_bytes b = s \<longleftrightarrow> b = bytes_of_string s"
  by (metis string_of_bytes_of_string bytes_of_string_of_bytes)

subsection \<open>Words split into big-endian bytes\<close>

definition split32 :: "u32 \<Rightarrow> bytes" where
  "split32 v = [ucast (drop_bit 24 v), ucast (drop_bit 16 v), ucast (drop_bit 8 v), ucast v]"

definition join32 :: "byte \<Rightarrow> byte \<Rightarrow> byte \<Rightarrow> byte \<Rightarrow> u32" where
  "join32 a b c d = push_bit 24 (ucast a) OR push_bit 16 (ucast b) OR push_bit 8 (ucast c) OR ucast d"

lemma length_split32 [simp]: "length (split32 v) = 4"
  by (simp add: split32_def)

lemma split32_join32: "split32 (join32 a b c d) = [a, b, c, d]"
  by (simp add: split32_def join32_def)
    (intro conjI bit_word_eqI; auto simp: bit_simps dest: bit_imp_le_length)

lemma join32_split32:
  "join32 (ucast (drop_bit 24 v)) (ucast (drop_bit 16 v)) (ucast (drop_bit 8 v)) (ucast v) = v"
proof (rule bit_word_eqI)
  fix n assume "n < LENGTH(32)"
  then consider "n < 8" | "8 \<le> n" "n < 16" | "16 \<le> n" "n < 24" | "24 \<le> n" "n < 32"
    by fastforce
  then show "bit (join32 (ucast (drop_bit 24 v)) (ucast (drop_bit 16 v)) (ucast (drop_bit 8 v)) (ucast v)) n = bit v n"
    by cases (auto simp: join32_def bit_simps)
qed

lemma join32_eq_iff: "join32 a b c d = v \<longleftrightarrow> split32 v = [a, b, c, d]"
  using split32_join32 [of a b c d] join32_split32 [of v] by (auto simp: split32_def)

lemma split32_inject [simp]: "split32 v = split32 w \<longleftrightarrow> v = w"
  by (metis join32_eq_iff split32_def)

subsection \<open>64-bit arithmetic that does not wrap\<close>

lemma unat_ucast_32_64 [simp]: "unat (ucast (x :: u32) :: u64) = unat x"
  by transfer (simp add: take_bit_eq_mod)

lemma ceil_div_bounds:
  fixes c n :: nat
  assumes "0 < c" and "0 < n" and "k = (n + c - 1) div c"
  shows "0 < k" and "(k - 1) * c < n" and "n \<le> k * c"
proof -
  have le: "k * c \<le> n + c - 1" unfolding assms(3) by (rule div_times_less_eq_dividend)
  have gt: "n + c - 1 < Suc k * c" unfolding assms(3) using assms(1) dividend_less_div_times [of c "n + c - 1"] by simp
  show "n \<le> k * c" using gt assms(1) by simp
  with assms(2) show "0 < k" by (cases k) simp_all
  with le assms(1, 2) show "(k - 1) * c < n" by (cases k) simp_all
qed

lemma unat_round_up_u64:
  assumes "unat (t :: u64) < 2 ^ 60" "unat (c :: u64) < 2 ^ 60" "0 < t"
  shows "unat ((t + c - 1) div c) = (unat t + unat c - 1) div unat c"
proof -
  have "unat (t + c) = unat t + unat c"
    using assms by (subst unat_add_lem [THEN iffD1]) auto
  moreover have "unat (t + c - 1) = unat (t + c) - 1"
    using assms by (intro unat_minus_one) (metis calculation add_is_0 unat_eq_zero less_irrefl)
  ultimately show ?thesis by (simp add: unat_div_distrib)
qed

subsection \<open>Numbers in decimal\<close>

text \<open>\<open>std::to_string\<close>, and the zero padding of \<open>snprintf\<close>.\<close>

fun to_string :: "nat \<Rightarrow> string" where
  "to_string n = (if n < 10 then [char_of (48 + n)] else to_string (n div 10) @ [char_of (48 + n mod 10)])"

declare to_string.simps [simp del]

definition to_string_int :: "int \<Rightarrow> string" where
  "to_string_int i = (if i < 0 then CHR ''-'' # to_string (nat (- i)) else to_string (nat i))"

definition pad_zeros :: "nat \<Rightarrow> string \<Rightarrow> string" where
  "pad_zeros w s = replicate (w - length s) (CHR ''0'') @ s"

definition digits_value :: "string \<Rightarrow> nat" where
  "digits_value s = foldl (\<lambda>v c. 10 * v + (of_char c - 48)) 0 s"

lemma of_char_digit: "n < 10 \<Longrightarrow> of_char (char_of (48 + n)) = (48 + n :: nat)"
  by simp

lemma digits_value_to_string [simp]: "digits_value (to_string n) = n"
proof (induction n rule: to_string.induct)
  case (1 n)
  show ?case
  proof (cases "n < 10")
    case True
    then show ?thesis by (subst to_string.simps) (simp add: digits_value_def)
  next
    case False
    with 1 have "foldl (\<lambda>v c. 10 * v + (of_char c - 48)) 0 (to_string (n div 10)) = n div 10" by (simp add: digits_value_def)
    with False show ?thesis by (subst to_string.simps) (simp add: digits_value_def)
  qed
qed

lemma digits_value_pad_zeros [simp]: "digits_value (pad_zeros w s) = digits_value s"
proof -
  have "foldl (\<lambda>v c. 10 * v + (of_char c - 48)) 0 (replicate k (CHR ''0'')) = (0 :: nat)" for k
    by (induction k) simp_all
  then show ?thesis by (simp add: digits_value_def pad_zeros_def)
qed

lemma to_string_inject [simp]: "to_string m = to_string n \<longleftrightarrow> m = n"
  by (metis digits_value_to_string)

lemma pad_zeros_to_string_inject [simp]: "pad_zeros w (to_string m) = pad_zeros w (to_string n) \<longleftrightarrow> m = n"
  by (metis digits_value_to_string digits_value_pad_zeros)

end
