(* ===== verification/Codec.thy ===== *)
theory Codec
  imports Prelude
begin

text \<open>
  The interfaces every wire format of the program relies on, as locales.
  \<^item> \<open>cursor_item\<close>: a reader that takes the whole buffer and an offset and moves the
    offset, paired with the writer that appends the same item to a buffer. The law says
    that reading at the end of what has been written so far succeeds exactly when the
    buffer goes on with what the writer would have appended.
  \<^item> \<open>message_codec\<close>: a whole-message encoder and decoder. The law says that the decoder
    accepts exactly the encodings of the valid messages.
  The clients of the interfaces (the counted loops of the decoders, and the round-trip,
  canonicity and injectivity facts of messages) are proved once, inside the locales.
\<close>

subsection \<open>The counted loops of the decoders\<close>

text \<open>
  Every \<open>for (uint32_t i = 0; i < *count; i++)\<close> of the decoders reads one item, checks it
  against the items already read and pushes it back; the first failure ends the decoder.
\<close>

fun read_loop ::
  "(bytes \<Rightarrow> nat \<Rightarrow> ('a \<times> nat) option) \<Rightarrow> ('a list \<Rightarrow> 'a \<Rightarrow> bool) \<Rightarrow> nat \<Rightarrow> bytes \<Rightarrow> nat \<Rightarrow> 'a list
    \<Rightarrow> ('a list \<times> nat) option"
where
  "read_loop rd chk 0 inp off acc = Some (acc, off)"
| "read_loop rd chk (Suc n) inp off acc =
     do { (x, off) \<leftarrow> rd inp off;
          if chk acc x then read_loop rd chk n inp off (acc @ [x]) else None }"

fun checked_from :: "('a list \<Rightarrow> 'a \<Rightarrow> bool) \<Rightarrow> 'a list \<Rightarrow> 'a list \<Rightarrow> bool" where
  "checked_from chk acc [] = True"
| "checked_from chk acc (x # xs) = (chk acc x \<and> checked_from chk (acc @ [x]) xs)"

lemma checked_from_True [simp]: "checked_from (\<lambda>acc x. True) acc xs"
  by (induction xs arbitrary: acc) auto

lemma checked_from_all:
  "checked_from (\<lambda>acc x. P x \<and> chk acc x) acc xs \<longleftrightarrow> (\<forall>x\<in>set xs. P x) \<and> checked_from chk acc xs"
  by (induction xs arbitrary: acc) auto

lemma checked_from_conj:
  "checked_from (\<lambda>acc x. p acc x \<and> q acc x) acc xs \<longleftrightarrow> checked_from p acc xs \<and> checked_from q acc xs"
  by (induction xs arbitrary: acc) auto

lemma checked_from_at_most_one:
  "checked_from (\<lambda>acc x. \<not> (P x \<and> length (filter P acc) + 1 > 1)) acc xs \<longleftrightarrow>
     filter P xs = [] \<or> filter P acc = [] \<and> length (filter P xs) \<le> 1"
  by (induction xs arbitrary: acc) auto

lemma checked_from_at_most_one_Nil [simp]:
  "checked_from (\<lambda>acc x. P x \<longrightarrow> filter P acc = []) [] xs \<longleftrightarrow> length (filter P xs) \<le> 1"
  using checked_from_at_most_one [of P "[]" xs] by auto

lemma checked_from_fresh:
  "checked_from (\<lambda>acc x. f x \<notin> f ` set acc) acc xs \<longleftrightarrow>
     distinct (map f xs) \<and> f ` set xs \<inter> f ` set acc = {}"
  by (induction xs arbitrary: acc) auto

lemma checked_from_fresh_Nil [simp]:
  "checked_from (\<lambda>acc x. f x \<notin> f ` set acc) [] xs \<longleftrightarrow> distinct (map f xs)"
  by (simp add: checked_from_fresh)

lemma checked_from_new_Nil [simp]:
  "checked_from (\<lambda>acc x. x \<notin> set acc) [] xs \<longleftrightarrow> distinct xs"
  using checked_from_fresh_Nil [where f = "\<lambda>x. x"] by simp

subsection \<open>Cursor readers\<close>

locale cursor_item =
  fixes rd :: "bytes \<Rightarrow> nat \<Rightarrow> ('a \<times> nat) option"
    and wr :: "bytes \<Rightarrow> 'a \<Rightarrow> bytes"
    and ok :: "'a \<Rightarrow> bool"
  assumes rd_iff: "prefix b inp \<Longrightarrow>
      rd inp (length b) = Some (v, off) \<longleftrightarrow> ok v \<and> off = length (wr b v) \<and> prefix (wr b v) inp"
    and wr_extends: "prefix b (wr b v)"
begin

lemma foldl_wr_extends: "prefix b (foldl wr b xs)"
  by (induction xs arbitrary: b) (auto intro: wr_extends prefix_order.trans)

lemma loop_iff:
  assumes "prefix b inp"
  shows "read_loop rd chk n inp (length b) acc = Some (xs, off) \<longleftrightarrow>
    (\<exists>ys. xs = acc @ ys \<and> length ys = n \<and> (\<forall>y\<in>set ys. ok y) \<and> checked_from chk acc ys \<and>
       off = length (foldl wr b ys) \<and> prefix (foldl wr b ys) inp)"
  using assms
proof (induction n arbitrary: b acc)
  case 0
  then show ?case by auto
next
  case (Suc n)
  have step: "read_loop rd chk (Suc n) inp (length b) acc = Some (xs, off) \<longleftrightarrow>
    (\<exists>x. ok x \<and> prefix (wr b x) inp \<and> chk acc x \<and>
       read_loop rd chk n inp (length (wr b x)) (acc @ [x]) = Some (xs, off))"
    by (auto simp: bind_eq_Some_conv rd_iff [OF Suc.prems])
  have ext: "prefix (foldl wr (wr b x) ys) inp \<Longrightarrow> prefix (wr b x) inp" for x ys
    by (meson foldl_wr_extends prefix_order.trans)
  show ?case (is "?lhs \<longleftrightarrow> ?rhs")
  proof
    assume ?lhs
    then obtain x ys where "ok x" "chk acc x" "xs = (acc @ [x]) @ ys" "length ys = n"
      "\<forall>y\<in>set ys. ok y" "checked_from chk (acc @ [x]) ys"
      "off = length (foldl wr (wr b x) ys)" "prefix (foldl wr (wr b x) ys) inp"
      unfolding step by (metis Suc.IH)
    then show ?rhs by (intro exI [of _ "x # ys"]) simp
  next
    assume ?rhs
    then obtain x ys where "ok x" "chk acc x" "xs = (acc @ [x]) @ ys" "length ys = n"
      "\<forall>y\<in>set ys. ok y" "checked_from chk (acc @ [x]) ys"
      "off = length (foldl wr (wr b x) ys)" "prefix (foldl wr (wr b x) ys) inp"
      by (auto simp: length_Suc_conv)
    moreover from this have "prefix (wr b x) inp" by (simp add: ext)
    ultimately show ?lhs unfolding step by (metis Suc.IH)
  qed
qed

lemma loop_Nil_iff:
  "prefix b inp \<Longrightarrow> read_loop rd chk n inp (length b) [] = Some (xs, off) \<longleftrightarrow>
     length xs = n \<and> (\<forall>x\<in>set xs. ok x) \<and> checked_from chk [] xs \<and>
     off = length (foldl wr b xs) \<and> prefix (foldl wr b xs) inp"
  by (auto simp: loop_iff)

text \<open>A successful read never moves the cursor past the end of the buffer.\<close>

lemma rd_in_bounds: "prefix b inp \<Longrightarrow> rd inp (length b) = Some (v, off) \<Longrightarrow> off \<le> length inp"
  by (auto simp: rd_iff prefix_length_le)

lemma wr_then_rd: "ok v \<Longrightarrow> rd (wr b v @ rest) (length b) = Some (v, length (wr b v))"
proof -
  assume "ok v"
  moreover have "prefix b (wr b v @ rest)"
    using wr_extends prefix_prefix by blast
  ultimately show ?thesis by (simp add: rd_iff)
qed

end

subsection \<open>Whole messages\<close>

locale message_codec =
  fixes enc :: "'m \<Rightarrow> bytes" and dec :: "bytes \<Rightarrow> 'm option" and wf :: "'m \<Rightarrow> bool"
  assumes dec_iff: "dec inp = Some m \<longleftrightarrow> wf m \<and> inp = enc m"
begin

lemma round_trip: "wf m \<Longrightarrow> dec (enc m) = Some m"
  by (simp add: dec_iff)

lemma canonical: "dec inp = Some m \<Longrightarrow> enc m = inp"
  by (simp add: dec_iff)

lemma decoded_wf: "dec inp = Some m \<Longrightarrow> wf m"
  by (simp add: dec_iff)

lemma enc_inject: "wf m \<Longrightarrow> wf m' \<Longrightarrow> enc m = enc m' \<longleftrightarrow> m = m'"
  by (metis round_trip option.inject)

lemma dec_inject: "dec inp = Some m \<Longrightarrow> dec inp' = Some m \<Longrightarrow> inp = inp'"
  by (simp add: dec_iff)

lemma rejects_iff: "dec inp = None \<longleftrightarrow> (\<forall>m. wf m \<longrightarrow> inp \<noteq> enc m)"
  by (metis dec_iff not_None_eq)

end

end
