(* ===== verification/Wire.thy ===== *)
theory Wire
  imports Codec
begin

text \<open>
  The low-level encoding of \<open>protocol/protocol.cpp\<close>: big-endian integers, length-prefixed
  blobs and strings, written by appending to a buffer and read with a bounds-checked
  offset. A reader returns \<open>None\<close> where the C++ returns \<open>std::nullopt\<close>, and otherwise the
  value with the moved offset (the C++ moves its reference parameter \<open>offset\<close>). A decoder
  that reads several fields before it tests them is written with early exit: a read
  touches nothing but the local offset, so the two agree. The readers and writers
  instantiate the \<open>cursor_item\<close> interface.
\<close>

subsection \<open>Writing\<close>

definition write_u32 :: "bytes \<Rightarrow> u32 \<Rightarrow> bytes" where
  "write_u32 buf val =
     buf @ [ucast (drop_bit 24 val), ucast (drop_bit 16 val), ucast (drop_bit 8 val), ucast val]"

definition write_u64 :: "bytes \<Rightarrow> u64 \<Rightarrow> bytes" where
  "write_u64 buf val = write_u32 (write_u32 buf (ucast (drop_bit 32 val))) (ucast (val AND 0xFFFFFFFF))"

definition write_bytes :: "bytes \<Rightarrow> bytes \<Rightarrow> nat \<Rightarrow> bytes" where
  "write_bytes buf data len = (if len > 0 then buf @ take len data else buf)"

definition write_blob :: "bytes \<Rightarrow> bytes \<Rightarrow> bytes" where
  "write_blob buf blob = write_bytes (write_u32 buf (word_of_nat (length blob))) blob (length blob)"

definition write_string :: "bytes \<Rightarrow> string \<Rightarrow> bytes" where
  "write_string buf s =
     write_bytes (write_u32 buf (word_of_nat (length s))) (bytes_of_string s) (length s)"

subsection \<open>Reading\<close>

definition has_bytes :: "nat \<Rightarrow> nat \<Rightarrow> nat \<Rightarrow> bool" where
  "has_bytes len offset count \<longleftrightarrow> offset \<le> len \<and> count \<le> len - offset"

definition read_u32 :: "bytes \<Rightarrow> nat \<Rightarrow> (u32 \<times> nat) option" where
  "read_u32 data offset =
     (if \<not> has_bytes (length data) offset 4 then None
      else let p = (\<lambda>i. data ! (offset + i)) in
        Some (push_bit 24 (ucast (p 0)) OR push_bit 16 (ucast (p 1)) OR push_bit 8 (ucast (p 2)) OR ucast (p 3),
              offset + 4))"

definition read_u64 :: "bytes \<Rightarrow> nat \<Rightarrow> (u64 \<times> nat) option" where
  "read_u64 data offset =
     do { (high, offset) \<leftarrow> read_u32 data offset;
          (low, offset) \<leftarrow> read_u32 data offset;
          Some (push_bit 32 (ucast high) OR ucast low, offset) }"

definition read_bytes :: "nat \<Rightarrow> bytes \<Rightarrow> nat \<Rightarrow> (bytes \<times> nat) option" where
  "read_bytes count data offset =
     (if \<not> has_bytes (length data) offset count then None
      else Some (take count (drop offset data), offset + count))"

definition read_blob :: "nat \<Rightarrow> bytes \<Rightarrow> nat \<Rightarrow> (bytes \<times> nat) option" where
  "read_blob max_len data offset =
     do { (blob_len, offset) \<leftarrow> read_u32 data offset;
          if unat blob_len > max_len then None else read_bytes (unat blob_len) data offset }"

definition read_string :: "nat \<Rightarrow> bytes \<Rightarrow> nat \<Rightarrow> (string \<times> nat) option" where
  "read_string max_len data offset =
     do { (bytes, offset) \<leftarrow> read_blob max_len data offset; Some (string_of_bytes bytes, offset) }"

text \<open>\<^verbatim>\<open>buf.push_back(v)\<close>, and \<^verbatim>\<open>data[off++]\<close> after the check that there is a byte left.\<close>

definition push_back :: "bytes \<Rightarrow> byte \<Rightarrow> bytes" where
  "push_back buf v = buf @ [v]"

definition read_byte :: "bytes \<Rightarrow> nat \<Rightarrow> (byte \<times> nat) option" where
  "read_byte data off = (if off \<ge> length data then None else Some (data ! off, off + 1))"

subsection \<open>Readers against writers\<close>

lemma write_u32_split: "write_u32 b v = b @ split32 v"
  by (simp add: write_u32_def split32_def)

lemma write_blob_append: "write_blob b x = b @ split32 (word_of_nat (length x)) @ x"
  by (simp add: write_blob_def write_bytes_def write_u32_split)

lemma write_string_blob: "write_string b s = write_blob b (bytes_of_string s)"
  by (simp add: write_string_def write_blob_def)

lemma write_u64_append:
  "write_u64 b v = b @ split32 (ucast (drop_bit 32 v)) @ split32 (ucast (v AND 0xFFFFFFFF))"
  by (simp add: write_u64_def write_u32_split)

lemma read_u32_at:
  "read_u32 (b @ r) (length b) =
     (case r of x0 # x1 # x2 # x3 # _ \<Rightarrow> Some (join32 x0 x1 x2 x3, length b + 4) | _ \<Rightarrow> None)"
  by (auto simp: read_u32_def has_bytes_def join32_def Let_def nth_append numeral_2_eq_2
      numeral_3_eq_3 split: list.splits)

lemma read_u32_iff [read_iff]:
  assumes "prefix b inp"
  shows "read_u32 inp (length b) = Some (v, off) \<longleftrightarrow>
    off = length (write_u32 b v) \<and> prefix (write_u32 b v) inp"
proof -
  from assms obtain r where inp: "inp = b @ r" by (auto elim: prefixE)
  have "(\<exists>x0 x1 x2 x3 rest. r = x0 # x1 # x2 # x3 # rest \<and> join32 x0 x1 x2 x3 = v) \<longleftrightarrow>
      prefix (split32 v) r"
    by (auto simp: join32_eq_iff prefix_def split32_def)
  then show ?thesis
    by (auto simp: inp read_u32_at write_u32_split split: list.splits)
qed

lemma u64_halves: "push_bit 32 (ucast (h::u32)) OR ucast (l::u32) = (v::u64) \<longleftrightarrow>
    h = ucast (drop_bit 32 v) \<and> l = ucast (v AND 0xFFFFFFFF)"
proof -
  have mask: "ucast (v AND 0xFFFFFFFF) = (ucast v :: u32)" for v :: u64
  proof -
    have "v AND 0xFFFFFFFF = take_bit 32 v" by (simp add: take_bit_eq_mask mask_eq_exp_minus_1)
    then show ?thesis by (simp only:) (rule bit_word_eqI; simp add: bit_simps)
  qed
  have hi: "ucast (drop_bit 32 (push_bit 32 (ucast h) OR ucast l :: u64)) = h"
    by (rule bit_word_eqI) (auto simp: bit_simps dest: bit_imp_le_length)
  have lo: "ucast (push_bit 32 (ucast h) OR ucast l :: u64) = l"
    by (rule bit_word_eqI) (auto simp: bit_simps)
  have "push_bit 32 (ucast (ucast (drop_bit 32 v) :: u32)) OR ucast (ucast v :: u32) = v"
  proof (rule bit_word_eqI)
    fix n assume "n < LENGTH(64)"
    then consider "n < 32" | "32 \<le> n" "n < 64" by fastforce
    then show "bit (push_bit 32 (ucast (ucast (drop_bit 32 v) :: u32)) OR ucast (ucast v :: u32) :: u64) n = bit v n"
      by cases (auto simp: bit_simps)
  qed
  with hi lo show ?thesis unfolding mask by auto
qed

lemma read_u64_iff [read_iff]:
  assumes "prefix b inp"
  shows "read_u64 inp (length b) = Some (v, off) \<longleftrightarrow>
    off = length (write_u64 b v) \<and> prefix (write_u64 b v) inp"
proof -
  have ext: "prefix (write_u32 b h) inp" if "prefix (write_u32 (write_u32 b h) l) inp" for h l
    using that by (auto simp: write_u32_split prefix_def)
  have "read_u64 inp (length b) = Some (v, off) \<longleftrightarrow>
    (\<exists>h l. push_bit 32 (ucast h) OR ucast l = v \<and> off = length (write_u32 (write_u32 b h) l) \<and>
       prefix (write_u32 (write_u32 b h) l) inp)"
    by (simp add: read_u64_def bind_eq_Some_conv read_u32_iff assms cong: conj_cong) (use ext in blast)
  then show ?thesis by (auto simp: u64_halves write_u64_def)
qed

lemma read_bytes_at:
  "read_bytes n (b @ r) (length b) = (if n \<le> length r then Some (take n r, length b + n) else None)"
  by (auto simp: read_bytes_def has_bytes_def)

lemma read_blob_iff:
  assumes "prefix b inp"
  shows "read_blob mx inp (length b) = Some (x, off) \<longleftrightarrow>
    (length x \<le> mx \<and> length x < 2 ^ 32) \<and> off = length (write_blob b x) \<and> prefix (write_blob b x) inp"
proof -
  have one: "(\<exists>off'. off' = length (write_u32 b n) \<and> prefix (write_u32 b n) inp \<and>
        read_bytes (unat n) inp off' = Some (x, off)) \<longleftrightarrow>
      length x = unat n \<and> off = length (write_u32 b n @ x) \<and> prefix (write_u32 b n @ x) inp" for n
  proof
    assume "\<exists>off'. off' = length (write_u32 b n) \<and> prefix (write_u32 b n) inp \<and>
        read_bytes (unat n) inp off' = Some (x, off)"
    then obtain r where r: "inp = write_u32 b n @ r"
      and rd: "read_bytes (unat n) inp (length (write_u32 b n)) = Some (x, off)"
      by (auto elim: prefixE)
    from rd show "length x = unat n \<and> off = length (write_u32 b n @ x) \<and> prefix (write_u32 b n @ x) inp"
      unfolding r read_bytes_at by (auto split: if_splits simp: take_is_prefix)
  next
    assume "length x = unat n \<and> off = length (write_u32 b n @ x) \<and> prefix (write_u32 b n @ x) inp"
    then obtain r where "inp = write_u32 b n @ x @ r" and "length x = unat n"
      and "off = length (write_u32 b n) + length x"
      by (auto elim: prefixE)
    then show "\<exists>off'. off' = length (write_u32 b n) \<and> prefix (write_u32 b n) inp \<and>
        read_bytes (unat n) inp off' = Some (x, off)"
      by (simp add: read_bytes_at)
  qed
  have "read_blob mx inp (length b) = Some (x, off) \<longleftrightarrow>
      (\<exists>n. unat n \<le> mx \<and> length x = unat n \<and> off = length (write_u32 b n @ x) \<and>
         prefix (write_u32 b n @ x) inp)"
    using one by (simp add: read_blob_def bind_eq_Some_conv read_u32_iff assms not_less) metis
  also have "\<dots> \<longleftrightarrow> (length x \<le> mx \<and> length x < 2 ^ 32) \<and> off = length (write_blob b x) \<and>
      prefix (write_blob b x) inp"
    (is "?l \<longleftrightarrow> ?r")
  proof
    assume ?l
    then obtain n :: u32 where n: "unat n \<le> mx" "length x = unat n"
      "off = length (write_u32 b n @ x)" "prefix (write_u32 b n @ x) inp" by blast
    have "unat n < 2 ^ LENGTH(32)" by (rule unsigned_less)
    with n show ?r by (simp add: write_blob_append write_u32_split)
  next
    assume ?r
    then show ?l
      by (intro exI [of _ "word_of_nat (length x)"])
        (simp add: write_blob_append write_u32_split unat_of_nat)
  qed
  finally show ?thesis .
qed

lemma read_string_iff:
  assumes "prefix b inp"
  shows "read_string mx inp (length b) = Some (s, off) \<longleftrightarrow>
    (length s \<le> mx \<and> length s < 2 ^ 32) \<and> off = length (write_string b s) \<and> prefix (write_string b s) inp"
  by (auto simp: read_string_def bind_eq_Some_conv read_blob_iff assms string_of_bytes_eq_iff
      write_string_blob)

lemma read_byte_iff [read_iff]:
  assumes "prefix b inp"
  shows "read_byte inp (length b) = Some (v, off) \<longleftrightarrow> off = length (push_back b v) \<and> prefix (push_back b v) inp"
proof -
  from assms obtain r where "inp = b @ r" by (auto elim: prefixE)
  then show ?thesis by (cases r) (auto simp: read_byte_def push_back_def)
qed

lemma prefix_push_back: "prefix b (push_back b v)"
  by (simp add: push_back_def)

lemma prefix_write_u32: "prefix b (write_u32 b v)"
  by (simp add: write_u32_split)

lemma prefix_write_u64: "prefix b (write_u64 b v)"
  by (simp add: write_u64_append)

lemma prefix_write_blob: "prefix b (write_blob b x)"
  by (simp add: write_blob_append)

lemma prefix_write_string: "prefix b (write_string b s)"
  by (simp add: write_string_blob prefix_write_blob)

interpretation u32_item: cursor_item read_u32 write_u32 "\<lambda>_. True"
  by unfold_locales (simp_all add: read_u32_iff prefix_write_u32)

interpretation u64_item: cursor_item read_u64 write_u64 "\<lambda>_. True"
  by unfold_locales (simp_all add: read_u64_iff prefix_write_u64)

interpretation byte_item: cursor_item read_byte push_back "\<lambda>_. True"
  by unfold_locales (simp_all add: read_byte_iff prefix_push_back)

interpretation blob_item: cursor_item "read_blob mx" write_blob "\<lambda>x. length x \<le> mx \<and> length x < 2 ^ 32"
  for mx
  by unfold_locales (simp_all add: read_blob_iff prefix_write_blob)

interpretation string_item: cursor_item "read_string mx" write_string "\<lambda>s. length s \<le> mx \<and> length s < 2 ^ 32"
  for mx
  by unfold_locales (simp_all add: read_string_iff prefix_write_string)

text \<open>
  The forms the decoders use: every limit of the program fits in 32 bits, at the start of a
  buffer nothing has been written yet, and at its end everything has.
\<close>

lemma read_blob_small_iff [read_iff]:
  "prefix b inp \<Longrightarrow> mx < 2 ^ 32 \<Longrightarrow> read_blob mx inp (length b) = Some (x, off) \<longleftrightarrow>
     length x \<le> mx \<and> off = length (write_blob b x) \<and> prefix (write_blob b x) inp"
  by (auto simp: read_blob_iff)

lemma read_string_small_iff [read_iff]:
  "prefix b inp \<Longrightarrow> mx < 2 ^ 32 \<Longrightarrow> read_string mx inp (length b) = Some (s, off) \<longleftrightarrow>
     length s \<le> mx \<and> off = length (write_string b s) \<and> prefix (write_string b s) inp"
  by (auto simp: read_string_iff)

lemmas read_iff_start [read_iff] =
  read_u32_iff [of "[]", simplified] read_u64_iff [of "[]", simplified] read_byte_iff [of "[]", simplified]
  read_blob_small_iff [of "[]", simplified] read_string_small_iff [of "[]", simplified]

lemma offset_at_end [read_iff]: "prefix b inp \<Longrightarrow> length b = length inp \<longleftrightarrow> inp = b"
  by (auto simp: prefix_def)

lemma all_read: "prefix b inp \<Longrightarrow> length inp = length b \<longleftrightarrow> inp = b"
  by (auto simp: prefix_def)

lemma count_eq_iff [read_iff]: "length xs = unat (c :: u32) \<longleftrightarrow> c = word_of_nat (length xs) \<and> length xs < 2 ^ 32"
  using unsigned_less [of c, where ?'a = nat] by (auto simp: unat_of_nat)

lemma unat_count [simp]: "n < 2 ^ 32 \<Longrightarrow> unat (word_of_nat n :: u32) = n"
  by (simp add: unat_of_nat)

lemma word_of_count_eq_0 [simp]: "n < 2 ^ 32 \<Longrightarrow> (word_of_nat n :: u32) = 0 \<longleftrightarrow> n = 0"
  using unat_count [of n] by (auto simp: unat_eq_0 simp del: unat_count)

lemma prefix_foldl_write:
  "(\<And>b x. prefix b (wr b x)) \<Longrightarrow> prefix a b \<Longrightarrow> prefix a (foldl wr b xs)"
proof (induction xs arbitrary: b)
  case (Cons x xs)
  from Cons.prems have "prefix a (wr b x)" using prefix_order.trans [of a b "wr b x"] by simp
  then show ?case using Cons by simp
qed simp

lemma prefix_write_trans [prefix_intro]:
  "prefix a b \<Longrightarrow> prefix a (write_u32 b v)"
  "prefix a b \<Longrightarrow> prefix a (write_u64 b w)"
  "prefix a b \<Longrightarrow> prefix a (write_blob b x)"
  "prefix a b \<Longrightarrow> prefix a (write_string b s)"
  "prefix a b \<Longrightarrow> prefix a (push_back b c)"
  "prefix a b \<Longrightarrow> prefix a (foldl write_blob b xs)"
  by (auto intro: prefix_order.trans prefix_push_back prefix_write_u32 prefix_write_u64 prefix_write_blob
      prefix_write_string prefix_foldl_write)

subsection \<open>What was written determines what was written\<close>

text \<open>
  In append form the fields of a message can be cancelled from the left, which is what makes
  a concatenation of length-prefixed fields unambiguous.
\<close>

definition blob_field :: "bytes \<Rightarrow> bytes" where
  "blob_field x = split32 (word_of_nat (length x)) @ x"

definition u64_field :: "u64 \<Rightarrow> bytes" where
  "u64_field v = write_u64 [] v"

lemma write_blob_field: "write_blob b x = b @ blob_field x"
  by (simp add: write_blob_append blob_field_def)

lemma write_u64_field: "write_u64 b v = b @ u64_field v"
  by (simp add: u64_field_def write_u64_append)

lemma foldl_write_blob_field: "foldl write_blob b xs = b @ concat (map blob_field xs)"
  by (induction xs arbitrary: b) (simp_all add: write_blob_field)

lemmas write_append = write_u32_split write_u64_field write_blob_field write_string_blob foldl_write_blob_field

lemma word_of_length_inject:
  assumes "m < 2 ^ 32" "n < 2 ^ 32"
  shows "(word_of_nat m :: u32) = word_of_nat n \<longleftrightarrow> m = n"
proof -
  have "unat (word_of_nat m :: u32) = m" "unat (word_of_nat n :: u32) = n"
    using assms by (simp_all add: unat_of_nat)
  then show ?thesis by metis
qed

lemma blob_cancel:
  assumes "length x < 2 ^ 32" "length y < 2 ^ 32"
  shows "blob_field x @ r = blob_field y @ s \<longleftrightarrow> x = y \<and> r = s"
  using assms by (auto simp: word_of_length_inject blob_field_def)

lemma blob_cancel_Nil:
  assumes "length x < 2 ^ 32" "length y < 2 ^ 32"
  shows "blob_field x = blob_field y \<longleftrightarrow> x = y"
  using blob_cancel [OF assms, of "[]" "[]"] by simp

lemma u64_cancel: "u64_field v @ r = u64_field w @ s \<longleftrightarrow> v = w \<and> r = s"
proof
  assume *: "u64_field v @ r = u64_field w @ s"
  have "read_u64 (u64_field x @ t) 0 = Some (x, length (u64_field x))" for x t
    using u64_item.wr_then_rd [of "[]" x t] by (simp add: u64_field_def)
  with * have "Some (v, length (u64_field v)) = Some (w, length (u64_field w))" by metis
  with * show "v = w \<and> r = s" by simp
qed simp

lemma blobs_cancel:
  assumes "length xs = length ys" "\<forall>x\<in>set xs. length x < 2 ^ 32" "\<forall>y\<in>set ys. length y < 2 ^ 32"
  shows "concat (map blob_field xs) = concat (map blob_field ys) \<longleftrightarrow> xs = ys"
  using assms by (induction xs ys rule: list_induct2) (simp_all add: blob_cancel)

lemmas field_cancel = blob_cancel blob_cancel_Nil u64_cancel

end
