(* ===== verification/Relay_Payloads.thy ===== *)
theory Relay_Payloads
  imports Wire
begin

text \<open>
  The limits and payload structs of protocol version 3 (\<open>protocol/relay_protocol.h\<close>): one
  record per struct, its fields prefixed by two letters of the struct's name.
  \<open>relay::FileChunk\<close> is \<open>RelayFileChunk\<close> here, since version 2 has a \<open>FileChunk\<close> of its own.
\<close>

subsection \<open>Limits\<close>

abbreviation (input) "WIRE_VERSION \<equiv> (3 :: u32)"
abbreviation (input) "NONCE_BYTES \<equiv> (32 :: nat)"
abbreviation (input) "MAILBOX_ID_BYTES \<equiv> (16 :: nat)"
abbreviation (input) "SEND_TOKEN_BYTES \<equiv> (32 :: nat)"
abbreviation (input) "HASH_BYTES \<equiv> (32 :: nat)"
abbreviation (input) "INVITE_BYTES \<equiv> (16 :: nat)"
abbreviation (input) "ENVELOPE_ID_BYTES \<equiv> (16 :: nat)"
abbreviation (input) "MAX_ENVELOPE_BYTES \<equiv> (69632 :: nat)"
abbreviation (input) "MIN_TTL_SECONDS \<equiv> (1 :: u32)"
abbreviation (input) "MAX_TTL_SECONDS \<equiv> (2592000 :: u32)"
abbreviation (input) "MAX_ACK_IDS \<equiv> (256 :: nat)"
abbreviation (input) "MAX_KEY_BLOB \<equiv> (8192 :: nat)"
abbreviation (input) "MAX_INVITE_STATUS_ENTRIES \<equiv> (4096 :: nat)"
abbreviation (input) "ARCHIVE_ID_BYTES \<equiv> (16 :: nat)"
abbreviation (input) "JOIN_TOKEN_BYTES \<equiv> (32 :: nat)"
abbreviation (input) "MAX_ARCHIVE_MEMBERS \<equiv> (16 :: nat)"
abbreviation (input) "MAX_ARCHIVE_ENTRY_BYTES \<equiv> (65536 :: nat)"
abbreviation (input) "MAX_FETCH_ENTRIES \<equiv> (256 :: u32)"
abbreviation (input) "MAX_DELETE_ENTRIES \<equiv> (64 :: nat)"
abbreviation (input) "DELETE_SCOPE_CHAT \<equiv> (1 :: u32)"
abbreviation (input) "DELETE_SCOPE_ENTRIES \<equiv> (2 :: u32)"
abbreviation (input) "KEYRING_CHUNK_BYTES \<equiv> (49152 :: nat)"
abbreviation (input) "MAX_KEYRING_BYTES \<equiv> (16777216 :: u32)"
abbreviation (input) "FILE_ID_BYTES \<equiv> (16 :: nat)"
abbreviation (input) "FILE_TOKEN_BYTES \<equiv> (32 :: nat)"
abbreviation (input) "MAX_FILE_TOKENS \<equiv> (16 :: nat)"
abbreviation (input) "MAX_FILE_CHUNK_BYTES \<equiv> (65536 :: nat)"
abbreviation (input) "MIN_FILE_CHUNK_BYTES \<equiv> (4096 :: nat)"
abbreviation (input) "MAX_FILE_BYTES \<equiv> (17179869184 :: u64)"
abbreviation (input) "FILE_ACK_WINDOW \<equiv> (64 :: u32)"
abbreviation (input) "PREKEY_ID_BYTES \<equiv> (16 :: nat)"
abbreviation (input) "PREKEY_GENERATION_BYTES \<equiv> (16 :: nat)"
abbreviation (input) "MAX_PREKEY_BYTES \<equiv> (8192 :: nat)"
abbreviation (input) "MAX_PREKEYS_PER_PUT \<equiv> (12 :: nat)"

subsection \<open>Payloads\<close>

record Hello =
  hl_version :: u32
  hl_client_nonce :: bytes

record HelloReply =
  hr_relay_public_key :: bytes
  hr_signature :: bytes
  hr_auth_challenge :: bytes

record Register =
  rg_invite :: bytes
  rg_mailbox_id :: bytes
  rg_access_public_key :: bytes
  rg_send_token_hash :: bytes
  rg_signature :: bytes

record Auth =
  au_mailbox_id :: bytes
  au_signature :: bytes

record Deposit =
  dp_mailbox_id :: bytes
  dp_send_token :: bytes
  dp_envelope :: bytes
  dp_ttl_seconds :: u32

record StoredEnvelope =
  se_id :: bytes
  se_deposited_at :: u64
  se_token_hash :: bytes
  se_envelope :: bytes

record IdList =
  il_ids :: "bytes list"

record HashOp =
  ho_token_hash :: bytes

record Unused =
  un_hash :: bytes
  un_expires_at :: u64

record Joined =
  jo_mailbox_id :: bytes
  jo_joined_at :: u64

record InviteStatus =
  is_max_unused :: u32
  is_max_total :: u32
  is_unused :: "Unused list"
  is_joined :: "Joined list"

record ArchiveCreate =
  ac_archive_id :: bytes
  ac_join_token_hashes :: "bytes list"

record ArchiveJoin =
  aj_archive_id :: bytes
  aj_join_token :: bytes
  aj_public_key :: bytes
  aj_signature :: bytes

record ArchiveAuth =
  aa_archive_id :: bytes
  aa_key_hash :: bytes
  aa_signature :: bytes

record ArchiveAppend =
  ap_expected_number :: u64
  ap_expected_hash :: bytes
  ap_ciphertext :: bytes

record ArchiveHead =
  ah_number :: u64
  ah_hash :: bytes

record ArchiveFetch =
  af_from_number :: u64
  af_limit :: u32

record ArchiveEntry =
  ae_number :: u64
  ae_hash :: bytes
  ae_ciphertext :: bytes
  ae_tombstone :: bool

record ArchiveSignature =
  as_key_hash :: bytes
  as_signature :: bytes

record ArchiveDelete =
  ad_scope :: u32
  ad_op_id :: bytes
  ad_expires_at :: u64
  ad_entry_hashes :: "bytes list"
  ad_signatures :: "ArchiveSignature list"

record KeyringChunk =
  kc_total_size :: u32
  kc_index :: u32
  kc_count :: u32
  kc_data :: bytes

record FileBegin =
  fb_file_id :: bytes
  fb_total_size :: u64
  fb_chunk_size :: u32
  fb_chunk_count :: u32
  fb_expires_at :: u64
  fb_token_hashes :: "bytes list"

record RelayFileChunk =
  fc_index :: u32
  fc_data :: bytes

record FileDownload =
  fd_file_id :: bytes
  fd_token :: bytes
  fd_from_chunk :: u32

record FileInfo =
  fi_total_size :: u64
  fi_chunk_size :: u32
  fi_chunk_count :: u32
  fi_expires_at :: u64

record FileRedeem =
  fr_file_id :: bytes
  fr_token :: bytes

record FileRef =
  ff_file_id :: bytes

record FileStatus =
  fs_tokens_total :: u32
  fs_tokens_redeemed :: u32
  fs_expires_at :: u64
  fs_ready :: bool

record PrekeyEntry =
  pe_id :: bytes
  pe_last_resort :: bool
  pe_blob :: bytes

record PrekeyPut =
  pp_replace :: bool
  pp_generation :: bytes
  pp_prekeys :: "PrekeyEntry list"

record PrekeyTake =
  pt_mailbox_id :: bytes
  pt_send_token :: bytes

record PrekeyData =
  pd_last_resort :: bool
  pd_blob :: bytes

record PrekeyStatus =
  ps_one_time :: u32
  ps_last_resort :: bool
  ps_generation :: bytes

end
