(* ===== verification/Relay_Protocol.thy ===== *)
theory Relay_Protocol
  imports Relay_Payloads
begin

text \<open>
  The encoders and decoders of protocol version 3 (\<open>protocol/relay_protocol.cpp\<close>) and the
  byte strings that get signed or hashed. \<open>wf_T\<close> collects the sizes and relations that
  \<open>protocol/relay_protocol.h\<close> states for the fields of \<open>T\<close>. For every message the decoder
  accepts exactly the encodings of the valid values (\<open>decode_*_iff\<close>), which makes each
  pair an instance of \<open>message_codec\<close>.
\<close>

subsection \<open>Helpers\<close>

definition fixed_blob :: "nat \<Rightarrow> bytes \<Rightarrow> nat \<Rightarrow> (bytes \<times> nat) option" where
  "fixed_blob sz inp off =
     do { (blob, off) \<leftarrow> read_blob sz inp off;
          if length blob \<noteq> sz then None else Some (blob, off) }"

definition at_end :: "bytes \<Rightarrow> nat \<Rightarrow> bool" where
  "at_end inp off \<longleftrightarrow> off = length inp"

lemma fixed_blob_iff:
  "prefix b inp \<Longrightarrow> fixed_blob n inp (length b) = Some (x, off) \<longleftrightarrow>
     (length x = n \<and> n < 2 ^ 32) \<and> off = length (write_blob b x) \<and> prefix (write_blob b x) inp"
  by (auto simp: fixed_blob_def bind_eq_Some_conv read_blob_iff)

lemma fixed_blob_small_iff [read_iff]:
  "prefix b inp \<Longrightarrow> n < 2 ^ 32 \<Longrightarrow> fixed_blob n inp (length b) = Some (x, off) \<longleftrightarrow>
     length x = n \<and> off = length (write_blob b x) \<and> prefix (write_blob b x) inp"
  by (simp add: fixed_blob_iff)

lemmas fixed_blob_start [read_iff] = fixed_blob_small_iff [of "[]", simplified]

lemma at_end_prefix [read_iff]: "prefix b inp \<Longrightarrow> at_end inp (length b) \<longleftrightarrow> inp = b"
  by (simp add: at_end_def offset_at_end)

interpretation fixed_item: cursor_item "fixed_blob n" write_blob "\<lambda>x. length x = n \<and> n < 2 ^ 32"
  for n
  by unfold_locales (simp_all add: fixed_blob_iff prefix_write_blob)

lemmas fixed_loop_iff [read_iff] = fixed_item.loop_Nil_iff

lemma not_more_than_1 [read_iff]: "\<not> 1 < (flag :: u32) \<longleftrightarrow> flag = 0 \<or> flag = 1"
  by (auto simp: not_less word_le_nat_alt word_unat_eq_iff)

lemma ex_flag [read_iff]: "(\<exists>f. (f = 0 \<or> f = (1 :: u32)) \<and> P f) \<longleftrightarrow> P 0 \<or> P 1"
  by blast

lemma ex_flag_after [read_iff]:
  "(\<exists>f. P f \<and> (f = 0 \<or> f = (1 :: u32)) \<and> Q f) \<longleftrightarrow> P 0 \<and> Q 0 \<or> P 1 \<and> Q 1"
  by blast

lemma one_le_word_iff [read_iff]: "1 \<le> (c :: 'a :: len word) \<longleftrightarrow> c \<noteq> 0"
  by (auto simp: word_le_nat_alt Suc_le_eq unat_gt_0)

lemma if_eq_Some: "(if P then x else None) = Some y \<longleftrightarrow> P \<and> x = Some y"
  by simp

lemma if_None_eq_Some: "(if P then None else x) = Some y \<longleftrightarrow> \<not> P \<and> x = Some y"
  by simp

lemmas codec_simps = Let_def bind_eq_Some_conv read_iff

subsection \<open>Sessions and mailboxes\<close>

definition encode_Hello :: "Hello \<Rightarrow> bytes" where
  [codec_defs]: "encode_Hello m =
    (let b = []; b = write_u32 b (hl_version m); b = write_blob b (hl_client_nonce m) in b)"

definition encode_HelloReply :: "HelloReply \<Rightarrow> bytes" where
  [codec_defs]: "encode_HelloReply m =
    (let b = []; b = write_blob b (hr_relay_public_key m); b = write_blob b (hr_signature m);
         b = write_blob b (hr_auth_challenge m) in b)"

definition encode_Register :: "Register \<Rightarrow> bytes" where
  [codec_defs]: "encode_Register m =
    (let b = []; b = write_blob b (rg_invite m); b = write_blob b (rg_mailbox_id m);
         b = write_blob b (rg_access_public_key m); b = write_blob b (rg_send_token_hash m);
         b = write_blob b (rg_signature m) in b)"

definition encode_Auth :: "Auth \<Rightarrow> bytes" where
  [codec_defs]: "encode_Auth m =
    (let b = []; b = write_blob b (au_mailbox_id m); b = write_blob b (au_signature m) in b)"

definition encode_Deposit :: "Deposit \<Rightarrow> bytes" where
  [codec_defs]: "encode_Deposit m =
    (let b = []; b = write_blob b (dp_mailbox_id m); b = write_blob b (dp_send_token m);
         b = write_u32 b (dp_ttl_seconds m); b = write_blob b (dp_envelope m) in b)"

definition encode_StoredEnvelope :: "StoredEnvelope \<Rightarrow> bytes" where
  [codec_defs]: "encode_StoredEnvelope m =
    (let b = []; b = write_blob b (se_id m); b = write_u64 b (se_deposited_at m);
         b = write_blob b (se_token_hash m); b = write_blob b (se_envelope m) in b)"

definition encode_IdList :: "IdList \<Rightarrow> bytes" where
  [codec_defs]: "encode_IdList m =
    (let b = []; b = write_u32 b (word_of_nat (length (il_ids m))); b = foldl write_blob b (il_ids m) in b)"

definition encode_HashOp :: "HashOp \<Rightarrow> bytes" where
  [codec_defs]: "encode_HashOp m = (let b = []; b = write_blob b (ho_token_hash m) in b)"

definition decode_hello :: "bytes \<Rightarrow> Hello option" where
  [codec_defs]: "decode_hello inp =
    do { (version, off) \<leftarrow> read_u32 inp 0;
         (nonce, off) \<leftarrow> fixed_blob NONCE_BYTES inp off;
         if \<not> at_end inp off then None
         else Some \<lparr> hl_version = version, hl_client_nonce = nonce \<rparr> }"

definition decode_hello_reply :: "bytes \<Rightarrow> HelloReply option" where
  [codec_defs]: "decode_hello_reply inp =
    do { (key, off) \<leftarrow> read_blob MAX_KEY_BLOB inp 0;
         (sig, off) \<leftarrow> read_blob MAX_KEY_BLOB inp off;
         (challenge, off) \<leftarrow> fixed_blob NONCE_BYTES inp off;
         if \<not> at_end inp off then None
         else Some \<lparr> hr_relay_public_key = key, hr_signature = sig, hr_auth_challenge = challenge \<rparr> }"

definition decode_register :: "bytes \<Rightarrow> Register option" where
  [codec_defs]: "decode_register inp =
    do { (invite, off) \<leftarrow> fixed_blob INVITE_BYTES inp 0;
         (mailbox, off) \<leftarrow> fixed_blob MAILBOX_ID_BYTES inp off;
         (key, off) \<leftarrow> read_blob MAX_KEY_BLOB inp off;
         (token_hash, off) \<leftarrow> fixed_blob HASH_BYTES inp off;
         (sig, off) \<leftarrow> read_blob MAX_KEY_BLOB inp off;
         if \<not> at_end inp off then None
         else Some \<lparr> rg_invite = invite, rg_mailbox_id = mailbox, rg_access_public_key = key,
                     rg_send_token_hash = token_hash, rg_signature = sig \<rparr> }"

definition decode_auth :: "bytes \<Rightarrow> Auth option" where
  [codec_defs]: "decode_auth inp =
    do { (mailbox, off) \<leftarrow> fixed_blob MAILBOX_ID_BYTES inp 0;
         (sig, off) \<leftarrow> read_blob MAX_KEY_BLOB inp off;
         if \<not> at_end inp off then None
         else Some \<lparr> au_mailbox_id = mailbox, au_signature = sig \<rparr> }"

definition decode_deposit :: "bytes \<Rightarrow> Deposit option" where
  [codec_defs]: "decode_deposit inp =
    do { (mailbox, off) \<leftarrow> fixed_blob MAILBOX_ID_BYTES inp 0;
         (token, off) \<leftarrow> fixed_blob SEND_TOKEN_BYTES inp off;
         (ttl, off) \<leftarrow> read_u32 inp off;
         (envelope, off) \<leftarrow> read_blob MAX_ENVELOPE_BYTES inp off;
         if \<not> at_end inp off then None
         else Some \<lparr> dp_mailbox_id = mailbox, dp_send_token = token, dp_envelope = envelope,
                     dp_ttl_seconds = ttl \<rparr> }"

definition decode_stored_envelope :: "bytes \<Rightarrow> StoredEnvelope option" where
  [codec_defs]: "decode_stored_envelope inp =
    do { (i, off) \<leftarrow> fixed_blob ENVELOPE_ID_BYTES inp 0;
         (at, off) \<leftarrow> read_u64 inp off;
         (token_hash, off) \<leftarrow> fixed_blob HASH_BYTES inp off;
         (envelope, off) \<leftarrow> read_blob MAX_ENVELOPE_BYTES inp off;
         if \<not> at_end inp off then None
         else Some \<lparr> se_id = i, se_deposited_at = at, se_token_hash = token_hash, se_envelope = envelope \<rparr> }"

definition decode_id_list :: "bytes \<Rightarrow> IdList option" where
  [codec_defs]: "decode_id_list inp =
    do { (count, off) \<leftarrow> read_u32 inp 0;
         if unat count > MAX_ACK_IDS then None
         else do { (ids, off) \<leftarrow> read_loop (fixed_blob ENVELOPE_ID_BYTES) (\<lambda>acc i. True) (unat count) inp off [];
                   if \<not> at_end inp off then None else Some \<lparr> il_ids = ids \<rparr> } }"

definition decode_hash_op :: "bytes \<Rightarrow> HashOp option" where
  [codec_defs]: "decode_hash_op inp =
    do { (hash, off) \<leftarrow> fixed_blob HASH_BYTES inp 0;
         if \<not> at_end inp off then None else Some \<lparr> ho_token_hash = hash \<rparr> }"

definition wf_Hello :: "Hello \<Rightarrow> bool" where
  [codec_defs]: "wf_Hello m \<longleftrightarrow> length (hl_client_nonce m) = NONCE_BYTES"

definition wf_HelloReply :: "HelloReply \<Rightarrow> bool" where
  [codec_defs]: "wf_HelloReply m \<longleftrightarrow> length (hr_relay_public_key m) \<le> MAX_KEY_BLOB \<and>
     length (hr_signature m) \<le> MAX_KEY_BLOB \<and> length (hr_auth_challenge m) = NONCE_BYTES"

definition wf_Register :: "Register \<Rightarrow> bool" where
  [codec_defs]: "wf_Register m \<longleftrightarrow> length (rg_invite m) = INVITE_BYTES \<and>
     length (rg_mailbox_id m) = MAILBOX_ID_BYTES \<and> length (rg_access_public_key m) \<le> MAX_KEY_BLOB \<and>
     length (rg_send_token_hash m) = HASH_BYTES \<and> length (rg_signature m) \<le> MAX_KEY_BLOB"

definition wf_Auth :: "Auth \<Rightarrow> bool" where
  [codec_defs]: "wf_Auth m \<longleftrightarrow> length (au_mailbox_id m) = MAILBOX_ID_BYTES \<and> length (au_signature m) \<le> MAX_KEY_BLOB"

definition wf_Deposit :: "Deposit \<Rightarrow> bool" where
  [codec_defs]: "wf_Deposit m \<longleftrightarrow> length (dp_mailbox_id m) = MAILBOX_ID_BYTES \<and>
     length (dp_send_token m) = SEND_TOKEN_BYTES \<and> length (dp_envelope m) \<le> MAX_ENVELOPE_BYTES"

definition wf_StoredEnvelope :: "StoredEnvelope \<Rightarrow> bool" where
  [codec_defs]: "wf_StoredEnvelope m \<longleftrightarrow> length (se_id m) = ENVELOPE_ID_BYTES \<and>
     length (se_token_hash m) = HASH_BYTES \<and> length (se_envelope m) \<le> MAX_ENVELOPE_BYTES"

definition wf_IdList :: "IdList \<Rightarrow> bool" where
  [codec_defs]: "wf_IdList m \<longleftrightarrow> length (il_ids m) \<le> MAX_ACK_IDS \<and> (\<forall>i\<in>set (il_ids m). length i = ENVELOPE_ID_BYTES)"

definition wf_HashOp :: "HashOp \<Rightarrow> bool" where
  [codec_defs]: "wf_HashOp m \<longleftrightarrow> length (ho_token_hash m) = HASH_BYTES"

lemma decode_hello_iff: "decode_hello inp = Some m \<longleftrightarrow> wf_Hello m \<and> inp = encode_Hello m"
  by (cases m) (simp add: codec_defs codec_simps cong: conj_cong, auto simp: prefix_intro)

lemma decode_hello_reply_iff: "decode_hello_reply inp = Some m \<longleftrightarrow> wf_HelloReply m \<and> inp = encode_HelloReply m"
  by (cases m) (simp add: codec_defs codec_simps cong: conj_cong, auto simp: prefix_intro)

lemma decode_register_iff: "decode_register inp = Some m \<longleftrightarrow> wf_Register m \<and> inp = encode_Register m"
  by (cases m) (simp add: codec_defs codec_simps cong: conj_cong, auto simp: prefix_intro)

lemma decode_auth_iff: "decode_auth inp = Some m \<longleftrightarrow> wf_Auth m \<and> inp = encode_Auth m"
  by (cases m) (simp add: codec_defs codec_simps cong: conj_cong, auto simp: prefix_intro)

lemma decode_deposit_iff: "decode_deposit inp = Some m \<longleftrightarrow> wf_Deposit m \<and> inp = encode_Deposit m"
  by (cases m) (simp add: codec_defs codec_simps cong: conj_cong, auto simp: prefix_intro)

lemma decode_stored_envelope_iff: "decode_stored_envelope inp = Some m \<longleftrightarrow> wf_StoredEnvelope m \<and> inp = encode_StoredEnvelope m"
  by (cases m) (simp add: codec_defs codec_simps cong: conj_cong, auto simp: prefix_intro)

lemma decode_id_list_iff: "decode_id_list inp = Some m \<longleftrightarrow> wf_IdList m \<and> inp = encode_IdList m"
  by (cases m) (simp add: codec_defs codec_simps cong: conj_cong, auto simp: prefix_intro)

lemma decode_hash_op_iff: "decode_hash_op inp = Some m \<longleftrightarrow> wf_HashOp m \<and> inp = encode_HashOp m"
  by (cases m) (simp add: codec_defs codec_simps cong: conj_cong, auto simp: prefix_intro)

subsection \<open>Invite status\<close>

definition write_unused :: "bytes \<Rightarrow> Unused \<Rightarrow> bytes" where
  [codec_defs]: "write_unused b u = write_u64 (write_blob b (un_hash u)) (un_expires_at u)"

definition write_joined :: "bytes \<Rightarrow> Joined \<Rightarrow> bytes" where
  [codec_defs]: "write_joined b j = write_u64 (write_blob b (jo_mailbox_id j)) (jo_joined_at j)"

definition encode_InviteStatus :: "InviteStatus \<Rightarrow> bytes" where
  "encode_InviteStatus m =
    (let b = []; b = write_u32 b (is_max_unused m); b = write_u32 b (is_max_total m);
         b = write_u32 b (word_of_nat (length (is_unused m))); b = foldl write_unused b (is_unused m);
         b = write_u32 b (word_of_nat (length (is_joined m))); b = foldl write_joined b (is_joined m) in b)"

definition read_unused :: "bytes \<Rightarrow> nat \<Rightarrow> (Unused \<times> nat) option" where
  [codec_defs]: "read_unused inp off =
    do { (hash, off) \<leftarrow> fixed_blob HASH_BYTES inp off;
         (expires, off) \<leftarrow> read_u64 inp off;
         Some (\<lparr> un_hash = hash, un_expires_at = expires \<rparr>, off) }"

definition read_joined :: "bytes \<Rightarrow> nat \<Rightarrow> (Joined \<times> nat) option" where
  [codec_defs]: "read_joined inp off =
    do { (i, off) \<leftarrow> fixed_blob MAILBOX_ID_BYTES inp off;
         (at, off) \<leftarrow> read_u64 inp off;
         Some (\<lparr> jo_mailbox_id = i, jo_joined_at = at \<rparr>, off) }"

definition decode_invite_status :: "bytes \<Rightarrow> InviteStatus option" where
  "decode_invite_status inp =
    do { (max_unused, off) \<leftarrow> read_u32 inp 0;
         (max_total, off) \<leftarrow> read_u32 inp off;
         (unused, off) \<leftarrow> read_u32 inp off;
         if unat unused > MAX_INVITE_STATUS_ENTRIES then None
         else do { (us, off) \<leftarrow> read_loop read_unused (\<lambda>acc u. True) (unat unused) inp off [];
                   (joined, off) \<leftarrow> read_u32 inp off;
                   if unat joined > MAX_INVITE_STATUS_ENTRIES then None
                   else do { (js, off) \<leftarrow> read_loop read_joined (\<lambda>acc j. True) (unat joined) inp off [];
                             if \<not> at_end inp off then None
                             else Some \<lparr> is_max_unused = max_unused, is_max_total = max_total,
                                         is_unused = us, is_joined = js \<rparr> } } }"

definition wf_InviteStatus :: "InviteStatus \<Rightarrow> bool" where
  "wf_InviteStatus m \<longleftrightarrow>
     length (is_unused m) \<le> MAX_INVITE_STATUS_ENTRIES \<and> (\<forall>u\<in>set (is_unused m). length (un_hash u) = HASH_BYTES) \<and>
     length (is_joined m) \<le> MAX_INVITE_STATUS_ENTRIES \<and> (\<forall>j\<in>set (is_joined m). length (jo_mailbox_id j) = MAILBOX_ID_BYTES)"

interpretation unused_item: cursor_item read_unused write_unused "\<lambda>u. length (un_hash u) = HASH_BYTES"
proof
  show "prefix b (write_unused b v)" for b v by (auto simp: write_unused_def simp: prefix_intro)
  show "prefix b inp \<Longrightarrow> read_unused inp (length b) = Some (v, off) \<longleftrightarrow>
      length (un_hash v) = HASH_BYTES \<and> off = length (write_unused b v) \<and> prefix (write_unused b v) inp" for b inp v off
    by (cases v) (simp add: codec_defs codec_simps cong: conj_cong, auto elim: prefix_order.trans [rotated] simp: prefix_intro)
qed

interpretation joined_item: cursor_item read_joined write_joined "\<lambda>j. length (jo_mailbox_id j) = MAILBOX_ID_BYTES"
proof
  show "prefix b (write_joined b v)" for b v by (auto simp: write_joined_def simp: prefix_intro)
  show "prefix b inp \<Longrightarrow> read_joined inp (length b) = Some (v, off) \<longleftrightarrow>
      length (jo_mailbox_id v) = MAILBOX_ID_BYTES \<and> off = length (write_joined b v) \<and> prefix (write_joined b v) inp" for b inp v off
    by (cases v) (simp add: codec_defs codec_simps cong: conj_cong, auto elim: prefix_order.trans [rotated] simp: prefix_intro)
qed

lemma prefix_foldl_status [prefix_intro]:
  "prefix a b \<Longrightarrow> prefix a (foldl write_unused b us)"
  "prefix a b \<Longrightarrow> prefix a (foldl write_joined b js)"
  by (auto intro: prefix_foldl_write unused_item.wr_extends joined_item.wr_extends)

lemma decode_invite_status_iff:
  "decode_invite_status inp = Some m \<longleftrightarrow> wf_InviteStatus m \<and> inp = encode_InviteStatus m"
  by (cases m) (simp add: decode_invite_status_def wf_InviteStatus_def encode_InviteStatus_def
      codec_simps unused_item.loop_Nil_iff joined_item.loop_Nil_iff cong: conj_cong, auto simp: prefix_intro)

subsection \<open>Chat archives\<close>

definition encode_ArchiveCreate :: "ArchiveCreate \<Rightarrow> bytes" where
  "encode_ArchiveCreate m =
    (let b = []; b = write_blob b (ac_archive_id m);
         b = write_u32 b (word_of_nat (length (ac_join_token_hashes m)));
         b = foldl write_blob b (ac_join_token_hashes m) in b)"

definition encode_ArchiveJoin :: "ArchiveJoin \<Rightarrow> bytes" where
  "encode_ArchiveJoin m =
    (let b = []; b = write_blob b (aj_archive_id m); b = write_blob b (aj_join_token m);
         b = write_blob b (aj_public_key m); b = write_blob b (aj_signature m) in b)"

definition encode_ArchiveAuth :: "ArchiveAuth \<Rightarrow> bytes" where
  "encode_ArchiveAuth m =
    (let b = []; b = write_blob b (aa_archive_id m); b = write_blob b (aa_key_hash m);
         b = write_blob b (aa_signature m) in b)"

definition encode_ArchiveAppend :: "ArchiveAppend \<Rightarrow> bytes" where
  "encode_ArchiveAppend m =
    (let b = []; b = write_u64 b (ap_expected_number m); b = write_blob b (ap_expected_hash m);
         b = write_blob b (ap_ciphertext m) in b)"

definition encode_ArchiveHead :: "ArchiveHead \<Rightarrow> bytes" where
  "encode_ArchiveHead m = (let b = []; b = write_u64 b (ah_number m); b = write_blob b (ah_hash m) in b)"

definition encode_ArchiveFetch :: "ArchiveFetch \<Rightarrow> bytes" where
  "encode_ArchiveFetch m = (let b = []; b = write_u64 b (af_from_number m); b = write_u32 b (af_limit m) in b)"

definition encode_ArchiveEntry :: "ArchiveEntry \<Rightarrow> bytes" where
  "encode_ArchiveEntry m =
    (let b = []; b = write_u64 b (ae_number m); b = write_blob b (ae_hash m);
         b = write_blob b (ae_ciphertext m); b = write_u32 b (if ae_tombstone m then 1 else 0) in b)"

definition write_archive_signature :: "bytes \<Rightarrow> ArchiveSignature \<Rightarrow> bytes" where
  "write_archive_signature b s = write_blob (write_blob b (as_key_hash s)) (as_signature s)"

definition encode_ArchiveDelete :: "ArchiveDelete \<Rightarrow> bytes" where
  "encode_ArchiveDelete m =
    (let b = []; b = write_u32 b (ad_scope m); b = write_blob b (ad_op_id m); b = write_u64 b (ad_expires_at m);
         b = write_u32 b (word_of_nat (length (ad_entry_hashes m))); b = foldl write_blob b (ad_entry_hashes m);
         b = write_u32 b (word_of_nat (length (ad_signatures m)));
         b = foldl write_archive_signature b (ad_signatures m) in b)"

definition decode_archive_create :: "bytes \<Rightarrow> ArchiveCreate option" where
  "decode_archive_create inp =
    do { (i, off) \<leftarrow> fixed_blob ARCHIVE_ID_BYTES inp 0;
         (count, off) \<leftarrow> read_u32 inp off;
         if count < 1 \<or> unat count > MAX_ARCHIVE_MEMBERS then None
         else do { (hashes, off) \<leftarrow> read_loop (fixed_blob HASH_BYTES) (\<lambda>acc h. True) (unat count) inp off [];
                   if \<not> at_end inp off then None
                   else Some \<lparr> ac_archive_id = i, ac_join_token_hashes = hashes \<rparr> } }"

definition decode_archive_join :: "bytes \<Rightarrow> ArchiveJoin option" where
  "decode_archive_join inp =
    do { (i, off) \<leftarrow> fixed_blob ARCHIVE_ID_BYTES inp 0;
         (token, off) \<leftarrow> fixed_blob JOIN_TOKEN_BYTES inp off;
         (key, off) \<leftarrow> read_blob MAX_KEY_BLOB inp off;
         (sig, off) \<leftarrow> read_blob MAX_KEY_BLOB inp off;
         if \<not> at_end inp off then None
         else Some \<lparr> aj_archive_id = i, aj_join_token = token, aj_public_key = key, aj_signature = sig \<rparr> }"

definition decode_archive_auth :: "bytes \<Rightarrow> ArchiveAuth option" where
  "decode_archive_auth inp =
    do { (i, off) \<leftarrow> fixed_blob ARCHIVE_ID_BYTES inp 0;
         (key_hash, off) \<leftarrow> fixed_blob HASH_BYTES inp off;
         (sig, off) \<leftarrow> read_blob MAX_KEY_BLOB inp off;
         if \<not> at_end inp off then None
         else Some \<lparr> aa_archive_id = i, aa_key_hash = key_hash, aa_signature = sig \<rparr> }"

definition decode_archive_append :: "bytes \<Rightarrow> ArchiveAppend option" where
  "decode_archive_append inp =
    do { (number, off) \<leftarrow> read_u64 inp 0;
         (hash, off) \<leftarrow> fixed_blob HASH_BYTES inp off;
         (ct, off) \<leftarrow> read_blob MAX_ARCHIVE_ENTRY_BYTES inp off;
         if ct = [] \<or> \<not> at_end inp off then None
         else Some \<lparr> ap_expected_number = number, ap_expected_hash = hash, ap_ciphertext = ct \<rparr> }"

definition decode_archive_head :: "bytes \<Rightarrow> ArchiveHead option" where
  "decode_archive_head inp =
    do { (number, off) \<leftarrow> read_u64 inp 0;
         (hash, off) \<leftarrow> fixed_blob HASH_BYTES inp off;
         if \<not> at_end inp off then None else Some \<lparr> ah_number = number, ah_hash = hash \<rparr> }"

definition decode_archive_fetch :: "bytes \<Rightarrow> ArchiveFetch option" where
  "decode_archive_fetch inp =
    do { (from_number, off) \<leftarrow> read_u64 inp 0;
         (limit, off) \<leftarrow> read_u32 inp off;
         if from_number < 1 \<or> limit < 1 \<or> limit > MAX_FETCH_ENTRIES \<or> \<not> at_end inp off then None
         else Some \<lparr> af_from_number = from_number, af_limit = limit \<rparr> }"

definition decode_archive_entry :: "bytes \<Rightarrow> ArchiveEntry option" where
  "decode_archive_entry inp =
    do { (number, off) \<leftarrow> read_u64 inp 0;
         (hash, off) \<leftarrow> fixed_blob HASH_BYTES inp off;
         (ct, off) \<leftarrow> read_blob MAX_ARCHIVE_ENTRY_BYTES inp off;
         (tombstone, off) \<leftarrow> read_u32 inp off;
         if tombstone > 1 \<or> (ct = []) \<noteq> (tombstone = 1) \<or> \<not> at_end inp off then None
         else Some \<lparr> ae_number = number, ae_hash = hash, ae_ciphertext = ct, ae_tombstone = (tombstone = 1) \<rparr> }"

definition read_archive_signature :: "bytes \<Rightarrow> nat \<Rightarrow> (ArchiveSignature \<times> nat) option" where
  "read_archive_signature inp off =
    do { (kh, off) \<leftarrow> fixed_blob HASH_BYTES inp off;
         (sg, off) \<leftarrow> read_blob MAX_KEY_BLOB inp off;
         if sg = [] then None else Some (\<lparr> as_key_hash = kh, as_signature = sg \<rparr>, off) }"

definition decode_archive_delete :: "bytes \<Rightarrow> ArchiveDelete option" where
  "decode_archive_delete inp =
    do { (scope, off) \<leftarrow> read_u32 inp 0;
         (opid, off) \<leftarrow> fixed_blob 16 inp off;
         (expires, off) \<leftarrow> read_u64 inp off;
         (hashes, off) \<leftarrow> read_u32 inp off;
         if scope \<noteq> DELETE_SCOPE_CHAT \<and> scope \<noteq> DELETE_SCOPE_ENTRIES then None
         else if (if scope = DELETE_SCOPE_CHAT then hashes \<noteq> 0 else hashes < 1 \<or> unat hashes > MAX_DELETE_ENTRIES) then None
         else do { (hs, off) \<leftarrow> read_loop (fixed_blob HASH_BYTES) (\<lambda>acc h. h \<notin> set acc) (unat hashes) inp off [];
                   (sigs, off) \<leftarrow> read_u32 inp off;
                   if sigs < 1 \<or> unat sigs > MAX_ARCHIVE_MEMBERS then None
                   else do { (ss, off) \<leftarrow> read_loop read_archive_signature
                                (\<lambda>acc s. as_key_hash s \<notin> as_key_hash ` set acc) (unat sigs) inp off [];
                             if \<not> at_end inp off then None
                             else Some \<lparr> ad_scope = scope, ad_op_id = opid, ad_expires_at = expires,
                                         ad_entry_hashes = hs, ad_signatures = ss \<rparr> } } }"

definition wf_ArchiveCreate :: "ArchiveCreate \<Rightarrow> bool" where
  "wf_ArchiveCreate m \<longleftrightarrow> length (ac_archive_id m) = ARCHIVE_ID_BYTES \<and>
     ac_join_token_hashes m \<noteq> [] \<and> length (ac_join_token_hashes m) \<le> MAX_ARCHIVE_MEMBERS \<and>
     (\<forall>h\<in>set (ac_join_token_hashes m). length h = HASH_BYTES)"

definition wf_ArchiveJoin :: "ArchiveJoin \<Rightarrow> bool" where
  "wf_ArchiveJoin m \<longleftrightarrow> length (aj_archive_id m) = ARCHIVE_ID_BYTES \<and> length (aj_join_token m) = JOIN_TOKEN_BYTES \<and>
     length (aj_public_key m) \<le> MAX_KEY_BLOB \<and> length (aj_signature m) \<le> MAX_KEY_BLOB"

definition wf_ArchiveAuth :: "ArchiveAuth \<Rightarrow> bool" where
  "wf_ArchiveAuth m \<longleftrightarrow> length (aa_archive_id m) = ARCHIVE_ID_BYTES \<and> length (aa_key_hash m) = HASH_BYTES \<and>
     length (aa_signature m) \<le> MAX_KEY_BLOB"

definition wf_ArchiveAppend :: "ArchiveAppend \<Rightarrow> bool" where
  "wf_ArchiveAppend m \<longleftrightarrow> length (ap_expected_hash m) = HASH_BYTES \<and>
     ap_ciphertext m \<noteq> [] \<and> length (ap_ciphertext m) \<le> MAX_ARCHIVE_ENTRY_BYTES"

definition wf_ArchiveHead :: "ArchiveHead \<Rightarrow> bool" where
  "wf_ArchiveHead m \<longleftrightarrow> length (ah_hash m) = HASH_BYTES"

definition wf_ArchiveFetch :: "ArchiveFetch \<Rightarrow> bool" where
  "wf_ArchiveFetch m \<longleftrightarrow> 1 \<le> af_from_number m \<and> 1 \<le> af_limit m \<and> af_limit m \<le> MAX_FETCH_ENTRIES"

definition wf_ArchiveEntry :: "ArchiveEntry \<Rightarrow> bool" where
  "wf_ArchiveEntry m \<longleftrightarrow> length (ae_hash m) = HASH_BYTES \<and>
     length (ae_ciphertext m) \<le> MAX_ARCHIVE_ENTRY_BYTES \<and> (ae_ciphertext m = []) = ae_tombstone m"

definition wf_ArchiveDelete :: "ArchiveDelete \<Rightarrow> bool" where
  "wf_ArchiveDelete m \<longleftrightarrow> length (ad_op_id m) = 16 \<and>
     (ad_scope m = DELETE_SCOPE_CHAT \<and> ad_entry_hashes m = [] \<or>
      ad_scope m = DELETE_SCOPE_ENTRIES \<and> ad_entry_hashes m \<noteq> [] \<and>
        length (ad_entry_hashes m) \<le> MAX_DELETE_ENTRIES) \<and>
     (\<forall>h\<in>set (ad_entry_hashes m). length h = HASH_BYTES) \<and> distinct (ad_entry_hashes m) \<and>
     ad_signatures m \<noteq> [] \<and> length (ad_signatures m) \<le> MAX_ARCHIVE_MEMBERS \<and>
     (\<forall>s\<in>set (ad_signatures m). length (as_key_hash s) = HASH_BYTES \<and>
        as_signature s \<noteq> [] \<and> length (as_signature s) \<le> MAX_KEY_BLOB) \<and>
     distinct (map as_key_hash (ad_signatures m))"

lemmas archive_codec_defs = encode_ArchiveCreate_def encode_ArchiveJoin_def encode_ArchiveAuth_def
  encode_ArchiveAppend_def encode_ArchiveHead_def encode_ArchiveFetch_def encode_ArchiveEntry_def
  encode_ArchiveDelete_def decode_archive_create_def decode_archive_join_def decode_archive_auth_def
  decode_archive_append_def decode_archive_head_def decode_archive_fetch_def decode_archive_entry_def
  decode_archive_delete_def wf_ArchiveCreate_def wf_ArchiveJoin_def wf_ArchiveAuth_def
  wf_ArchiveAppend_def wf_ArchiveHead_def wf_ArchiveFetch_def wf_ArchiveEntry_def wf_ArchiveDelete_def

interpretation archive_signature_item: cursor_item read_archive_signature write_archive_signature
  "\<lambda>s. length (as_key_hash s) = HASH_BYTES \<and> as_signature s \<noteq> [] \<and> length (as_signature s) \<le> MAX_KEY_BLOB"
proof
  show "prefix b (write_archive_signature b v)" for b v
    by (simp add: write_archive_signature_def prefix_intro)
  show "prefix b inp \<Longrightarrow> read_archive_signature inp (length b) = Some (v, off) \<longleftrightarrow>
      (length (as_key_hash v) = HASH_BYTES \<and> as_signature v \<noteq> [] \<and> length (as_signature v) \<le> MAX_KEY_BLOB) \<and>
      off = length (write_archive_signature b v) \<and> prefix (write_archive_signature b v) inp" for b inp v off
    by (cases v) (simp add: read_archive_signature_def write_archive_signature_def codec_simps cong: conj_cong,
      auto elim: prefix_order.trans [rotated] simp: prefix_intro)
qed

lemma prefix_foldl_signatures [prefix_intro]: "prefix a b \<Longrightarrow> prefix a (foldl write_archive_signature b ss)"
  by (auto intro: prefix_foldl_write archive_signature_item.wr_extends)

lemma decode_archive_create_iff: "decode_archive_create inp = Some m \<longleftrightarrow> wf_ArchiveCreate m \<and> inp = encode_ArchiveCreate m"
  by (cases m) (simp add: archive_codec_defs codec_simps archive_signature_item.loop_Nil_iff
      cong: conj_cong, auto simp: prefix_intro)

lemma decode_archive_join_iff: "decode_archive_join inp = Some m \<longleftrightarrow> wf_ArchiveJoin m \<and> inp = encode_ArchiveJoin m"
  by (cases m) (simp add: archive_codec_defs codec_simps archive_signature_item.loop_Nil_iff
      cong: conj_cong, auto simp: prefix_intro)

lemma decode_archive_auth_iff: "decode_archive_auth inp = Some m \<longleftrightarrow> wf_ArchiveAuth m \<and> inp = encode_ArchiveAuth m"
  by (cases m) (simp add: archive_codec_defs codec_simps archive_signature_item.loop_Nil_iff
      cong: conj_cong, auto simp: prefix_intro)

lemma decode_archive_append_iff: "decode_archive_append inp = Some m \<longleftrightarrow> wf_ArchiveAppend m \<and> inp = encode_ArchiveAppend m"
  by (cases m) (simp add: archive_codec_defs codec_simps archive_signature_item.loop_Nil_iff
      cong: conj_cong, auto simp: prefix_intro)

lemma decode_archive_head_iff: "decode_archive_head inp = Some m \<longleftrightarrow> wf_ArchiveHead m \<and> inp = encode_ArchiveHead m"
  by (cases m) (simp add: archive_codec_defs codec_simps archive_signature_item.loop_Nil_iff
      cong: conj_cong, auto simp: prefix_intro)

lemma decode_archive_fetch_iff: "decode_archive_fetch inp = Some m \<longleftrightarrow> wf_ArchiveFetch m \<and> inp = encode_ArchiveFetch m"
  by (cases m) (simp add: archive_codec_defs codec_simps archive_signature_item.loop_Nil_iff
      cong: conj_cong, auto simp: prefix_intro)

lemma decode_archive_entry_iff: "decode_archive_entry inp = Some m \<longleftrightarrow> wf_ArchiveEntry m \<and> inp = encode_ArchiveEntry m"
  by (cases m) (simp add: archive_codec_defs codec_simps archive_signature_item.loop_Nil_iff
      cong: conj_cong, auto simp: prefix_intro)

lemma decode_archive_delete_iff: "decode_archive_delete inp = Some m \<longleftrightarrow> wf_ArchiveDelete m \<and> inp = encode_ArchiveDelete m"
  by (cases m) (simp add: archive_codec_defs codec_simps archive_signature_item.loop_Nil_iff if_None_eq_Some
      split del: if_split cong: conj_cong, auto simp: prefix_intro split: if_splits)

subsection \<open>Keyring\<close>

definition encode_KeyringChunk :: "KeyringChunk \<Rightarrow> bytes" where
  "encode_KeyringChunk m =
    (let b = []; b = write_u32 b (kc_total_size m); b = write_u32 b (kc_index m);
         b = write_u32 b (kc_count m); b = write_blob b (kc_data m) in b)"

text \<open>The consistency tests of the decoder, with the casts and widths of the code.\<close>

definition keyring_chunk_ok :: "KeyringChunk \<Rightarrow> bool" where
  "keyring_chunk_ok c =
    (let total = kc_total_size c; index = kc_index c; count = kc_count c; data = kc_data c in
     if total = 0 then index = 0 \<and> count = 0 \<and> data = []
     else if total > MAX_KEYRING_BYTES then False
     else let expected_count = ucast ((ucast total + word_of_nat KEYRING_CHUNK_BYTES - 1 :: u64)
                                        div word_of_nat KEYRING_CHUNK_BYTES) in
       if count \<noteq> expected_count \<or> index \<ge> count then False
       else let expected_size = (if index + 1 < count then word_of_nat KEYRING_CHUNK_BYTES
                  else ucast total - word_of_nat KEYRING_CHUNK_BYTES * ucast (count - 1) :: u64) in
         word_of_nat (length data) = expected_size)"

definition decode_keyring_chunk :: "bytes \<Rightarrow> KeyringChunk option" where
  "decode_keyring_chunk inp =
    do { (total, off) \<leftarrow> read_u32 inp 0;
         (index, off) \<leftarrow> read_u32 inp off;
         (count, off) \<leftarrow> read_u32 inp off;
         (data, off) \<leftarrow> read_blob KEYRING_CHUNK_BYTES inp off;
         if \<not> at_end inp off then None
         else let c = \<lparr> kc_total_size = total, kc_index = index, kc_count = count, kc_data = data \<rparr> in
           if keyring_chunk_ok c then Some c else None }"

text \<open>
  The header's contract, in unbounded arithmetic: either the "no keyring" marker, or a chunk
  whose count is what the total needs, whose index is in range and whose data is a full
  chunk, or the remainder for the last.
\<close>

definition wf_KeyringChunk :: "KeyringChunk \<Rightarrow> bool" where
  "wf_KeyringChunk c \<longleftrightarrow>
     (let total = unat (kc_total_size c); index = unat (kc_index c); count = unat (kc_count c);
          len = length (kc_data c) in
      if total = 0 then index = 0 \<and> count = 0 \<and> len = 0
      else total \<le> unat MAX_KEYRING_BYTES \<and> count = (total + KEYRING_CHUNK_BYTES - 1) div KEYRING_CHUNK_BYTES \<and>
        index < count \<and>
        len = (if index + 1 < count then KEYRING_CHUNK_BYTES else total - KEYRING_CHUNK_BYTES * (count - 1)))"

subsection \<open>Prekeys\<close>

definition write_prekey_entry :: "bytes \<Rightarrow> PrekeyEntry \<Rightarrow> bytes" where
  "write_prekey_entry b p =
    write_blob (write_u32 (write_blob b (pe_id p)) (if pe_last_resort p then 1 else 0)) (pe_blob p)"

definition encode_PrekeyPut :: "PrekeyPut \<Rightarrow> bytes" where
  "encode_PrekeyPut m =
    (let b = []; b = write_u32 b (if pp_replace m then 1 else 0); b = write_blob b (pp_generation m);
         b = write_u32 b (word_of_nat (length (pp_prekeys m))); b = foldl write_prekey_entry b (pp_prekeys m) in b)"

definition encode_PrekeyTake :: "PrekeyTake \<Rightarrow> bytes" where
  "encode_PrekeyTake m = (let b = []; b = write_blob b (pt_mailbox_id m); b = write_blob b (pt_send_token m) in b)"

definition encode_PrekeyData :: "PrekeyData \<Rightarrow> bytes" where
  "encode_PrekeyData m =
    (let b = []; b = write_u32 b (if pd_last_resort m then 1 else 0); b = write_blob b (pd_blob m) in b)"

definition encode_PrekeyStatus :: "PrekeyStatus \<Rightarrow> bytes" where
  "encode_PrekeyStatus m =
    (let b = []; b = write_u32 b (ps_one_time m); b = write_u32 b (if ps_last_resort m then 1 else 0);
         b = write_blob b (ps_generation m) in b)"

definition read_prekey_entry :: "bytes \<Rightarrow> nat \<Rightarrow> (PrekeyEntry \<times> nat) option" where
  "read_prekey_entry inp off =
    do { (i, off) \<leftarrow> fixed_blob PREKEY_ID_BYTES inp off;
         (flag, off) \<leftarrow> read_u32 inp off;
         (blob, off) \<leftarrow> read_blob MAX_PREKEY_BYTES inp off;
         if flag > 1 \<or> blob = [] then None
         else Some (\<lparr> pe_id = i, pe_last_resort = (flag = 1), pe_blob = blob \<rparr>, off) }"

definition decode_prekey_put :: "bytes \<Rightarrow> PrekeyPut option" where
  "decode_prekey_put inp =
    do { (replace, off) \<leftarrow> read_u32 inp 0;
         (generation, off) \<leftarrow> fixed_blob PREKEY_GENERATION_BYTES inp off;
         (count, off) \<leftarrow> read_u32 inp off;
         if replace > 1 \<or> unat count > MAX_PREKEYS_PER_PUT then None
         else do { (ps, off) \<leftarrow> read_loop read_prekey_entry
                     (\<lambda>acc p. pe_id p \<notin> pe_id ` set acc \<and>
                        \<not> (pe_last_resort p \<and> length (filter pe_last_resort acc) + 1 > 1))
                     (unat count) inp off [];
                   if \<not> at_end inp off then None
                   else Some \<lparr> pp_replace = (replace = 1), pp_generation = generation, pp_prekeys = ps \<rparr> } }"

definition decode_prekey_take :: "bytes \<Rightarrow> PrekeyTake option" where
  "decode_prekey_take inp =
    do { (mailbox, off) \<leftarrow> fixed_blob MAILBOX_ID_BYTES inp 0;
         (token, off) \<leftarrow> fixed_blob SEND_TOKEN_BYTES inp off;
         if \<not> at_end inp off then None else Some \<lparr> pt_mailbox_id = mailbox, pt_send_token = token \<rparr> }"

definition decode_prekey_data :: "bytes \<Rightarrow> PrekeyData option" where
  "decode_prekey_data inp =
    do { (flag, off) \<leftarrow> read_u32 inp 0;
         (blob, off) \<leftarrow> read_blob MAX_PREKEY_BYTES inp off;
         if flag > 1 \<or> blob = [] \<or> \<not> at_end inp off then None
         else Some \<lparr> pd_last_resort = (flag = 1), pd_blob = blob \<rparr> }"

definition decode_prekey_status :: "bytes \<Rightarrow> PrekeyStatus option" where
  "decode_prekey_status inp =
    do { (one_time, off) \<leftarrow> read_u32 inp 0;
         (flag, off) \<leftarrow> read_u32 inp off;
         (generation, off) \<leftarrow> read_blob PREKEY_GENERATION_BYTES inp off;
         if flag > 1 \<or> generation \<noteq> [] \<and> length generation \<noteq> PREKEY_GENERATION_BYTES \<or> \<not> at_end inp off then None
         else Some \<lparr> ps_one_time = one_time, ps_last_resort = (flag = 1), ps_generation = generation \<rparr> }"

definition wf_PrekeyPut :: "PrekeyPut \<Rightarrow> bool" where
  "wf_PrekeyPut m \<longleftrightarrow> length (pp_generation m) = PREKEY_GENERATION_BYTES \<and>
     length (pp_prekeys m) \<le> MAX_PREKEYS_PER_PUT \<and>
     (\<forall>p\<in>set (pp_prekeys m). length (pe_id p) = PREKEY_ID_BYTES \<and> pe_blob p \<noteq> [] \<and> length (pe_blob p) \<le> MAX_PREKEY_BYTES) \<and>
     distinct (map pe_id (pp_prekeys m)) \<and> length (filter pe_last_resort (pp_prekeys m)) \<le> 1"

definition wf_PrekeyTake :: "PrekeyTake \<Rightarrow> bool" where
  "wf_PrekeyTake m \<longleftrightarrow> length (pt_mailbox_id m) = MAILBOX_ID_BYTES \<and> length (pt_send_token m) = SEND_TOKEN_BYTES"

definition wf_PrekeyData :: "PrekeyData \<Rightarrow> bool" where
  "wf_PrekeyData m \<longleftrightarrow> pd_blob m \<noteq> [] \<and> length (pd_blob m) \<le> MAX_PREKEY_BYTES"

definition wf_PrekeyStatus :: "PrekeyStatus \<Rightarrow> bool" where
  "wf_PrekeyStatus m \<longleftrightarrow> ps_generation m = [] \<or> length (ps_generation m) = PREKEY_GENERATION_BYTES"

subsection \<open>Attachments\<close>

definition encode_FileBegin :: "FileBegin \<Rightarrow> bytes" where
  "encode_FileBegin m =
    (let b = []; b = write_blob b (fb_file_id m); b = write_u64 b (fb_total_size m); b = write_u32 b (fb_chunk_size m);
         b = write_u32 b (fb_chunk_count m); b = write_u64 b (fb_expires_at m);
         b = write_u32 b (word_of_nat (length (fb_token_hashes m))); b = foldl write_blob b (fb_token_hashes m) in b)"

definition encode_FileChunk :: "RelayFileChunk \<Rightarrow> bytes" where
  "encode_FileChunk m = (let b = []; b = write_u32 b (fc_index m); b = write_blob b (fc_data m) in b)"

definition encode_FileDownload :: "FileDownload \<Rightarrow> bytes" where
  "encode_FileDownload m =
    (let b = []; b = write_blob b (fd_file_id m); b = write_blob b (fd_token m); b = write_u32 b (fd_from_chunk m) in b)"

definition encode_FileInfo :: "FileInfo \<Rightarrow> bytes" where
  "encode_FileInfo m =
    (let b = []; b = write_u64 b (fi_total_size m); b = write_u32 b (fi_chunk_size m);
         b = write_u32 b (fi_chunk_count m); b = write_u64 b (fi_expires_at m) in b)"

definition encode_FileRedeem :: "FileRedeem \<Rightarrow> bytes" where
  "encode_FileRedeem m = (let b = []; b = write_blob b (fr_file_id m); b = write_blob b (fr_token m) in b)"

definition encode_FileRef :: "FileRef \<Rightarrow> bytes" where
  "encode_FileRef m = (let b = []; b = write_blob b (ff_file_id m) in b)"

definition encode_FileStatus :: "FileStatus \<Rightarrow> bytes" where
  "encode_FileStatus m =
    (let b = []; b = write_u32 b (fs_tokens_total m); b = write_u32 b (fs_tokens_redeemed m);
         b = write_u64 b (fs_expires_at m); b = write_u32 b (if fs_ready m then 1 else 0) in b)"

definition decode_file_begin :: "bytes \<Rightarrow> FileBegin option" where
  "decode_file_begin inp =
    do { (i, off) \<leftarrow> fixed_blob FILE_ID_BYTES inp 0;
         (total, off) \<leftarrow> read_u64 inp off;
         (chunk_size, off) \<leftarrow> read_u32 inp off;
         (count, off) \<leftarrow> read_u32 inp off;
         (expires, off) \<leftarrow> read_u64 inp off;
         (tokens, off) \<leftarrow> read_u32 inp off;
         if total < 1 \<or> total > MAX_FILE_BYTES \<or> chunk_size < 1 \<or> unat chunk_size > MAX_FILE_CHUNK_BYTES then None
         else if ucast count \<noteq> (total + ucast chunk_size - 1) div ucast chunk_size then None
         else if unat chunk_size < MIN_FILE_CHUNK_BYTES \<and> count \<noteq> 1 then None
         else if tokens < 1 \<or> unat tokens > MAX_FILE_TOKENS then None
         else do { (hs, off) \<leftarrow> read_loop (fixed_blob HASH_BYTES) (\<lambda>acc h. h \<notin> set acc) (unat tokens) inp off [];
                   if \<not> at_end inp off then None
                   else Some \<lparr> fb_file_id = i, fb_total_size = total, fb_chunk_size = chunk_size,
                               fb_chunk_count = count, fb_expires_at = expires, fb_token_hashes = hs \<rparr> } }"

definition decode_file_chunk :: "bytes \<Rightarrow> RelayFileChunk option" where
  "decode_file_chunk inp =
    do { (index, off) \<leftarrow> read_u32 inp 0;
         (data, off) \<leftarrow> read_blob MAX_FILE_CHUNK_BYTES inp off;
         if data = [] \<or> \<not> at_end inp off then None else Some \<lparr> fc_index = index, fc_data = data \<rparr> }"

definition decode_file_download :: "bytes \<Rightarrow> FileDownload option" where
  "decode_file_download inp =
    do { (i, off) \<leftarrow> fixed_blob FILE_ID_BYTES inp 0;
         (token, off) \<leftarrow> fixed_blob FILE_TOKEN_BYTES inp off;
         (from_chunk, off) \<leftarrow> read_u32 inp off;
         if \<not> at_end inp off then None
         else Some \<lparr> fd_file_id = i, fd_token = token, fd_from_chunk = from_chunk \<rparr> }"

definition decode_file_info :: "bytes \<Rightarrow> FileInfo option" where
  "decode_file_info inp =
    do { (total, off) \<leftarrow> read_u64 inp 0;
         (chunk_size, off) \<leftarrow> read_u32 inp off;
         (count, off) \<leftarrow> read_u32 inp off;
         (expires, off) \<leftarrow> read_u64 inp off;
         if \<not> at_end inp off then None
         else if total < 1 \<or> total > MAX_FILE_BYTES \<or> chunk_size < 1 \<or> unat chunk_size > MAX_FILE_CHUNK_BYTES \<or>
                 ucast count \<noteq> (total + ucast chunk_size - 1) div ucast chunk_size then None
         else Some \<lparr> fi_total_size = total, fi_chunk_size = chunk_size, fi_chunk_count = count, fi_expires_at = expires \<rparr> }"

definition decode_file_redeem :: "bytes \<Rightarrow> FileRedeem option" where
  "decode_file_redeem inp =
    do { (i, off) \<leftarrow> fixed_blob FILE_ID_BYTES inp 0;
         (token, off) \<leftarrow> fixed_blob FILE_TOKEN_BYTES inp off;
         if \<not> at_end inp off then None else Some \<lparr> fr_file_id = i, fr_token = token \<rparr> }"

definition decode_file_ref :: "bytes \<Rightarrow> FileRef option" where
  "decode_file_ref inp =
    do { (i, off) \<leftarrow> fixed_blob FILE_ID_BYTES inp 0;
         if \<not> at_end inp off then None else Some \<lparr> ff_file_id = i \<rparr> }"

definition decode_file_status :: "bytes \<Rightarrow> FileStatus option" where
  "decode_file_status inp =
    do { (total, off) \<leftarrow> read_u32 inp 0;
         (redeemed, off) \<leftarrow> read_u32 inp off;
         (expires, off) \<leftarrow> read_u64 inp off;
         (ready, off) \<leftarrow> read_u32 inp off;
         if ready > 1 \<or> redeemed > total \<or> unat total > MAX_FILE_TOKENS \<or> \<not> at_end inp off then None
         else Some \<lparr> fs_tokens_total = total, fs_tokens_redeemed = redeemed, fs_expires_at = expires, fs_ready = (ready = 1) \<rparr> }"

text \<open>The header's contract on a file's numbers, in unbounded arithmetic.\<close>

definition file_numbers_fit :: "u64 \<Rightarrow> u32 \<Rightarrow> u32 \<Rightarrow> bool" where
  "file_numbers_fit total_size chunk_size count \<longleftrightarrow>
     1 \<le> unat total_size \<and> unat total_size \<le> unat MAX_FILE_BYTES \<and>
     1 \<le> unat chunk_size \<and> unat chunk_size \<le> MAX_FILE_CHUNK_BYTES \<and>
     unat count = (unat total_size + unat chunk_size - 1) div unat chunk_size"

definition wf_FileBegin :: "FileBegin \<Rightarrow> bool" where
  "wf_FileBegin m \<longleftrightarrow> length (fb_file_id m) = FILE_ID_BYTES \<and>
     file_numbers_fit (fb_total_size m) (fb_chunk_size m) (fb_chunk_count m) \<and>
     (unat (fb_chunk_size m) < MIN_FILE_CHUNK_BYTES \<longrightarrow> fb_chunk_count m = 1) \<and>
     fb_token_hashes m \<noteq> [] \<and> length (fb_token_hashes m) \<le> MAX_FILE_TOKENS \<and>
     (\<forall>h\<in>set (fb_token_hashes m). length h = HASH_BYTES) \<and> distinct (fb_token_hashes m)"

definition wf_FileChunk :: "RelayFileChunk \<Rightarrow> bool" where
  "wf_FileChunk m \<longleftrightarrow> fc_data m \<noteq> [] \<and> length (fc_data m) \<le> MAX_FILE_CHUNK_BYTES"

definition wf_FileDownload :: "FileDownload \<Rightarrow> bool" where
  "wf_FileDownload m \<longleftrightarrow> length (fd_file_id m) = FILE_ID_BYTES \<and> length (fd_token m) = FILE_TOKEN_BYTES"

definition wf_FileInfo :: "FileInfo \<Rightarrow> bool" where
  "wf_FileInfo m \<longleftrightarrow> file_numbers_fit (fi_total_size m) (fi_chunk_size m) (fi_chunk_count m)"

definition wf_FileRedeem :: "FileRedeem \<Rightarrow> bool" where
  "wf_FileRedeem m \<longleftrightarrow> length (fr_file_id m) = FILE_ID_BYTES \<and> length (fr_token m) = FILE_TOKEN_BYTES"

definition wf_FileRef :: "FileRef \<Rightarrow> bool" where
  "wf_FileRef m \<longleftrightarrow> length (ff_file_id m) = FILE_ID_BYTES"

definition wf_FileStatus :: "FileStatus \<Rightarrow> bool" where
  "wf_FileStatus m \<longleftrightarrow> fs_tokens_redeemed m \<le> fs_tokens_total m \<and> unat (fs_tokens_total m) \<le> MAX_FILE_TOKENS"

lemmas prekey_codec_defs = encode_PrekeyPut_def encode_PrekeyTake_def encode_PrekeyData_def encode_PrekeyStatus_def
  decode_prekey_put_def decode_prekey_take_def decode_prekey_data_def decode_prekey_status_def
  wf_PrekeyPut_def wf_PrekeyTake_def wf_PrekeyData_def wf_PrekeyStatus_def

lemmas file_codec_defs = encode_FileBegin_def encode_FileChunk_def encode_FileDownload_def encode_FileInfo_def
  encode_FileRedeem_def encode_FileRef_def encode_FileStatus_def decode_file_begin_def decode_file_chunk_def
  decode_file_download_def decode_file_info_def decode_file_redeem_def decode_file_ref_def decode_file_status_def
  wf_FileBegin_def wf_FileChunk_def wf_FileDownload_def wf_FileInfo_def wf_FileRedeem_def wf_FileRef_def wf_FileStatus_def

interpretation prekey_entry_item: cursor_item read_prekey_entry write_prekey_entry
  "\<lambda>p. length (pe_id p) = PREKEY_ID_BYTES \<and> pe_blob p \<noteq> [] \<and> length (pe_blob p) \<le> MAX_PREKEY_BYTES"
proof
  show "prefix b (write_prekey_entry b v)" for b v
    by (simp add: write_prekey_entry_def prefix_intro)
  show "prefix b inp \<Longrightarrow> read_prekey_entry inp (length b) = Some (v, off) \<longleftrightarrow>
      (length (pe_id v) = PREKEY_ID_BYTES \<and> pe_blob v \<noteq> [] \<and> length (pe_blob v) \<le> MAX_PREKEY_BYTES) \<and>
      off = length (write_prekey_entry b v) \<and> prefix (write_prekey_entry b v) inp" for b inp v off
    by (cases v) (simp add: read_prekey_entry_def write_prekey_entry_def codec_simps cong: conj_cong,
      auto elim: prefix_order.trans [rotated] simp: prefix_intro)
qed

lemma prefix_foldl_prekeys [prefix_intro]: "prefix a b \<Longrightarrow> prefix a (foldl write_prekey_entry b ps)"
  by (auto intro: prefix_foldl_write prekey_entry_item.wr_extends)

lemma decode_prekey_put_iff: "decode_prekey_put inp = Some m \<longleftrightarrow> wf_PrekeyPut m \<and> inp = encode_PrekeyPut m"
  by (cases m) (simp add: prekey_codec_defs codec_simps checked_from_conj prekey_entry_item.loop_Nil_iff
      cong: conj_cong, auto simp: prefix_intro intro: exI [of _ "0 :: u32"])

lemma decode_prekey_take_iff: "decode_prekey_take inp = Some m \<longleftrightarrow> wf_PrekeyTake m \<and> inp = encode_PrekeyTake m"
  by (cases m) (simp add: prekey_codec_defs codec_simps checked_from_conj prekey_entry_item.loop_Nil_iff
      cong: conj_cong, auto simp: prefix_intro)

lemma decode_prekey_data_iff: "decode_prekey_data inp = Some m \<longleftrightarrow> wf_PrekeyData m \<and> inp = encode_PrekeyData m"
  by (cases m) (simp add: prekey_codec_defs codec_simps checked_from_conj prekey_entry_item.loop_Nil_iff
      cong: conj_cong, auto simp: prefix_intro)

lemma decode_prekey_status_iff: "decode_prekey_status inp = Some m \<longleftrightarrow> wf_PrekeyStatus m \<and> inp = encode_PrekeyStatus m"
  by (cases m) (simp add: prekey_codec_defs codec_simps checked_from_conj prekey_entry_item.loop_Nil_iff
      cong: conj_cong, auto simp: prefix_intro)

lemma decode_file_chunk_iff: "decode_file_chunk inp = Some m \<longleftrightarrow> wf_FileChunk m \<and> inp = encode_FileChunk m"
  by (cases m) (simp add: file_codec_defs codec_simps 
      cong: conj_cong, auto simp: prefix_intro)

lemma decode_file_download_iff: "decode_file_download inp = Some m \<longleftrightarrow> wf_FileDownload m \<and> inp = encode_FileDownload m"
  by (cases m) (simp add: file_codec_defs codec_simps 
      cong: conj_cong, auto simp: prefix_intro)

lemma decode_file_redeem_iff: "decode_file_redeem inp = Some m \<longleftrightarrow> wf_FileRedeem m \<and> inp = encode_FileRedeem m"
  by (cases m) (simp add: file_codec_defs codec_simps 
      cong: conj_cong, auto simp: prefix_intro)

lemma decode_file_ref_iff: "decode_file_ref inp = Some m \<longleftrightarrow> wf_FileRef m \<and> inp = encode_FileRef m"
  by (cases m) (simp add: file_codec_defs codec_simps 
      cong: conj_cong, auto simp: prefix_intro)

lemma decode_file_status_iff: "decode_file_status inp = Some m \<longleftrightarrow> wf_FileStatus m \<and> inp = encode_FileStatus m"
  by (cases m) (simp add: file_codec_defs codec_simps 
      cong: conj_cong, auto simp: prefix_intro)

lemma file_numbers_guard:
  "file_numbers_fit t c n \<longleftrightarrow>
    \<not> (t < 1 \<or> t > MAX_FILE_BYTES \<or> c < 1 \<or> unat c > MAX_FILE_CHUNK_BYTES) \<and>
    ucast n = (t + ucast c - 1) div (ucast c :: u64)"
  using unat_round_up_u64 [of t "ucast c"]
  by (auto simp: file_numbers_fit_def word_le_nat_alt word_less_nat_alt word_unat_eq_iff not_less)

lemma decode_file_begin_iff: "decode_file_begin inp = Some m \<longleftrightarrow> wf_FileBegin m \<and> inp = encode_FileBegin m"
  by (cases m) (simp add: decode_file_begin_def encode_FileBegin_def wf_FileBegin_def file_numbers_guard codec_simps
      if_None_eq_Some split del: if_split cong: conj_cong, auto simp: prefix_intro not_le not_less)

lemma decode_file_info_iff: "decode_file_info inp = Some m \<longleftrightarrow> wf_FileInfo m \<and> inp = encode_FileInfo m"
  by (cases m) (simp add: decode_file_info_def encode_FileInfo_def wf_FileInfo_def file_numbers_guard codec_simps
      if_None_eq_Some split del: if_split cong: conj_cong, auto simp: prefix_intro not_le not_less)

lemma keyring_guard:
  assumes "t \<noteq> 0" "t \<le> MAX_KEYRING_BYTES"
  shows "unat (ucast ((ucast (t :: u32) + word_of_nat KEYRING_CHUNK_BYTES - 1 :: u64)
      div word_of_nat KEYRING_CHUNK_BYTES) :: u32) = (unat t + KEYRING_CHUNK_BYTES - 1) div KEYRING_CHUNK_BYTES"
proof -
  have le: "unat t \<le> unat MAX_KEYRING_BYTES" using assms by (simp add: word_le_nat_alt)
  have "unat ((ucast t + word_of_nat KEYRING_CHUNK_BYTES - 1 :: u64) div word_of_nat KEYRING_CHUNK_BYTES)
      = (unat t + KEYRING_CHUNK_BYTES - 1) div KEYRING_CHUNK_BYTES" (is "unat ?q = ?r")
    using le assms unat_round_up_u64 [of "ucast t" "word_of_nat KEYRING_CHUNK_BYTES"]
    by (simp add: word_less_nat_alt unat_gt_0)
  moreover have "?r < 2 ^ 32" using le by simp
  ultimately show ?thesis by (simp add: unsigned_ucast_eq take_bit_eq_mod)
qed

lemma keyring_last_size:
  assumes "n \<noteq> 0" "KEYRING_CHUNK_BYTES * (unat n - 1) \<le> unat t" "len \<le> KEYRING_CHUNK_BYTES"
  shows "(word_of_nat len :: u64) = ucast (t :: u32) - word_of_nat KEYRING_CHUNK_BYTES * ucast (n - 1 :: u32) \<longleftrightarrow>
    len = unat t - KEYRING_CHUNK_BYTES * (unat n - 1)"
proof -
  have n1: "unat (n - 1) = unat n - 1" using assms by (simp add: unat_minus_one)
  have "unat t < 2 ^ 32" using unsigned_less [of t] by simp
  with assms have "KEYRING_CHUNK_BYTES * (unat n - 1) < 2 ^ 64" by simp
  then have "unat (word_of_nat KEYRING_CHUNK_BYTES * ucast (n - 1) :: u64) = KEYRING_CHUNK_BYTES * (unat n - 1)"
    by (subst unat_mult_lem [THEN iffD1]) (auto simp: n1)
  with assms have "unat (ucast t - word_of_nat KEYRING_CHUNK_BYTES * ucast (n - 1) :: u64) =
      unat t - KEYRING_CHUNK_BYTES * (unat n - 1)"
    by (subst unat_sub) (auto simp: word_le_nat_alt)
  moreover have "unat (word_of_nat len :: u64) = len" using assms by (simp add: unat_of_nat)
  ultimately show ?thesis by (metis word_unat_eq_iff)
qed

lemma keyring_full_size:
  assumes "len \<le> KEYRING_CHUNK_BYTES"
  shows "(word_of_nat len :: u64) = word_of_nat KEYRING_CHUNK_BYTES \<longleftrightarrow> len = KEYRING_CHUNK_BYTES"
  using assms by (simp add: word_unat_eq_iff unat_of_nat)

lemma keyring_chunk_guard:
  assumes "t \<noteq> 0" "t \<le> MAX_KEYRING_BYTES" "len \<le> KEYRING_CHUNK_BYTES"
  shows "n = ucast ((ucast t + word_of_nat KEYRING_CHUNK_BYTES - 1 :: u64) div word_of_nat KEYRING_CHUNK_BYTES) \<and> i < n \<and>
      word_of_nat len = (if i + 1 < n then word_of_nat KEYRING_CHUNK_BYTES
        else ucast t - word_of_nat KEYRING_CHUNK_BYTES * ucast (n - 1) :: u64) \<longleftrightarrow>
    unat n = (unat t + KEYRING_CHUNK_BYTES - 1) div KEYRING_CHUNK_BYTES \<and> unat i < unat (n :: u32) \<and>
      len = (if unat i + 1 < unat n then KEYRING_CHUNK_BYTES else unat t - KEYRING_CHUNK_BYTES * (unat n - 1))"
    (is "n = ?q \<and> _ \<and> ?size \<longleftrightarrow> unat n = ?r \<and> _ \<and> ?size'")
proof (intro conj_cong)
  show "n = ?q \<longleftrightarrow> unat n = ?r"
    using keyring_guard [OF assms(1,2)] by (simp only: word_unat_eq_iff)
  show "i < n \<longleftrightarrow> unat i < unat n" by (simp only: word_less_nat_alt)
  assume n: "unat n = ?r" and i: "unat i < unat n"
  have "unat n < 2 ^ LENGTH(32)" by (rule unsigned_less)
  then have i1: "i + 1 < n \<longleftrightarrow> unat i + 1 < unat n"
    using i by (simp only: word_less_nat_alt) (subst unat_add_lem [THEN iffD1], auto)
  have "KEYRING_CHUNK_BYTES * (unat n - 1) \<le> unat t" "n \<noteq> 0"
    using n i by auto
  from keyring_last_size [OF this(2,1) assms(3)] keyring_full_size [OF assms(3)]
  show "?size \<longleftrightarrow> ?size'" by (simp only: i1 split: if_split) blast
qed

lemma if_stop: "(if P then False else Q) \<longleftrightarrow> \<not> P \<and> Q"
  by simp

lemma wf_KeyringChunk_guard:
  "wf_KeyringChunk c \<longleftrightarrow> length (kc_data c) \<le> KEYRING_CHUNK_BYTES \<and> keyring_chunk_ok c"
proof -
  consider "kc_total_size c = 0" | "kc_total_size c \<noteq> 0" "\<not> kc_total_size c \<le> MAX_KEYRING_BYTES"
    | "\<not> length (kc_data c) \<le> KEYRING_CHUNK_BYTES"
    | "kc_total_size c \<noteq> 0" "kc_total_size c \<le> MAX_KEYRING_BYTES" "length (kc_data c) \<le> KEYRING_CHUNK_BYTES"
    by blast
  then show ?thesis
  proof cases
    case 1
    then show ?thesis by (auto simp: wf_KeyringChunk_def keyring_chunk_ok_def unat_eq_zero)
  next
    case 2
    then show ?thesis
      by (simp only: wf_KeyringChunk_def keyring_chunk_ok_def Let_def unat_eq_zero if_False if_True simp_thms not_le
          flip: word_le_nat_alt) (blast dest: leD)
  next
    case 3
    then have "\<not> wf_KeyringChunk c" by (auto simp: wf_KeyringChunk_def Let_def split: if_splits)
    with 3 show ?thesis by blast
  next
    case 4
    with keyring_chunk_guard [of "kc_total_size c" "length (kc_data c)" "kc_count c" "kc_index c"] show ?thesis
      by (simp only: wf_KeyringChunk_def keyring_chunk_ok_def Let_def unat_eq_zero if_False simp_thms if_stop
          not_less not_le de_Morgan_disj conj_assoc flip: word_le_nat_alt)
  qed
qed

lemma decode_keyring_chunk_iff:
  "decode_keyring_chunk inp = Some m \<longleftrightarrow> wf_KeyringChunk m \<and> inp = encode_KeyringChunk m"
  by (cases m) (simp add: decode_keyring_chunk_def encode_KeyringChunk_def wf_KeyringChunk_guard codec_simps
      if_None_eq_Some if_eq_Some Let_def split del: if_split cong: conj_cong, auto simp: prefix_intro split: if_splits)

subsection \<open>Every message is a codec\<close>

interpretation hello_codec: message_codec encode_Hello decode_hello wf_Hello
  by unfold_locales (rule decode_hello_iff)

interpretation hello_reply_codec: message_codec encode_HelloReply decode_hello_reply wf_HelloReply
  by unfold_locales (rule decode_hello_reply_iff)

interpretation register_codec: message_codec encode_Register decode_register wf_Register
  by unfold_locales (rule decode_register_iff)

interpretation auth_codec: message_codec encode_Auth decode_auth wf_Auth
  by unfold_locales (rule decode_auth_iff)

interpretation deposit_codec: message_codec encode_Deposit decode_deposit wf_Deposit
  by unfold_locales (rule decode_deposit_iff)

interpretation stored_envelope_codec: message_codec encode_StoredEnvelope decode_stored_envelope wf_StoredEnvelope
  by unfold_locales (rule decode_stored_envelope_iff)

interpretation id_list_codec: message_codec encode_IdList decode_id_list wf_IdList
  by unfold_locales (rule decode_id_list_iff)

interpretation hash_op_codec: message_codec encode_HashOp decode_hash_op wf_HashOp
  by unfold_locales (rule decode_hash_op_iff)

interpretation invite_status_codec: message_codec encode_InviteStatus decode_invite_status wf_InviteStatus
  by unfold_locales (rule decode_invite_status_iff)

interpretation archive_create_codec: message_codec encode_ArchiveCreate decode_archive_create wf_ArchiveCreate
  by unfold_locales (rule decode_archive_create_iff)

interpretation archive_join_codec: message_codec encode_ArchiveJoin decode_archive_join wf_ArchiveJoin
  by unfold_locales (rule decode_archive_join_iff)

interpretation archive_auth_codec: message_codec encode_ArchiveAuth decode_archive_auth wf_ArchiveAuth
  by unfold_locales (rule decode_archive_auth_iff)

interpretation archive_append_codec: message_codec encode_ArchiveAppend decode_archive_append wf_ArchiveAppend
  by unfold_locales (rule decode_archive_append_iff)

interpretation archive_head_codec: message_codec encode_ArchiveHead decode_archive_head wf_ArchiveHead
  by unfold_locales (rule decode_archive_head_iff)

interpretation archive_fetch_codec: message_codec encode_ArchiveFetch decode_archive_fetch wf_ArchiveFetch
  by unfold_locales (rule decode_archive_fetch_iff)

interpretation archive_entry_codec: message_codec encode_ArchiveEntry decode_archive_entry wf_ArchiveEntry
  by unfold_locales (rule decode_archive_entry_iff)

interpretation archive_delete_codec: message_codec encode_ArchiveDelete decode_archive_delete wf_ArchiveDelete
  by unfold_locales (rule decode_archive_delete_iff)

interpretation prekey_put_codec: message_codec encode_PrekeyPut decode_prekey_put wf_PrekeyPut
  by unfold_locales (rule decode_prekey_put_iff)

interpretation prekey_take_codec: message_codec encode_PrekeyTake decode_prekey_take wf_PrekeyTake
  by unfold_locales (rule decode_prekey_take_iff)

interpretation prekey_data_codec: message_codec encode_PrekeyData decode_prekey_data wf_PrekeyData
  by unfold_locales (rule decode_prekey_data_iff)

interpretation prekey_status_codec: message_codec encode_PrekeyStatus decode_prekey_status wf_PrekeyStatus
  by unfold_locales (rule decode_prekey_status_iff)

interpretation file_chunk_codec: message_codec encode_FileChunk decode_file_chunk wf_FileChunk
  by unfold_locales (rule decode_file_chunk_iff)

interpretation file_download_codec: message_codec encode_FileDownload decode_file_download wf_FileDownload
  by unfold_locales (rule decode_file_download_iff)

interpretation file_redeem_codec: message_codec encode_FileRedeem decode_file_redeem wf_FileRedeem
  by unfold_locales (rule decode_file_redeem_iff)

interpretation file_ref_codec: message_codec encode_FileRef decode_file_ref wf_FileRef
  by unfold_locales (rule decode_file_ref_iff)

interpretation file_status_codec: message_codec encode_FileStatus decode_file_status wf_FileStatus
  by unfold_locales (rule decode_file_status_iff)

interpretation file_begin_codec: message_codec encode_FileBegin decode_file_begin wf_FileBegin
  by unfold_locales (rule decode_file_begin_iff)

interpretation file_info_codec: message_codec encode_FileInfo decode_file_info wf_FileInfo
  by unfold_locales (rule decode_file_info_iff)

interpretation keyring_chunk_codec: message_codec encode_KeyringChunk decode_keyring_chunk wf_KeyringChunk
  by unfold_locales (rule decode_keyring_chunk_iff)

subsection \<open>The messages are canonical\<close>

text \<open>
  C15: the session and mailbox messages.  A payload decodes to a message exactly when the message
  keeps the limits of the header and the payload is the message's encoding: encoding then decoding is the identity,
  nothing malformed, truncated, over-long or with trailing bytes is accepted, and no message has two encodings.
\<close>

theorem session_messages_canonical:
  "(decode_hello inp = Some m1 \<longleftrightarrow> wf_Hello m1 \<and> inp = encode_Hello m1) \<and>
   (decode_hello_reply inp = Some m2 \<longleftrightarrow> wf_HelloReply m2 \<and> inp = encode_HelloReply m2) \<and>
   (decode_register inp = Some m3 \<longleftrightarrow> wf_Register m3 \<and> inp = encode_Register m3) \<and>
   (decode_auth inp = Some m4 \<longleftrightarrow> wf_Auth m4 \<and> inp = encode_Auth m4) \<and>
   (decode_deposit inp = Some m5 \<longleftrightarrow> wf_Deposit m5 \<and> inp = encode_Deposit m5) \<and>
   (decode_stored_envelope inp = Some m6 \<longleftrightarrow> wf_StoredEnvelope m6 \<and> inp = encode_StoredEnvelope m6) \<and>
   (decode_id_list inp = Some m7 \<longleftrightarrow> wf_IdList m7 \<and> inp = encode_IdList m7) \<and>
   (decode_hash_op inp = Some m8 \<longleftrightarrow> wf_HashOp m8 \<and> inp = encode_HashOp m8) \<and>
   (decode_invite_status inp = Some m9 \<longleftrightarrow> wf_InviteStatus m9 \<and> inp = encode_InviteStatus m9)"
  by (simp add: hello_codec.dec_iff hello_reply_codec.dec_iff register_codec.dec_iff auth_codec.dec_iff deposit_codec.dec_iff stored_envelope_codec.dec_iff id_list_codec.dec_iff hash_op_codec.dec_iff invite_status_codec.dec_iff)

text \<open>
  C39: the same for the messages of the chat archives, the prekeys, the keyring and the attachments.
  The consistency tests of a keyring chunk and of a file's chunk count, computed at 32 and 64 bits, are the
  contracts stated in unbounded arithmetic.
\<close>

theorem storage_messages_canonical:
  "(decode_archive_create inp = Some m1 \<longleftrightarrow> wf_ArchiveCreate m1 \<and> inp = encode_ArchiveCreate m1) \<and>
   (decode_archive_join inp = Some m2 \<longleftrightarrow> wf_ArchiveJoin m2 \<and> inp = encode_ArchiveJoin m2) \<and>
   (decode_archive_auth inp = Some m3 \<longleftrightarrow> wf_ArchiveAuth m3 \<and> inp = encode_ArchiveAuth m3) \<and>
   (decode_archive_append inp = Some m4 \<longleftrightarrow> wf_ArchiveAppend m4 \<and> inp = encode_ArchiveAppend m4) \<and>
   (decode_archive_head inp = Some m5 \<longleftrightarrow> wf_ArchiveHead m5 \<and> inp = encode_ArchiveHead m5) \<and>
   (decode_archive_fetch inp = Some m6 \<longleftrightarrow> wf_ArchiveFetch m6 \<and> inp = encode_ArchiveFetch m6) \<and>
   (decode_archive_entry inp = Some m7 \<longleftrightarrow> wf_ArchiveEntry m7 \<and> inp = encode_ArchiveEntry m7) \<and>
   (decode_archive_delete inp = Some m8 \<longleftrightarrow> wf_ArchiveDelete m8 \<and> inp = encode_ArchiveDelete m8) \<and>
   (decode_prekey_put inp = Some m9 \<longleftrightarrow> wf_PrekeyPut m9 \<and> inp = encode_PrekeyPut m9) \<and>
   (decode_prekey_take inp = Some m10 \<longleftrightarrow> wf_PrekeyTake m10 \<and> inp = encode_PrekeyTake m10) \<and>
   (decode_prekey_data inp = Some m11 \<longleftrightarrow> wf_PrekeyData m11 \<and> inp = encode_PrekeyData m11) \<and>
   (decode_prekey_status inp = Some m12 \<longleftrightarrow> wf_PrekeyStatus m12 \<and> inp = encode_PrekeyStatus m12) \<and>
   (decode_keyring_chunk inp = Some m13 \<longleftrightarrow> wf_KeyringChunk m13 \<and> inp = encode_KeyringChunk m13) \<and>
   (decode_file_begin inp = Some m14 \<longleftrightarrow> wf_FileBegin m14 \<and> inp = encode_FileBegin m14) \<and>
   (decode_file_chunk inp = Some m15 \<longleftrightarrow> wf_FileChunk m15 \<and> inp = encode_FileChunk m15) \<and>
   (decode_file_download inp = Some m16 \<longleftrightarrow> wf_FileDownload m16 \<and> inp = encode_FileDownload m16) \<and>
   (decode_file_info inp = Some m17 \<longleftrightarrow> wf_FileInfo m17 \<and> inp = encode_FileInfo m17) \<and>
   (decode_file_redeem inp = Some m18 \<longleftrightarrow> wf_FileRedeem m18 \<and> inp = encode_FileRedeem m18) \<and>
   (decode_file_ref inp = Some m19 \<longleftrightarrow> wf_FileRef m19 \<and> inp = encode_FileRef m19) \<and>
   (decode_file_status inp = Some m20 \<longleftrightarrow> wf_FileStatus m20 \<and> inp = encode_FileStatus m20)"
  by (simp add: archive_create_codec.dec_iff archive_join_codec.dec_iff archive_auth_codec.dec_iff archive_append_codec.dec_iff
      archive_head_codec.dec_iff archive_fetch_codec.dec_iff archive_entry_codec.dec_iff archive_delete_codec.dec_iff
      prekey_put_codec.dec_iff prekey_take_codec.dec_iff prekey_data_codec.dec_iff prekey_status_codec.dec_iff
      keyring_chunk_codec.dec_iff file_begin_codec.dec_iff file_chunk_codec.dec_iff file_download_codec.dec_iff
      file_info_codec.dec_iff file_redeem_codec.dec_iff file_ref_codec.dec_iff file_status_codec.dec_iff)

end
