(* ===== verification/Signing_Inputs.thy ===== *)
theory Signing_Inputs
  imports Wire
begin

text \<open>
  The byte strings that are signed or hashed (\<^verbatim>\<open>src/protocol/relay_protocol.cpp\<close>, signing inputs).
  Each starts with a label of its own and then writes its fields with a length prefix, so
  that a signature over one statement is never one over another.  \<^verbatim>\<open>statement\<close> collects the
  eight functions, and the last lemma of the theory shows that no two of their values agree
  unless function and arguments do.
\<close>

abbreviation (input) "HELLO_LABEL \<equiv> ''pq-suite v3 relay hello''"
abbreviation (input) "REGISTER_LABEL \<equiv> ''pq-suite v3 relay register''"
abbreviation (input) "AUTH_LABEL \<equiv> ''pq-suite v3 relay auth''"
abbreviation (input) "ARCHIVE_JOIN_LABEL \<equiv> ''pq-suite v3 archive join''"
abbreviation (input) "ARCHIVE_AUTH_LABEL \<equiv> ''pq-suite v3 archive auth''"
abbreviation (input) "ARCHIVE_GENESIS_LABEL \<equiv> ''pq-suite v3 archive genesis''"
abbreviation (input) "ARCHIVE_ENTRY_LABEL \<equiv> ''pq-suite v3 archive entry''"
abbreviation (input) "ARCHIVE_DELETE_LABEL \<equiv> ''pq-suite v3 archive delete''"

definition hello_signing_input :: "bytes \<Rightarrow> bytes \<Rightarrow> u32 \<Rightarrow> bytes \<Rightarrow> bytes" where
  "hello_signing_input client_nonce relay_id version auth_challenge =
    (let b = []; b = write_string b HELLO_LABEL; b = write_blob b relay_id; b = write_u32 b version;
         b = write_blob b client_nonce; b = write_blob b auth_challenge in b)"

definition register_signing_input :: "bytes \<Rightarrow> bytes \<Rightarrow> bytes \<Rightarrow> bytes \<Rightarrow> bytes" where
  "register_signing_input relay_id mailbox_id access_public_key send_token_hash =
    (let b = []; b = write_string b REGISTER_LABEL; b = write_blob b relay_id; b = write_blob b mailbox_id;
         b = write_blob b access_public_key; b = write_blob b send_token_hash in b)"

definition archive_join_signing_input :: "bytes \<Rightarrow> bytes \<Rightarrow> bytes \<Rightarrow> bytes \<Rightarrow> bytes" where
  "archive_join_signing_input relay_id archive_id public_key join_token_hash =
    (let b = []; b = write_string b ARCHIVE_JOIN_LABEL; b = write_blob b relay_id; b = write_blob b archive_id;
         b = write_blob b public_key; b = write_blob b join_token_hash in b)"

definition archive_auth_signing_input :: "bytes \<Rightarrow> bytes \<Rightarrow> bytes \<Rightarrow> bytes \<Rightarrow> bytes" where
  "archive_auth_signing_input auth_challenge relay_id archive_id key_hash =
    (let b = []; b = write_string b ARCHIVE_AUTH_LABEL; b = write_blob b relay_id; b = write_blob b archive_id;
         b = write_blob b key_hash; b = write_blob b auth_challenge in b)"

definition archive_delete_signing_input ::
    "bytes \<Rightarrow> bytes \<Rightarrow> u32 \<Rightarrow> bytes \<Rightarrow> u64 \<Rightarrow> bytes list \<Rightarrow> bytes" where
  "archive_delete_signing_input relay_id archive_id scope op_id expires_at entry_hashes =
    (let b = []; b = write_string b ARCHIVE_DELETE_LABEL; b = write_blob b relay_id; b = write_blob b archive_id;
         b = write_u32 b scope; b = write_blob b op_id; b = write_u64 b expires_at;
         b = write_u32 b (word_of_nat (length entry_hashes)); b = foldl write_blob b entry_hashes in b)"

definition archive_genesis_input :: "bytes \<Rightarrow> bytes" where
  "archive_genesis_input archive_id =
    (let b = []; b = write_string b ARCHIVE_GENESIS_LABEL; b = write_blob b archive_id in b)"

definition archive_entry_hash_input :: "bytes \<Rightarrow> u64 \<Rightarrow> bytes \<Rightarrow> bytes \<Rightarrow> bytes" where
  "archive_entry_hash_input archive_id number previous_hash ciphertext =
    (let b = []; b = write_string b ARCHIVE_ENTRY_LABEL; b = write_blob b archive_id; b = write_u64 b number;
         b = write_blob b previous_hash; b = write_blob b ciphertext in b)"

definition auth_signing_input :: "bytes \<Rightarrow> bytes \<Rightarrow> bytes \<Rightarrow> bytes" where
  "auth_signing_input auth_challenge relay_id mailbox_id =
    (let b = []; b = write_string b AUTH_LABEL; b = write_blob b relay_id; b = write_blob b mailbox_id;
         b = write_blob b auth_challenge in b)"

datatype statement =
    HelloStatement bytes bytes u32 bytes
  | RegisterStatement bytes bytes bytes bytes
  | AuthStatement bytes bytes bytes
  | ArchiveJoinStatement bytes bytes bytes bytes
  | ArchiveAuthStatement bytes bytes bytes bytes
  | ArchiveDeleteStatement bytes bytes u32 bytes u64 "bytes list"
  | ArchiveGenesisStatement bytes
  | ArchiveEntryStatement bytes u64 bytes bytes

fun statement_input :: "statement \<Rightarrow> bytes" where
  "statement_input (HelloStatement n r v c) = hello_signing_input n r v c"
| "statement_input (RegisterStatement r m k h) = register_signing_input r m k h"
| "statement_input (AuthStatement c r m) = auth_signing_input c r m"
| "statement_input (ArchiveJoinStatement r a k h) = archive_join_signing_input r a k h"
| "statement_input (ArchiveAuthStatement c r a h) = archive_auth_signing_input c r a h"
| "statement_input (ArchiveDeleteStatement r a s i x hs) = archive_delete_signing_input r a s i x hs"
| "statement_input (ArchiveGenesisStatement a) = archive_genesis_input a"
| "statement_input (ArchiveEntryStatement a n p c) = archive_entry_hash_input a n p c"

text \<open>Fields whose length fits the 32-bit length prefix.\<close>

abbreviation (input) prefixable :: "'a list \<Rightarrow> bool" where
  "prefixable x \<equiv> length x < 2 ^ 32"

fun statement_fits :: "statement \<Rightarrow> bool" where
  "statement_fits (HelloStatement n r v c) = (prefixable n \<and> prefixable r \<and> prefixable c)"
| "statement_fits (RegisterStatement r m k h) = (prefixable r \<and> prefixable m \<and> prefixable k \<and> prefixable h)"
| "statement_fits (AuthStatement c r m) = (prefixable c \<and> prefixable r \<and> prefixable m)"
| "statement_fits (ArchiveJoinStatement r a k h) = (prefixable r \<and> prefixable a \<and> prefixable k \<and> prefixable h)"
| "statement_fits (ArchiveAuthStatement c r a h) = (prefixable c \<and> prefixable r \<and> prefixable a \<and> prefixable h)"
| "statement_fits (ArchiveDeleteStatement r a s i x hs) =
     (prefixable r \<and> prefixable a \<and> prefixable i \<and> prefixable hs \<and> list_all (\<lambda>h. prefixable h) hs)"
| "statement_fits (ArchiveGenesisStatement a) = prefixable a"
| "statement_fits (ArchiveEntryStatement a n p c) = (prefixable a \<and> prefixable p \<and> prefixable c)"

lemmas signing_input_defs = hello_signing_input_def register_signing_input_def archive_join_signing_input_def
  archive_auth_signing_input_def archive_delete_signing_input_def archive_genesis_input_def
  archive_entry_hash_input_def auth_signing_input_def

lemma delete_list_cancel:
  assumes "length hs < 2 ^ 32" "length hs' < 2 ^ 32" "list_all (\<lambda>h. length h < 2 ^ 32) hs" "list_all (\<lambda>h. length h < 2 ^ 32) hs'"
  shows "(word_of_nat (length hs) :: u32) = word_of_nat (length hs') \<and>
    concat (map blob_field hs) = concat (map blob_field hs') \<longleftrightarrow> hs = hs'"
  using assms by (auto simp: word_of_length_inject blobs_cancel list_all_iff)

lemma statement_inject:
  "statement_fits s \<Longrightarrow> statement_fits t \<Longrightarrow> statement_input s = statement_input t \<longleftrightarrow> s = t"
  by (cases s; cases t)
    (simp_all add: signing_input_defs write_append field_cancel delete_list_cancel conj_ac)

text \<open>
  C16: domain separation.  The byte strings signed or hashed by the relay protocol determine the
  statement and every field of it, across all eight kinds: a signature made for one purpose, relay,
  mailbox, archive, challenge or deletion request never verifies as another.
\<close>

theorem signed_statements_distinct:
  assumes "statement_fits s" "statement_fits t"
  shows "statement_input s = statement_input t \<longleftrightarrow> s = t"
  by (rule statement_inject [OF assms])

theorem signed_statements_distinct_witness:
  "auth_signing_input [1] [2] [3] \<noteq> archive_genesis_input [1] \<and> auth_signing_input [1] [2] [3] \<noteq> auth_signing_input [1, 2] [] [3]"
  using signed_statements_distinct [of "AuthStatement [1] [2] [3]" "ArchiveGenesisStatement [1]"]
    signed_statements_distinct [of "AuthStatement [1] [2] [3]" "AuthStatement [1, 2] [] [3]"] by simp

end
