(* ===== verification/Relay_Db.thy ===== *)
theory Relay_Db
  imports Prelude "HOL-Library.List_Lexorder" "HOL-Library.Product_Lexorder"
begin

text \<open>
  The relay's SQLite database (the schema of \<^verbatim>\<open>src/server/relay_store.cpp\<close>) and the SQL the
  store uses.  A table is the list of its rows in insertion order, which is the order of
  \<^verbatim>\<open>rowid\<close>; a row is a record with the table's columns.  \<^verbatim>\<open>INTEGER\<close> columns are \<^typ>\<open>int\<close>,
  \<^verbatim>\<open>BLOB\<close> columns \<^typ>\<open>bytes\<close>, nullable ones \<^typ>\<open>bytes option\<close>.  \<^verbatim>\<open>pk\<close> and \<^verbatim>\<open>fk\<close> are the key
  constraints; an \<^verbatim>\<open>INSERT\<close> that breaks one raises, which is the value \<^term>\<open>None\<close> here, and a
  \<^verbatim>\<open>DELETE\<close> on a parent removes the children (\<^verbatim>\<open>ON DELETE CASCADE\<close>).
\<close>

section \<open>Rows and tables\<close>

record invite_row = iv_hash :: bytes iv_expires_at :: int iv_issued_by :: "bytes option"

record mailbox_row =
  mb_id :: bytes
  mb_access_public_key :: bytes
  mb_created_at :: int
  mb_invited_by :: "bytes option"

record token_row = tk_mailbox_id :: bytes tk_hash :: bytes tk_created_at :: int

record envelope_row =
  en_seq :: int
  en_id :: bytes
  en_mailbox_id :: bytes
  en_size :: int
  en_envelope :: bytes
  en_deposited_at :: int
  en_expires_at :: int
  en_token_hash :: "bytes option"

record pool_row = po_mailbox_id :: bytes po_generation :: bytes

record prekey_row =
  pk_mailbox_id :: bytes
  pk_id :: bytes
  pk_blob :: bytes
  pk_last_resort :: int
  pk_created_at :: int

record take_row = ta_token_hash :: bytes ta_hour :: int ta_count :: int

record file_row =
  fl_id :: bytes
  fl_owner :: bytes
  fl_total_size :: int
  fl_chunk_size :: int
  fl_chunk_count :: int
  fl_expires_at :: int
  fl_created_at :: int
  fl_ready :: int

record file_token_row = ft_file_id :: bytes ft_token_hash :: bytes ft_redeemed :: int

record keyring_row = kr_mailbox_id :: bytes kr_blob :: bytes kr_updated_at :: int

record archive_row =
  ar_id :: bytes
  ar_member_count :: int
  ar_created_at :: int
  ar_closes_at :: int
  ar_head_number :: int
  ar_head_hash :: bytes
  ar_bytes :: int
  ar_last_activity :: int

record join_token_row = jt_archive_id :: bytes jt_token_hash :: bytes

record archive_key_row = ak_archive_id :: bytes ak_key_hash :: bytes ak_public_key :: bytes ak_joined_at :: int

record archive_entry_row =
  an_archive_id :: bytes
  an_number :: int
  an_hash :: bytes
  an_ciphertext :: bytes
  an_appended_at :: int
  an_redacted :: int

text \<open>The database: its tables, and the last value \<^verbatim>\<open>AUTOINCREMENT\<close> gave to an envelope.\<close>

record relay_db =
  invites :: "invite_row list"
  mailboxes :: "mailbox_row list"
  tokens :: "token_row list"
  envelopes :: "envelope_row list"
  envelope_seq :: int
  prekey_pools :: "pool_row list"
  prekeys :: "prekey_row list"
  prekey_takes :: "take_row list"
  files :: "file_row list"
  file_tokens :: "file_token_row list"
  keyrings :: "keyring_row list"
  archives :: "archive_row list"
  archive_join_tokens :: "join_token_row list"
  archive_keys :: "archive_key_row list"
  archive_entries :: "archive_entry_row list"

definition empty_db :: relay_db where
  "empty_db = \<lparr> invites = [], mailboxes = [], tokens = [], envelopes = [], envelope_seq = 0, prekey_pools = [],
     prekeys = [], prekey_takes = [], files = [], file_tokens = [], keyrings = [], archives = [],
     archive_join_tokens = [], archive_keys = [], archive_entries = [] \<rparr>"

section \<open>Statements\<close>

text \<open>\<^verbatim>\<open>SELECT\<close> stepped once; \<^verbatim>\<open>SELECT COUNT(*)\<close>; \<^verbatim>\<open>SELECT COALESCE(SUM(c), 0)\<close>.\<close>

definition first_row :: "('r \<Rightarrow> bool) \<Rightarrow> 'r list \<Rightarrow> 'r option" where
  "first_row P t = find P t"

definition has_row :: "('r \<Rightarrow> bool) \<Rightarrow> 'r list \<Rightarrow> bool" where
  "has_row P t = list_ex P t"

definition count_rows :: "('r \<Rightarrow> bool) \<Rightarrow> 'r list \<Rightarrow> nat" where
  "count_rows P t = length (filter P t)"

definition sum_rows :: "('r \<Rightarrow> int) \<Rightarrow> ('r \<Rightarrow> bool) \<Rightarrow> 'r list \<Rightarrow> int" where
  "sum_rows c P t = sum_list (map c (filter P t))"

text \<open>\<^verbatim>\<open>DELETE ... WHERE\<close>, with the number of rows \<^verbatim>\<open>sqlite3_changes\<close> gives; \<^verbatim>\<open>UPDATE ... WHERE\<close>.\<close>

definition delete_rows :: "('r \<Rightarrow> bool) \<Rightarrow> 'r list \<Rightarrow> 'r list" where
  "delete_rows P t = filter (\<lambda>r. \<not> P r) t"

definition update_rows :: "('r \<Rightarrow> bool) \<Rightarrow> ('r \<Rightarrow> 'r) \<Rightarrow> 'r list \<Rightarrow> 'r list" where
  "update_rows P f t = map (\<lambda>r. if P r then f r else r) t"

text \<open>\<^verbatim>\<open>INSERT\<close> under a \<^verbatim>\<open>PRIMARY KEY\<close> or \<^verbatim>\<open>UNIQUE\<close> constraint; \<^verbatim>\<open>INSERT OR IGNORE\<close>.\<close>

definition insert_row :: "('r \<Rightarrow> 'k) \<Rightarrow> 'r \<Rightarrow> 'r list \<Rightarrow> 'r list option" where
  "insert_row k r t = (if has_row (\<lambda>s. k s = k r) t then None else Some (t @ [r]))"

definition insert_or_ignore :: "('r \<Rightarrow> 'k) \<Rightarrow> 'r \<Rightarrow> 'r list \<Rightarrow> 'r list" where
  "insert_or_ignore k r t = (if has_row (\<lambda>s. k s = k r) t then t else t @ [r])"

text \<open>\<^verbatim>\<open>column_blob\<close>: a \<^verbatim>\<open>NULL\<close> reads as the empty blob, and never equals a bound value.\<close>

definition column_blob :: "bytes option \<Rightarrow> bytes" where
  "column_blob c = (case c of None \<Rightarrow> [] | Some b \<Rightarrow> b)"

section \<open>Key constraints\<close>

definition pk :: "('r \<Rightarrow> 'k) \<Rightarrow> 'r list \<Rightarrow> bool" where
  "pk k t \<longleftrightarrow> distinct (map k t)"

definition fk :: "('r \<Rightarrow> 'k) \<Rightarrow> 'r list \<Rightarrow> ('s \<Rightarrow> 'k) \<Rightarrow> 's list \<Rightarrow> bool" where
  "fk ref t k parents \<longleftrightarrow> ref ` set t \<subseteq> k ` set parents"

lemmas sql_defs = first_row_def has_row_def count_rows_def sum_rows_def delete_rows_def update_rows_def
  insert_row_def insert_or_ignore_def

lemma has_row_iff [simp]: "has_row P t \<longleftrightarrow> (\<exists>r\<in>set t. P r)"
  by (simp add: has_row_def list_ex_iff)

lemma has_key_iff: "has_row (\<lambda>s. k s = x) t \<longleftrightarrow> x \<in> k ` set t"
  by auto

lemma insert_row_eq_Some [simp]: "insert_row k r t = Some t' \<longleftrightarrow> k r \<notin> k ` set t \<and> t' = t @ [r]"
  by (auto simp: insert_row_def has_key_iff simp del: has_row_iff)

lemma insert_row_eq_None [simp]: "insert_row k r t = None \<longleftrightarrow> k r \<in> k ` set t"
  by (simp add: insert_row_def has_key_iff del: has_row_iff)

lemma set_delete_rows [simp]: "set (delete_rows P t) = {r \<in> set t. \<not> P r}"
  by (simp add: delete_rows_def)

lemma delete_rows_Nil [simp]: "delete_rows P [] = []"
  by (simp add: delete_rows_def)

lemma delete_rows_False [simp]: "(\<And>r. r \<in> set t \<Longrightarrow> \<not> P r) \<Longrightarrow> delete_rows P t = t"
  by (simp add: delete_rows_def)

lemma length_delete_rows: "length (delete_rows P t) + count_rows P t = length t"
  by (simp add: delete_rows_def count_rows_def add.commute sum_length_filter_compl)

lemma pk_Nil [simp]: "pk k []"
  by (simp add: pk_def)

lemma pk_snoc [simp]: "pk k (t @ [r]) \<longleftrightarrow> pk k t \<and> k r \<notin> k ` set t"
  by (auto simp: pk_def)

lemma pk_delete_rows [intro]: "pk k t \<Longrightarrow> pk k (delete_rows P t)"
  by (simp add: pk_def delete_rows_def distinct_map_filter)

lemma set_update_rows: "set (update_rows P f t) = f ` {r \<in> set t. P r} \<union> {r \<in> set t. \<not> P r}"
  by (auto simp: update_rows_def)

lemma map_update_rows: "(\<And>r. P r \<Longrightarrow> k (f r) = k r) \<Longrightarrow> map k (update_rows P f t) = map k t"
  by (simp add: update_rows_def)

lemma pk_update_rows [intro]: "(\<And>r. P r \<Longrightarrow> k (f r) = k r) \<Longrightarrow> pk k t \<Longrightarrow> pk k (update_rows P f t)"
  by (simp add: pk_def map_update_rows)

lemma pk_insert_or_ignore [intro]: "pk k t \<Longrightarrow> pk k (insert_or_ignore k r t)"
  by (auto simp: insert_or_ignore_def)

lemma pk_unique: "pk k t \<Longrightarrow> r \<in> set t \<Longrightarrow> s \<in> set t \<Longrightarrow> k r = k s \<Longrightarrow> r = s"
  by (auto simp: pk_def distinct_map inj_on_def)

lemma first_row_Some: "first_row P t = Some r \<Longrightarrow> r \<in> set t \<and> P r"
  by (auto simp: first_row_def find_Some_iff)

lemma first_row_snoc: "first_row P (t @ [r]) = (case first_row P t of Some s \<Rightarrow> Some s | None \<Rightarrow> if P r then Some r else None)"
  by (induction t) (simp_all add: first_row_def)

lemma first_row_None: "first_row P t = None \<longleftrightarrow> (\<forall>r\<in>set t. \<not> P r)"
  by (auto simp: first_row_def find_None_iff)

text \<open>With a primary key the row a \<^verbatim>\<open>SELECT\<close> finds is the row with that key.\<close>

lemma first_row_pk: "pk k t \<Longrightarrow> first_row (\<lambda>r. k r = x) t = Some r \<longleftrightarrow> r \<in> set t \<and> k r = x"
  by (metis (mono_tags, lifting) first_row_None first_row_Some not_None_eq pk_unique)

lemma fk_Nil [simp]: "fk ref [] k t"
  by (simp add: fk_def)

lemma fk_snoc [simp]: "fk ref (t @ [r]) k p \<longleftrightarrow> fk ref t k p \<and> ref r \<in> k ` set p"
  by (auto simp: fk_def)

lemma fk_delete_child [intro]: "fk ref t k p \<Longrightarrow> fk ref (delete_rows P t) k p"
  by (auto simp: fk_def)

lemma fk_insert_parent [intro]: "fk ref t k p \<Longrightarrow> fk ref t k (p @ [r])"
  by (auto simp: fk_def)

lemma fk_same_keys: "k ` set p = k ` set p' \<Longrightarrow> fk ref t k p \<longleftrightarrow> fk ref t k p'"
  by (simp add: fk_def)

lemma image_update_rows: "(\<And>r. P r \<Longrightarrow> k (f r) = k r) \<Longrightarrow> k ` set (update_rows P f t) = k ` set t"
  by (metis list.set_map map_update_rows)

lemma fk_update_child [intro]: "(\<And>r. P r \<Longrightarrow> ref (f r) = ref r) \<Longrightarrow> fk ref t k p \<Longrightarrow> fk ref (update_rows P f t) k p"
  by (simp add: fk_def image_update_rows)

lemma fk_update_parent [intro]: "(\<And>r. P r \<Longrightarrow> k (f r) = k r) \<Longrightarrow> fk ref t k p \<Longrightarrow> fk ref t k (update_rows P f p)"
  by (simp add: fk_def image_update_rows)

text \<open>Deleting a parent with its children keeps the constraint.\<close>

lemma fk_cascade [intro]:
  assumes "fk ref t k p"
  shows "fk ref (delete_rows (\<lambda>r. \<exists>s\<in>set p. P s \<and> k s = ref r) t) k (delete_rows P p)"
  using assms by (fastforce simp: fk_def)

section \<open>Deletes that cascade\<close>

definition delete_files :: "(file_row \<Rightarrow> bool) \<Rightarrow> relay_db \<Rightarrow> relay_db" where
  "delete_files P d = d \<lparr> files := delete_rows P (files d),
     file_tokens := delete_rows (\<lambda>t. \<exists>f\<in>set (files d). P f \<and> fl_id f = ft_file_id t) (file_tokens d) \<rparr>"

definition delete_mailboxes :: "(mailbox_row \<Rightarrow> bool) \<Rightarrow> relay_db \<Rightarrow> relay_db" where
  "delete_mailboxes P d =
    (let gone = (\<lambda>i. \<exists>m\<in>set (mailboxes d). P m \<and> mb_id m = i);
         d = delete_files (\<lambda>f. gone (fl_owner f)) d in
     d \<lparr> mailboxes := delete_rows P (mailboxes d),
         tokens := delete_rows (\<lambda>t. gone (tk_mailbox_id t)) (tokens d),
         envelopes := delete_rows (\<lambda>e. gone (en_mailbox_id e)) (envelopes d),
         prekey_pools := delete_rows (\<lambda>p. gone (po_mailbox_id p)) (prekey_pools d),
         prekeys := delete_rows (\<lambda>p. gone (pk_mailbox_id p)) (prekeys d),
         keyrings := delete_rows (\<lambda>k. gone (kr_mailbox_id k)) (keyrings d) \<rparr>)"

definition delete_archives :: "(archive_row \<Rightarrow> bool) \<Rightarrow> relay_db \<Rightarrow> relay_db" where
  "delete_archives P d =
    (let gone = (\<lambda>i. \<exists>a\<in>set (archives d). P a \<and> ar_id a = i) in
     d \<lparr> archives := delete_rows P (archives d),
         archive_join_tokens := delete_rows (\<lambda>t. gone (jt_archive_id t)) (archive_join_tokens d),
         archive_keys := delete_rows (\<lambda>k. gone (ak_archive_id k)) (archive_keys d),
         archive_entries := delete_rows (\<lambda>e. gone (an_archive_id e)) (archive_entries d) \<rparr>)"

end
