(* ===== verification/Relay_Store.thy ===== *)
theory Relay_Store
  imports Relay_Db "HOL-Library.Monad_Syntax" "HOL-Library.Signed_Division"
begin

text \<open>
  \<^verbatim>\<open>class RelayStore\<close> (\<^verbatim>\<open>src/server/relay_store.cpp\<close>), one definition per method.  A method takes
  the database and returns its result with the database after it.  The mutex and the
  transactions make each call atomic, so a call is one function; a path that leaves without
  \<^verbatim>\<open>commit()\<close> is rolled back and returns the database it was given.  Methods whose \<^verbatim>\<open>INSERT\<close>
  can break a key constraint return \<^term>\<open>None\<close> for the exception that raises (the database is
  then as before the call).  Failures of SQLite itself (disk full, corruption) are not
  modelled.
\<close>

definition require :: "bool \<Rightarrow> unit option" where
  "require b = (if b then Some () else None)"

lemma require_eq_Some [simp]: "require b = Some u \<longleftrightarrow> b"
  by (simp add: require_def)

section \<open>Invites and mailboxes\<close>

datatype RegisterResult = Register_Ok | BadInvite | MailboxExists | Register_LimitReached
datatype IssueResult = Issue_Ok | Issue_NoSuchMailbox | TooManyOutstanding | TooManyIssued
datatype TokenResult = Token_Ok | Token_NoSuchMailbox | Token_LimitReached
datatype DepositResult = Deposit_Ok | MailboxFull

record UnusedInvite = ui_hash :: bytes ui_expires_at :: int
record JoinedMember = jm_mailbox_id :: bytes jm_joined_at :: int
record Member = me_id :: bytes me_created_at :: int me_invited_by :: bytes me_envelopes :: nat

definition add_invite :: "bytes \<Rightarrow> int \<Rightarrow> relay_db \<Rightarrow> relay_db option" where
  "add_invite invite_hash expires_at d =
    do { t \<leftarrow> insert_row iv_hash \<lparr> iv_hash = invite_hash, iv_expires_at = expires_at, iv_issued_by = None \<rparr> (invites d);
         Some (d \<lparr> invites := t \<rparr>) }"

definition register_mailbox ::
    "bytes \<Rightarrow> bytes \<Rightarrow> bytes \<Rightarrow> bytes \<Rightarrow> int \<Rightarrow> nat \<Rightarrow> relay_db \<Rightarrow> (RegisterResult \<times> relay_db) option" where
  "register_mailbox invite_hash mailbox_id access_public_key token_hash now max_mailboxes d =
    (case first_row (\<lambda>i. iv_hash i = invite_hash) (invites d) of
       None \<Rightarrow> Some (BadInvite, d)
     | Some i \<Rightarrow>
        if iv_expires_at i \<le> now then Some (BadInvite, d)
        else let issued_by = column_blob (iv_issued_by i) in
          if count_rows (\<lambda>_. True) (mailboxes d) \<ge> max_mailboxes then Some (Register_LimitReached, d)
          else if has_row (\<lambda>m. mb_id m = mailbox_id) (mailboxes d) then Some (MailboxExists, d)
          else do {
            ms \<leftarrow> insert_row mb_id \<lparr> mb_id = mailbox_id, mb_access_public_key = access_public_key, mb_created_at = now,
                     mb_invited_by = (if issued_by = [] then None else Some issued_by) \<rparr> (mailboxes d);
            ts \<leftarrow> insert_row (\<lambda>t. (tk_mailbox_id t, tk_hash t))
                     \<lparr> tk_mailbox_id = mailbox_id, tk_hash = token_hash, tk_created_at = now \<rparr> (tokens d);
            Some (Register_Ok, d \<lparr> mailboxes := ms, tokens := ts,
                     invites := delete_rows (\<lambda>i. iv_hash i = invite_hash) (invites d) \<rparr>) })"

definition add_member_invite ::
    "bytes \<Rightarrow> bytes \<Rightarrow> int \<Rightarrow> int \<Rightarrow> nat \<Rightarrow> nat \<Rightarrow> relay_db \<Rightarrow> (IssueResult \<times> relay_db) option" where
  "add_member_invite issuer_mailbox invite_hash now expires_at max_outstanding max_total d =
    (if \<not> has_row (\<lambda>m. mb_id m = issuer_mailbox) (mailboxes d) then Some (Issue_NoSuchMailbox, d)
     else let outstanding = count_rows (\<lambda>i. iv_issued_by i = Some issuer_mailbox \<and> iv_expires_at i > now) (invites d);
              used = count_rows (\<lambda>m. mb_invited_by m = Some issuer_mailbox) (mailboxes d) in
       if outstanding \<ge> max_outstanding then Some (TooManyOutstanding, d)
       else if outstanding + used \<ge> max_total then Some (TooManyIssued, d)
       else do {
         t \<leftarrow> insert_row iv_hash \<lparr> iv_hash = invite_hash, iv_expires_at = expires_at, iv_issued_by = Some issuer_mailbox \<rparr>
               (invites d);
         Some (Issue_Ok, d \<lparr> invites := t \<rparr>) })"

definition unused_invites :: "bytes \<Rightarrow> int \<Rightarrow> relay_db \<Rightarrow> UnusedInvite list" where
  "unused_invites issuer_mailbox now d =
    map (\<lambda>i. \<lparr> ui_hash = iv_hash i, ui_expires_at = iv_expires_at i \<rparr>)
      (sort_key (\<lambda>i. (iv_expires_at i, iv_hash i))
        (filter (\<lambda>i. iv_issued_by i = Some issuer_mailbox \<and> iv_expires_at i > now) (invites d)))"

definition joined_through :: "bytes \<Rightarrow> relay_db \<Rightarrow> JoinedMember list" where
  "joined_through issuer_mailbox d =
    map (\<lambda>m. \<lparr> jm_mailbox_id = mb_id m, jm_joined_at = mb_created_at m \<rparr>)
      (sort_key (\<lambda>m. (mb_created_at m, mb_id m)) (filter (\<lambda>m. mb_invited_by m = Some issuer_mailbox) (mailboxes d)))"

definition cancel_member_invite :: "bytes \<Rightarrow> bytes \<Rightarrow> relay_db \<Rightarrow> bool \<times> relay_db" where
  "cancel_member_invite issuer_mailbox invite_hash d =
    (let P = (\<lambda>i. iv_hash i = invite_hash \<and> iv_issued_by i = Some issuer_mailbox) in
     (count_rows P (invites d) > 0, d \<lparr> invites := delete_rows P (invites d) \<rparr>))"

definition members :: "relay_db \<Rightarrow> Member list" where
  "members d =
    map (\<lambda>m. \<lparr> me_id = mb_id m, me_created_at = mb_created_at m, me_invited_by = column_blob (mb_invited_by m),
             me_envelopes = count_rows (\<lambda>e. en_mailbox_id e = mb_id m) (envelopes d) \<rparr>)
      (sort_key (\<lambda>m. (mb_created_at m, mb_id m)) (mailboxes d))"

definition delete_mailbox :: "bytes \<Rightarrow> relay_db \<Rightarrow> bool \<times> relay_db" where
  "delete_mailbox mailbox_id d =
    (let d = d \<lparr> invites := delete_rows (\<lambda>i. iv_issued_by i = Some mailbox_id) (invites d) \<rparr>;
         existed = count_rows (\<lambda>m. mb_id m = mailbox_id) (mailboxes d) > 0 in
     (existed, delete_mailboxes (\<lambda>m. mb_id m = mailbox_id) d))"

definition access_key :: "bytes \<Rightarrow> relay_db \<Rightarrow> bytes option" where
  "access_key mailbox_id d = map_option mb_access_public_key (first_row (\<lambda>m. mb_id m = mailbox_id) (mailboxes d))"

definition mailbox_count :: "relay_db \<Rightarrow> nat" where
  "mailbox_count d = count_rows (\<lambda>_. True) (mailboxes d)"

section \<open>Send tokens and envelopes\<close>

definition token_valid :: "bytes \<Rightarrow> bytes \<Rightarrow> relay_db \<Rightarrow> bool" where
  "token_valid mailbox_id token_hash d = has_row (\<lambda>t. tk_mailbox_id t = mailbox_id \<and> tk_hash t = token_hash) (tokens d)"

definition add_token :: "bytes \<Rightarrow> bytes \<Rightarrow> int \<Rightarrow> nat \<Rightarrow> relay_db \<Rightarrow> (TokenResult \<times> relay_db) option" where
  "add_token mailbox_id token_hash now max_tokens d =
    (if \<not> has_row (\<lambda>m. mb_id m = mailbox_id) (mailboxes d) then Some (Token_NoSuchMailbox, d)
     else if has_row (\<lambda>t. tk_mailbox_id t = mailbox_id \<and> tk_hash t = token_hash) (tokens d) then Some (Token_Ok, d)
     else if count_rows (\<lambda>t. tk_mailbox_id t = mailbox_id) (tokens d) \<ge> max_tokens then Some (Token_LimitReached, d)
     else do {
       t \<leftarrow> insert_row (\<lambda>t. (tk_mailbox_id t, tk_hash t))
             \<lparr> tk_mailbox_id = mailbox_id, tk_hash = token_hash, tk_created_at = now \<rparr> (tokens d);
       Some (Token_Ok, d \<lparr> tokens := t \<rparr>) })"

definition revoke_token :: "bytes \<Rightarrow> bytes \<Rightarrow> relay_db \<Rightarrow> bool \<times> relay_db" where
  "revoke_token mailbox_id token_hash d =
    (let P = (\<lambda>t. tk_mailbox_id t = mailbox_id \<and> tk_hash t = token_hash) in
     (count_rows P (tokens d) > 0, d \<lparr> tokens := delete_rows P (tokens d) \<rparr>))"

definition deposit ::
    "bytes \<Rightarrow> bytes \<Rightarrow> bytes \<Rightarrow> bytes \<Rightarrow> int \<Rightarrow> u32 \<Rightarrow> nat \<Rightarrow> relay_db \<Rightarrow> (DepositResult \<times> relay_db) option" where
  "deposit mailbox_id envelope_id envelope token_hash now ttl_seconds quota_bytes d =
    (let used = nat (sum_rows en_size (\<lambda>e. en_mailbox_id e = mailbox_id \<and> en_expires_at e > now) (envelopes d)) in
     if used + length envelope > quota_bytes then Some (MailboxFull, d)
     else do {
       require (has_row (\<lambda>m. mb_id m = mailbox_id) (mailboxes d));
       t \<leftarrow> insert_row en_id \<lparr> en_seq = envelope_seq d + 1, en_id = envelope_id, en_mailbox_id = mailbox_id,
              en_size = int (length envelope), en_envelope = envelope, en_deposited_at = now,
              en_expires_at = now + uint ttl_seconds, en_token_hash = Some token_hash \<rparr> (envelopes d);
       Some (Deposit_Ok, d \<lparr> envelopes := t, envelope_seq := envelope_seq d + 1 \<rparr>) })"

record Stored =
  st_seq :: int
  st_id :: bytes
  st_deposited_at :: int
  st_token_hash :: bytes
  st_envelope :: bytes

definition stored_of :: "envelope_row \<Rightarrow> Stored" where
  "stored_of e =
    (let token_hash = column_blob (en_token_hash e);
         token_hash = (if length token_hash \<noteq> 32 then replicate 32 0 else token_hash) in
     \<lparr> st_seq = en_seq e, st_id = en_id e, st_deposited_at = en_deposited_at e, st_token_hash = token_hash,
       st_envelope = en_envelope e \<rparr>)"

definition fetch :: "bytes \<Rightarrow> int \<Rightarrow> int \<Rightarrow> nat \<Rightarrow> relay_db \<Rightarrow> Stored list" where
  "fetch mailbox_id after_seq now limit d =
    map stored_of (take limit (sort_key en_seq
      (filter (\<lambda>e. en_mailbox_id e = mailbox_id \<and> en_seq e > after_seq \<and> en_expires_at e > now) (envelopes d))))"

primrec ack_loop :: "bytes \<Rightarrow> bytes list \<Rightarrow> nat \<Rightarrow> relay_db \<Rightarrow> nat \<times> relay_db" where
  "ack_loop mailbox_id [] deleted d = (deleted, d)"
| "ack_loop mailbox_id (i # ids) deleted d =
    (let P = (\<lambda>e. en_mailbox_id e = mailbox_id \<and> en_id e = i) in
     ack_loop mailbox_id ids (deleted + count_rows P (envelopes d)) (d \<lparr> envelopes := delete_rows P (envelopes d) \<rparr>))"

definition ack :: "bytes \<Rightarrow> bytes list \<Rightarrow> relay_db \<Rightarrow> nat \<times> relay_db" where
  "ack mailbox_id envelope_ids d = ack_loop mailbox_id envelope_ids 0 d"

definition envelope_count :: "bytes \<Rightarrow> relay_db \<Rightarrow> nat" where
  "envelope_count mailbox_id d = count_rows (\<lambda>e. en_mailbox_id e = mailbox_id) (envelopes d)"

section \<open>Prekeys\<close>

datatype PrekeyPutResult = PrekeyPut_Ok | WrongGeneration | TooMany | Prekey_Duplicate | Prekey_NoSuchMailbox

text \<open>The out parameters \<^verbatim>\<open>blob\<close> and \<^verbatim>\<open>last_resort\<close> are set exactly when the result is \<^verbatim>\<open>Ok\<close>.\<close>

datatype PrekeyTakeResult = PrekeyTake_Ok bytes bool | Prekey_Empty | RateLimited

record PrekeyEntryIn = pi_id :: bytes pi_last_resort :: bool pi_blob :: bytes
record PrekeyPoolStatus = st_one_time :: u32 st_last_resort :: bool st_generation :: bytes

primrec insert_prekeys :: "bytes \<Rightarrow> int \<Rightarrow> PrekeyEntryIn list \<Rightarrow> prekey_row list \<Rightarrow> prekey_row list option" where
  "insert_prekeys mailbox_id now [] t = Some t"
| "insert_prekeys mailbox_id now (p # ps) t =
    do { t \<leftarrow> insert_row (\<lambda>r. (pk_mailbox_id r, pk_id r))
               \<lparr> pk_mailbox_id = mailbox_id, pk_id = pi_id p, pk_blob = pi_blob p,
                 pk_last_resort = (if pi_last_resort p then 1 else 0), pk_created_at = now \<rparr>
               (if pi_last_resort p then delete_rows (\<lambda>r. pk_mailbox_id r = mailbox_id \<and> pk_last_resort r = 1) t else t);
         insert_prekeys mailbox_id now ps t }"

text \<open>\<^verbatim>\<open>INSERT ... ON CONFLICT(mailbox_id) DO UPDATE SET generation = excluded.generation\<close>.\<close>

definition set_generation :: "bytes \<Rightarrow> bytes \<Rightarrow> pool_row list \<Rightarrow> pool_row list" where
  "set_generation mailbox_id generation t =
    (let P = (\<lambda>p. po_mailbox_id p = mailbox_id) in
     if has_row P t then update_rows P (\<lambda>p. p \<lparr> po_generation := generation \<rparr>) t
     else t @ [\<lparr> po_mailbox_id = mailbox_id, po_generation = generation \<rparr>])"

definition put_prekeys ::
    "bytes \<Rightarrow> bool \<Rightarrow> bytes \<Rightarrow> PrekeyEntryIn list \<Rightarrow> int \<Rightarrow> u32 \<Rightarrow> relay_db \<Rightarrow> (PrekeyPutResult \<times> relay_db) option" where
  "put_prekeys mailbox_id replace generation prekeys_in now max_one_time d =
    (if \<not> has_row (\<lambda>m. mb_id m = mailbox_id) (mailboxes d) then Some (Prekey_NoSuchMailbox, d)
     else let current = map_option po_generation (first_row (\<lambda>p. po_mailbox_id p = mailbox_id) (prekey_pools d)) in
       if \<not> replace \<and> current \<noteq> None \<and> current \<noteq> Some generation then Some (WrongGeneration, d)
       else let
           rows = (if replace then delete_rows (\<lambda>r. pk_mailbox_id r = mailbox_id) (prekeys d) else prekeys d);
           pools = set_generation mailbox_id generation (prekey_pools d);
           one_time = int (count_rows (\<lambda>r. pk_mailbox_id r = mailbox_id \<and> pk_last_resort r = 0) rows)
                        + int (length (filter (\<lambda>p. \<not> pi_last_resort p) prekeys_in)) in
         if one_time > uint max_one_time then Some (TooMany, d)
         else if list_ex (\<lambda>p. has_row (\<lambda>r. pk_mailbox_id r = mailbox_id \<and> pk_id r = pi_id p) rows) prekeys_in
         then Some (Prekey_Duplicate, d)
         else do { rows \<leftarrow> insert_prekeys mailbox_id now prekeys_in rows;
                   Some (PrekeyPut_Ok, d \<lparr> prekey_pools := pools, prekeys := rows \<rparr>) })"

definition last_resort_row :: "bytes \<Rightarrow> relay_db \<Rightarrow> prekey_row option" where
  "last_resort_row mailbox_id d = first_row (\<lambda>r. pk_mailbox_id r = mailbox_id \<and> pk_last_resort r = 1) (prekeys d)"

text \<open>\<^verbatim>\<open>SELECT ... WHERE last_resort = 0 ORDER BY created_at, rowid LIMIT 1\<close>.\<close>

definition oldest_one_time :: "bytes \<Rightarrow> relay_db \<Rightarrow> prekey_row option" where
  "oldest_one_time mailbox_id d =
    (case sort_key pk_created_at (filter (\<lambda>r. pk_mailbox_id r = mailbox_id \<and> pk_last_resort r = 0) (prekeys d)) of
       [] \<Rightarrow> None | r # _ \<Rightarrow> Some r)"

definition count_take :: "bytes \<Rightarrow> int \<Rightarrow> take_row list \<Rightarrow> take_row list" where
  "count_take token_hash hour t =
    (let P = (\<lambda>r. ta_token_hash r = token_hash \<and> ta_hour r = hour) in
     if has_row P t then update_rows P (\<lambda>r. r \<lparr> ta_count := ta_count r + 1 \<rparr>) t
     else t @ [\<lparr> ta_token_hash = token_hash, ta_hour = hour, ta_count = 1 \<rparr>])"

definition take_prekey :: "bytes \<Rightarrow> bytes \<Rightarrow> int \<Rightarrow> u32 \<Rightarrow> relay_db \<Rightarrow> PrekeyTakeResult \<times> relay_db" where
  "take_prekey mailbox_id token_hash now per_hour d =
    (let hour = now sdiv 3600;
         taken = (case first_row (\<lambda>r. ta_token_hash r = token_hash \<and> ta_hour r = hour) (prekey_takes d) of
                    None \<Rightarrow> 0 | Some r \<Rightarrow> ta_count r) in
     if taken \<ge> uint per_hour then
       (case last_resort_row mailbox_id d of None \<Rightarrow> (RateLimited, d) | Some l \<Rightarrow> (PrekeyTake_Ok (pk_blob l) True, d))
     else let d = d \<lparr> prekey_takes := count_take token_hash hour (prekey_takes d) \<rparr> in
       case oldest_one_time mailbox_id d of
         Some o1 \<Rightarrow> (PrekeyTake_Ok (pk_blob o1) False,
           d \<lparr> prekeys := delete_rows (\<lambda>r. pk_mailbox_id r = mailbox_id \<and> pk_id r = pk_id o1) (prekeys d) \<rparr>)
       | None \<Rightarrow>
           (case last_resort_row mailbox_id d of
              Some l \<Rightarrow> (PrekeyTake_Ok (pk_blob l) True, d)
            | None \<Rightarrow> (Prekey_Empty, d)))"

definition prekey_status :: "bytes \<Rightarrow> relay_db \<Rightarrow> PrekeyPoolStatus" where
  "prekey_status mailbox_id d =
    \<lparr> st_one_time = word_of_nat (count_rows (\<lambda>r. pk_mailbox_id r = mailbox_id \<and> pk_last_resort r = 0) (prekeys d)),
      st_last_resort = count_rows (\<lambda>r. pk_mailbox_id r = mailbox_id \<and> pk_last_resort r = 1) (prekeys d) > 0,
      st_generation = (case first_row (\<lambda>p. po_mailbox_id p = mailbox_id) (prekey_pools d) of
                         None \<Rightarrow> [] | Some p \<Rightarrow> po_generation p) \<rparr>"

definition sweep_prekey_takes :: "int \<Rightarrow> relay_db \<Rightarrow> relay_db" where
  "sweep_prekey_takes now d = d \<lparr> prekey_takes := delete_rows (\<lambda>r. ta_hour r < now sdiv 3600) (prekey_takes d) \<rparr>"

section \<open>Attachments\<close>

datatype BeginFileResult = BeginFile_Ok | BeginFile_Exists | QuotaExceeded | BeginFile_NoSuchMailbox
datatype TokenCheck = TokenCheck_Ok | TokenCheck_NoSuchFile | NotReady | Expired | TokenCheck_BadToken | TokenCheck_AlreadyRedeemed
datatype RedeemResult = Redeem_Ok | Redeem_NoSuchFile | Redeem_BadToken | Redeem_AlreadyRedeemed

record FileMeta =
  fm_id :: bytes
  fm_owner :: bytes
  fm_total_size :: u64
  fm_chunk_size :: u32
  fm_chunk_count :: u32
  fm_expires_at :: int
  fm_ready :: bool
  fm_tokens_total :: u32
  fm_tokens_redeemed :: u32

primrec insert_file_tokens :: "bytes \<Rightarrow> bytes list \<Rightarrow> file_token_row list \<Rightarrow> file_token_row list option" where
  "insert_file_tokens file_id [] t = Some t"
| "insert_file_tokens file_id (h # hs) t =
    do { t \<leftarrow> insert_row (\<lambda>r. (ft_file_id r, ft_token_hash r))
               \<lparr> ft_file_id = file_id, ft_token_hash = h, ft_redeemed = 0 \<rparr> t;
         insert_file_tokens file_id hs t }"

text \<open>The stored total is summed by SQL as 64-bit integers and compared at 64 bits, unsigned.\<close>

definition begin_file ::
    "bytes \<Rightarrow> bytes \<Rightarrow> u64 \<Rightarrow> u32 \<Rightarrow> u32 \<Rightarrow> int \<Rightarrow> bytes list \<Rightarrow> int \<Rightarrow> u64 \<Rightarrow> relay_db \<Rightarrow> (BeginFileResult \<times> relay_db) option" where
  "begin_file owner file_id total_size chunk_size chunk_count expires_at token_hashes now quota_bytes d =
    (if \<not> has_row (\<lambda>m. mb_id m = owner) (mailboxes d) then Some (BeginFile_NoSuchMailbox, d)
     else if has_row (\<lambda>f. fl_id f = file_id) (files d) then Some (BeginFile_Exists, d)
     else let stored = (word_of_int (sum_rows fl_total_size (\<lambda>f. fl_owner f = owner) (files d)) :: u64) in
       if stored + total_size > quota_bytes then Some (QuotaExceeded, d)
       else do {
         fs \<leftarrow> insert_row fl_id \<lparr> fl_id = file_id, fl_owner = owner, fl_total_size = sint total_size,
                fl_chunk_size = uint chunk_size, fl_chunk_count = uint chunk_count, fl_expires_at = expires_at,
                fl_created_at = now, fl_ready = 0 \<rparr> (files d);
         ts \<leftarrow> insert_file_tokens file_id token_hashes (file_tokens d);
         Some (BeginFile_Ok, d \<lparr> files := fs, file_tokens := ts \<rparr>) })"

definition finish_file :: "bytes \<Rightarrow> relay_db \<Rightarrow> relay_db" where
  "finish_file file_id d = d \<lparr> files := update_rows (\<lambda>f. fl_id f = file_id) (\<lambda>f. f \<lparr> fl_ready := 1 \<rparr>) (files d) \<rparr>"

definition file_meta :: "bytes \<Rightarrow> relay_db \<Rightarrow> FileMeta option" where
  "file_meta file_id d =
    map_option (\<lambda>f. \<lparr> fm_id = file_id, fm_owner = fl_owner f, fm_total_size = word_of_int (fl_total_size f),
        fm_chunk_size = word_of_int (fl_chunk_size f), fm_chunk_count = word_of_int (fl_chunk_count f),
        fm_expires_at = fl_expires_at f, fm_ready = (fl_ready f \<noteq> 0),
        fm_tokens_total = word_of_nat (count_rows (\<lambda>t. ft_file_id t = fl_id f) (file_tokens d)),
        fm_tokens_redeemed = word_of_nat (count_rows (\<lambda>t. ft_file_id t = fl_id f \<and> ft_redeemed t = 1) (file_tokens d)) \<rparr>)
      (first_row (\<lambda>f. fl_id f = file_id) (files d))"

definition check_file_token :: "bytes \<Rightarrow> bytes \<Rightarrow> int \<Rightarrow> relay_db \<Rightarrow> TokenCheck" where
  "check_file_token file_id token_hash now d =
    (case first_row (\<lambda>f. fl_id f = file_id) (files d) of
       None \<Rightarrow> TokenCheck_NoSuchFile
     | Some f \<Rightarrow>
        (case first_row (\<lambda>t. ft_file_id t = file_id \<and> ft_token_hash t = token_hash) (file_tokens d) of
           None \<Rightarrow> TokenCheck_BadToken
         | Some t \<Rightarrow>
            if ft_redeemed t \<noteq> 0 then TokenCheck_AlreadyRedeemed
            else if fl_ready f = 0 then NotReady
            else if fl_expires_at f \<le> now then Expired
            else TokenCheck_Ok))"

text \<open>The second component is \<^verbatim>\<open>*all_redeemed\<close>.\<close>

definition redeem_file_token :: "bytes \<Rightarrow> bytes \<Rightarrow> relay_db \<Rightarrow> RedeemResult \<times> bool \<times> relay_db" where
  "redeem_file_token file_id token_hash d =
    (if \<not> has_row (\<lambda>f. fl_id f = file_id) (files d) then (Redeem_NoSuchFile, False, d)
     else case first_row (\<lambda>t. ft_file_id t = file_id \<and> ft_token_hash t = token_hash) (file_tokens d) of
         None \<Rightarrow> (Redeem_BadToken, False, d)
       | Some t \<Rightarrow>
          if ft_redeemed t \<noteq> 0 then (Redeem_AlreadyRedeemed, False, d)
          else let d = d \<lparr> file_tokens := update_rows (\<lambda>t. ft_file_id t = file_id \<and> ft_token_hash t = token_hash)
                               (\<lambda>t. t \<lparr> ft_redeemed := 1 \<rparr>) (file_tokens d) \<rparr>;
                   left = count_rows (\<lambda>t. ft_file_id t = file_id \<and> ft_redeemed t = 0) (file_tokens d) in
            if left = 0 then (Redeem_Ok, True, delete_files (\<lambda>f. fl_id f = file_id) d)
            else (Redeem_Ok, False, d))"

definition delete_file :: "bytes \<Rightarrow> bytes \<Rightarrow> relay_db \<Rightarrow> bool \<times> relay_db" where
  "delete_file file_id owner d =
    (let P = (if owner = [] then (\<lambda>f. fl_id f = file_id) else (\<lambda>f. fl_id f = file_id \<and> fl_owner f = owner)) in
     (count_rows P (files d) > 0, delete_files P d))"

definition sweep_files :: "int \<Rightarrow> int \<Rightarrow> relay_db \<Rightarrow> bytes list \<times> relay_db" where
  "sweep_files now abandoned_before d =
    (let gone = map fl_id (filter (\<lambda>f. fl_expires_at f \<le> now \<or> (fl_ready f = 0 \<and> fl_created_at f \<le> abandoned_before)) (files d)) in
     (gone, foldl (\<lambda>d i. delete_files (\<lambda>f. fl_id f = i) d) d gone))"

definition all_file_ids :: "relay_db \<Rightarrow> bytes list" where
  "all_file_ids d = map fl_id (files d)"

definition owner_file_bytes :: "bytes \<Rightarrow> relay_db \<Rightarrow> u64" where
  "owner_file_bytes owner d = word_of_int (sum_rows fl_total_size (\<lambda>f. fl_owner f = owner) (files d))"

section \<open>Keyrings\<close>

definition put_keyring :: "bytes \<Rightarrow> bytes \<Rightarrow> int \<Rightarrow> relay_db \<Rightarrow> relay_db option" where
  "put_keyring mailbox_id blob now d =
    do { require (has_row (\<lambda>m. mb_id m = mailbox_id) (mailboxes d));
         Some (d \<lparr> keyrings := delete_rows (\<lambda>k. kr_mailbox_id k = mailbox_id) (keyrings d)
                     @ [\<lparr> kr_mailbox_id = mailbox_id, kr_blob = blob, kr_updated_at = now \<rparr>] \<rparr>) }"

definition get_keyring :: "bytes \<Rightarrow> relay_db \<Rightarrow> bytes option" where
  "get_keyring mailbox_id d = map_option kr_blob (first_row (\<lambda>k. kr_mailbox_id k = mailbox_id) (keyrings d))"

section \<open>Chat archives\<close>

datatype CreateArchiveResult = CreateArchive_Ok | CreateArchive_Exists | CreateArchive_LimitReached
datatype JoinResult = Join_Ok | Join_NoSuchArchive | Join_BadToken | Join_Closed | KeyExists
datatype AppendResult = Append_Ok | Stale | ArchiveFull | Append_NoSuchArchive
datatype RedactResult = Redact_Ok | Redact_NoSuchArchive | UnknownEntry

record ArchiveState = hs_number :: u64 hs_hash :: bytes
record ArchiveInfo =
  ai_member_count :: nat
  ai_joined :: nat
  ai_registration_open :: bool
  ai_head :: ArchiveState
  ai_bytes :: u64
record StoredEntry = sn_number :: u64 sn_hash :: bytes sn_ciphertext :: bytes sn_redacted :: bool
record MemberKey = mk_key_hash :: bytes mk_public_key :: bytes

definition create_archive ::
    "bytes \<Rightarrow> bytes list \<Rightarrow> bytes \<Rightarrow> int \<Rightarrow> int \<Rightarrow> nat \<Rightarrow> relay_db \<Rightarrow> (CreateArchiveResult \<times> relay_db) option" where
  "create_archive archive_id join_token_hashes genesis_hash now closes_at max_archives d =
    (if has_row (\<lambda>a. ar_id a = archive_id) (archives d) then Some (CreateArchive_Exists, d)
     else if count_rows (\<lambda>_. True) (archives d) \<ge> max_archives then Some (CreateArchive_LimitReached, d)
     else do {
       t \<leftarrow> insert_row ar_id \<lparr> ar_id = archive_id, ar_member_count = int (length join_token_hashes), ar_created_at = now,
              ar_closes_at = closes_at, ar_head_number = 0, ar_head_hash = genesis_hash, ar_bytes = 0, ar_last_activity = now \<rparr>
              (archives d);
       Some (CreateArchive_Ok, d \<lparr> archives := t,
         archive_join_tokens := foldl (\<lambda>t h. insert_or_ignore (\<lambda>r. (jt_archive_id r, jt_token_hash r))
             \<lparr> jt_archive_id = archive_id, jt_token_hash = h \<rparr> t) (archive_join_tokens d) join_token_hashes \<rparr>) })"

definition join_archive ::
    "bytes \<Rightarrow> bytes \<Rightarrow> bytes \<Rightarrow> bytes \<Rightarrow> int \<Rightarrow> relay_db \<Rightarrow> (JoinResult \<times> relay_db) option" where
  "join_archive archive_id token_hash key_hash public_key now d =
    (case first_row (\<lambda>a. ar_id a = archive_id) (archives d) of
       None \<Rightarrow> Some (Join_NoSuchArchive, d)
     | Some a \<Rightarrow>
        if \<not> has_row (\<lambda>t. jt_archive_id t = archive_id \<and> jt_token_hash t = token_hash) (archive_join_tokens d)
        then Some (Join_BadToken, d)
        else let joined = int (count_rows (\<lambda>k. ak_archive_id k = archive_id) (archive_keys d)) in
          if joined \<ge> ar_member_count a \<or> now \<ge> ar_closes_at a then Some (Join_Closed, d)
          else if has_row (\<lambda>k. ak_archive_id k = archive_id \<and> ak_key_hash k = key_hash) (archive_keys d)
          then Some (KeyExists, d)
          else do {
            ks \<leftarrow> insert_row (\<lambda>k. (ak_archive_id k, ak_key_hash k))
                    \<lparr> ak_archive_id = archive_id, ak_key_hash = key_hash, ak_public_key = public_key, ak_joined_at = now \<rparr>
                    (archive_keys d);
            Some (Join_Ok, d \<lparr> archive_keys := ks,
              archive_join_tokens := delete_rows (\<lambda>t. jt_archive_id t = archive_id \<and> jt_token_hash t = token_hash)
                (archive_join_tokens d) \<rparr>) })"

definition archive_member_key :: "bytes \<Rightarrow> bytes \<Rightarrow> relay_db \<Rightarrow> bytes option" where
  "archive_member_key archive_id key_hash d =
    map_option ak_public_key (first_row (\<lambda>k. ak_archive_id k = archive_id \<and> ak_key_hash k = key_hash) (archive_keys d))"

definition archive_info :: "bytes \<Rightarrow> int \<Rightarrow> relay_db \<Rightarrow> ArchiveInfo option" where
  "archive_info archive_id now d =
    map_option (\<lambda>a.
      let joined = count_rows (\<lambda>k. ak_archive_id k = archive_id) (archive_keys d); member_count = nat (ar_member_count a) in
      \<lparr> ai_member_count = member_count, ai_joined = joined,
        ai_registration_open = (joined < member_count \<and> now < ar_closes_at a),
        ai_head = \<lparr> hs_number = word_of_int (ar_head_number a), hs_hash = ar_head_hash a \<rparr>,
        ai_bytes = word_of_int (ar_bytes a) \<rparr>)
      (first_row (\<lambda>a. ar_id a = archive_id) (archives d))"

definition archive_count :: "relay_db \<Rightarrow> nat" where
  "archive_count d = count_rows (\<lambda>_. True) (archives d)"

text \<open>The second component is what \<^verbatim>\<open>*head\<close> receives, if anything.\<close>

definition append_entry ::
    "bytes \<Rightarrow> u64 \<Rightarrow> bytes \<Rightarrow> bytes \<Rightarrow> bytes \<Rightarrow> int \<Rightarrow> nat \<Rightarrow> relay_db
       \<Rightarrow> (AppendResult \<times> ArchiveState option \<times> relay_db) option" where
  "append_entry archive_id expected_number expected_hash new_hash ciphertext now quota_bytes d =
    (case first_row (\<lambda>a. ar_id a = archive_id) (archives d) of
       None \<Rightarrow> Some (Append_NoSuchArchive, None, d)
     | Some a \<Rightarrow>
        let current = \<lparr> hs_number = word_of_int (ar_head_number a), hs_hash = ar_head_hash a \<rparr>; used = nat (ar_bytes a) in
        if hs_number current \<noteq> expected_number \<or> hs_hash current \<noteq> expected_hash then Some (Stale, Some current, d)
        else if used + length ciphertext > quota_bytes then Some (ArchiveFull, Some current, d)
        else let number = hs_number current + 1 in
          do { es \<leftarrow> insert_row (\<lambda>e. (an_archive_id e, an_number e))
                      \<lparr> an_archive_id = archive_id, an_number = sint number, an_hash = new_hash, an_ciphertext = ciphertext,
                        an_appended_at = now, an_redacted = 0 \<rparr> (archive_entries d);
               Some (Append_Ok, Some \<lparr> hs_number = number, hs_hash = new_hash \<rparr>, d \<lparr> archive_entries := es,
                 archives := update_rows (\<lambda>a. ar_id a = archive_id)
                   (\<lambda>a. a \<lparr> ar_head_number := sint number, ar_head_hash := new_hash,
                            ar_bytes := int (used + length ciphertext), ar_last_activity := now \<rparr>) (archives d) \<rparr>) })"

definition archive_member_keys :: "bytes \<Rightarrow> relay_db \<Rightarrow> MemberKey list" where
  "archive_member_keys archive_id d =
    map (\<lambda>k. \<lparr> mk_key_hash = ak_key_hash k, mk_public_key = ak_public_key k \<rparr>)
      (sort_key (\<lambda>k. (ak_joined_at k, ak_key_hash k)) (filter (\<lambda>k. ak_archive_id k = archive_id) (archive_keys d)))"

definition delete_archive :: "bytes \<Rightarrow> relay_db \<Rightarrow> bool \<times> relay_db" where
  "delete_archive archive_id d =
    (count_rows (\<lambda>a. ar_id a = archive_id) (archives d) > 0, delete_archives (\<lambda>a. ar_id a = archive_id) d)"

text \<open>The loop over the hashes: \<^term>\<open>None\<close> when one names no entry of the archive.\<close>

primrec redact_loop :: "bytes \<Rightarrow> bytes list \<Rightarrow> int \<Rightarrow> archive_entry_row list \<Rightarrow> (int \<times> archive_entry_row list) option" where
  "redact_loop archive_id [] freed t = Some (freed, t)"
| "redact_loop archive_id (h # hs) freed t =
    (case first_row (\<lambda>e. an_archive_id e = archive_id \<and> an_hash e = h) t of
       None \<Rightarrow> None
     | Some e \<Rightarrow> redact_loop archive_id hs (freed + int (length (an_ciphertext e)))
         (update_rows (\<lambda>e. an_archive_id e = archive_id \<and> an_hash e = h)
            (\<lambda>e. e \<lparr> an_ciphertext := [], an_redacted := 1 \<rparr>) t))"

definition redact_entries :: "bytes \<Rightarrow> bytes list \<Rightarrow> relay_db \<Rightarrow> RedactResult \<times> relay_db" where
  "redact_entries archive_id entry_hashes d =
    (if \<not> has_row (\<lambda>a. ar_id a = archive_id) (archives d) then (Redact_NoSuchArchive, d)
     else case redact_loop archive_id entry_hashes 0 (archive_entries d) of
         None \<Rightarrow> (UnknownEntry, d)
       | Some (freed, t) \<Rightarrow> (Redact_Ok, d \<lparr> archive_entries := t,
           archives := update_rows (\<lambda>a. ar_id a = archive_id) (\<lambda>a. a \<lparr> ar_bytes := ar_bytes a - freed \<rparr>) (archives d) \<rparr>))"

definition fetch_entries :: "bytes \<Rightarrow> u64 \<Rightarrow> nat \<Rightarrow> relay_db \<Rightarrow> StoredEntry list" where
  "fetch_entries archive_id from_number limit d =
    map (\<lambda>e. \<lparr> sn_number = word_of_int (an_number e), sn_hash = an_hash e, sn_ciphertext = an_ciphertext e,
             sn_redacted = (an_redacted e \<noteq> 0) \<rparr>)
      (take limit (sort_key an_number
        (filter (\<lambda>e. an_archive_id e = archive_id \<and> an_number e \<ge> sint from_number) (archive_entries d))))"

section \<open>Expiry\<close>

record Swept = sw_envelopes :: nat sw_invites :: nat sw_archives :: nat

definition sweep :: "int \<Rightarrow> relay_db \<Rightarrow> Swept \<times> relay_db" where
  "sweep now d =
    (let n_env = count_rows (\<lambda>e. en_expires_at e \<le> now) (envelopes d);
         d = d \<lparr> envelopes := delete_rows (\<lambda>e. en_expires_at e \<le> now) (envelopes d) \<rparr>;
         n_inv = count_rows (\<lambda>i. iv_expires_at i \<le> now) (invites d);
         d = d \<lparr> invites := delete_rows (\<lambda>i. iv_expires_at i \<le> now) (invites d) \<rparr>;
         P = (\<lambda>a. ar_closes_at a \<le> now \<and> \<not> has_row (\<lambda>k. ak_archive_id k = ar_id a) (archive_keys d));
         n_arc = count_rows P (archives d) in
     (\<lparr> sw_envelopes = n_env, sw_invites = n_inv, sw_archives = n_arc \<rparr>, delete_archives P d))"

end
