(* ===== verification/Relay_Store_Inv.thy ===== *)
theory Relay_Store_Inv
  imports Relay_Store
begin

text \<open>
  The invariant of the relay's database and its preservation by every method of the store:
  the key constraints of the schema, and beyond them what the methods rely on -- envelopes in
  arrival order with true sizes, at most one last-resort prekey per mailbox, archives whose
  entries are numbered without gaps up to the head, never more keys and unspent tokens
  than members, and never more stored bytes than accounted for.  \<^verbatim>\<open>store_step\<close> is one call of a
  method; \<^verbatim>\<open>store_reachable\<close> are the databases a relay can have, starting from the empty one.
\<close>

section \<open>The invariant\<close>

definition tokens_inv :: "token_row list \<Rightarrow> mailbox_row list \<Rightarrow> bool" where
  "tokens_inv t ms \<longleftrightarrow> pk (\<lambda>t. (tk_mailbox_id t, tk_hash t)) t \<and> fk tk_mailbox_id t mb_id ms"

definition envelopes_inv :: "envelope_row list \<Rightarrow> int \<Rightarrow> mailbox_row list \<Rightarrow> bool" where
  "envelopes_inv t seq ms \<longleftrightarrow> pk en_id t \<and> fk en_mailbox_id t mb_id ms \<and>
     sorted_wrt (\<lambda>e f. en_seq e < en_seq f) t \<and> 0 \<le> seq \<and>
     (\<forall>e\<in>set t. 0 < en_seq e \<and> en_seq e \<le> seq \<and> en_size e = int (length (en_envelope e)))"

definition prekeys_inv :: "pool_row list \<Rightarrow> prekey_row list \<Rightarrow> mailbox_row list \<Rightarrow> bool" where
  "prekeys_inv ps t ms \<longleftrightarrow> pk po_mailbox_id ps \<and> fk po_mailbox_id ps mb_id ms \<and>
     pk (\<lambda>r. (pk_mailbox_id r, pk_id r)) t \<and> fk pk_mailbox_id t mb_id ms \<and>
     (\<forall>r\<in>set t. pk_last_resort r = 0 \<or> pk_last_resort r = 1) \<and> pk pk_mailbox_id (filter (\<lambda>r. pk_last_resort r = 1) t)"

definition takes_inv :: "take_row list \<Rightarrow> bool" where
  "takes_inv t \<longleftrightarrow> pk (\<lambda>r. (ta_token_hash r, ta_hour r)) t"

definition files_inv :: "file_row list \<Rightarrow> file_token_row list \<Rightarrow> mailbox_row list \<Rightarrow> bool" where
  "files_inv fs ts ms \<longleftrightarrow> pk fl_id fs \<and> fk fl_owner fs mb_id ms \<and>
     pk (\<lambda>t. (ft_file_id t, ft_token_hash t)) ts \<and> fk ft_file_id ts fl_id fs \<and>
     (\<forall>t\<in>set ts. ft_redeemed t = 0 \<or> ft_redeemed t = 1)"

definition keyrings_inv :: "keyring_row list \<Rightarrow> mailbox_row list \<Rightarrow> bool" where
  "keyrings_inv ks ms \<longleftrightarrow> pk kr_mailbox_id ks \<and> fk kr_mailbox_id ks mb_id ms"

definition entries_of :: "bytes \<Rightarrow> archive_entry_row list \<Rightarrow> archive_entry_row list" where
  "entries_of a t = filter (\<lambda>e. an_archive_id e = a) t"

definition archive_ok :: "join_token_row list \<Rightarrow> archive_key_row list \<Rightarrow> archive_entry_row list \<Rightarrow> archive_row \<Rightarrow> bool" where
  "archive_ok ts ks es a \<longleftrightarrow>
     0 \<le> ar_head_number a \<and> map an_number (entries_of (ar_id a) es) = [1..ar_head_number a] \<and>
     (0 < ar_head_number a \<longrightarrow> ar_head_hash a = an_hash (last (entries_of (ar_id a) es))) \<and>
     int (count_rows (\<lambda>k. ak_archive_id k = ar_id a) ks) + int (count_rows (\<lambda>t. jt_archive_id t = ar_id a) ts)
       \<le> ar_member_count a \<and>
     int (sum_list (map (\<lambda>e. length (an_ciphertext e)) (entries_of (ar_id a) es))) \<le> ar_bytes a"

definition archives_inv ::
    "archive_row list \<Rightarrow> join_token_row list \<Rightarrow> archive_key_row list \<Rightarrow> archive_entry_row list \<Rightarrow> bool" where
  "archives_inv as ts ks es \<longleftrightarrow> pk ar_id as \<and>
     pk (\<lambda>t. (jt_archive_id t, jt_token_hash t)) ts \<and> fk jt_archive_id ts ar_id as \<and>
     pk (\<lambda>k. (ak_archive_id k, ak_key_hash k)) ks \<and> fk ak_archive_id ks ar_id as \<and>
     pk (\<lambda>e. (an_archive_id e, an_number e)) es \<and> fk an_archive_id es ar_id as \<and>
     (\<forall>a\<in>set as. archive_ok ts ks es a)"

definition db_inv :: "relay_db \<Rightarrow> bool" where
  "db_inv d \<longleftrightarrow> pk iv_hash (invites d) \<and> pk mb_id (mailboxes d) \<and> tokens_inv (tokens d) (mailboxes d) \<and>
     envelopes_inv (envelopes d) (envelope_seq d) (mailboxes d) \<and>
     prekeys_inv (prekey_pools d) (prekeys d) (mailboxes d) \<and> takes_inv (prekey_takes d) \<and>
     files_inv (files d) (file_tokens d) (mailboxes d) \<and> keyrings_inv (keyrings d) (mailboxes d) \<and>
     archives_inv (archives d) (archive_join_tokens d) (archive_keys d) (archive_entries d)"

lemma db_inv_empty: "db_inv empty_db"
  by (simp add: db_inv_def empty_db_def tokens_inv_def envelopes_inv_def prekeys_inv_def takes_inv_def files_inv_def
      keyrings_inv_def archives_inv_def)

section \<open>Tables that grow and shrink\<close>

lemma sorted_delete_rows [intro]: "sorted_wrt R t \<Longrightarrow> sorted_wrt R (delete_rows P t)"
  by (simp add: delete_rows_def sorted_wrt_filter)

lemma filter_delete_rows: "filter Q (delete_rows P t) = delete_rows P (filter Q t)"
  by (simp add: delete_rows_def conj_commute)

lemma parents_grow:
  "tokens_inv t ms \<Longrightarrow> tokens_inv t (ms @ [m])"
  "envelopes_inv e seq ms \<Longrightarrow> envelopes_inv e seq (ms @ [m])"
  "prekeys_inv ps t' ms \<Longrightarrow> prekeys_inv ps t' (ms @ [m])"
  "files_inv fs ts ms \<Longrightarrow> files_inv fs ts (ms @ [m])"
  "keyrings_inv ks ms \<Longrightarrow> keyrings_inv ks (ms @ [m])"
  by (auto simp: tokens_inv_def envelopes_inv_def prekeys_inv_def files_inv_def keyrings_inv_def)

lemma envelopes_inv_delete: "envelopes_inv e seq ms \<Longrightarrow> envelopes_inv (delete_rows P e) seq ms"
  by (auto simp: envelopes_inv_def)

lemma prekeys_inv_delete: "prekeys_inv ps t ms \<Longrightarrow> prekeys_inv ps (delete_rows P t) ms"
  by (auto simp: prekeys_inv_def filter_delete_rows)

lemma files_inv_delete:
  "files_inv fs ts ms \<Longrightarrow>
   files_inv (delete_rows P fs) (delete_rows (\<lambda>t. \<exists>f\<in>set fs. P f \<and> fl_id f = ft_file_id t) ts) ms"
  by (auto simp: files_inv_def)

lemma mailbox_cascade:
  "tokens_inv t ms \<Longrightarrow> tokens_inv (delete_rows (\<lambda>r. \<exists>m\<in>set ms. P m \<and> mb_id m = tk_mailbox_id r) t) (delete_rows P ms)"
  "envelopes_inv e seq ms \<Longrightarrow>
     envelopes_inv (delete_rows (\<lambda>r. \<exists>m\<in>set ms. P m \<and> mb_id m = en_mailbox_id r) e) seq (delete_rows P ms)"
  "prekeys_inv ps r ms \<Longrightarrow>
     prekeys_inv (delete_rows (\<lambda>r. \<exists>m\<in>set ms. P m \<and> mb_id m = po_mailbox_id r) ps)
       (delete_rows (\<lambda>r. \<exists>m\<in>set ms. P m \<and> mb_id m = pk_mailbox_id r) r) (delete_rows P ms)"
  "keyrings_inv ks ms \<Longrightarrow>
     keyrings_inv (delete_rows (\<lambda>r. \<exists>m\<in>set ms. P m \<and> mb_id m = kr_mailbox_id r) ks) (delete_rows P ms)"
  by (auto simp: tokens_inv_def envelopes_inv_def prekeys_inv_def keyrings_inv_def filter_delete_rows)

lemma files_cascade:
  assumes "files_inv fs ts ms"
  shows "files_inv (delete_rows (\<lambda>f. \<exists>m\<in>set ms. P m \<and> mb_id m = fl_owner f) fs)
    (delete_rows (\<lambda>t. \<exists>f\<in>set fs. (\<exists>m\<in>set ms. P m \<and> mb_id m = fl_owner f) \<and> fl_id f = ft_file_id t) ts) (delete_rows P ms)"
  using assms by (auto simp: files_inv_def)

lemma entries_of_delete [simp]: "(\<And>e. an_archive_id e = i \<Longrightarrow> \<not> P e) \<Longrightarrow> entries_of i (delete_rows P t) = entries_of i t"
  by (induction t) (auto simp: entries_of_def delete_rows_def)

lemma count_rows_delete: "(\<And>e. Q e \<Longrightarrow> \<not> P e) \<Longrightarrow> count_rows Q (delete_rows P t) = count_rows Q t"
  by (induction t) (auto simp: count_rows_def delete_rows_def)

lemma count_rows_delete_le: "count_rows Q (delete_rows P t) \<le> count_rows Q t"
  by (induction t) (auto simp: count_rows_def delete_rows_def)

lemma archives_cascade:
  assumes "archives_inv as ts ks es"
  shows "archives_inv (delete_rows P as)
    (delete_rows (\<lambda>t. \<exists>a\<in>set as. P a \<and> ar_id a = jt_archive_id t) ts)
    (delete_rows (\<lambda>k. \<exists>a\<in>set as. P a \<and> ar_id a = ak_archive_id k) ks)
    (delete_rows (\<lambda>e. \<exists>a\<in>set as. P a \<and> ar_id a = an_archive_id e) es)" (is "archives_inv _ ?ts ?ks ?es")
proof -
  have "archive_ok ?ts ?ks ?es a" if a: "a \<in> set as" "\<not> P a" for a
  proof -
    have "\<not> (\<exists>b\<in>set as. P b \<and> ar_id b = ar_id a)"
      using assms a pk_unique unfolding archives_inv_def by metis
    then have "entries_of (ar_id a) ?es = entries_of (ar_id a) es"
      by (intro entries_of_delete) auto
    moreover have "count_rows (\<lambda>k. ak_archive_id k = ar_id a) ?ks \<le> count_rows (\<lambda>k. ak_archive_id k = ar_id a) ks"
      "count_rows (\<lambda>t. jt_archive_id t = ar_id a) ?ts \<le> count_rows (\<lambda>t. jt_archive_id t = ar_id a) ts"
      by (rule count_rows_delete_le)+
    moreover have "archive_ok ts ks es a" using assms a by (simp add: archives_inv_def)
    ultimately show ?thesis by (simp add: archive_ok_def)
  qed
  then show ?thesis using assms by (auto simp: archives_inv_def)
qed

lemma delete_files_inv: "db_inv d \<Longrightarrow> db_inv (delete_files P d)"
  by (simp add: db_inv_def delete_files_def files_inv_delete)

lemma delete_mailboxes_inv: "db_inv d \<Longrightarrow> db_inv (delete_mailboxes P d)"
  by (simp add: db_inv_def delete_mailboxes_def delete_files_def Let_def mailbox_cascade files_cascade pk_delete_rows)

lemma delete_archives_inv: "db_inv d \<Longrightarrow> db_inv (delete_archives P d)"
  by (simp add: db_inv_def delete_archives_def Let_def archives_cascade)

section \<open>Every method keeps the invariant\<close>

lemmas store_splits = if_splits option.splits prod.splits list.splits

text \<open>Replacing one table keeps the invariant if the table's own part holds.\<close>

lemma db_inv_table:
  "db_inv d \<Longrightarrow> pk iv_hash i \<Longrightarrow> db_inv (d \<lparr> invites := i \<rparr>)"
  "db_inv d \<Longrightarrow> tokens_inv t (mailboxes d) \<Longrightarrow> db_inv (d \<lparr> tokens := t \<rparr>)"
  "db_inv d \<Longrightarrow> envelopes_inv e (envelope_seq d) (mailboxes d) \<Longrightarrow> db_inv (d \<lparr> envelopes := e \<rparr>)"
  "db_inv d \<Longrightarrow> prekeys_inv (prekey_pools d) p (mailboxes d) \<Longrightarrow> db_inv (d \<lparr> prekeys := p \<rparr>)"
  "db_inv d \<Longrightarrow> takes_inv x \<Longrightarrow> db_inv (d \<lparr> prekey_takes := x \<rparr>)"
  "db_inv d \<Longrightarrow> files_inv (files d) y (mailboxes d) \<Longrightarrow> db_inv (d \<lparr> file_tokens := y \<rparr>)"
  "db_inv d \<Longrightarrow> keyrings_inv k (mailboxes d) \<Longrightarrow> db_inv (d \<lparr> keyrings := k \<rparr>)"
  by (simp_all add: db_inv_def)

lemma db_invD:
  assumes "db_inv d"
  shows "pk iv_hash (invites d)" "pk mb_id (mailboxes d)" "tokens_inv (tokens d) (mailboxes d)"
    "envelopes_inv (envelopes d) (envelope_seq d) (mailboxes d)"
    "prekeys_inv (prekey_pools d) (prekeys d) (mailboxes d)" "takes_inv (prekey_takes d)"
    "files_inv (files d) (file_tokens d) (mailboxes d)" "keyrings_inv (keyrings d) (mailboxes d)"
    "archives_inv (archives d) (archive_join_tokens d) (archive_keys d) (archive_entries d)"
  using assms by (simp_all add: db_inv_def)

lemma add_invite_inv: "db_inv d \<Longrightarrow> add_invite h x d = Some d' \<Longrightarrow> db_inv d'"
  by (auto simp: add_invite_def bind_eq_Some_conv db_inv_def)

lemma tokens_inv_snoc:
  "tokens_inv t ms \<Longrightarrow> tk_mailbox_id r \<in> mb_id ` set ms \<Longrightarrow>
   (tk_mailbox_id r, tk_hash r) \<notin> (\<lambda>t. (tk_mailbox_id t, tk_hash t)) ` set t \<Longrightarrow> tokens_inv (t @ [r]) ms"
  by (simp add: tokens_inv_def)

lemma register_mailbox_inv:
  "db_inv d \<Longrightarrow> register_mailbox h m k t now mx d = Some (r, d') \<Longrightarrow> db_inv d'"
  by (auto simp: register_mailbox_def Let_def bind_eq_Some_conv db_inv_def parents_grow pk_delete_rows
      split: store_splits intro!: tokens_inv_snoc)

lemma add_member_invite_inv: "db_inv d \<Longrightarrow> add_member_invite m h now x mo mt d = Some (r, d') \<Longrightarrow> db_inv d'"
  by (auto simp: add_member_invite_def Let_def bind_eq_Some_conv db_inv_def split: store_splits)

lemma cancel_member_invite_inv: "db_inv d \<Longrightarrow> cancel_member_invite m h d = (r, d') \<Longrightarrow> db_inv d'"
  by (auto simp: cancel_member_invite_def Let_def db_inv_def)

lemma delete_mailbox_inv: "db_inv d \<Longrightarrow> delete_mailbox m d = (r, d') \<Longrightarrow> db_inv d'"
  by (auto simp: delete_mailbox_def Let_def intro!: delete_mailboxes_inv db_inv_table dest: db_invD(1))

lemma add_token_inv: "db_inv d \<Longrightarrow> add_token m h now mx d = Some (r, d') \<Longrightarrow> db_inv d'"
  by (auto simp: add_token_def bind_eq_Some_conv db_inv_def split: store_splits intro!: tokens_inv_snoc)

lemma revoke_token_inv: "db_inv d \<Longrightarrow> revoke_token m h d = (r, d') \<Longrightarrow> db_inv d'"
  by (auto simp: revoke_token_def Let_def db_inv_def tokens_inv_def)

lemma envelopes_inv_snoc:
  "envelopes_inv t seq ms \<Longrightarrow> en_mailbox_id e \<in> mb_id ` set ms \<Longrightarrow> en_id e \<notin> en_id ` set t \<Longrightarrow> en_seq e = seq + 1 \<Longrightarrow>
   en_size e = int (length (en_envelope e)) \<Longrightarrow> envelopes_inv (t @ [e]) (seq + 1) ms"
  by (fastforce simp: envelopes_inv_def sorted_wrt_append)

lemma deposit_inv: "db_inv d \<Longrightarrow> deposit m i e h now ttl q d = Some (r, d') \<Longrightarrow> db_inv d'"
  by (auto simp: deposit_def Let_def bind_eq_Some_conv db_inv_def split: if_splits intro!: envelopes_inv_snoc)

lemma ack_loop_inv: "db_inv d \<Longrightarrow> ack_loop m ids n d = (r, d') \<Longrightarrow> db_inv d'"
proof (induction ids arbitrary: n d)
  case (Cons i ids)
  from Cons.prems have "db_inv (d \<lparr> envelopes := delete_rows P (envelopes d) \<rparr>)" for P
    by (intro db_inv_table envelopes_inv_delete db_invD)
  with Cons.IH Cons.prems(2) show ?case by (auto simp: Let_def)
qed simp

lemma ack_inv: "db_inv d \<Longrightarrow> ack m ids d = (r, d') \<Longrightarrow> db_inv d'"
  by (auto simp: ack_def intro: ack_loop_inv)

lemma prekeys_inv_snoc:
  assumes "prekeys_inv ps t ms" "pk_mailbox_id r \<in> mb_id ` set ms"
    "(pk_mailbox_id r, pk_id r) \<notin> (\<lambda>r. (pk_mailbox_id r, pk_id r)) ` set t"
    "pk_last_resort r = 0 \<or> pk_last_resort r = 1 \<and> (\<forall>s\<in>set t. pk_last_resort s = 1 \<longrightarrow> pk_mailbox_id s \<noteq> pk_mailbox_id r)"
  shows "prekeys_inv ps (t @ [r]) ms"
  using assms by (auto simp: prekeys_inv_def)

lemma insert_prekeys_inv:
  "prekeys_inv ps t ms \<Longrightarrow> m \<in> mb_id ` set ms \<Longrightarrow> insert_prekeys m now xs t = Some t' \<Longrightarrow> prekeys_inv ps t' ms"
proof (induction xs arbitrary: t)
  case (Cons x xs)
  let ?r = "\<lparr> pk_mailbox_id = m, pk_id = pi_id x, pk_blob = pi_blob x, pk_last_resort = (if pi_last_resort x then 1 else 0),
    pk_created_at = now \<rparr>"
  let ?t = "if pi_last_resort x then delete_rows (\<lambda>r. pk_mailbox_id r = m \<and> pk_last_resort r = 1) t else t"
  from Cons.prems(3) have "(m, pi_id x) \<notin> (\<lambda>r. (pk_mailbox_id r, pk_id r)) ` set ?t"
    and ins: "insert_prekeys m now xs (?t @ [?r]) = Some t'"
    by (auto simp: bind_eq_Some_conv simp del: set_delete_rows split: if_splits)
  then have "prekeys_inv ps (?t @ [?r]) ms"
    using Cons.prems(1,2) by (intro prekeys_inv_snoc) (auto simp: prekeys_inv_delete simp del: set_delete_rows, simp)
  then show ?case using Cons.IH Cons.prems(2) ins by blast
qed simp

lemma set_generation_inv:
  "prekeys_inv ps t ms \<Longrightarrow> m \<in> mb_id ` set ms \<Longrightarrow> prekeys_inv (set_generation m g ps) t ms"
  by (auto simp: prekeys_inv_def set_generation_def Let_def)

lemma if_refuses:
  "(if P then Some (a, d) else x) = Some (r, d') \<longleftrightarrow> P \<and> r = a \<and> d' = d \<or> \<not> P \<and> x = Some (r, d')"
  by auto

lemma put_prekeys_cases:
  assumes "put_prekeys m rep g xs now mx d = Some (r, d')"
  shows "r \<noteq> PrekeyPut_Ok \<and> d' = d \<or> (\<exists>t'. r = PrekeyPut_Ok \<and> m \<in> mb_id ` set (mailboxes d) \<and>
      insert_prekeys m now xs (if rep then delete_rows (\<lambda>r. pk_mailbox_id r = m) (prekeys d) else prekeys d) = Some t' \<and>
      d' = d \<lparr> prekey_pools := set_generation m g (prekey_pools d), prekeys := t' \<rparr>)"
  using assms unfolding put_prekeys_def Let_def has_key_iff if_refuses bind_eq_Some_conv option.inject prod.inject not_not
  by (elim disjE conjE exE) simp_all

lemma put_prekeys_inv:
  assumes "db_inv d" "put_prekeys m rep g xs now mx d = Some (r, d')"
  shows "db_inv d'"
proof -
  consider "d' = d" | t' where "m \<in> mb_id ` set (mailboxes d)"
    "insert_prekeys m now xs (if rep then delete_rows (\<lambda>r. pk_mailbox_id r = m) (prekeys d) else prekeys d) = Some t'"
    "d' = d \<lparr> prekey_pools := set_generation m g (prekey_pools d), prekeys := t' \<rparr>"
    using put_prekeys_cases [OF assms(2)] by blast
  then show ?thesis
  proof cases
    case (2 t')
    have "prekeys_inv (prekey_pools d) (if rep then delete_rows (\<lambda>r. pk_mailbox_id r = m) (prekeys d) else prekeys d) (mailboxes d)"
      using assms(1) by (auto intro: prekeys_inv_delete dest: db_invD(5))
    from insert_prekeys_inv [OF this 2(1,2)] have "prekeys_inv (set_generation m g (prekey_pools d)) t' (mailboxes d)"
      by (rule set_generation_inv [OF _ 2(1)])
    then show ?thesis using assms(1) 2(3) by (simp add: db_inv_def)
  qed (use assms in simp)
qed

lemma count_take_inv: "takes_inv t \<Longrightarrow> takes_inv (count_take h x t)"
  by (auto simp: takes_inv_def count_take_def Let_def intro!: pk_update_rows)

lemma take_prekey_inv: "db_inv d \<Longrightarrow> take_prekey m h now n d = (r, d') \<Longrightarrow> db_inv d'"
  by (auto simp: take_prekey_def Let_def split: option.splits if_splits
      intro!: db_inv_table count_take_inv prekeys_inv_delete dest: db_invD(5,6))

lemma sweep_prekey_takes_inv: "db_inv d \<Longrightarrow> db_inv (sweep_prekey_takes now d)"
  by (auto simp: sweep_prekey_takes_def db_inv_def takes_inv_def)

lemma insert_file_tokens_inv:
  "files_inv fs t ms \<Longrightarrow> i \<in> fl_id ` set fs \<Longrightarrow> insert_file_tokens i hs t = Some t' \<Longrightarrow> files_inv fs t' ms"
proof (induction hs arbitrary: t)
  case (Cons h hs)
  let ?r = "\<lparr> ft_file_id = i, ft_token_hash = h, ft_redeemed = 0 \<rparr>"
  from Cons.prems have "files_inv fs (t @ [?r]) ms" "insert_file_tokens i hs (t @ [?r]) = Some t'"
    by (auto simp: bind_eq_Some_conv files_inv_def)
  then show ?case using Cons.IH Cons.prems(2) by blast
qed simp

lemma files_inv_snoc:
  "files_inv fs t ms \<Longrightarrow> fl_id f \<notin> fl_id ` set fs \<Longrightarrow> fl_owner f \<in> mb_id ` set ms \<Longrightarrow> files_inv (fs @ [f]) t ms"
  by (auto simp: files_inv_def)

lemma begin_file_cases:
  assumes "begin_file m i ts cs cc x hs now q d = Some (r, d')"
  shows "r \<noteq> BeginFile_Ok \<and> d' = d \<or> (\<exists>t. r = BeginFile_Ok \<and> m \<in> mb_id ` set (mailboxes d) \<and> i \<notin> fl_id ` set (files d) \<and>
      word_of_int (sum_rows fl_total_size (\<lambda>f. fl_owner f = m) (files d)) + ts \<le> q \<and>
      insert_file_tokens i hs (file_tokens d) = Some t \<and>
      d' = d \<lparr> files := files d @ [\<lparr> fl_id = i, fl_owner = m, fl_total_size = sint ts, fl_chunk_size = uint cs,
          fl_chunk_count = uint cc, fl_expires_at = x, fl_created_at = now, fl_ready = 0 \<rparr>], file_tokens := t \<rparr>)"
  using assms unfolding begin_file_def Let_def has_key_iff if_refuses bind_eq_Some_conv option.inject prod.inject not_not
    insert_row_eq_Some
  by (elim disjE conjE exE) auto

lemma begin_file_inv:
  assumes "db_inv d" "begin_file m i ts cs cc x hs now q d = Some (r, d')"
  shows "db_inv d'"
  using begin_file_cases [OF assms(2)]
proof (elim disjE exE conjE)
  let ?f = "\<lparr> fl_id = i, fl_owner = m, fl_total_size = sint ts, fl_chunk_size = uint cs, fl_chunk_count = uint cc,
    fl_expires_at = x, fl_created_at = now, fl_ready = 0 \<rparr>"
  fix t
  assume m: "m \<in> mb_id ` set (mailboxes d)" and i: "i \<notin> fl_id ` set (files d)"
    and t: "insert_file_tokens i hs (file_tokens d) = Some t" and d': "d' = d \<lparr> files := files d @ [?f], file_tokens := t \<rparr>"
  have "files_inv (files d @ [?f]) (file_tokens d) (mailboxes d)"
    using db_invD(7) [OF assms(1)] m i by (intro files_inv_snoc) simp_all
  then have "files_inv (files d @ [?f]) t (mailboxes d)"
    by (rule insert_file_tokens_inv [OF _ _ t]) simp
  then show ?thesis using assms(1) d' by (simp add: db_inv_def)
qed (use assms in simp)

lemma finish_file_inv: "db_inv d \<Longrightarrow> db_inv (finish_file i d)"
  by (auto simp: finish_file_def db_inv_def files_inv_def)

lemma files_inv_redeem:
  "files_inv fs t ms \<Longrightarrow> files_inv fs (update_rows P (\<lambda>t. t \<lparr> ft_redeemed := 1 \<rparr>) t) ms"
  by (auto simp: files_inv_def) (auto simp: update_rows_def)

lemma redeem_file_token_inv: "db_inv d \<Longrightarrow> redeem_file_token i h d = (r, allr, d') \<Longrightarrow> db_inv d'"
  by (auto simp: redeem_file_token_def Let_def split: option.splits if_splits
      intro!: delete_files_inv db_inv_table files_inv_redeem dest: db_invD(7))

lemma delete_file_inv: "db_inv d \<Longrightarrow> delete_file i m d = (r, d') \<Longrightarrow> db_inv d'"
  by (auto simp: delete_file_def Let_def intro: delete_files_inv)

lemma sweep_files_inv:
  assumes "db_inv d" "sweep_files now before d = (r, d')"
  shows "db_inv d'"
proof -
  have "db_inv d \<Longrightarrow> db_inv (foldl (\<lambda>d i. delete_files (\<lambda>f. fl_id f = i) d) d ids)" for ids d
    by (induction ids arbitrary: d) (simp_all add: delete_files_inv)
  with assms show ?thesis by (auto simp: sweep_files_def Let_def)
qed

lemma keyrings_inv_put:
  "keyrings_inv ks ms \<Longrightarrow> m \<in> mb_id ` set ms \<Longrightarrow> kr_mailbox_id k = m \<Longrightarrow>
   keyrings_inv (delete_rows (\<lambda>r. kr_mailbox_id r = m) ks @ [k]) ms"
  by (auto simp: keyrings_inv_def)

lemma put_keyring_inv: "db_inv d \<Longrightarrow> put_keyring m b now d = Some d' \<Longrightarrow> db_inv d'"
  by (auto simp: put_keyring_def bind_eq_Some_conv intro!: db_inv_table keyrings_inv_put dest: db_invD(8))

subsection \<open>Archives\<close>

lemma add_join_tokens:
  fixes i :: bytes
  defines "add \<equiv> \<lambda>t h. insert_or_ignore (\<lambda>r. (jt_archive_id r, jt_token_hash r)) \<lparr> jt_archive_id = i, jt_token_hash = h \<rparr> t"
  shows "pk (\<lambda>r. (jt_archive_id r, jt_token_hash r)) t \<Longrightarrow> pk (\<lambda>r. (jt_archive_id r, jt_token_hash r)) (foldl add t hs)"
    and "jt_archive_id ` set (foldl add t hs) \<subseteq> insert i (jt_archive_id ` set t)"
    and "j \<noteq> i \<Longrightarrow> count_rows (\<lambda>r. jt_archive_id r = j) (foldl add t hs) = count_rows (\<lambda>r. jt_archive_id r = j) t"
    and "count_rows (\<lambda>r. jt_archive_id r = i) (foldl add t hs) \<le> count_rows (\<lambda>r. jt_archive_id r = i) t + length hs"
proof -
  have step: "jt_archive_id ` set (add t h) \<subseteq> insert i (jt_archive_id ` set t)"
    "j \<noteq> i \<Longrightarrow> count_rows (\<lambda>r. jt_archive_id r = j) (add t h) = count_rows (\<lambda>r. jt_archive_id r = j) t"
    "count_rows (\<lambda>r. jt_archive_id r = i) (add t h) \<le> Suc (count_rows (\<lambda>r. jt_archive_id r = i) t)" for t h
    by (auto simp: add_def insert_or_ignore_def count_rows_def)
  show "pk (\<lambda>r. (jt_archive_id r, jt_token_hash r)) t \<Longrightarrow> pk (\<lambda>r. (jt_archive_id r, jt_token_hash r)) (foldl add t hs)"
    by (induction hs arbitrary: t) (auto simp: add_def)
  show "jt_archive_id ` set (foldl add t hs) \<subseteq> insert i (jt_archive_id ` set t)"
  proof (induction hs arbitrary: t)
    case (Cons h hs)
    then show ?case using Cons.IH [of "add t h"] step(1) [of t h] by (simp only: foldl.simps) blast
  qed auto
  show "j \<noteq> i \<Longrightarrow> count_rows (\<lambda>r. jt_archive_id r = j) (foldl add t hs) = count_rows (\<lambda>r. jt_archive_id r = j) t"
    by (induction hs arbitrary: t) (simp_all add: step(2))
  show "count_rows (\<lambda>r. jt_archive_id r = i) (foldl add t hs) \<le> count_rows (\<lambda>r. jt_archive_id r = i) t + length hs"
  proof (induction hs arbitrary: t)
    case (Cons h hs)
    show ?case using Cons.IH [of "add t h"] step(3) [of t h] by simp
  qed simp
qed

lemma count_rows_none: "(\<And>r. r \<in> set t \<Longrightarrow> \<not> P r) \<Longrightarrow> count_rows P t = 0"
  by (simp add: count_rows_def)

lemma archive_unreferenced:
  assumes "archives_inv as ts ks es" "i \<notin> ar_id ` set as"
  shows "count_rows (\<lambda>t. jt_archive_id t = i) ts = 0" "count_rows (\<lambda>k. ak_archive_id k = i) ks = 0" "entries_of i es = []"
proof -
  have "i \<notin> jt_archive_id ` set ts" "i \<notin> ak_archive_id ` set ks" "i \<notin> an_archive_id ` set es"
    using assms unfolding archives_inv_def fk_def by blast+
  then show "count_rows (\<lambda>t. jt_archive_id t = i) ts = 0" "count_rows (\<lambda>k. ak_archive_id k = i) ks = 0" "entries_of i es = []"
    by (auto intro!: count_rows_none simp: entries_of_def filter_empty_conv)
qed

lemma archives_inv_create:
  assumes inv: "archives_inv as ts ks es" and new: "i \<notin> ar_id ` set as"
    and a: "ar_id a = i" "ar_head_number a = 0" "ar_bytes a = 0" "ar_member_count a = int (length hs)"
  shows "archives_inv (as @ [a]) (foldl (\<lambda>t h. insert_or_ignore (\<lambda>r. (jt_archive_id r, jt_token_hash r))
      \<lparr> jt_archive_id = i, jt_token_hash = h \<rparr> t) ts hs) ks es" (is "archives_inv _ ?ts _ _")
proof -
  note un = archive_unreferenced [OF inv new]
  have "archive_ok ?ts ks es a"
    using add_join_tokens(4) [of i ts hs] a un by (simp add: archive_ok_def)
  moreover have "archive_ok ?ts ks es b" if "b \<in> set as" for b
  proof -
    have "ar_id b \<noteq> i" "archive_ok ts ks es b" using that new inv by (auto simp: archives_inv_def)
    then show ?thesis by (simp add: archive_ok_def add_join_tokens(3))
  qed
  moreover have "fk jt_archive_id ?ts ar_id (as @ [a])"
    using add_join_tokens(2) [of i ts hs] inv a(1) unfolding archives_inv_def fk_def by auto
  ultimately show ?thesis using inv new a(1)
    by (auto simp: archives_inv_def intro!: add_join_tokens(1))
qed

lemma create_archive_inv: "db_inv d \<Longrightarrow> create_archive i hs g now x mx d = Some (r, d') \<Longrightarrow> db_inv d'"
  by (auto simp: create_archive_def bind_eq_Some_conv db_inv_def split: if_splits intro!: archives_inv_create)

lemma count_rows_delete_less:
  assumes "r \<in> set t" "P r" "Q r"
  shows "count_rows P (delete_rows Q t) < count_rows P t"
proof -
  have "count_rows P (delete_rows Q t) = length (filter (\<lambda>r. \<not> Q r) (filter P t))"
    by (simp add: count_rows_def delete_rows_def conj_commute)
  also have "\<dots> < length (filter P t)"
    by (rule length_filter_less [of r]) (use assms in auto)
  finally show ?thesis by (simp add: count_rows_def)
qed

lemma count_rows_snoc: "count_rows P (t @ [r]) = count_rows P t + (if P r then 1 else 0)"
  by (simp add: count_rows_def)

lemma archives_inv_join:
  assumes inv: "archives_inv as ts ks es" and i: "i \<in> ar_id ` set as"
    and k: "ak_archive_id k = i" "(i, ak_key_hash k) \<notin> (\<lambda>k. (ak_archive_id k, ak_key_hash k)) ` set ks"
    and t: "t \<in> set ts" "jt_archive_id t = i" "jt_token_hash t = h"
  shows "archives_inv as (delete_rows (\<lambda>t. jt_archive_id t = i \<and> jt_token_hash t = h) ts) (ks @ [k]) es" (is "archives_inv _ ?ts _ _")
proof -
  have "archive_ok ?ts (ks @ [k]) es a" if "a \<in> set as" for a
  proof (cases "ar_id a = i")
    case True
    have "count_rows (\<lambda>t. jt_archive_id t = i) ?ts < count_rows (\<lambda>t. jt_archive_id t = i) ts"
      using t by (intro count_rows_delete_less) auto
    moreover have "archive_ok ts ks es a" using that inv by (simp add: archives_inv_def)
    ultimately show ?thesis using True k(1) by (simp add: archive_ok_def count_rows_snoc)
  next
    case False
    then have "count_rows (\<lambda>t. jt_archive_id t = ar_id a) ?ts = count_rows (\<lambda>t. jt_archive_id t = ar_id a) ts"
      by (intro count_rows_delete) auto
    moreover have "archive_ok ts ks es a" using that inv by (simp add: archives_inv_def)
    ultimately show ?thesis using False k(1) by (simp add: archive_ok_def count_rows_snoc)
  qed
  then show ?thesis using inv i k by (auto simp: archives_inv_def)
qed

lemma join_archive_cases:
  assumes "join_archive i th kh pub now d = Some (r, d')"
  shows "r \<noteq> Join_Ok \<and> d' = d \<or>
    r = Join_Ok \<and> (\<exists>a t. a \<in> set (archives d) \<and> ar_id a = i \<and> now < ar_closes_at a \<and>
      int (count_rows (\<lambda>k. ak_archive_id k = i) (archive_keys d)) < ar_member_count a \<and>
      t \<in> set (archive_join_tokens d) \<and> jt_archive_id t = i \<and> jt_token_hash t = th) \<and>
      (i, kh) \<notin> (\<lambda>k. (ak_archive_id k, ak_key_hash k)) ` set (archive_keys d) \<and>
      d' = d \<lparr> archive_keys := archive_keys d @
               [\<lparr> ak_archive_id = i, ak_key_hash = kh, ak_public_key = pub, ak_joined_at = now \<rparr>],
             archive_join_tokens := delete_rows (\<lambda>t. jt_archive_id t = i \<and> jt_token_hash t = th) (archive_join_tokens d) \<rparr>"
proof (cases "first_row (\<lambda>a. ar_id a = i) (archives d)")
  case None
  then show ?thesis using assms by (simp add: join_archive_def)
next
  case (Some a)
  then have "a \<in> set (archives d) \<and> ar_id a = i" by (rule first_row_Some)
  moreover have "r \<noteq> Join_Ok \<and> d' = d \<or>
    r = Join_Ok \<and> now < ar_closes_at a \<and> int (count_rows (\<lambda>k. ak_archive_id k = i) (archive_keys d)) < ar_member_count a \<and>
      (\<exists>t\<in>set (archive_join_tokens d). jt_archive_id t = i \<and> jt_token_hash t = th) \<and>
      (i, kh) \<notin> (\<lambda>k. (ak_archive_id k, ak_key_hash k)) ` set (archive_keys d) \<and>
      d' = d \<lparr> archive_keys := archive_keys d @
               [\<lparr> ak_archive_id = i, ak_key_hash = kh, ak_public_key = pub, ak_joined_at = now \<rparr>],
             archive_join_tokens := delete_rows (\<lambda>t. jt_archive_id t = i \<and> jt_token_hash t = th) (archive_join_tokens d) \<rparr>"
    using assms unfolding join_archive_def Let_def Some option.case if_refuses bind_eq_Some_conv option.inject prod.inject
      insert_row_eq_Some not_not has_row_iff
    by (elim disjE conjE exE) (simp_all add: not_le)
  ultimately show ?thesis by blast
qed

lemma join_archive_inv:
  assumes "db_inv d" "join_archive i th kh pub now d = Some (r, d')"
  shows "db_inv d'"
proof -
  note inv = db_invD(9) [OF assms(1)]
  from join_archive_cases [OF assms(2)] show ?thesis
  proof (elim disjE exE conjE)
    let ?k = "\<lparr> ak_archive_id = i, ak_key_hash = kh, ak_public_key = pub, ak_joined_at = now \<rparr>"
    let ?ts = "delete_rows (\<lambda>t. jt_archive_id t = i \<and> jt_token_hash t = th) (archive_join_tokens d)"
    fix a t
    assume "a \<in> set (archives d)" "ar_id a = i" "t \<in> set (archive_join_tokens d)" "jt_archive_id t = i" "jt_token_hash t = th"
      "(i, kh) \<notin> (\<lambda>k. (ak_archive_id k, ak_key_hash k)) ` set (archive_keys d)"
      and d': "d' = d \<lparr> archive_keys := archive_keys d @ [?k], archive_join_tokens := ?ts \<rparr>"
    then have "archives_inv (archives d) ?ts (archive_keys d @ [?k]) (archive_entries d)"
      by (intro archives_inv_join [OF inv, where t = t]) auto
    then show ?thesis using assms(1) d' by (simp add: db_inv_def)
  qed (use assms in simp)
qed

text \<open>An archive's numbers stay below \<^term>\<open>2 ^ 63 :: int\<close>, where a \<^verbatim>\<open>uint64_t\<close> and SQLite's signed integer agree.\<close>

abbreviation (input) "MAX_ENTRY_NUMBER \<equiv> (9223372036854775807 :: int)"

lemma next_number:
  assumes "0 \<le> n" "n < MAX_ENTRY_NUMBER"
  shows "sint (word_of_int n + 1 :: u64) = n + 1"
proof -
  have "(word_of_int n + 1 :: u64) = word_of_int (n + 1)" by simp
  moreover have "signed_take_bit 63 (n + 1) = n + 1"
    using assms by (intro signed_take_bit_int_eq_self) simp_all
  ultimately show ?thesis by (simp only: sint_sbintrunc') simp
qed

lemma archives_inv_append:
  assumes inv: "archives_inv as ts ks es" and a: "a \<in> set as" "ar_id a = i"
    and e: "an_archive_id e = i" "an_number e = ar_head_number a + 1" "an_hash e = h" "an_ciphertext e = c"
    and f: "\<And>b. ar_id (f b) = ar_id b" "\<And>b. ar_member_count (f b) = ar_member_count b"
      "\<And>b. ar_head_number (f b) = ar_head_number a + 1" "\<And>b. ar_head_hash (f b) = h"
      "\<And>b. ar_bytes (f b) = int (nat (ar_bytes a) + length c)"
  shows "archives_inv (update_rows (\<lambda>b. ar_id b = i) f as) ts ks (es @ [e])"
proof -
  have one: "b = a" if "b \<in> set as" "ar_id b = i" for b
    using that a inv pk_unique [of ar_id as b a] by (simp add: archives_inv_def)
  have ok: "archive_ok ts ks es a" using a inv by (simp add: archives_inv_def)
  then have "archive_ok ts ks (es @ [e]) (f a)"
    using a e f by (auto simp: archive_ok_def entries_of_def upto_rec2)
  moreover have "archive_ok ts ks (es @ [e]) b" if "b \<in> set as" "ar_id b \<noteq> i" for b
    using that inv e(1) by (simp add: archives_inv_def archive_ok_def entries_of_def)
  ultimately have oks: "\<forall>b\<in>set (update_rows (\<lambda>b. ar_id b = i) f as). archive_ok ts ks (es @ [e]) b"
    using one by (auto simp: update_rows_def)
  have "ar_head_number a + 1 \<notin> an_number ` set (entries_of i es)"
  proof -
    have "an_number ` set (entries_of i es) = set [1..ar_head_number a]"
      using ok a by (simp add: archive_ok_def flip: set_map)
    then show ?thesis by simp
  qed
  then have "pk (\<lambda>e. (an_archive_id e, an_number e)) (es @ [e])"
    using inv e by (auto simp: archives_inv_def entries_of_def)
  then show ?thesis using inv oks a e(1) f(1)
    by (auto simp: archives_inv_def image_update_rows intro!: pk_update_rows fk_update_parent)
qed

lemma append_entry_cases:
  assumes "append_entry i n h nh c now q d = Some (r, st, d')"
  shows "r \<noteq> Append_Ok \<and> d' = d \<or>
    r = Append_Ok \<and> (\<exists>a. a \<in> set (archives d) \<and> ar_id a = i \<and> n = word_of_int (ar_head_number a) \<and> h = ar_head_hash a \<and>
      nat (ar_bytes a) + length c \<le> q \<and> st = Some \<lparr> hs_number = n + 1, hs_hash = nh \<rparr> \<and>
      d' = d \<lparr> archive_entries := archive_entries d @ [\<lparr> an_archive_id = i, an_number = sint (n + 1), an_hash = nh,
                 an_ciphertext = c, an_appended_at = now, an_redacted = 0 \<rparr>],
             archives := update_rows (\<lambda>a. ar_id a = i) (\<lambda>b. b \<lparr> ar_head_number := sint (n + 1), ar_head_hash := nh,
                 ar_bytes := int (nat (ar_bytes a) + length c), ar_last_activity := now \<rparr>) (archives d) \<rparr>)"
proof (cases "first_row (\<lambda>a. ar_id a = i) (archives d)")
  case None
  then show ?thesis using assms by (simp add: append_entry_def)
next
  case (Some a)
  then have "a \<in> set (archives d) \<and> ar_id a = i" by (rule first_row_Some)
  then show ?thesis
    using assms unfolding append_entry_def Let_def Some option.case ArchiveState.select_convs
    by (auto simp: bind_eq_Some_conv split: if_split_asm)
qed

lemma append_entry_inv:
  assumes "db_inv d" "append_entry i n h nh c now q d = Some (r, st, d')"
    "\<forall>a\<in>set (archives d). ar_head_number a < MAX_ENTRY_NUMBER"
  shows "db_inv d'"
proof -
  note inv = db_invD(9) [OF assms(1)]
  consider "d' = d" | a where "a \<in> set (archives d)" "ar_id a = i" "n = word_of_int (ar_head_number a)"
    "d' = d \<lparr> archive_entries := archive_entries d @ [\<lparr> an_archive_id = i, an_number = sint (n + 1), an_hash = nh,
                 an_ciphertext = c, an_appended_at = now, an_redacted = 0 \<rparr>],
             archives := update_rows (\<lambda>a. ar_id a = i) (\<lambda>b. b \<lparr> ar_head_number := sint (n + 1), ar_head_hash := nh,
                 ar_bytes := int (nat (ar_bytes a) + length c), ar_last_activity := now \<rparr>) (archives d) \<rparr>"
    using append_entry_cases [OF assms(2)] by blast
  then show ?thesis
  proof cases
    case (2 a)
    have "archive_ok (archive_join_tokens d) (archive_keys d) (archive_entries d) a"
      using inv 2(1) by (simp add: archives_inv_def)
    then have "sint (n + 1) = ar_head_number a + 1"
      using assms(3) 2(1,3) by (simp only: archive_ok_def next_number)
    then show ?thesis using assms(1) unfolding 2(4) db_inv_def
      by (auto intro!: archives_inv_append [OF inv 2(1,2)])
  qed (use assms in simp)
qed

text \<open>What the redaction loop frees is never more than what the zeroed entries held.\<close>

definition held :: "bytes \<Rightarrow> archive_entry_row list \<Rightarrow> int" where
  "held i t = int (sum_list (map (\<lambda>e. length (an_ciphertext e)) (entries_of i t)))"

lemma held_Cons: "held i (e # t) = (if an_archive_id e = i then int (length (an_ciphertext e)) else 0) + held i t"
  by (simp add: held_def entries_of_def)

lemma held_nonneg [simp]: "0 \<le> held i t"
  by (simp add: held_def)

lemma redact_one:
  fixes t i h
  defines "t' \<equiv> update_rows (\<lambda>e. an_archive_id e = i \<and> an_hash e = h) (\<lambda>e. e \<lparr> an_ciphertext := [], an_redacted := 1 \<rparr>) t"
  shows "first_row (\<lambda>e. an_archive_id e = i \<and> an_hash e = h) t = Some e \<Longrightarrow> held i t' + int (length (an_ciphertext e)) \<le> held i t"
    and "held i t' \<le> held i t"
    and "j \<noteq> i \<Longrightarrow> entries_of j t' = entries_of j t"
    and "map (\<lambda>e. (an_archive_id e, an_number e, an_hash e)) t' = map (\<lambda>e. (an_archive_id e, an_number e, an_hash e)) t"
proof -
  show le: "held i t' \<le> held i t" unfolding t'_def
    by (induction t) (auto simp: held_Cons update_rows_def)
  show "first_row (\<lambda>e. an_archive_id e = i \<and> an_hash e = h) t = Some e \<Longrightarrow> held i t' + int (length (an_ciphertext e)) \<le> held i t"
    unfolding t'_def
  proof (induction t)
    case (Cons x t)
    have "held i (update_rows (\<lambda>e. an_archive_id e = i \<and> an_hash e = h) (\<lambda>e. e \<lparr> an_ciphertext := [], an_redacted := 1 \<rparr>) t) \<le> held i t"
      by (induction t) (auto simp: held_Cons update_rows_def)
    with Cons show ?case by (auto simp: held_Cons update_rows_def first_row_def split: if_splits)
  qed (simp add: first_row_def)
  show "j \<noteq> i \<Longrightarrow> entries_of j t' = entries_of j t" unfolding t'_def
    by (induction t) (auto simp: entries_of_def update_rows_def)
  show "map (\<lambda>e. (an_archive_id e, an_number e, an_hash e)) t' = map (\<lambda>e. (an_archive_id e, an_number e, an_hash e)) t"
    unfolding t'_def by (simp add: map_update_rows)
qed

lemma redact_loop_spec:
  assumes "redact_loop i hs freed t = Some (freed', t')"
  shows "held i t' + freed' \<le> held i t + freed \<and> freed \<le> freed' \<and> (\<forall>j. j \<noteq> i \<longrightarrow> entries_of j t' = entries_of j t) \<and>
    map (\<lambda>e. (an_archive_id e, an_number e, an_hash e)) t' = map (\<lambda>e. (an_archive_id e, an_number e, an_hash e)) t"
  using assms
proof (induction hs arbitrary: freed t)
  case (Cons h hs)
  let ?t = "update_rows (\<lambda>e. an_archive_id e = i \<and> an_hash e = h) (\<lambda>e. e \<lparr> an_ciphertext := [], an_redacted := 1 \<rparr>) t"
  from Cons.prems obtain e where e: "first_row (\<lambda>e. an_archive_id e = i \<and> an_hash e = h) t = Some e"
    and rest: "redact_loop i hs (freed + int (length (an_ciphertext e))) ?t = Some (freed', t')"
    by (auto split: option.splits)
  from Cons.IH [OF rest] redact_one [where t = t and i = i and h = h] e show ?case by fastforce
qed simp

lemma map_filter_key:
  assumes "map k t' = map k t" "\<And>x. P x \<longleftrightarrow> Q (k x)"
  shows "map k (filter P t') = map k (filter P t)"
proof -
  have "map k (filter P t) = filter Q (map k t)" for t
    by (simp add: filter_map comp_def flip: assms(2))
  then show ?thesis by (simp add: assms(1))
qed

lemma archive_ok_same_chain:
  assumes ok: "archive_ok ts ks es a"
    and num: "map an_number (entries_of (ar_id a) es') = map an_number (entries_of (ar_id a) es)"
    and hash: "map an_hash (entries_of (ar_id a) es') = map an_hash (entries_of (ar_id a) es)"
    and b: "ar_id b = ar_id a" "ar_head_number b = ar_head_number a" "ar_head_hash b = ar_head_hash a"
      "ar_member_count b = ar_member_count a" "held (ar_id a) es' \<le> ar_bytes b"
  shows "archive_ok ts ks es' b"
proof -
  have "an_hash (last (entries_of (ar_id a) es')) = an_hash (last (entries_of (ar_id a) es))" if "0 < ar_head_number a"
  proof -
    have "entries_of (ar_id a) es \<noteq> []" using ok that by (auto simp: archive_ok_def)
    moreover from this have "entries_of (ar_id a) es' \<noteq> []" using num by auto
    ultimately show ?thesis using hash by (metis last_map)
  qed
  then show ?thesis using ok num b by (auto simp: archive_ok_def held_def)
qed

lemma archives_inv_redact:
  assumes inv: "archives_inv as ts ks es" and loop: "redact_loop i hs 0 es = Some (freed, es')"
  shows "archives_inv (update_rows (\<lambda>a. ar_id a = i) (\<lambda>a. a \<lparr> ar_bytes := ar_bytes a - freed \<rparr>) as) ts ks es'"
proof -
  let ?key = "\<lambda>e. (an_archive_id e, an_number e, an_hash e)"
  from redact_loop_spec [OF loop] have held: "held i es' + freed \<le> held i es" and other: "\<And>j. j \<noteq> i \<Longrightarrow> entries_of j es' = entries_of j es"
    and key: "map ?key es' = map ?key es" by auto
  have "map ?key (entries_of j es') = map ?key (entries_of j es)" for j
    unfolding entries_of_def by (rule map_filter_key [OF key, where Q = "\<lambda>(a, _). a = j"]) simp
  from arg_cong [OF this, of "map (\<lambda>(_, n, _). n)"] arg_cong [OF this, of "map (\<lambda>(_, _, h). h)"]
  have same: "map an_number (entries_of j es') = map an_number (entries_of j es)"
    "map an_hash (entries_of j es') = map an_hash (entries_of j es)" for j
    by (simp_all add: comp_def)
  have "archive_ok ts ks es' (if ar_id a = i then a \<lparr> ar_bytes := ar_bytes a - freed \<rparr> else a)" if "a \<in> set as" for a
  proof -
    have ok: "archive_ok ts ks es a" using inv that by (simp add: archives_inv_def)
    then have "held (ar_id a) es \<le> ar_bytes a" by (simp add: archive_ok_def held_def)
    then have "held (ar_id a) es' \<le> (if ar_id a = i then ar_bytes a - freed else ar_bytes a)"
      using held other [of "ar_id a"] by (auto simp: held_def)
    then show ?thesis by (intro archive_ok_same_chain [OF ok same]) auto
  qed
  then have "\<forall>a\<in>set (update_rows (\<lambda>a. ar_id a = i) (\<lambda>a. a \<lparr> ar_bytes := ar_bytes a - freed \<rparr>) as). archive_ok ts ks es' a"
    unfolding update_rows_def set_map by blast
  moreover have "map (\<lambda>e. (an_archive_id e, an_number e)) es' = map (\<lambda>e. (an_archive_id e, an_number e)) es"
    "map an_archive_id es' = map an_archive_id es"
    using arg_cong [OF key, of "map (\<lambda>(a, n, _). (a, n))"] arg_cong [OF key, of "map (\<lambda>(a, n, _). a)"] by (simp_all add: comp_def)
  then have "pk (\<lambda>e. (an_archive_id e, an_number e)) es' \<longleftrightarrow> pk (\<lambda>e. (an_archive_id e, an_number e)) es"
    "fk an_archive_id es' ar_id as \<longleftrightarrow> fk an_archive_id es ar_id as"
    by (simp_all add: pk_def fk_def flip: set_map)
  ultimately show ?thesis using inv unfolding archives_inv_def
    by (intro conjI pk_update_rows fk_update_parent) simp_all
qed

lemma redact_entries_inv: "db_inv d \<Longrightarrow> redact_entries i hs d = (r, d') \<Longrightarrow> db_inv d'"
  by (auto simp: redact_entries_def db_inv_def split: if_splits option.splits intro: archives_inv_redact)

lemma delete_archive_inv: "db_inv d \<Longrightarrow> delete_archive i d = (r, d') \<Longrightarrow> db_inv d'"
  by (auto simp: delete_archive_def intro: delete_archives_inv)

lemma sweep_inv: "db_inv d \<Longrightarrow> sweep now d = (r, d') \<Longrightarrow> db_inv d'"
  by (auto simp: sweep_def Let_def intro!: delete_archives_inv) (auto simp: db_inv_def envelopes_inv_delete)

section \<open>Every database a relay can have\<close>

text \<open>
  One call of a method that may change the database, with any arguments, in the order the
  class declares them.  An exception leaves the database as it was and is no step.
\<close>

inductive store_step :: "relay_db \<Rightarrow> relay_db \<Rightarrow> bool" where
  step_add_invite: "add_invite h x d = Some d' \<Longrightarrow> store_step d d'"
| step_add_member_invite: "add_member_invite m h now x mo mt d = Some (r, d') \<Longrightarrow> store_step d d'"
| step_cancel_member_invite: "cancel_member_invite m h d = (b, d') \<Longrightarrow> store_step d d'"
| step_delete_mailbox: "delete_mailbox m d = (b, d') \<Longrightarrow> store_step d d'"
| step_register_mailbox: "register_mailbox h m k t now mx d = Some (rr, d') \<Longrightarrow> store_step d d'"
| step_add_token: "add_token m h now mx d = Some (tr, d') \<Longrightarrow> store_step d d'"
| step_revoke_token: "revoke_token m h d = (b, d') \<Longrightarrow> store_step d d'"
| step_deposit: "deposit m i e h now ttl q d = Some (dr, d') \<Longrightarrow> store_step d d'"
| step_ack: "ack m ids d = (n, d') \<Longrightarrow> store_step d d'"
| step_put_prekeys: "put_prekeys m rep g ps now mo d = Some (pr, d') \<Longrightarrow> store_step d d'"
| step_take_prekey: "take_prekey m h now per d = (tk, d') \<Longrightarrow> store_step d d'"
| step_sweep_prekey_takes: "store_step d (sweep_prekey_takes now d)"
| step_begin_file: "begin_file m i sz cs cc x hs now fq d = Some (br, d') \<Longrightarrow> store_step d d'"
| step_finish_file: "store_step d (finish_file i d)"
| step_redeem_file_token: "redeem_file_token i h d = (rd, b, d') \<Longrightarrow> store_step d d'"
| step_delete_file: "delete_file i m d = (b, d') \<Longrightarrow> store_step d d'"
| step_sweep_files: "sweep_files now before d = (ids, d') \<Longrightarrow> store_step d d'"
| step_put_keyring: "put_keyring m kb now d = Some d' \<Longrightarrow> store_step d d'"
| step_create_archive: "create_archive i hs g now x mx d = Some (cr, d') \<Longrightarrow> store_step d d'"
| step_join_archive: "join_archive i h kh pub now d = Some (jr, d') \<Longrightarrow> store_step d d'"
| step_append_entry: "append_entry i num h nh c now q d = Some (ar, st, d') \<Longrightarrow>
    \<forall>a\<in>set (archives d). ar_head_number a < MAX_ENTRY_NUMBER \<Longrightarrow> store_step d d'"
| step_delete_archive: "delete_archive i d = (b, d') \<Longrightarrow> store_step d d'"
| step_redact_entries: "redact_entries i hs d = (re, d') \<Longrightarrow> store_step d d'"
| step_sweep: "sweep now d = (sw, d') \<Longrightarrow> store_step d d'"

lemmas store_op_inv = add_invite_inv add_member_invite_inv cancel_member_invite_inv delete_mailbox_inv register_mailbox_inv
  add_token_inv revoke_token_inv deposit_inv ack_inv put_prekeys_inv take_prekey_inv sweep_prekey_takes_inv begin_file_inv
  finish_file_inv redeem_file_token_inv delete_file_inv sweep_files_inv put_keyring_inv create_archive_inv join_archive_inv
  append_entry_inv delete_archive_inv redact_entries_inv sweep_inv

lemma store_step_inv: "store_step d d' \<Longrightarrow> db_inv d \<Longrightarrow> db_inv d'"
  by (induction rule: store_step.induct) (blast intro: store_op_inv)+

inductive store_reachable :: "relay_db \<Rightarrow> bool" where
  reachable_empty: "store_reachable empty_db"
| reachable_step: "store_reachable d \<Longrightarrow> store_step d d' \<Longrightarrow> store_reachable d'"

lemma store_reachable_db_inv: "store_reachable d \<Longrightarrow> db_inv d"
  by (induction rule: store_reachable.induct) (auto simp: db_inv_empty intro: store_step_inv)

end
