(* ===== verification/Relay_Store_Spec.thy ===== *)
theory Relay_Store_Spec
  imports Relay_Store_Inv
begin

text \<open>
  What the methods of the store promise to their callers, on a database that satisfies the
  invariant: registration spends an invite, the quota bounds what a mailbox holds, a queue
  is read in order and only its owner's acknowledgements empty it, one-time things
  (invites, prekeys, download tokens, join tokens) serve once, and an archive grows by
  compare and swap only.
\<close>

section \<open>Envelopes in arrival order\<close>

lemma sorted_filter_seq:
  assumes "sorted_wrt (\<lambda>e f. en_seq e < en_seq f) t"
  shows "sort_key en_seq (filter P t) = filter P t"
proof (rule sort_key_id_if_sorted)
  have "sorted_wrt (\<lambda>e f. en_seq e < en_seq f) (filter P t)" using assms by (rule sorted_wrt_filter)
  then have "sorted_wrt (\<le>) (map en_seq (filter P t))"
    unfolding sorted_wrt_map by (rule sorted_wrt_mono_rel [rotated]) simp
  then show "sorted (map en_seq (filter P t))" .
qed

definition queue :: "bytes \<Rightarrow> int \<Rightarrow> relay_db \<Rightarrow> envelope_row list" where
  "queue m now d = filter (\<lambda>e. en_mailbox_id e = m \<and> en_expires_at e > now) (envelopes d)"

lemma fetch_queue:
  assumes "db_inv d"
  shows "fetch m after now limit d = map stored_of (take limit (filter (\<lambda>e. en_seq e > after) (queue m now d)))"
proof -
  have "sorted_wrt (\<lambda>e f. en_seq e < en_seq f) (envelopes d)"
    using db_invD(4) [OF assms] by (simp add: envelopes_inv_def)
  from sorted_filter_seq [OF this] show ?thesis
    by (simp add: fetch_def queue_def filter_filter conj_ac)
qed

lemma queue_sorted: "db_inv d \<Longrightarrow> sorted_wrt (\<lambda>e f. en_seq e < en_seq f) (queue m now d)"
  unfolding queue_def by (intro sorted_wrt_filter) (simp add: db_inv_def envelopes_inv_def)

lemma queue_deposit:
  assumes "deposit m i e h now ttl q d = Some (Deposit_Ok, d')"
  shows "queue m' now' d' = queue m' now' d @ (if m' = m \<and> now' < now + uint ttl
    then [\<lparr> en_seq = envelope_seq d + 1, en_id = i, en_mailbox_id = m, en_size = int (length e), en_envelope = e,
            en_deposited_at = now, en_expires_at = now + uint ttl, en_token_hash = Some h \<rparr>] else [])"
  using assms by (auto simp: deposit_def Let_def bind_eq_Some_conv queue_def split: if_splits)

text \<open>The bytes a mailbox's unexpired envelopes take.\<close>

definition live_bytes :: "bytes \<Rightarrow> int \<Rightarrow> relay_db \<Rightarrow> nat" where
  "live_bytes m now d = sum_list (map (\<lambda>e. length (en_envelope e)) (queue m now d))"

lemma int_sum_list: "int (sum_list (map f xs)) = sum_list (map (\<lambda>x. int (f x)) xs)"
  by (induction xs) simp_all

lemma live_bytes_sum:
  assumes "db_inv d"
  shows "sum_rows en_size (\<lambda>e. en_mailbox_id e = m \<and> en_expires_at e > now) (envelopes d) = int (live_bytes m now d)"
proof -
  have "\<forall>e\<in>set (envelopes d). en_size e = int (length (en_envelope e))"
    using db_invD(4) [OF assms] by (simp add: envelopes_inv_def)
  then show ?thesis
    by (auto simp: sum_rows_def live_bytes_def queue_def int_sum_list intro!: arg_cong [where f = sum_list])
qed

lemma deposit_cases:
  assumes "db_inv d"
  shows "deposit m i e h now ttl q d =
    (if live_bytes m now d + length e > q then Some (MailboxFull, d)
     else if m \<notin> mb_id ` set (mailboxes d) \<or> i \<in> en_id ` set (envelopes d) then None
     else Some (Deposit_Ok, d \<lparr> envelopes := envelopes d @ [\<lparr> en_seq = envelope_seq d + 1, en_id = i, en_mailbox_id = m,
       en_size = int (length e), en_envelope = e, en_deposited_at = now, en_expires_at = now + uint ttl,
       en_token_hash = Some h \<rparr>], envelope_seq := envelope_seq d + 1 \<rparr>))"
  by (simp add: deposit_def live_bytes_sum [OF assms] Let_def require_def insert_row_def has_key_iff del: has_row_iff)

section \<open>Acknowledgement\<close>

lemma ack_loop_spec:
  "ack_loop m ids n d = (n', d') \<Longrightarrow>
   d' = d \<lparr> envelopes := delete_rows (\<lambda>e. en_mailbox_id e = m \<and> en_id e \<in> set ids) (envelopes d) \<rparr> \<and>
   n' + length (envelopes d') = n + length (envelopes d)"
proof (induction ids arbitrary: n d)
  case Nil
  then show ?case by (auto simp: delete_rows_def)
next
  case (Cons i ids)
  let ?P = "\<lambda>e. en_mailbox_id e = m \<and> en_id e = i"
  have "ack_loop m ids (n + count_rows ?P (envelopes d)) (d \<lparr> envelopes := delete_rows ?P (envelopes d) \<rparr>) = (n', d')"
    using Cons.prems by (simp add: Let_def)
  from Cons.IH [OF this] length_delete_rows [of ?P "envelopes d"] show ?case
    by (auto simp: delete_rows_def conj_commute intro!: filter_cong arg_cong [where f = "\<lambda>t. d \<lparr> envelopes := t \<rparr>"])
qed

lemma queue_ack:
  assumes "ack m ids d = (n, d')"
  shows "queue m' now d' = (if m' = m then filter (\<lambda>e. en_id e \<notin> set ids) (queue m now d) else queue m' now d)"
    and "n + length (envelopes d') = length (envelopes d)"
  using ack_loop_spec [OF assms [unfolded ack_def]]
  by (auto simp: queue_def delete_rows_def conj_ac intro!: filter_cong)

section \<open>Registration\<close>

lemma access_key_iff:
  assumes "db_inv d"
  shows "access_key m d = Some k \<longleftrightarrow> (\<exists>r\<in>set (mailboxes d). mb_id r = m \<and> mb_access_public_key r = k)"
  using first_row_pk [OF db_invD(2) [OF assms], of m] by (auto simp: access_key_def)

lemma no_mailbox_no_token:
  assumes "db_inv d" "m \<notin> mb_id ` set (mailboxes d)"
  shows "m \<notin> tk_mailbox_id ` set (tokens d)"
  using db_invD(3) [OF assms(1)] assms(2) by (auto simp: tokens_inv_def fk_def)

lemma first_invite:
  assumes "db_inv d"
  shows "first_row (\<lambda>i. iv_hash i = h) (invites d) = Some i \<longleftrightarrow> i \<in> set (invites d) \<and> iv_hash i = h"
  by (rule first_row_pk [OF db_invD(1) [OF assms]])

text \<open>Every branch of registration; under the invariant none of its inserts can fail.\<close>

lemma register_mailbox_cases:
  assumes "db_inv d"
  shows "register_mailbox h m k t now mx d =
    (case first_row (\<lambda>i. iv_hash i = h) (invites d) of
       None \<Rightarrow> Some (BadInvite, d)
     | Some i \<Rightarrow>
        if iv_expires_at i \<le> now then Some (BadInvite, d)
        else if length (mailboxes d) \<ge> mx then Some (Register_LimitReached, d)
        else if m \<in> mb_id ` set (mailboxes d) then Some (MailboxExists, d)
        else Some (Register_Ok, d \<lparr>
          mailboxes := mailboxes d @ [\<lparr> mb_id = m, mb_access_public_key = k, mb_created_at = now,
            mb_invited_by = (if column_blob (iv_issued_by i) = [] then None else Some (column_blob (iv_issued_by i))) \<rparr>],
          tokens := tokens d @ [\<lparr> tk_mailbox_id = m, tk_hash = t, tk_created_at = now \<rparr>],
          invites := delete_rows (\<lambda>i. iv_hash i = h) (invites d) \<rparr>))"
proof -
  have "\<not> has_row (\<lambda>s. tk_mailbox_id s = m \<and> tk_hash s = t) (tokens d)" if "m \<notin> mb_id ` set (mailboxes d)"
    using no_mailbox_no_token [OF assms that] by auto
  then show ?thesis
    by (simp add: register_mailbox_def Let_def insert_row_def has_key_iff count_rows_def del: has_row_iff
        split: option.split)
qed

section \<open>Prekeys\<close>

lemma oldest_one_time_spec:
  assumes "oldest_one_time m d = Some r"
  shows "r \<in> set (prekeys d) \<and> pk_mailbox_id r = m \<and> pk_last_resort r = 0 \<and>
    (\<forall>s\<in>set (prekeys d). pk_mailbox_id s = m \<and> pk_last_resort s = 0 \<longrightarrow> pk_created_at r \<le> pk_created_at s)"
proof -
  let ?t = "filter (\<lambda>r. pk_mailbox_id r = m \<and> pk_last_resort r = 0) (prekeys d)"
  obtain rs where rs: "sort_key pk_created_at ?t = r # rs"
    using assms by (auto simp: oldest_one_time_def split: list.splits)
  have "set (r # rs) = set ?t" using set_sort [of pk_created_at ?t] unfolding rs .
  moreover have "sorted (map pk_created_at (r # rs))" using sorted_sort_key [of pk_created_at ?t] unfolding rs .
  then have "\<forall>s\<in>set (r # rs). pk_created_at r \<le> pk_created_at s" by simp
  ultimately have "r \<in> set ?t" "\<forall>s\<in>set ?t. pk_created_at r \<le> pk_created_at s" by (metis list.set_intros(1), metis)
  then show ?thesis by simp
qed

lemma oldest_one_time_None: "oldest_one_time m d = None \<longleftrightarrow> (\<forall>r\<in>set (prekeys d). pk_mailbox_id r = m \<longrightarrow> pk_last_resort r \<noteq> 0)"
proof -
  let ?t = "filter (\<lambda>r. pk_mailbox_id r = m \<and> pk_last_resort r = 0) (prekeys d)"
  have "oldest_one_time m d = None \<longleftrightarrow> length (sort_key pk_created_at ?t) = 0"
    by (simp only: oldest_one_time_def length_0_conv) (simp split: list.split)
  then show ?thesis by (auto simp: filter_empty_conv)
qed

lemma oldest_one_time_takes [simp]: "oldest_one_time m (d \<lparr> prekey_takes := t \<rparr>) = oldest_one_time m d"
  by (simp add: oldest_one_time_def)

lemma last_resort_row_takes [simp]: "last_resort_row m (d \<lparr> prekey_takes := t \<rparr>) = last_resort_row m d"
  by (simp add: last_resort_row_def)

definition takes_of :: "bytes \<Rightarrow> int \<Rightarrow> relay_db \<Rightarrow> int" where
  "takes_of token_hash hour d =
    (case first_row (\<lambda>r. ta_token_hash r = token_hash \<and> ta_hour r = hour) (prekey_takes d) of None \<Rightarrow> 0 | Some r \<Rightarrow> ta_count r)"

lemma first_row_Cons: "first_row P (r # t) = (if P r then Some r else first_row P t)"
  by (simp add: first_row_def)

lemma first_row_update:
  "(\<And>r. P r \<Longrightarrow> P (f r)) \<Longrightarrow> first_row P (update_rows P f t) = map_option f (first_row P t)"
  by (induction t) (auto simp: first_row_def update_rows_def)

lemma takes_of_count:
  "takes_of h x (d \<lparr> prekey_takes := count_take h x (prekey_takes d) \<rparr>) = takes_of h x d + 1"
proof (cases "first_row (\<lambda>r. ta_token_hash r = h \<and> ta_hour r = x) (prekey_takes d)")
  case None
  moreover from this have "\<not> has_row (\<lambda>r. ta_token_hash r = h \<and> ta_hour r = x) (prekey_takes d)"
    by (simp add: first_row_None)
  ultimately show ?thesis
    by (simp add: takes_of_def count_take_def Let_def first_row_snoc del: has_row_iff)
next
  case (Some r)
  from first_row_Some [OF this] have "has_row (\<lambda>r. ta_token_hash r = h \<and> ta_hour r = x) (prekey_takes d)"
    unfolding has_row_iff by blast
  then show ?thesis using Some
    by (simp add: takes_of_def count_take_def Let_def first_row_update del: has_row_iff)
qed

section \<open>Attachments and archives\<close>

lemma first_file_token:
  assumes "db_inv d"
  shows "first_row (\<lambda>t. ft_file_id t = i \<and> ft_token_hash t = h) (file_tokens d) = Some t \<longleftrightarrow>
    t \<in> set (file_tokens d) \<and> ft_file_id t = i \<and> ft_token_hash t = h"
  using first_row_pk [of "\<lambda>t. (ft_file_id t, ft_token_hash t)" "file_tokens d" "(i, h)" t] db_invD(7) [OF assms]
  by (simp add: files_inv_def)

lemma first_archive:
  assumes "db_inv d"
  shows "first_row (\<lambda>a. ar_id a = i) (archives d) = Some a \<longleftrightarrow> a \<in> set (archives d) \<and> ar_id a = i"
  by (rule first_row_pk) (use db_invD(9) [OF assms] in \<open>simp add: archives_inv_def\<close>)

lemma archive_ok_of: "db_inv d \<Longrightarrow> a \<in> set (archives d) \<Longrightarrow> archive_ok (archive_join_tokens d) (archive_keys d) (archive_entries d) a"
  using db_invD(9) by (auto simp: archives_inv_def)

text \<open>Downloads of a file still to come.\<close>

definition unredeemed :: "bytes \<Rightarrow> relay_db \<Rightarrow> bytes set" where
  "unredeemed i d = ft_token_hash ` {t \<in> set (file_tokens d). ft_file_id t = i \<and> ft_redeemed t = 0}"

lemma redeemed_rows:
  "{t \<in> set (update_rows P (\<lambda>t. t \<lparr> ft_redeemed := 1 \<rparr>) ts). Q t \<and> ft_redeemed t = 0} =
   {t \<in> set ts. \<not> P t \<and> Q t \<and> ft_redeemed t = 0}"
  unfolding set_update_rows by auto

lemma redeem_ok_cases:
  assumes "db_inv d" "redeem_file_token i h d = (Redeem_Ok, gone, d')"
  shows "i \<in> fl_id ` set (files d)" "h \<in> unredeemed i d"
    "gone \<longleftrightarrow> unredeemed i d = {h}"
    "\<not> gone \<Longrightarrow> unredeemed i d' = unredeemed i d - {h} \<and> files d' = files d"
    "gone \<Longrightarrow> i \<notin> fl_id ` set (files d') \<and> i \<notin> ft_file_id ` set (file_tokens d')"
proof -
  let ?P = "\<lambda>t. ft_file_id t = i \<and> ft_token_hash t = h"
  let ?ts = "update_rows ?P (\<lambda>t. t \<lparr> ft_redeemed := 1 \<rparr>) (file_tokens d)"
  let ?d = "d \<lparr> file_tokens := ?ts \<rparr>"
  have i: "has_row (\<lambda>f. fl_id f = i) (files d)"
    by (rule ccontr) (use assms(2) in \<open>simp add: redeem_file_token_def del: has_row_iff\<close>)
  obtain t where t: "first_row ?P (file_tokens d) = Some t" "ft_redeemed t = 0"
  proof (cases "first_row ?P (file_tokens d)")
    case None
    then show thesis using assms(2) i by (simp add: redeem_file_token_def del: has_row_iff)
  next
    case (Some t)
    then show thesis using assms(2) i that [OF Some] by (cases "ft_redeemed t = 0") (simp_all add: redeem_file_token_def del: has_row_iff)
  qed
  have res: "gone \<longleftrightarrow> count_rows (\<lambda>t. ft_file_id t = i \<and> ft_redeemed t = 0) ?ts = 0"
      "d' = (if gone then delete_files (\<lambda>f. fl_id f = i) ?d else ?d)"
    using assms(2) i t by (simp_all add: redeem_file_token_def Let_def del: has_row_iff split: if_split_asm)
  from i show fi: "i \<in> fl_id ` set (files d)" by (simp only: has_key_iff)
  from t show h: "h \<in> unredeemed i d" by (auto simp: unredeemed_def first_file_token [OF assms(1)])
  have left: "unredeemed i ?d = unredeemed i d - {h}"
    by (simp add: unredeemed_def redeemed_rows) blast
  have "count_rows (\<lambda>t. ft_file_id t = i \<and> ft_redeemed t = 0) ?ts = 0 \<longleftrightarrow> unredeemed i ?d = {}"
    by (auto simp: count_rows_def unredeemed_def filter_empty_conv)
  with left h res(1) show g: "gone \<longleftrightarrow> unredeemed i d = {h}" by auto
  show "\<not> gone \<Longrightarrow> unredeemed i d' = unredeemed i d - {h} \<and> files d' = files d" using res(2) left by simp
  show "gone \<Longrightarrow> i \<notin> fl_id ` set (files d') \<and> i \<notin> ft_file_id ` set (file_tokens d')"
    using res(2) fi by (auto simp: delete_files_def)
qed

lemma append_ok_cases:
  assumes "db_inv d" "append_entry i n h nh c now q d = Some (Append_Ok, st, d')"
    "\<forall>a\<in>set (archives d). ar_head_number a < MAX_ENTRY_NUMBER"
  obtains a where "a \<in> set (archives d)" "ar_id a = i" "n = word_of_int (ar_head_number a)" "h = ar_head_hash a"
    "nat (ar_bytes a) + length c \<le> q" "sint (n + 1) = ar_head_number a + 1"
    "d' = d \<lparr> archive_entries := archive_entries d @ [\<lparr> an_archive_id = i, an_number = sint (n + 1), an_hash = nh,
                 an_ciphertext = c, an_appended_at = now, an_redacted = 0 \<rparr>],
             archives := update_rows (\<lambda>a. ar_id a = i) (\<lambda>b. b \<lparr> ar_head_number := sint (n + 1), ar_head_hash := nh,
                 ar_bytes := int (nat (ar_bytes a) + length c), ar_last_activity := now \<rparr>) (archives d) \<rparr>"
proof -
  from append_entry_cases [OF assms(2)] obtain a where a: "a \<in> set (archives d)" "ar_id a = i"
    "n = word_of_int (ar_head_number a)" "h = ar_head_hash a" "nat (ar_bytes a) + length c \<le> q"
    "d' = d \<lparr> archive_entries := archive_entries d @ [\<lparr> an_archive_id = i, an_number = sint (n + 1), an_hash = nh,
                 an_ciphertext = c, an_appended_at = now, an_redacted = 0 \<rparr>],
             archives := update_rows (\<lambda>a. ar_id a = i) (\<lambda>b. b \<lparr> ar_head_number := sint (n + 1), ar_head_hash := nh,
                 ar_bytes := int (nat (ar_bytes a) + length c), ar_last_activity := now \<rparr>) (archives d) \<rparr>"
    by blast
  have "sint (n + 1) = ar_head_number a + 1"
    using archive_ok_of [OF assms(1) a(1)] assms(3) a(1,3) by (simp only: archive_ok_def next_number)
  with that a show thesis by blast
qed

text \<open>The bytes of ciphertext an archive holds.\<close>

definition archive_held :: "bytes \<Rightarrow> relay_db \<Rightarrow> int" where
  "archive_held i d = held i (archive_entries d)"

lemma archive_held_le: "db_inv d \<Longrightarrow> a \<in> set (archives d) \<Longrightarrow> archive_held (ar_id a) d \<le> ar_bytes a"
  using archive_ok_of by (simp add: archive_ok_def archive_held_def held_def)

section \<open>Deleting a mailbox\<close>

lemma first_row_delete: "(\<And>r. P r \<Longrightarrow> \<not> Q r) \<Longrightarrow> first_row P (delete_rows Q t) = first_row P t"
  by (induction t) (auto simp: first_row_def delete_rows_def)

lemma filter_delete: "(\<And>r. P r \<Longrightarrow> \<not> Q r) \<Longrightarrow> filter P (delete_rows Q t) = filter P t"
  by (induction t) (auto simp: delete_rows_def)

lemma fk_delete_children:
  assumes "fk ref t k p"
  shows "delete_rows (\<lambda>r. \<exists>s\<in>set p. k s = x \<and> k s = ref r) t = delete_rows (\<lambda>r. ref r = x) t"
proof -
  have "(\<exists>s\<in>set p. k s = x \<and> k s = ref r) \<longleftrightarrow> ref r = x" if "r \<in> set t" for r
    using assms that by (fastforce simp: fk_def)
  then show ?thesis unfolding delete_rows_def by (intro filter_cong refl arg_cong [where f = Not])
qed

lemma delete_mailbox_tables:
  assumes "db_inv d" "d' = delete_mailboxes (\<lambda>r. mb_id r = m) (d \<lparr> invites := i \<rparr>)"
  shows "invites d' = i" "mailboxes d' = delete_rows (\<lambda>r. mb_id r = m) (mailboxes d)"
    "tokens d' = delete_rows (\<lambda>r. tk_mailbox_id r = m) (tokens d)"
    "envelopes d' = delete_rows (\<lambda>r. en_mailbox_id r = m) (envelopes d)"
    "prekey_pools d' = delete_rows (\<lambda>r. po_mailbox_id r = m) (prekey_pools d)"
    "prekeys d' = delete_rows (\<lambda>r. pk_mailbox_id r = m) (prekeys d)"
    "keyrings d' = delete_rows (\<lambda>r. kr_mailbox_id r = m) (keyrings d)"
    "files d' = delete_rows (\<lambda>r. fl_owner r = m) (files d)"
  using db_invD [OF assms(1)] unfolding assms(2)
  by (simp_all add: delete_mailboxes_def delete_files_def Let_def fk_delete_children tokens_inv_def envelopes_inv_def
      prekeys_inv_def keyrings_inv_def files_inv_def)

section \<open>A database with something in every table\<close>

definition sample_db :: relay_db where
  "sample_db =
    \<lparr> invites = [\<lparr> iv_hash = [8], iv_expires_at = 900, iv_issued_by = Some [1] \<rparr>],
      mailboxes = [\<lparr> mb_id = [1], mb_access_public_key = [10], mb_created_at = 5, mb_invited_by = None \<rparr>],
      tokens = [\<lparr> tk_mailbox_id = [1], tk_hash = [20], tk_created_at = 5 \<rparr>],
      envelopes = [\<lparr> en_seq = 1, en_id = [31], en_mailbox_id = [1], en_size = 2, en_envelope = [7, 7], en_deposited_at = 6,
          en_expires_at = 3606, en_token_hash = Some [20] \<rparr>,
        \<lparr> en_seq = 2, en_id = [32], en_mailbox_id = [1], en_size = 1, en_envelope = [8], en_deposited_at = 7,
          en_expires_at = 107, en_token_hash = Some [20] \<rparr>],
      envelope_seq = 2,
      prekey_pools = [\<lparr> po_mailbox_id = [1], po_generation = [40] \<rparr>],
      prekeys = [\<lparr> pk_mailbox_id = [1], pk_id = [41], pk_blob = [42], pk_last_resort = 0, pk_created_at = 6 \<rparr>,
        \<lparr> pk_mailbox_id = [1], pk_id = [43], pk_blob = [44], pk_last_resort = 1, pk_created_at = 6 \<rparr>],
      prekey_takes = [],
      files = [\<lparr> fl_id = [50], fl_owner = [1], fl_total_size = 5, fl_chunk_size = 4, fl_chunk_count = 2, fl_expires_at = 400,
          fl_created_at = 6, fl_ready = 1 \<rparr>],
      file_tokens = [\<lparr> ft_file_id = [50], ft_token_hash = [51], ft_redeemed = 0 \<rparr>,
        \<lparr> ft_file_id = [50], ft_token_hash = [52], ft_redeemed = 0 \<rparr>],
      keyrings = [\<lparr> kr_mailbox_id = [1], kr_blob = [55], kr_updated_at = 6 \<rparr>],
      archives = [\<lparr> ar_id = [60], ar_member_count = 2, ar_created_at = 5, ar_closes_at = 500, ar_head_number = 1,
          ar_head_hash = [64], ar_bytes = 2, ar_last_activity = 7 \<rparr>],
      archive_join_tokens = [\<lparr> jt_archive_id = [60], jt_token_hash = [62] \<rparr>],
      archive_keys = [\<lparr> ak_archive_id = [60], ak_key_hash = [71], ak_public_key = [72], ak_joined_at = 6 \<rparr>],
      archive_entries = [\<lparr> an_archive_id = [60], an_number = 1, an_hash = [64], an_ciphertext = [65, 66], an_appended_at = 7,
          an_redacted = 0 \<rparr>] \<rparr>"

text \<open>The calls that lead to it, the last of them an append.\<close>

definition sample_before_append :: relay_db where
  "sample_before_append = sample_db \<lparr> archive_entries := [],
     archives := [\<lparr> ar_id = [60], ar_member_count = 2, ar_created_at = 5, ar_closes_at = 500, ar_head_number = 0,
       ar_head_hash = [63], ar_bytes = 0, ar_last_activity = 5 \<rparr>] \<rparr>"

definition sample_steps :: "relay_db option" where
  "sample_steps =
    do { d \<leftarrow> add_invite [9] 100 empty_db;
         (_, d) \<leftarrow> register_mailbox [9] [1] [10] [20] 5 1000 d;
         (_, d) \<leftarrow> add_member_invite [1] [8] 6 900 3 10 d;
         (_, d) \<leftarrow> deposit [1] [31] [7, 7] [20] 6 3600 1000 d;
         (_, d) \<leftarrow> deposit [1] [32] [8] [20] 7 100 1000 d;
         (_, d) \<leftarrow> put_prekeys [1] True [40] [\<lparr> pi_id = [41], pi_last_resort = False, pi_blob = [42] \<rparr>,
                    \<lparr> pi_id = [43], pi_last_resort = True, pi_blob = [44] \<rparr>] 6 200 d;
         (_, d) \<leftarrow> begin_file [1] [50] 5 4 2 400 [[51], [52]] 6 1000 d;
         d \<leftarrow> put_keyring [1] [55] 6 (finish_file [50] d);
         (_, d) \<leftarrow> create_archive [60] [[61], [62]] [63] 5 500 1000 d;
         (_, d) \<leftarrow> join_archive [60] [61] [71] [72] 6 d;
         Some d }"

lemma sample_steps_eq: "sample_steps = Some sample_before_append"
  by code_simp

lemma sample_append:
  "append_entry [60] 0 [63] [64] [65, 66] 7 1000 sample_before_append =
     Some (Append_Ok, Some \<lparr> hs_number = 1, hs_hash = [64] \<rparr>, sample_db)"
  by code_simp

lemma sample_reachable: "store_reachable sample_db"
proof -
  obtain d1 r2 d2 r3 d3 r4 d4 r5 d5 r6 d6 r7 d7 d8 r9 d9 r10 where steps:
    "add_invite [9] 100 empty_db = Some d1" "register_mailbox [9] [1] [10] [20] 5 1000 d1 = Some (r2, d2)"
    "add_member_invite [1] [8] 6 900 3 10 d2 = Some (r3, d3)" "deposit [1] [31] [7, 7] [20] 6 3600 1000 d3 = Some (r4, d4)"
    "deposit [1] [32] [8] [20] 7 100 1000 d4 = Some (r5, d5)"
    "put_prekeys [1] True [40] [\<lparr> pi_id = [41], pi_last_resort = False, pi_blob = [42] \<rparr>,
       \<lparr> pi_id = [43], pi_last_resort = True, pi_blob = [44] \<rparr>] 6 200 d5 = Some (r6, d6)"
    "begin_file [1] [50] 5 4 2 400 [[51], [52]] 6 1000 d6 = Some (r7, d7)" "put_keyring [1] [55] 6 (finish_file [50] d7) = Some d8"
    "create_archive [60] [[61], [62]] [63] 5 500 1000 d8 = Some (r9, d9)"
    "join_archive [60] [61] [71] [72] 6 d9 = Some (r10, sample_before_append)"
    using sample_steps_eq unfolding sample_steps_def bind_eq_Some_conv by (elim exE conjE) (simp add: split_paired_all bind_eq_Some_conv, metis)
  note next_step = reachable_step [rotated]
  have "store_reachable sample_before_append"
    by (rule next_step [OF step_join_archive [OF steps(10)]], rule next_step [OF step_create_archive [OF steps(9)]],
      rule next_step [OF step_put_keyring [OF steps(8)]], rule next_step [OF step_finish_file],
      rule next_step [OF step_begin_file [OF steps(7)]], rule next_step [OF step_put_prekeys [OF steps(6)]],
      rule next_step [OF step_deposit [OF steps(5)]], rule next_step [OF step_deposit [OF steps(4)]],
      rule next_step [OF step_add_member_invite [OF steps(3)]], rule next_step [OF step_register_mailbox [OF steps(2)]],
      rule next_step [OF step_add_invite [OF steps(1)]], rule reachable_empty)
  moreover have "\<forall>a\<in>set (archives sample_before_append). ar_head_number a < MAX_ENTRY_NUMBER"
    by (simp add: sample_before_append_def)
  ultimately show ?thesis using step_append_entry [OF sample_append] by (blast intro: reachable_step)
qed

lemma sample_inv: "db_inv sample_db"
  by (rule store_reachable_db_inv [OF sample_reachable])

section \<open>What the store promises\<close>

text \<open>
  C1: every database a relay can reach by any sequence of method calls satisfies the invariant:
  keys are unique, nothing refers to a removed mailbox, file or archive, envelopes are in
  arrival order with their true sizes, a mailbox has at most one last-resort prekey, and every
  archive's entries are numbered 1 to its head without a gap, with no more keys and tokens than
  members.
\<close>

theorem store_invariant: "store_reachable d \<Longrightarrow> db_inv d"
  by (rule store_reachable_db_inv)

theorem store_invariant_witness: "db_inv sample_db \<and> length (envelopes sample_db) = 2"
  using store_invariant [OF sample_reachable] by (simp add: sample_db_def)

text \<open>
  C14: a successful registration creates exactly the mailbox asked for, with its key and its first
  send token, within the relay's limit, and spends the invite: whoever presents it next is refused.
\<close>

theorem register_spends_invite:
  assumes "db_inv d" "register_mailbox h m k t now mx d = Some (Register_Ok, d')"
  shows "access_key m d = None \<and> access_key m d' = Some k \<and> token_valid m t d' \<and>
    mailbox_count d' = mailbox_count d + 1 \<and> mailbox_count d' \<le> mx \<and>
    (\<forall>m'. m' \<noteq> m \<longrightarrow> access_key m' d' = access_key m' d) \<and>
    register_mailbox h m2 k2 t2 now2 mx2 d' = Some (BadInvite, d')"
proof -
  have inv': "db_inv d'" by (rule register_mailbox_inv [OF assms])
  obtain i where i: "m \<notin> mb_id ` set (mailboxes d)" "length (mailboxes d) < mx"
    "d' = d \<lparr> mailboxes := mailboxes d @ [\<lparr> mb_id = m, mb_access_public_key = k, mb_created_at = now, mb_invited_by = i \<rparr>],
       tokens := tokens d @ [\<lparr> tk_mailbox_id = m, tk_hash = t, tk_created_at = now \<rparr>],
       invites := delete_rows (\<lambda>i. iv_hash i = h) (invites d) \<rparr>"
    using assms(2) unfolding register_mailbox_cases [OF assms(1)]
    by (auto split: option.splits if_split_asm)
  have "access_key m d = None" using i(1) by (auto simp: access_key_def first_row_None)
  moreover have "access_key m d' = Some k"
    unfolding access_key_iff [OF inv'] using i(3) by simp
  moreover have "access_key m' d' = access_key m' d" if "m' \<noteq> m" for m'
    using that i(3) by (simp add: access_key_def first_row_snoc split: option.split)
  moreover have "register_mailbox h m2 k2 t2 now2 mx2 d' = Some (BadInvite, d')"
    unfolding register_mailbox_cases [OF inv'] using i(3)
    by (auto simp: first_row_None split: option.split dest: first_row_Some)
  ultimately show ?thesis using i(2,3)
    by (auto simp: token_valid_def mailbox_count_def count_rows_def)
qed

theorem register_spends_invite_witness:
  "access_key [2] (snd (the (register_mailbox [8] [2] [11] [21] 6 1000 sample_db))) = Some [11]"
  using register_spends_invite [OF sample_inv, of "[8]" "[2]" "[11]" "[21]" 6 1000
      "snd (the (register_mailbox [8] [2] [11] [21] 6 1000 sample_db))"]
  by (simp add: register_mailbox_cases [OF sample_inv]) (simp add: sample_db_def first_row_def)

text \<open>
  C13: the quota.  A deposit succeeds only if the mailbox's unexpired envelopes with the new one fit
  the quota, so that afterwards they still do; the envelope is last in the queue, every
  other queue is untouched, and a refused deposit changes nothing.
\<close>

theorem deposit_within_quota:
  assumes "db_inv d" "deposit m i e h now ttl q d = Some (r, d')" "0 < ttl"
  shows "(r = Deposit_Ok \<longleftrightarrow> live_bytes m now d + length e \<le> q) \<and> (r = MailboxFull \<longrightarrow> d' = d) \<and>
    (r = Deposit_Ok \<longrightarrow> live_bytes m now d' = live_bytes m now d + length e \<and> live_bytes m now d' \<le> q \<and>
       map en_envelope (queue m now d') = map en_envelope (queue m now d) @ [e] \<and>
       (\<forall>m' now'. m' \<noteq> m \<longrightarrow> queue m' now' d' = queue m' now' d))"
proof (cases "live_bytes m now d + length e > q")
  case True
  then show ?thesis using assms(2) by (auto simp: deposit_cases [OF assms(1)])
next
  case False
  then have ok: "r = Deposit_Ok" using assms(2) by (auto simp: deposit_cases [OF assms(1)] split: if_splits)
  have "0 < uint ttl" using assms(3) by (simp add: word_less_def)
  then show ?thesis using False ok queue_deposit [OF assms(2) [unfolded ok]]
    by (auto simp: live_bytes_def)
qed

theorem deposit_within_quota_witness:
  "live_bytes [1] 8 (snd (the (deposit [1] [33] [5, 5, 5] [20] 8 60 100 sample_db))) = 6"
  using deposit_within_quota [OF sample_inv, of "[1]" "[33]" "[5, 5, 5]" "[20]" 8 60 100 Deposit_Ok
      "snd (the (deposit [1] [33] [5, 5, 5] [20] 8 60 100 sample_db))"]
  by (simp add: deposit_cases [OF sample_inv]) (simp add: sample_db_def live_bytes_def queue_def)

text \<open>
  Acknowledging removes exactly the named envelopes, and only from the mailbox that
  acknowledges: every other mailbox's queue stays as it is, the others' order is kept, and the
  count returned is the number removed.
\<close>

lemma ack_only_own_envelopes:
  assumes "ack m ids d = (n, d')"
  shows "queue m now d' = filter (\<lambda>e. en_id e \<notin> set ids) (queue m now d) \<and>
    (\<forall>m'. m' \<noteq> m \<longrightarrow> queue m' now d' = queue m' now d) \<and> n = length (envelopes d) - length (envelopes d')"
  using queue_ack(1) [OF assms, of m now] queue_ack(1) [OF assms, of _ now] queue_ack(2) [OF assms] by auto

text \<open>
  C7: a one-time prekey serves one sender.  What is handed out as one-time is the oldest of the
  mailbox's one-time prekeys and is gone afterwards, nothing else is removed, and the
  token's allowance for the hour was not yet used up and is counted; a prekey handed out as last
  resort is kept.
\<close>

theorem take_prekey_single_use:
  assumes "db_inv d" "take_prekey m h now per_hour d = (PrekeyTake_Ok b lr, d')"
  shows "\<exists>r\<in>set (prekeys d). pk_mailbox_id r = m \<and> pk_blob r = b \<and> (lr \<longleftrightarrow> pk_last_resort r = 1) \<and>
    (if lr then prekeys d' = prekeys d
     else (\<forall>s\<in>set (prekeys d). pk_mailbox_id s = m \<and> pk_last_resort s = 0 \<longrightarrow> pk_created_at r \<le> pk_created_at s) \<and>
       set (prekeys d') = set (prekeys d) - {r} \<and>
       takes_of h (now sdiv 3600) d < uint per_hour \<and> takes_of h (now sdiv 3600) d' = takes_of h (now sdiv 3600) d + 1)"
proof (cases lr)
  case True
  have "\<exists>r. last_resort_row m d = Some r \<and> pk_blob r = b \<and> prekeys d' = prekeys d"
    using assms(2) True by (auto simp: take_prekey_def Let_def split: if_split_asm option.splits)
  then obtain r where r: "last_resort_row m d = Some r" "pk_blob r = b" "prekeys d' = prekeys d" by blast
  then show ?thesis using True first_row_Some [OF r(1) [unfolded last_resort_row_def]] by (intro bexI [of _ r]) auto
next
  case False
  then obtain r where r: "oldest_one_time m d = Some r" "pk_blob r = b" "takes_of h (now sdiv 3600) d < uint per_hour"
    "d' = d \<lparr> prekey_takes := count_take h (now sdiv 3600) (prekey_takes d),
       prekeys := delete_rows (\<lambda>s. pk_mailbox_id s = m \<and> pk_id s = pk_id r) (prekeys d) \<rparr>"
    using assms(2) by (auto simp: take_prekey_def takes_of_def [symmetric] Let_def not_le split: if_split_asm option.splits)
  note spec = oldest_one_time_spec [OF r(1)]
  have "pk (\<lambda>r. (pk_mailbox_id r, pk_id r)) (prekeys d)" using db_invD(5) [OF assms(1)] by (simp add: prekeys_inv_def)
  then have one: "s = r" if "s \<in> set (prekeys d)" "pk_mailbox_id s = m" "pk_id s = pk_id r" for s
    using that spec pk_unique [of "\<lambda>r. (pk_mailbox_id r, pk_id r)" "prekeys d" s r] by simp
  have "set (prekeys d') = {s \<in> set (prekeys d). \<not> (pk_mailbox_id s = m \<and> pk_id s = pk_id r)}" using r(4) by simp
  also have "\<dots> = set (prekeys d) - {r}" using one spec by blast
  finally have "set (prekeys d') = set (prekeys d) - {r}" .
  moreover have "takes_of h (now sdiv 3600) d' = takes_of h (now sdiv 3600) d + 1"
    using takes_of_count [of h "now sdiv 3600" d] r(4) by (simp add: takes_of_def)
  ultimately show ?thesis using False r(2,3) spec by (intro bexI [of _ r]) auto
qed

theorem take_prekey_single_use_witness:
  "\<exists>r\<in>set (prekeys sample_db). pk_blob r = [42] \<and> set (prekeys (snd (take_prekey [1] [20] 7200 60 sample_db))) = set (prekeys sample_db) - {r}"
proof -
  have "take_prekey [1] [20] 7200 60 sample_db = (PrekeyTake_Ok [42] False, snd (take_prekey [1] [20] 7200 60 sample_db))"
    by code_simp
  from take_prekey_single_use [OF sample_inv this] show ?thesis by auto
qed

text \<open>
  C35: a download token is redeemed at most once.  Redeeming needs a token of this file that has not
  been used; it is then used, every other token keeps its state, a second attempt is refused, and
  the file goes exactly when the last token has been redeemed.
\<close>

theorem redeem_once:
  assumes "db_inv d" "redeem_file_token i h d = (Redeem_Ok, gone, d')"
  shows "h \<in> unredeemed i d \<and> (gone \<longleftrightarrow> unredeemed i d = {h}) \<and>
    (if gone then file_meta i d' = None else unredeemed i d' = unredeemed i d - {h} \<and> files d' = files d) \<and>
    fst (redeem_file_token i h d') = (if gone then Redeem_NoSuchFile else Redeem_AlreadyRedeemed)"
proof -
  note c = redeem_ok_cases [OF assms]
  have inv': "db_inv d'" by (rule redeem_file_token_inv [OF assms])
  have "fst (redeem_file_token i h d') = Redeem_AlreadyRedeemed" if "\<not> gone"
  proof -
    have ts: "file_tokens d' = update_rows (\<lambda>t. ft_file_id t = i \<and> ft_token_hash t = h) (\<lambda>t. t \<lparr> ft_redeemed := 1 \<rparr>) (file_tokens d)"
      using assms(2) that by (auto simp: redeem_file_token_def Let_def split: if_split_asm option.splits)
    obtain t where "first_row (\<lambda>t. ft_file_id t = i \<and> ft_token_hash t = h) (file_tokens d) = Some t"
      using c(2) by (auto simp: unredeemed_def first_file_token [OF assms(1)])
    then have "first_row (\<lambda>t. ft_file_id t = i \<and> ft_token_hash t = h) (file_tokens d') = Some (t \<lparr> ft_redeemed := 1 \<rparr>)"
      unfolding ts by (subst first_row_update) auto
    moreover have "has_row (\<lambda>f. fl_id f = i) (files d')" unfolding has_key_iff using c(1,4) that by simp
    ultimately show ?thesis by (simp add: redeem_file_token_def del: has_row_iff)
  qed
  moreover have "fst (redeem_file_token i h d') = Redeem_NoSuchFile \<and> file_meta i d' = None" if gone
  proof -
    have "\<not> has_row (\<lambda>f. fl_id f = i) (files d')" unfolding has_key_iff using c(5) that by simp
    then show ?thesis by (simp add: redeem_file_token_def file_meta_def first_row_None)
  qed
  ultimately show ?thesis using c(2,3,4) by simp
qed

theorem redeem_once_witness:
  "fst (redeem_file_token [50] [51] (snd (snd (redeem_file_token [50] [51] sample_db)))) = Redeem_AlreadyRedeemed"
proof -
  have "redeem_file_token [50] [51] sample_db = (Redeem_Ok, False, snd (snd (redeem_file_token [50] [51] sample_db)))"
    by code_simp
  from redeem_once [OF sample_inv this] show ?thesis by simp
qed

text \<open>
  C6: an archive grows by compare and swap.  As long as no archive has \<open>2 ^ 63 - 1\<close> entries, an append succeeds only against
  the current head.  It adds one row, number head plus one with the caller's hash and
  ciphertext, after the archive's earlier rows, which stay as they are to the byte; no other archive's entries change; the archive
  stays within the quota; the head moves to the new entry; and whoever appends next against the old head is refused as stale.
\<close>

theorem append_compare_and_swap:
  assumes "db_inv d" "append_entry i n h nh c now q d = Some (Append_Ok, st, d')"
    "\<forall>a\<in>set (archives d). ar_head_number a < MAX_ENTRY_NUMBER"
  shows "(\<exists>a\<in>set (archives d). ar_id a = i \<and> n = word_of_int (ar_head_number a) \<and> h = ar_head_hash a \<and>
        map an_number (entries_of i (archive_entries d')) = [1..ar_head_number a + 1]) \<and>
    entries_of i (archive_entries d') = entries_of i (archive_entries d) @
      [\<lparr> an_archive_id = i, an_number = sint (n + 1), an_hash = nh, an_ciphertext = c, an_appended_at = now, an_redacted = 0 \<rparr>] \<and>
    (\<forall>j. j \<noteq> i \<longrightarrow> entries_of j (archive_entries d') = entries_of j (archive_entries d)) \<and>
    archive_held i d' \<le> int q \<and> st = Some \<lparr> hs_number = n + 1, hs_hash = nh \<rparr> \<and>
    map_option ai_head (archive_info i t d') = st \<and>
    append_entry i n h nh2 c2 now2 q2 d' = Some (Stale, st, d')"
proof -
  have inv': "db_inv d'" by (rule append_entry_inv [OF assms])
  obtain a where a: "a \<in> set (archives d)" "ar_id a = i" "n = word_of_int (ar_head_number a)" "h = ar_head_hash a"
    "nat (ar_bytes a) + length c \<le> q" and num: "sint (n + 1) = ar_head_number a + 1"
    and d': "d' = d \<lparr> archive_entries := archive_entries d @ [\<lparr> an_archive_id = i, an_number = sint (n + 1), an_hash = nh,
                 an_ciphertext = c, an_appended_at = now, an_redacted = 0 \<rparr>],
             archives := update_rows (\<lambda>a. ar_id a = i) (\<lambda>b. b \<lparr> ar_head_number := sint (n + 1), ar_head_hash := nh,
                 ar_bytes := int (nat (ar_bytes a) + length c), ar_last_activity := now \<rparr>) (archives d) \<rparr>"
    by (rule append_ok_cases [OF assms])
  let ?b = "a \<lparr> ar_head_number := sint (n + 1), ar_head_hash := nh, ar_bytes := int (nat (ar_bytes a) + length c),
    ar_last_activity := now \<rparr>"
  have first: "first_row (\<lambda>a. ar_id a = i) (archives d) = Some a" using a by (simp add: first_archive [OF assms(1)])
  then have b: "first_row (\<lambda>a. ar_id a = i) (archives d') = Some ?b"
    unfolding d' by (simp add: first_row_update)
  then have b': "?b \<in> set (archives d')" by (simp add: first_archive [OF inv'])
  have ne: "(word_of_int (ar_head_number a) :: u64) + 1 \<noteq> word_of_int (ar_head_number a)" by simp
  have st: "st = Some \<lparr> hs_number = n + 1, hs_hash = nh \<rparr>" using append_entry_cases [OF assms(2)] by blast
  from archive_held_le [OF inv' b'] a(2) have "archive_held i d' \<le> int (nat (ar_bytes a)) + int (length c)" by simp
  then have "archive_held i d' \<le> int q" using a(5) by linarith
  moreover have "map an_number (entries_of i (archive_entries d')) = [1..ar_head_number a + 1]"
    using archive_ok_of [OF inv' b'] a(2) num by (simp add: archive_ok_def)
  moreover have "append_entry i n h nh2 c2 now2 q2 d' = Some (Stale, st, d')"
    using b a(3) ne st num by (simp add: append_entry_def)
  moreover have "map_option ai_head (archive_info i t d') = st"
    using b st by (simp add: archive_info_def Let_def)
  ultimately show ?thesis using a st d' by (auto simp: entries_of_def)
qed

theorem append_compare_and_swap_witness:
  "append_entry [60] 1 [64] [67] [68] 9 1000 (snd (snd (the (append_entry [60] 1 [64] [67] [68] 9 1000 sample_db)))) =
     Some (Stale, Some \<lparr> hs_number = 2, hs_hash = [67] \<rparr>, snd (snd (the (append_entry [60] 1 [64] [67] [68] 9 1000 sample_db))))"
proof -
  have "append_entry [60] 1 [64] [67] [68] 9 1000 sample_db =
      Some (Append_Ok, Some \<lparr> hs_number = 2, hs_hash = [67] \<rparr>, snd (snd (the (append_entry [60] 1 [64] [67] [68] 9 1000 sample_db))))"
    by code_simp
  moreover have "\<forall>a\<in>set (archives sample_db). ar_head_number a < MAX_ENTRY_NUMBER" by (simp add: sample_db_def)
  ultimately show ?thesis using append_compare_and_swap [OF sample_inv] by blast
qed

text \<open>A row that belongs to a mailbox, in any table.\<close>

definition has_rows_of :: "bytes \<Rightarrow> relay_db \<Rightarrow> bool" where
  "has_rows_of m d \<longleftrightarrow> has_row (\<lambda>r. mb_id r = m) (mailboxes d) \<or> has_row (\<lambda>r. tk_mailbox_id r = m) (tokens d) \<or>
     has_row (\<lambda>r. en_mailbox_id r = m) (envelopes d) \<or> has_row (\<lambda>r. po_mailbox_id r = m) (prekey_pools d) \<or>
     has_row (\<lambda>r. pk_mailbox_id r = m) (prekeys d) \<or> has_row (\<lambda>r. kr_mailbox_id r = m) (keyrings d) \<or>
     has_row (\<lambda>r. fl_owner r = m) (files d) \<or> has_row (\<lambda>r. iv_issued_by r = Some m) (invites d)"

lemma owned_file_tokens:
  assumes "db_inv d"
  shows "(\<exists>f\<in>set (files d). (\<exists>r\<in>set (mailboxes d). mb_id r = m \<and> mb_id r = fl_owner f) \<and> fl_id f = i) \<longleftrightarrow>
    (\<exists>f\<in>set (files d). fl_owner f = m \<and> fl_id f = i)"
proof -
  have "\<exists>r\<in>set (mailboxes d). mb_id r = fl_owner f" if "f \<in> set (files d)" for f
  proof -
    from db_invD(7) [OF assms] have "fl_owner ` set (files d) \<subseteq> mb_id ` set (mailboxes d)" by (simp add: files_inv_def fk_def)
    with that have "fl_owner f \<in> mb_id ` set (mailboxes d)" by blast
    then show ?thesis by (metis imageE)
  qed
  then have "f \<in> set (files d) \<Longrightarrow> (\<exists>r\<in>set (mailboxes d). mb_id r = m \<and> mb_id r = fl_owner f) \<longleftrightarrow> fl_owner f = m" for f by metis
  then show ?thesis by blast
qed

text \<open>
  C36: removing a mailbox takes exactly what belongs to it.  The database afterwards is the database before without the mailbox, its
  tokens, envelopes, prekeys, pool, keyring and files, the tokens of those files and the invites it issued and nobody
  used.  So no row of it is left, and every row of another mailbox, every archive, the counts of prekeys taken and the sequence of envelopes
  stay as they were; the mailboxes that joined through it stay, and still say who invited them.
\<close>

theorem delete_mailbox_exact:
  assumes "db_inv d" "delete_mailbox m d = (existed, d')"
  shows "d' = d \<lparr> invites := delete_rows (\<lambda>r. iv_issued_by r = Some m) (invites d),
      mailboxes := delete_rows (\<lambda>r. mb_id r = m) (mailboxes d), tokens := delete_rows (\<lambda>r. tk_mailbox_id r = m) (tokens d),
      envelopes := delete_rows (\<lambda>r. en_mailbox_id r = m) (envelopes d),
      prekey_pools := delete_rows (\<lambda>r. po_mailbox_id r = m) (prekey_pools d),
      prekeys := delete_rows (\<lambda>r. pk_mailbox_id r = m) (prekeys d), keyrings := delete_rows (\<lambda>r. kr_mailbox_id r = m) (keyrings d),
      files := delete_rows (\<lambda>r. fl_owner r = m) (files d),
      file_tokens := delete_rows (\<lambda>t. \<exists>f\<in>set (files d). fl_owner f = m \<and> fl_id f = ft_file_id t) (file_tokens d) \<rparr> \<and>
    \<not> has_rows_of m d' \<and> (existed \<longleftrightarrow> access_key m d \<noteq> None) \<and>
    (\<forall>m'. m' \<noteq> m \<longrightarrow> access_key m' d' = access_key m' d \<and> (\<forall>now. queue m' now d' = queue m' now d) \<and>
       get_keyring m' d' = get_keyring m' d \<and> (\<forall>h. token_valid m' h d' = token_valid m' h d))"
proof -
  have d': "d' = delete_mailboxes (\<lambda>r. mb_id r = m) (d \<lparr> invites := delete_rows (\<lambda>i. iv_issued_by i = Some m) (invites d) \<rparr>)"
    and ex: "existed \<longleftrightarrow> has_row (\<lambda>r. mb_id r = m) (mailboxes d)"
    using assms(2) by (auto simp: delete_mailbox_def Let_def count_rows_def filter_empty_conv)
  note tables = delete_mailbox_tables [OF assms(1) d']
  have "file_tokens d' = delete_rows (\<lambda>t. \<exists>f\<in>set (files d). fl_owner f = m \<and> fl_id f = ft_file_id t) (file_tokens d)"
    unfolding d' by (simp add: delete_mailboxes_def delete_files_def Let_def owned_file_tokens [OF assms(1)])
  moreover have "envelope_seq d' = envelope_seq d" "prekey_takes d' = prekey_takes d" "archives d' = archives d"
    "archive_join_tokens d' = archive_join_tokens d" "archive_keys d' = archive_keys d" "archive_entries d' = archive_entries d"
    unfolding d' by (simp_all add: delete_mailboxes_def delete_files_def Let_def)
  ultimately have "d' = d \<lparr> invites := delete_rows (\<lambda>r. iv_issued_by r = Some m) (invites d),
      mailboxes := delete_rows (\<lambda>r. mb_id r = m) (mailboxes d), tokens := delete_rows (\<lambda>r. tk_mailbox_id r = m) (tokens d),
      envelopes := delete_rows (\<lambda>r. en_mailbox_id r = m) (envelopes d),
      prekey_pools := delete_rows (\<lambda>r. po_mailbox_id r = m) (prekey_pools d),
      prekeys := delete_rows (\<lambda>r. pk_mailbox_id r = m) (prekeys d), keyrings := delete_rows (\<lambda>r. kr_mailbox_id r = m) (keyrings d),
      files := delete_rows (\<lambda>r. fl_owner r = m) (files d),
      file_tokens := delete_rows (\<lambda>t. \<exists>f\<in>set (files d). fl_owner f = m \<and> fl_id f = ft_file_id t) (file_tokens d) \<rparr>"
    by (intro relay_db.equality) (simp_all add: tables)
  moreover have "\<not> has_rows_of m d'" by (auto simp: has_rows_of_def tables)
  moreover have "existed \<longleftrightarrow> access_key m d \<noteq> None" using ex by (auto simp: access_key_def first_row_None)
  moreover have "access_key m' d' = access_key m' d \<and> (\<forall>now. queue m' now d' = queue m' now d) \<and>
       get_keyring m' d' = get_keyring m' d \<and> (\<forall>h. token_valid m' h d' = token_valid m' h d)" if "m' \<noteq> m" for m'
    using that by (auto simp: access_key_def queue_def get_keyring_def token_valid_def tables
        intro!: first_row_delete filter_delete arg_cong [where f = "map_option _"])
  ultimately show ?thesis by blast
qed

theorem delete_mailbox_exact_witness:
  "has_rows_of [1] sample_db \<and> \<not> has_rows_of [1] (snd (delete_mailbox [1] sample_db))"
proof
  show "has_rows_of [1] sample_db" by (simp add: has_rows_of_def sample_db_def)
  show "\<not> has_rows_of [1] (snd (delete_mailbox [1] sample_db))"
    using delete_mailbox_exact [OF sample_inv surjective_pairing, of "[1]"] by blast
qed

text \<open>
  Expiry is invisible to the living.  Sweeping at a time leaves no expired envelope or invite
  behind, and nothing a reader at that time or later could have seen changes: not a queue, not
  a member's unused invites, not a mailbox.
\<close>

lemma sweep_removes_only_expired:
  assumes "sweep now d = (sw, d')"
  shows "(\<forall>e\<in>set (envelopes d'). en_expires_at e > now) \<and> (\<forall>i\<in>set (invites d'). iv_expires_at i > now) \<and>
    mailboxes d' = mailboxes d \<and>
    (\<forall>t\<ge>now. queue m t d' = queue m t d \<and> unused_invites m t d' = unused_invites m t d) \<and>
    sw_envelopes sw = length (envelopes d) - length (envelopes d')"
proof -
  have "envelopes d' = delete_rows (\<lambda>e. en_expires_at e \<le> now) (envelopes d)"
    "invites d' = delete_rows (\<lambda>i. iv_expires_at i \<le> now) (invites d)" "mailboxes d' = mailboxes d"
    "sw_envelopes sw = count_rows (\<lambda>e. en_expires_at e \<le> now) (envelopes d)"
    using assms by (auto simp: sweep_def Let_def delete_archives_def)
  moreover have "length (delete_rows (\<lambda>e. en_expires_at e \<le> now) (envelopes d)) + count_rows (\<lambda>e. en_expires_at e \<le> now) (envelopes d)
      = length (envelopes d)" by (rule length_delete_rows)
  ultimately show ?thesis
    by (auto simp: queue_def unused_invites_def intro!: filter_delete arg_cong [where f = "map _"] arg_cong [where f = "sort_key _"])
qed

text \<open>
  Vouching is bounded.  After a member's invite has been issued, the member's unused invites
  are within the outstanding limit, and with the people who already joined through the member
  within the total.
\<close>

lemma member_invites_bounded:
  assumes "add_member_invite m h now x max_out max_total d = Some (r, d')"
  shows "(r = Issue_Ok \<longrightarrow> length (unused_invites m now d') \<le> max_out \<and>
      length (unused_invites m now d') + length (joined_through m d') \<le> max_total \<and> access_key m d \<noteq> None) \<and>
    (r \<noteq> Issue_Ok \<longrightarrow> d' = d)"
proof (cases "r = Issue_Ok")
  case True
  have len: "length (unused_invites m now d) = count_rows (\<lambda>i. iv_issued_by i = Some m \<and> iv_expires_at i > now) (invites d)"
    "length (joined_through m d) = count_rows (\<lambda>r. mb_invited_by r = Some m) (mailboxes d)" for d
    by (simp_all add: unused_invites_def joined_through_def count_rows_def)
  from True assms have "d' = d \<lparr> invites := invites d @ [\<lparr> iv_hash = h, iv_expires_at = x, iv_issued_by = Some m \<rparr>] \<rparr>"
    "length (unused_invites m now d) < max_out" "length (unused_invites m now d) + length (joined_through m d) < max_total"
    "\<exists>r\<in>set (mailboxes d). mb_id r = m"
    by (auto simp: add_member_invite_def Let_def bind_eq_Some_conv len split: if_split_asm)
  then show ?thesis using True by (auto simp: len count_rows_snoc access_key_def first_row_None)
next
  case False
  then show ?thesis using assms by (auto simp: add_member_invite_def Let_def bind_eq_Some_conv split: if_split_asm)
qed

text \<open>
  Joining an archive spends the join token.  The key is registered under the hash given, the
  archive was open and not full, it never has more keys than members, and the token cannot
  be used again.
\<close>

lemma join_spends_token:
  assumes "db_inv d" "join_archive i th kh pub now d = Some (Join_Ok, d')"
  shows "archive_member_key i kh d' = Some pub \<and>
    (\<exists>a\<in>set (archives d). ar_id a = i \<and> now < ar_closes_at a \<and>
       int (count_rows (\<lambda>k. ak_archive_id k = i) (archive_keys d')) \<le> ar_member_count a) \<and>
    (\<forall>kh'. kh' \<noteq> kh \<longrightarrow> archive_member_key i kh' d' = archive_member_key i kh' d) \<and>
    join_archive i th kh2 pub2 now2 d' = Some (Join_BadToken, d')"
proof -
  from join_archive_cases [OF assms(2)] obtain a where a: "a \<in> set (archives d)" "ar_id a = i" "now < ar_closes_at a"
      "int (count_rows (\<lambda>k. ak_archive_id k = i) (archive_keys d)) < ar_member_count a"
    and new: "(i, kh) \<notin> (\<lambda>k. (ak_archive_id k, ak_key_hash k)) ` set (archive_keys d)"
    and d': "d' = d \<lparr> archive_keys := archive_keys d @
               [\<lparr> ak_archive_id = i, ak_key_hash = kh, ak_public_key = pub, ak_joined_at = now \<rparr>],
             archive_join_tokens := delete_rows (\<lambda>t. jt_archive_id t = i \<and> jt_token_hash t = th) (archive_join_tokens d) \<rparr>"
    by blast
  have "first_row (\<lambda>k. ak_archive_id k = i \<and> ak_key_hash k = kh) (archive_keys d) = None"
    using new by (auto simp: first_row_None)
  then have "archive_member_key i kh d' = Some pub" using d' by (simp add: archive_member_key_def first_row_snoc)
  moreover have "archive_member_key i kh' d' = archive_member_key i kh' d" if "kh' \<noteq> kh" for kh'
    using that d' by (simp add: archive_member_key_def first_row_snoc split: option.split)
  moreover have "join_archive i th kh2 pub2 now2 d' = Some (Join_BadToken, d')"
  proof -
    have "first_row (\<lambda>a. ar_id a = i) (archives d') = Some a" using a d' by (simp add: first_archive [OF assms(1)])
    moreover have "\<not> has_row (\<lambda>t. jt_archive_id t = i \<and> jt_token_hash t = th) (archive_join_tokens d')" using d' by simp
    ultimately show ?thesis by (simp add: join_archive_def del: has_row_iff)
  qed
  moreover have "count_rows (\<lambda>k. ak_archive_id k = i) (archive_keys d') = Suc (count_rows (\<lambda>k. ak_archive_id k = i) (archive_keys d))"
    using d' by (simp add: count_rows_snoc)
  ultimately show ?thesis using a by (intro conjI bexI [of _ a]) auto
qed

definition tombstone :: "archive_entry_row \<Rightarrow> archive_entry_row" where
  "tombstone e = e \<lparr> an_ciphertext := [], an_redacted := 1 \<rparr>"

lemma redact_loop_result:
  "redact_loop i hs freed t = Some (freed', t') \<Longrightarrow>
     t' = map (\<lambda>e. if an_archive_id e = i \<and> an_hash e \<in> set hs then tombstone e else e) t \<and>
     set hs \<subseteq> an_hash ` set (entries_of i t)"
proof (induction hs arbitrary: freed t)
  case (Cons h hs)
  let ?P = "\<lambda>e. an_archive_id e = i \<and> an_hash e = h"
  from Cons.prems obtain e where e: "first_row ?P t = Some e"
    and rest: "redact_loop i hs (freed + int (length (an_ciphertext e))) (update_rows ?P tombstone t) = Some (freed', t')"
    by (auto split: option.splits simp: tombstone_def [abs_def])
  have keep: "an_archive_id (tombstone e) = an_archive_id e" "an_hash (tombstone e) = an_hash e" "tombstone (tombstone e) = tombstone e" for e
    by (simp_all add: tombstone_def)
  have "map an_hash (entries_of i (update_rows ?P tombstone t)) = map an_hash (entries_of i t)"
    by (induction t) (simp_all add: entries_of_def update_rows_def keep)
  from arg_cong [OF this, of set] have "an_hash ` set (entries_of i (update_rows ?P tombstone t)) = an_hash ` set (entries_of i t)"
    by (simp only: set_map)
  moreover have "h \<in> an_hash ` set (entries_of i t)" using first_row_Some [OF e] by (auto simp: entries_of_def)
  moreover have "map (\<lambda>e. if an_archive_id e = i \<and> an_hash e \<in> set hs then tombstone e else e) (update_rows ?P tombstone t) =
      map (\<lambda>e. if an_archive_id e = i \<and> an_hash e \<in> set (h # hs) then tombstone e else e) t"
    by (simp add: update_rows_def keep) blast
  ultimately show ?case using Cons.IH [OF rest] by simp
qed simp

text \<open>
  C37: redaction replaces content by tombstones and nothing else.  Either some hash names no entry
  and nothing changes, or every named entry is a tombstone, every other entry is as before, and the
  numbers and hashes of the chain are untouched.
\<close>

theorem redact_keeps_chain:
  assumes "redact_entries i hs d = (r, d')"
  shows "if r = Redact_Ok
    then set hs \<subseteq> an_hash ` set (entries_of i (archive_entries d)) \<and>
      archive_entries d' = map (\<lambda>e. if an_archive_id e = i \<and> an_hash e \<in> set hs then tombstone e else e) (archive_entries d) \<and>
      map (\<lambda>e. (an_number e, an_hash e)) (entries_of j (archive_entries d')) = map (\<lambda>e. (an_number e, an_hash e)) (entries_of j (archive_entries d)) \<and>
      map_option ai_head (archive_info j now d') = map_option ai_head (archive_info j now d)
    else d' = d"
proof (cases "r = Redact_Ok")
  case True
  then obtain freed t where loop: "redact_loop i hs 0 (archive_entries d) = Some (freed, t)"
    and d': "d' = d \<lparr> archive_entries := t,
       archives := update_rows (\<lambda>a. ar_id a = i) (\<lambda>a. a \<lparr> ar_bytes := ar_bytes a - freed \<rparr>) (archives d) \<rparr>"
    using assms by (auto simp: redact_entries_def split: if_split_asm option.splits)
  note t = redact_loop_result [OF loop]
  have "map (\<lambda>e. (an_number e, an_hash e)) (entries_of j (map (\<lambda>e. if an_archive_id e = i \<and> an_hash e \<in> set hs then tombstone e else e) es))
      = map (\<lambda>e. (an_number e, an_hash e)) (entries_of j es)" for es
    by (induction es) (auto simp: entries_of_def tombstone_def)
  moreover have "map_option (\<lambda>a. (ar_head_number a, ar_head_hash a)) (first_row (\<lambda>a. ar_id a = j)
        (update_rows (\<lambda>a. ar_id a = i) (\<lambda>a. a \<lparr> ar_bytes := ar_bytes a - freed \<rparr>) as))
      = map_option (\<lambda>a. (ar_head_number a, ar_head_hash a)) (first_row (\<lambda>a. ar_id a = j) as)" for as
    by (induction as) (auto simp: first_row_def update_rows_def)
  from this [of "archives d"] have "map_option ai_head (archive_info j now d') = map_option ai_head (archive_info j now d)"
    unfolding d' archive_info_def by (auto simp: Let_def map_option_case split: option.splits)
  ultimately show ?thesis using True t d' by simp
next
  case False
  then show ?thesis using assms by (auto simp: redact_entries_def split: if_split_asm option.splits)
qed

theorem redact_keeps_chain_witness:
  "map an_ciphertext (archive_entries (snd (redact_entries [60] [[64]] sample_db))) = [[]] \<and>
   archive_entries (snd (redact_entries [60] [[64]] sample_db)) = map tombstone (archive_entries sample_db)"
proof -
  have "redact_entries [60] [[64]] sample_db = (Redact_Ok, snd (redact_entries [60] [[64]] sample_db))" by code_simp
  from redact_keeps_chain [OF this] show ?thesis by (simp add: sample_db_def tombstone_def)
qed

definition stored_bytes :: "bytes \<Rightarrow> relay_db \<Rightarrow> int" where
  "stored_bytes m d = sum_rows fl_total_size (\<lambda>f. fl_owner f = m) (files d)"

text \<open>
  The attachment quota holds at 64 bits.  As long as quota and sizes are far from the width, an
  upload is recorded exactly when the owner's stored files and this one fit the quota, and then
  they still do; the comparison never wraps.
\<close>

lemma file_quota_kept:
  assumes "begin_file m i total_size cs cc x hs now quota d = Some (r, d')"
    "0 \<le> stored_bytes m d" "stored_bytes m d \<le> uint quota" "uint quota < 2 ^ 62" "uint total_size < 2 ^ 62"
  shows "(r = BeginFile_Ok \<longrightarrow> stored_bytes m d' = stored_bytes m d + uint total_size \<and> stored_bytes m d' \<le> uint quota \<and>
      file_meta i d = None) \<and>
    (r = QuotaExceeded \<longrightarrow> stored_bytes m d + uint total_size > uint quota) \<and>
    (r \<noteq> BeginFile_Ok \<longrightarrow> d' = d)"
proof -
  have sint_size: "sint total_size = uint total_size" 
  proof -
    have "signed_take_bit 63 (uint total_size) = uint total_size"
      using assms(5) by (intro signed_take_bit_int_eq_self order_trans [OF _ uint_ge_0]) simp_all
    then show ?thesis by (simp add: sint_uint)
  qed
  have "uint (word_of_int (stored_bytes m d) :: u64) = stored_bytes m d"
    using assms(2-4) by (simp add: uint_word_of_int)
  moreover have "uint ((word_of_int (stored_bytes m d) :: u64) + total_size) = uint (word_of_int (stored_bytes m d) :: u64) + uint total_size"
    using calculation assms(2-5) by (simp add: uint_word_ariths mod_pos_pos_trivial)
  ultimately have sum: "word_of_int (stored_bytes m d) + total_size > quota \<longleftrightarrow> stored_bytes m d + uint total_size > uint quota"
    by (simp add: word_less_def)
  have "r = QuotaExceeded \<longrightarrow> word_of_int (stored_bytes m d) + total_size > quota"
    using assms(1) by (auto simp: begin_file_def Let_def bind_eq_Some_conv stored_bytes_def split: if_split_asm)
  moreover have "r = BeginFile_Ok \<longrightarrow> stored_bytes m d' = stored_bytes m d + uint total_size \<and> file_meta i d = None \<and>
      \<not> word_of_int (stored_bytes m d) + total_size > quota"
    using begin_file_cases [OF assms(1)] sint_size
    by (auto simp: stored_bytes_def sum_rows_def file_meta_def first_row_None not_less)
  ultimately show ?thesis using begin_file_cases [OF assms(1)] sum by auto
qed

lemma insert_row_new: "k r \<notin> k ` set t \<Longrightarrow> insert_row k r t = Some (t @ [r])"
  by simp

lemma append_never_raises:
  assumes "db_inv d" "\<forall>a\<in>set (archives d). ar_head_number a < MAX_ENTRY_NUMBER"
  shows "append_entry i n h nh c now q d \<noteq> None"
proof (cases "first_row (\<lambda>a. ar_id a = i) (archives d)")
  case None
  then show ?thesis by (simp add: append_entry_def)
next
  case (Some a)
  then have a: "a \<in> set (archives d)" "ar_id a = i" by (simp_all add: first_archive [OF assms(1)])
  note ok = archive_ok_of [OF assms(1) a(1)]
  have "an_number ` set (entries_of i (archive_entries d)) = set [1..ar_head_number a]"
    using ok a(2) by (simp add: archive_ok_def flip: set_map)
  then have "(i, ar_head_number a + 1) \<notin> (\<lambda>e. (an_archive_id e, an_number e)) ` set (archive_entries d)"
    by (force simp: entries_of_def)
  moreover have "sint (word_of_int (ar_head_number a) + 1 :: u64) = ar_head_number a + 1"
    using ok a(1) assms(2) by (simp only: archive_ok_def next_number)
  ultimately show ?thesis using Some
    by (cases "n = word_of_int (ar_head_number a)") (simp_all add: append_entry_def Let_def insert_row_new)
qed

text \<open>
  Which calls can raise.  On a database that satisfies the invariant, registering, adding a
  token, creating and joining an archive and appending never hit a key constraint; a deposit raises
  exactly for a missing mailbox or a reused envelope ID, an upload of a keyring
  exactly for a missing mailbox.
\<close>

lemma store_raises_only:
  assumes "db_inv d"
  shows "register_mailbox h m k t now mx d \<noteq> None \<and> add_token m t now mx d \<noteq> None \<and>
    create_archive i hs g now x mx d \<noteq> None \<and> join_archive i t kh pub now d \<noteq> None \<and>
    ((\<forall>a\<in>set (archives d). ar_head_number a < MAX_ENTRY_NUMBER) \<longrightarrow> append_entry i n h nh c now q d \<noteq> None) \<and>
    (deposit m eid e t now ttl q d = None \<longleftrightarrow> live_bytes m now d + length e \<le> q \<and>
       (access_key m d = None \<or> eid \<in> en_id ` set (envelopes d))) \<and>
    (put_keyring m b now d = None \<longleftrightarrow> access_key m d = None)"
proof (intro conjI)
  show "register_mailbox h m k t now mx d \<noteq> None"
    by (simp add: register_mailbox_cases [OF assms] split: option.split)
  show "add_token m t now mx d \<noteq> None" "create_archive i hs g now x mx d \<noteq> None"
    by (simp_all add: add_token_def create_archive_def insert_row_def has_key_iff del: has_row_iff not_None_eq)
  show "join_archive i t kh pub now d \<noteq> None"
    by (simp add: join_archive_def Let_def insert_row_def del: has_row_iff not_None_eq split: option.split)
  have key: "access_key m d = None \<longleftrightarrow> m \<notin> mb_id ` set (mailboxes d)" by (auto simp: access_key_def first_row_None)
  show "deposit m eid e t now ttl q d = None \<longleftrightarrow> live_bytes m now d + length e \<le> q \<and>
       (access_key m d = None \<or> eid \<in> en_id ` set (envelopes d))"
    unfolding key by (auto simp: deposit_cases [OF assms])
  show "put_keyring m b now d = None \<longleftrightarrow> access_key m d = None"
    unfolding key by (simp add: put_keyring_def require_def has_key_iff del: has_row_iff)
  show "(\<forall>a\<in>set (archives d). ar_head_number a < MAX_ENTRY_NUMBER) \<longrightarrow> append_entry i n h nh c now q d \<noteq> None"
    using append_never_raises [OF assms] by blast
qed

end
