(* ===== verification/Transfer_Protocol.thy ===== *)
theory Transfer_Protocol
  imports Wire
begin

text \<open>
  The version 2 file transfer formats and the hex helpers (\<^verbatim>\<open>src/protocol/messages.h\<close>,
  \<^verbatim>\<open>src/protocol/protocol.cpp\<close>): the public header of a transfer, the sealed metadata, the
  chunks, the structural checks both sides run on a header, and the size of each chunk.
\<close>

abbreviation (input) "PROTOCOL_MAGIC \<equiv> (0x50514654 :: u32)"
abbreviation (input) "PROTOCOL_VERSION \<equiv> (2 :: u32)"
abbreviation (input) "DEFAULT_CHUNK_SIZE \<equiv> (65536 :: u32)"
abbreviation (input) "MIN_CHUNK_SIZE \<equiv> (4096 :: u32)"
abbreviation (input) "MAX_CHUNK_SIZE \<equiv> (1048576 :: u32)"
abbreviation (input) "AEAD_TAG_SIZE \<equiv> (16 :: nat)"
abbreviation (input) "NONCE_SIZE \<equiv> (12 :: nat)"
abbreviation (input) "MAX_FILE_SIZE \<equiv> (17179869184 :: u64)"
abbreviation (input) "MAX_KEM_CIPHERTEXT_SIZE \<equiv> (4096 :: nat)"
abbreviation (input) "MAX_SEALED_METADATA_SIZE \<equiv> (16384 :: nat)"
abbreviation (input) "MAX_FILENAME_BYTES \<equiv> (255 :: nat)"
abbreviation (input) "MAX_FINGERPRINT_CHARS \<equiv> (128 :: nat)"
abbreviation (input) "MAX_SIGNATURE_SIZE \<equiv> (8192 :: nat)"
abbreviation (input) "MAX_HEADER_MESSAGE \<equiv> (65536 :: u32)"
abbreviation (input) "MAX_CONTROL_MESSAGE \<equiv> (4096 :: u32)"
abbreviation (input) "MAX_CHUNK_MESSAGE \<equiv> (1048656 :: u32)"
abbreviation (input) "TRANSFER_ID_BYTES \<equiv> (16 :: nat)"
abbreviation (input) "TRANSFER_ID_HEX_LEN \<equiv> (32 :: nat)"

record FileHeader =
  th_file_size :: u64
  th_chunk_size :: u32
  th_total_chunks :: u32
  th_kem_ciphertext :: bytes
  th_nonce :: bytes
  th_sealed_metadata :: bytes

record FileMetadata =
  tm_filename :: string
  tm_sender_fingerprint :: string
  tm_signature :: bytes

record FileChunk =
  tc_index :: u32
  tc_data :: bytes

section \<open>Chunking\<close>

definition expected_total_chunks :: "u64 \<Rightarrow> u32 \<Rightarrow> u32" where
  "expected_total_chunks fsize csize =
    (if csize = 0 then 0 else if fsize = 0 then 1 else ucast ((fsize + ucast csize - 1) div ucast csize))"

definition expected_chunk_plaintext_size :: "FileHeader \<Rightarrow> u32 \<Rightarrow> u64" where
  "expected_chunk_plaintext_size h index =
    (let start = ucast index * ucast (th_chunk_size h) in
     if start \<ge> th_file_size h then 0 else min (ucast (th_chunk_size h)) (th_file_size h - start))"

text \<open>The empty string means that the header is acceptable.\<close>

definition validate_file_header :: "FileHeader \<Rightarrow> string" where
  "validate_file_header h =
    (if th_chunk_size h < MIN_CHUNK_SIZE \<or> th_chunk_size h > MAX_CHUNK_SIZE then ''Invalid chunk size''
     else if th_file_size h > MAX_FILE_SIZE then ''File is larger than the 16 GiB limit''
     else if th_total_chunks h \<noteq> expected_total_chunks (th_file_size h) (th_chunk_size h) then ''Chunk count does not match file size''
     else if length (th_nonce h) \<noteq> NONCE_SIZE then ''Invalid nonce''
     else if th_kem_ciphertext h = [] then ''Missing key encapsulation''
     else if length (th_sealed_metadata h) < AEAD_TAG_SIZE then ''Missing encrypted metadata''
     else [])"

section \<open>Headers, metadata and chunks\<close>

definition write_public_fields :: "bytes \<Rightarrow> FileHeader \<Rightarrow> bytes" where
  "write_public_fields b h =
    (let b = write_u32 b PROTOCOL_MAGIC; b = write_u32 b PROTOCOL_VERSION; b = write_u64 b (th_file_size h);
         b = write_u32 b (th_chunk_size h); b = write_u32 b (th_total_chunks h); b = write_blob b (th_kem_ciphertext h);
         b = write_blob b (th_nonce h) in b)"

definition serialize_header_public_fields :: "FileHeader \<Rightarrow> bytes" where
  "serialize_header_public_fields h = write_public_fields [] h"

definition serialize_file_header :: "FileHeader \<Rightarrow> bytes" where
  "serialize_file_header h = (let b = write_public_fields [] h; b = write_blob b (th_sealed_metadata h) in b)"

definition deserialize_file_header :: "bytes \<Rightarrow> FileHeader option" where
  "deserialize_file_header inp =
    do { (magic, off) \<leftarrow> read_u32 inp 0;
         if magic \<noteq> PROTOCOL_MAGIC then None
         else do { (version, off) \<leftarrow> read_u32 inp off;
           if version \<noteq> PROTOCOL_VERSION then None
           else do { (fsize, off) \<leftarrow> read_u64 inp off;
             (csize, off) \<leftarrow> read_u32 inp off;
             (chunks, off) \<leftarrow> read_u32 inp off;
             (kem_ct, off) \<leftarrow> read_blob MAX_KEM_CIPHERTEXT_SIZE inp off;
             (iv, off) \<leftarrow> read_blob NONCE_SIZE inp off;
             (sealed, off) \<leftarrow> read_blob MAX_SEALED_METADATA_SIZE inp off;
             if off \<noteq> length inp then None
             else Some \<lparr> th_file_size = fsize, th_chunk_size = csize, th_total_chunks = chunks, th_kem_ciphertext = kem_ct,
                         th_nonce = iv, th_sealed_metadata = sealed \<rparr> } } }"

definition serialize_file_metadata :: "FileMetadata \<Rightarrow> bytes" where
  "serialize_file_metadata m =
    (let b = []; b = write_string b (tm_filename m); b = write_string b (tm_sender_fingerprint m);
         b = write_blob b (tm_signature m) in b)"

definition deserialize_file_metadata :: "bytes \<Rightarrow> FileMetadata option" where
  "deserialize_file_metadata inp =
    do { (name, off) \<leftarrow> read_string MAX_FILENAME_BYTES inp 0;
         (fp, off) \<leftarrow> read_string MAX_FINGERPRINT_CHARS inp off;
         (sig, off) \<leftarrow> read_blob MAX_SIGNATURE_SIZE inp off;
         if off \<noteq> length inp then None
         else Some \<lparr> tm_filename = name, tm_sender_fingerprint = fp, tm_signature = sig \<rparr> }"

definition serialize_file_chunk :: "FileChunk \<Rightarrow> bytes" where
  "serialize_file_chunk c = (let b = []; b = write_u32 b (tc_index c); b = write_blob b (tc_data c) in b)"

definition deserialize_file_chunk :: "bytes \<Rightarrow> FileChunk option" where
  "deserialize_file_chunk inp =
    do { (index, off) \<leftarrow> read_u32 inp 0;
         (d, off) \<leftarrow> read_blob (unat MAX_CHUNK_SIZE + AEAD_TAG_SIZE) inp off;
         if off \<noteq> length inp then None else Some \<lparr> tc_index = index, tc_data = d \<rparr> }"

definition wf_FileHeader :: "FileHeader \<Rightarrow> bool" where
  "wf_FileHeader h \<longleftrightarrow> length (th_kem_ciphertext h) \<le> MAX_KEM_CIPHERTEXT_SIZE \<and> length (th_nonce h) \<le> NONCE_SIZE \<and>
     length (th_sealed_metadata h) \<le> MAX_SEALED_METADATA_SIZE"

definition wf_FileMetadata :: "FileMetadata \<Rightarrow> bool" where
  "wf_FileMetadata m \<longleftrightarrow> length (tm_filename m) \<le> MAX_FILENAME_BYTES \<and> length (tm_sender_fingerprint m) \<le> MAX_FINGERPRINT_CHARS \<and>
     length (tm_signature m) \<le> MAX_SIGNATURE_SIZE"

definition wf_TransferChunk :: "FileChunk \<Rightarrow> bool" where
  "wf_TransferChunk c \<longleftrightarrow> length (tc_data c) \<le> unat MAX_CHUNK_SIZE + AEAD_TAG_SIZE"

lemmas transfer_codec_simps = bind_eq_Some_conv read_iff Let_def

lemma deserialize_file_header_iff: "deserialize_file_header inp = Some h \<longleftrightarrow> wf_FileHeader h \<and> inp = serialize_file_header h"
  by (cases h) (simp add: deserialize_file_header_def serialize_file_header_def write_public_fields_def wf_FileHeader_def
      transfer_codec_simps cong: conj_cong, auto simp: prefix_intro)

lemma deserialize_file_metadata_iff:
  "deserialize_file_metadata inp = Some m \<longleftrightarrow> wf_FileMetadata m \<and> inp = serialize_file_metadata m"
  by (cases m) (simp add: deserialize_file_metadata_def serialize_file_metadata_def wf_FileMetadata_def
      transfer_codec_simps cong: conj_cong, auto simp: prefix_intro)

lemma deserialize_file_chunk_iff: "deserialize_file_chunk inp = Some c \<longleftrightarrow> wf_TransferChunk c \<and> inp = serialize_file_chunk c"
  by (cases c) (simp add: deserialize_file_chunk_def serialize_file_chunk_def wf_TransferChunk_def
      transfer_codec_simps cong: conj_cong, auto simp: prefix_intro)

interpretation file_header_codec: message_codec serialize_file_header deserialize_file_header wf_FileHeader
  by unfold_locales (rule deserialize_file_header_iff)

interpretation file_metadata_codec: message_codec serialize_file_metadata deserialize_file_metadata wf_FileMetadata
  by unfold_locales (rule deserialize_file_metadata_iff)

interpretation transfer_chunk_codec: message_codec serialize_file_chunk deserialize_file_chunk wf_TransferChunk
  by unfold_locales (rule deserialize_file_chunk_iff)

section \<open>The chunks of a valid header tile the file\<close>

lemma sum_tiles: "(\<Sum>i<n. min c (f - i * c)) = min f (n * c)" for f c n :: nat
  by (induction n) (auto simp: min_def algebra_simps)

lemma round_up:
  fixes f c :: nat
  assumes "0 < c" "0 < f"
  shows "f \<le> (f + c - 1) div c * c" "((f + c - 1) div c - 1) * c < f" "1 \<le> (f + c - 1) div c"
proof -
  let ?q = "(f + c - 1) div c" and ?r = "(f + c - 1) mod c"
  have eq: "?q * c + ?r = f + c - 1" and r: "?r < c" using assms by simp_all
  show "f \<le> ?q * c" using eq r assms by linarith
  have "?q * c \<le> f + c - 1" using eq by linarith
  moreover have "(?q - 1) * c = ?q * c - c" by (simp add: diff_mult_distrib)
  ultimately show "(?q - 1) * c < f" using assms by linarith
  show "1 \<le> ?q" using assms by (simp add: Suc_le_eq div_greater_zero_iff)
qed

lemma valid_header_iff:
  "validate_file_header h = [] \<longleftrightarrow> MIN_CHUNK_SIZE \<le> th_chunk_size h \<and> th_chunk_size h \<le> MAX_CHUNK_SIZE \<and>
     th_file_size h \<le> MAX_FILE_SIZE \<and> th_total_chunks h = expected_total_chunks (th_file_size h) (th_chunk_size h) \<and>
     length (th_nonce h) = NONCE_SIZE \<and> th_kem_ciphertext h \<noteq> [] \<and> AEAD_TAG_SIZE \<le> length (th_sealed_metadata h)"
  by (simp add: validate_file_header_def not_less)

lemma chunk_size_nat:
  assumes "validate_file_header h = []"
  shows "unat (expected_chunk_plaintext_size h i) =
    min (unat (th_chunk_size h)) (unat (th_file_size h) - unat i * unat (th_chunk_size h))"
proof -
  let ?c = "th_chunk_size h" and ?f = "th_file_size h"
  have "unat ?c \<le> 1048576" using assms by (simp add: valid_header_iff word_le_nat_alt)
  moreover have "unat i < 2 ^ LENGTH(32)" by (rule unsigned_less)
  ultimately have "unat i * unat ?c < 2 ^ LENGTH(64)"
    using mult_strict_mono' [of "unat i" "2 ^ 32" "unat ?c" "2 ^ 32"] by simp
  then have start: "unat (ucast i * ucast ?c :: u64) = unat i * unat ?c"
    by (subst unat_mult_lem [THEN iffD1]) auto
  show ?thesis
  proof (cases "?f \<le> ucast i * ucast ?c")
    case True
    then show ?thesis using start by (simp add: expected_chunk_plaintext_size_def word_le_nat_alt)
  next
    case False
    then have "unat (?f - ucast i * ucast ?c) = unat ?f - unat i * unat ?c"
      using start by (subst unat_sub) auto
    then show ?thesis using False
      by (simp add: expected_chunk_plaintext_size_def min_def word_le_nat_alt)
  qed
qed

lemma total_chunks_nat:
  assumes "validate_file_header h = []"
  shows "unat (th_total_chunks h) =
    (if th_file_size h = 0 then 1 else (unat (th_file_size h) + unat (th_chunk_size h) - 1) div unat (th_chunk_size h))"
proof -
  let ?c = "th_chunk_size h" and ?f = "th_file_size h"
  note v = assms [unfolded valid_header_iff]
  have c: "4096 \<le> unat ?c" "unat ?c \<le> 1048576" and f: "unat ?f \<le> 17179869184"
    using v by (simp_all add: word_le_nat_alt)
  have "unat (ucast ((?f + ucast ?c - 1) div ucast ?c) :: u32) = (unat ?f + unat ?c - 1) div unat ?c" if "?f \<noteq> 0"
  proof -
    have "unat ((?f + ucast ?c - 1) div ucast ?c) = (unat ?f + unat ?c - 1) div unat ?c"
      using c f that by (subst unat_round_up_u64) (auto simp: word_gt_0)
    moreover have "(unat ?f + unat ?c - 1) div unat ?c < 2 ^ 32"
    proof -
      have "(unat ?f + unat ?c - 1) div unat ?c \<le> (unat ?f + unat ?c - 1) div 4096"
        using c by (intro div_le_mono2) simp_all
      also have "\<dots> < 2 ^ 32" using c f by (intro less_mult_imp_div_less) simp
      finally show ?thesis .
    qed
    ultimately show ?thesis by (simp add: unsigned_ucast_eq take_bit_eq_mod)
  qed
  then show ?thesis using v c by (auto simp: expected_total_chunks_def)
qed

section \<open>Hex\<close>

definition bytes_to_hex :: "bytes \<Rightarrow> string" where
  "bytes_to_hex b = concat (map (\<lambda>x. [''0123456789abcdef'' ! unat (drop_bit 4 x), ''0123456789abcdef'' ! unat (x AND 15)]) b)"

definition nibble :: "char \<Rightarrow> int" where
  "nibble c =
    (let c = (of_char c :: int) in
     if 48 \<le> c \<and> c \<le> 57 then c - 48
     else if 97 \<le> c \<and> c \<le> 102 then c - 97 + 10
     else if 65 \<le> c \<and> c \<le> 70 then c - 65 + 10
     else - 1)"

text \<open>The loop over pairs of characters; an odd length is refused before it starts.\<close>

fun hex_pairs :: "string \<Rightarrow> bytes option" where
  "hex_pairs (a # b # s) =
    (let hi = nibble a; lo = nibble b in
     if hi < 0 \<or> lo < 0 then None else map_option ((#) (word_of_int (hi * 16 + lo))) (hex_pairs s))"
| "hex_pairs _ = Some []"

definition hex_to_bytes :: "string \<Rightarrow> bytes option" where
  "hex_to_bytes hex = (if length hex mod 2 \<noteq> 0 then None else hex_pairs hex)"

definition is_lower_hex :: "string \<Rightarrow> nat \<Rightarrow> bool" where
  "is_lower_hex s expected_len =
    (if length s \<noteq> expected_len then False
     else list_all (\<lambda>c. (48 \<le> (of_char c :: int) \<and> (of_char c :: int) \<le> 57) \<or> (97 \<le> (of_char c :: int) \<and> (of_char c :: int) \<le> 102)) s)"

lemma nibble_digit: "k < 16 \<Longrightarrow> nibble (''0123456789abcdef'' ! k) = int k"
proof -
  have "list_all (\<lambda>k. nibble (''0123456789abcdef'' ! k) = int k) [0..<16]" by code_simp
  then show "k < 16 \<Longrightarrow> nibble (''0123456789abcdef'' ! k) = int k" by (simp add: list_all_iff)
qed

lemma digit_lower: "k < 16 \<Longrightarrow> is_lower_hex [''0123456789abcdef'' ! k] 1"
proof -
  have "list_all (\<lambda>k. is_lower_hex [''0123456789abcdef'' ! k] 1) [0..<16]" by code_simp
  then show "k < 16 \<Longrightarrow> is_lower_hex [''0123456789abcdef'' ! k] 1" by (simp add: list_all_iff)
qed

lemma byte_halves:
  "unat (drop_bit 4 (x :: byte)) = unat x div 16" "unat (x AND 15) = unat x mod 16"
proof -
  show "unat (drop_bit 4 x) = unat x div 16" unfolding unat_drop_bit_eq by (simp add: drop_bit_eq_div)
  have "x AND 15 = take_bit 4 x" by (simp add: take_bit_eq_mask mask_eq_exp_minus_1)
  then show "unat (x AND 15) = unat x mod 16" by (simp only: unsigned_take_bit_eq) (simp add: take_bit_eq_mod)
qed

lemma byte_nibbles:
  "unat (drop_bit 4 (x :: byte)) < 16" "unat (x AND 15) < 16"
  "drop_bit 4 x * 16 + (x AND 15) = x"
proof -
  have "unat x < 2 ^ LENGTH(8)" by (rule unsigned_less)
  then show "unat (drop_bit 4 x) < 16" "unat (x AND 15) < 16" by (simp_all add: byte_halves)
  have "int (unat x div 16) * 16 + int (unat x mod 16) = int (unat x)" by (metis div_mult_mod_eq of_nat_add of_nat_mult of_nat_numeral)
  then have "(word_of_int (int (unat (drop_bit 4 x)) * 16 + int (unat (x AND 15))) :: byte) = word_of_int (int (unat x))"
    by (simp only: byte_halves)
  then show "drop_bit 4 x * 16 + (x AND 15) = x" by simp
qed

lemma hex_pairs_bytes_to_hex: "hex_pairs (bytes_to_hex b) = Some b"
  by (induction b) (simp_all add: bytes_to_hex_def nibble_digit byte_nibbles)

lemma length_bytes_to_hex: "length (bytes_to_hex b) = 2 * length b"
  by (induction b) (simp_all add: bytes_to_hex_def)

lemma bytes_to_hex_lower: "is_lower_hex (bytes_to_hex b) (2 * length b)"
  using digit_lower byte_nibbles(1,2)
  by (simp add: is_lower_hex_def length_bytes_to_hex) (simp add: bytes_to_hex_def list_all_iff)

section \<open>What the formats promise\<close>

text \<open>
  The version 2 header, sealed metadata and chunk formats are canonical: a payload parses to a
  value exactly when the value is within the limits and the payload is its serialization.
\<close>

lemma transfer_formats_canonical:
  "(deserialize_file_header inp = Some h \<longleftrightarrow> wf_FileHeader h \<and> inp = serialize_file_header h) \<and>
   (deserialize_file_metadata inp = Some m \<longleftrightarrow> wf_FileMetadata m \<and> inp = serialize_file_metadata m) \<and>
   (deserialize_file_chunk inp = Some c \<longleftrightarrow> wf_TransferChunk c \<and> inp = serialize_file_chunk c)"
  by (simp add: file_header_codec.dec_iff file_metadata_codec.dec_iff transfer_chunk_codec.dec_iff)

text \<open>
  The chunks of a valid header tile the file.  With 32 and 64 bit arithmetic, the expected
  sizes of chunks 0 to \<^verbatim>\<open>total_chunks\<close> - 1 add up to the file size, every chunk but the last is
  full, no chunk of a non-empty file is empty, and an empty file has one empty chunk.
\<close>

lemma chunks_tile_file:
  assumes "validate_file_header h = []"
  shows "(\<Sum>i<unat (th_total_chunks h). unat (expected_chunk_plaintext_size h (word_of_nat i))) = unat (th_file_size h) \<and>
    (\<forall>i. unat i + 1 < unat (th_total_chunks h) \<longrightarrow> unat (expected_chunk_plaintext_size h i) = unat (th_chunk_size h)) \<and>
    (\<forall>i. unat i < unat (th_total_chunks h) \<longrightarrow> (expected_chunk_plaintext_size h i = 0 \<longleftrightarrow> th_file_size h = 0)) \<and>
    1 \<le> unat (th_total_chunks h)"
proof -
  let ?c = "unat (th_chunk_size h)" and ?f = "unat (th_file_size h)" and ?n = "unat (th_total_chunks h)"
  have c: "0 < ?c" using assms by (auto simp: valid_header_iff word_le_nat_alt)
  have n: "?n = (if ?f = 0 then 1 else (?f + ?c - 1) div ?c)" using total_chunks_nat [OF assms] by (simp add: unat_eq_zero)
  have up: "?f \<le> ?n * ?c" and low: "0 < ?f \<Longrightarrow> (?n - 1) * ?c < ?f" and pos: "1 \<le> ?n"
    using n round_up [OF c, of ?f] by (auto split: if_splits)
  have "?n < 2 ^ LENGTH(32)" by (rule unsigned_less)
  then have "(\<Sum>i<?n. unat (expected_chunk_plaintext_size h (word_of_nat i))) = (\<Sum>i<?n. min ?c (?f - i * ?c))"
    by (intro sum.cong) (auto simp: chunk_size_nat [OF assms] unat_of_nat)
  also have "\<dots> = ?f" using up by (simp add: sum_tiles)
  finally have "(\<Sum>i<?n. unat (expected_chunk_plaintext_size h (word_of_nat i))) = ?f" .
  moreover have "unat (expected_chunk_plaintext_size h i) = ?c" if "unat i + 1 < ?n" for i
  proof -
    have "0 < ?f" using that n by (auto split: if_splits)
    have "(unat i + 1) * ?c \<le> (?n - 1) * ?c" using that by (intro mult_le_mono1) simp
    with low [OF \<open>0 < ?f\<close>] have "?c \<le> ?f - unat i * ?c" by simp
    then show ?thesis by (simp add: chunk_size_nat [OF assms])
  qed
  moreover have "expected_chunk_plaintext_size h i = 0 \<longleftrightarrow> th_file_size h = 0" if "unat i < ?n" for i
  proof -
    have "unat i * ?c \<le> (?n - 1) * ?c" using that by (intro mult_le_mono1) simp
    then have "0 < ?f \<Longrightarrow> unat i * ?c < ?f" using low by (rule le_less_trans)
    then have "unat (expected_chunk_plaintext_size h i) = 0 \<longleftrightarrow> ?f = 0"
      unfolding chunk_size_nat [OF assms] using c by (cases "?f = 0") (simp_all add: min_def)
    then show ?thesis by (simp add: unat_eq_zero)
  qed
  ultimately show ?thesis using pos by blast
qed

text \<open>
  Hex round trip.  Decoding the hex of any bytes gives them back, the hex is lowercase and twice
  as long, and different bytes have different hex (transfer IDs, file names and owner keys are hex).
\<close>

lemma hex_round_trip:
  "hex_to_bytes (bytes_to_hex b) = Some b \<and> is_lower_hex (bytes_to_hex b) (2 * length b) \<and>
   (bytes_to_hex b = bytes_to_hex c \<longleftrightarrow> b = c)"
proof -
  have "hex_to_bytes (bytes_to_hex b) = Some b" for b
    by (simp add: hex_to_bytes_def length_bytes_to_hex hex_pairs_bytes_to_hex)
  then show ?thesis using bytes_to_hex_lower [of b] by (metis option.inject)
qed

end
