(* ===== verification/Crypto_Engine.thy ===== *)
theory Crypto_Engine
  imports Transfer_Protocol
begin

text \<open>
  The cryptographic wrappers (\<^verbatim>\<open>src/client/crypto_engine.cpp\<close>).  What liboqs and OpenSSL
  compute is a parameter, the record \<^verbatim>\<open>crypto_lib\<close> of the calls the wrappers make; randomness is an
  explicit argument.  What the wrappers add is modelled: the size checks, the layouts, the
  order of the calls and every \<^verbatim>\<open>std::runtime_error\<close>, a left injection with its text.  A failed
  memory allocation inside a library is not modelled.  \<^verbatim>\<open>gcm_lawful\<close> and the other predicates
  on a \<^verbatim>\<open>crypto_lib\<close> state documented behaviour of the libraries; the theorems that need one
  name it as a hypothesis.
\<close>

type_synonym 'a thrown = "string + 'a"

definition and_then :: "'a thrown \<Rightarrow> ('a \<Rightarrow> 'b thrown) \<Rightarrow> 'b thrown" where
  "and_then r f = (case r of Inl e \<Rightarrow> Inl e | Inr x \<Rightarrow> f x)"

lemma and_then_simps [simp]: "and_then (Inl e) f = Inl e" "and_then (Inr x) f = f x"
  by (simp_all add: and_then_def)

lemma and_then_Inr: "and_then r f = Inr y \<longleftrightarrow> (\<exists>x. r = Inr x \<and> f x = Inr y)"
  by (cases r) auto

record crypto_lib =
  kem_length_public_key :: nat
  kem_length_secret_key :: nat
  kem_length_ciphertext :: nat
  sig_length_public_key :: nat
  sig_length_secret_key :: nat
  sig_length_signature :: nat
  oqs_kem_keypair :: "bytes \<Rightarrow> (bytes \<times> bytes) option"
  oqs_kem_encaps :: "bytes \<Rightarrow> bytes \<Rightarrow> (bytes \<times> bytes) option"
  oqs_kem_decaps :: "bytes \<Rightarrow> bytes \<Rightarrow> bytes option"
  oqs_sig_keypair :: "bytes \<Rightarrow> (bytes \<times> bytes) option"
  oqs_sig_sign :: "bytes \<Rightarrow> bytes \<Rightarrow> bytes \<Rightarrow> bytes option"
  oqs_sig_verify :: "bytes \<Rightarrow> bytes \<Rightarrow> bytes \<Rightarrow> bool"
  evp_sha256 :: "bytes \<Rightarrow> bytes"
  evp_hkdf :: "bytes \<Rightarrow> bytes \<Rightarrow> bytes \<Rightarrow> nat \<Rightarrow> bytes option"
  gcm_seal :: "bytes \<Rightarrow> bytes \<Rightarrow> bytes \<Rightarrow> bytes \<Rightarrow> bytes \<times> bytes"
  gcm_open :: "bytes \<Rightarrow> bytes \<Rightarrow> bytes \<Rightarrow> bytes \<Rightarrow> bytes \<Rightarrow> bytes option"
  evp_scrypt :: "bytes \<Rightarrow> bytes \<Rightarrow> u64 \<Rightarrow> u64 \<Rightarrow> u64 \<Rightarrow> u64 \<Rightarrow> bytes option"
  evp_x25519_public :: "bytes \<Rightarrow> bytes option"
  evp_x25519_derive :: "bytes \<Rightarrow> bytes \<Rightarrow> bytes option"

abbreviation (input) "AES_KEY_SIZE \<equiv> (32 :: nat)"
abbreviation (input) "INT_MAX \<equiv> (2147483647 :: nat)"
abbreviation (input) "HKDF_INFO \<equiv> ''pq-file-transfer v2 session keys''"
abbreviation (input) "MIN_SCRYPT_LOG2_N \<equiv> (10 :: byte)"
abbreviation (input) "MAX_SCRYPT_LOG2_N \<equiv> (18 :: byte)"
abbreviation (input) "DEFAULT_SCRYPT_LOG2_N \<equiv> (17 :: byte)"

section \<open>Keys, signatures, hashes\<close>

record KEMKeyPair = kp_kem_public :: bytes kp_kem_private :: bytes
record SigKeyPair = kp_sig_public :: bytes kp_sig_private :: bytes
record EncapResult = er_ciphertext :: bytes er_shared_secret :: bytes
record SessionKeys = sk_data_key :: bytes sk_metadata_key :: bytes
record X25519KeyPair = kp_x_public :: bytes kp_x_private :: bytes

definition require_size :: "bytes \<Rightarrow> nat \<Rightarrow> string \<Rightarrow> unit thrown" where
  "require_size v expected what = (if length v \<noteq> expected then Inl (what @ '' has the wrong size'') else Inr ())"

definition generate_kem_keypair :: "crypto_lib \<Rightarrow> bytes \<Rightarrow> KEMKeyPair thrown" where
  "generate_kem_keypair L seed =
    (case oqs_kem_keypair L seed of
       None \<Rightarrow> Inl ''ML-KEM-768 keypair generation failed''
     | Some (pub, priv) \<Rightarrow> Inr \<lparr> kp_kem_public = pub, kp_kem_private = priv \<rparr>)"

definition generate_sig_keypair :: "crypto_lib \<Rightarrow> bytes \<Rightarrow> SigKeyPair thrown" where
  "generate_sig_keypair L seed =
    (case oqs_sig_keypair L seed of
       None \<Rightarrow> Inl ''ML-DSA-65 keypair generation failed''
     | Some (pub, priv) \<Rightarrow> Inr \<lparr> kp_sig_public = pub, kp_sig_private = priv \<rparr>)"

definition encapsulate :: "crypto_lib \<Rightarrow> bytes \<Rightarrow> bytes \<Rightarrow> EncapResult thrown" where
  "encapsulate L seed public_key =
    and_then (require_size public_key (kem_length_public_key L) ''Recipient's ML-KEM public key'') (\<lambda>_.
      case oqs_kem_encaps L seed public_key of
        None \<Rightarrow> Inl ''ML-KEM-768 encapsulation failed''
      | Some (ct, ss) \<Rightarrow> Inr \<lparr> er_ciphertext = ct, er_shared_secret = ss \<rparr>)"

definition decapsulate :: "crypto_lib \<Rightarrow> bytes \<Rightarrow> bytes \<Rightarrow> bytes thrown" where
  "decapsulate L ciphertext private_key =
    and_then (require_size ciphertext (kem_length_ciphertext L) ''ML-KEM ciphertext'') (\<lambda>_.
    and_then (require_size private_key (kem_length_secret_key L) ''ML-KEM private key'') (\<lambda>_.
      case oqs_kem_decaps L ciphertext private_key of
        None \<Rightarrow> Inl ''ML-KEM-768 decapsulation failed''
      | Some ss \<Rightarrow> Inr ss))"

definition derive_session_keys :: "crypto_lib \<Rightarrow> bytes \<Rightarrow> bytes \<Rightarrow> SessionKeys thrown" where
  "derive_session_keys L shared_secret salt =
    (if shared_secret = [] \<or> salt = [] then Inl ''Invalid key derivation input''
     else case evp_hkdf L shared_secret salt (bytes_of_string HKDF_INFO) (2 * AES_KEY_SIZE) of
         None \<Rightarrow> Inl ''HKDF derivation failed''
       | Some okm \<Rightarrow>
          if length okm \<noteq> 2 * AES_KEY_SIZE then Inl ''HKDF derivation failed''
          else Inr \<lparr> sk_data_key = take AES_KEY_SIZE okm, sk_metadata_key = drop AES_KEY_SIZE okm \<rparr>)"

definition hkdf_sha256 :: "crypto_lib \<Rightarrow> bytes \<Rightarrow> bytes \<Rightarrow> string \<Rightarrow> nat \<Rightarrow> bytes thrown" where
  "hkdf_sha256 L ikm salt info len =
    (if ikm = [] \<or> len = 0 \<or> len > 255 * 32 then Inl ''Invalid key derivation input''
     else case evp_hkdf L ikm salt (bytes_of_string info) len of
         None \<Rightarrow> Inl ''HKDF derivation failed''
       | Some out \<Rightarrow> if length out \<noteq> len then Inl ''HKDF derivation failed'' else Inr out)"

definition sign :: "crypto_lib \<Rightarrow> bytes \<Rightarrow> bytes \<Rightarrow> bytes \<Rightarrow> bytes thrown" where
  "sign L seed message private_key =
    and_then (require_size private_key (sig_length_secret_key L) ''ML-DSA private key'') (\<lambda>_.
      case oqs_sig_sign L seed message private_key of
        None \<Rightarrow> Inl ''ML-DSA-65 signing failed''
      | Some s \<Rightarrow> Inr s)"

definition verify :: "crypto_lib \<Rightarrow> bytes \<Rightarrow> bytes \<Rightarrow> bytes \<Rightarrow> bool" where
  "verify L message signature public_key =
    (if length public_key \<noteq> sig_length_public_key L then False
     else if signature = [] \<or> length signature > sig_length_signature L then False
     else oqs_sig_verify L message signature public_key)"

definition sha256 :: "crypto_lib \<Rightarrow> bytes \<Rightarrow> bytes" where
  "sha256 L data = evp_sha256 L data"

definition generate_x25519 :: "crypto_lib \<Rightarrow> bytes \<Rightarrow> X25519KeyPair thrown" where
  "generate_x25519 L rnd =
    (case evp_x25519_public L rnd of
       None \<Rightarrow> Inl ''Could not make an X25519 key''
     | Some pub \<Rightarrow> if length pub \<noteq> 32 then Inl ''Could not make an X25519 key''
         else Inr \<lparr> kp_x_public = pub, kp_x_private = rnd \<rparr>)"

definition x25519_shared :: "crypto_lib \<Rightarrow> bytes \<Rightarrow> bytes \<Rightarrow> bytes thrown" where
  "x25519_shared L private_key peer_public_key =
    (if length private_key \<noteq> 32 \<or> length peer_public_key \<noteq> 32 then Inl ''An X25519 key has the wrong size''
     else case evp_x25519_derive L private_key peer_public_key of
         None \<Rightarrow> Inl ''X25519 failed''
       | Some out \<Rightarrow>
          if length out \<noteq> 32 then Inl ''X25519 failed''
          else if foldl (OR) 0 out = 0 then Inl ''X25519 produced no secret: the public key is not valid''
          else Inr out)"

section \<open>Authenticated encryption\<close>

definition check_aead_inputs :: "bytes \<Rightarrow> bytes \<Rightarrow> nat \<Rightarrow> nat \<Rightarrow> unit thrown" where
  "check_aead_inputs key nonce data_len aad_len =
    (if length key \<noteq> AES_KEY_SIZE then Inl ''AES key has the wrong size''
     else if length nonce \<noteq> 12 then Inl ''AES-GCM nonce has the wrong size''
     else if data_len > INT_MAX \<or> aad_len > INT_MAX then Inl ''AES-GCM input too large''
     else Inr ())"

definition encrypt :: "crypto_lib \<Rightarrow> bytes \<Rightarrow> bytes \<Rightarrow> bytes \<Rightarrow> bytes \<Rightarrow> bytes thrown" where
  "encrypt L key nonce plaintext aad =
    and_then (check_aead_inputs key nonce (length plaintext) (length aad)) (\<lambda>_.
      let (out, tag) = gcm_seal L key nonce aad plaintext in Inr (out @ tag))"

definition decrypt :: "crypto_lib \<Rightarrow> bytes \<Rightarrow> bytes \<Rightarrow> bytes \<Rightarrow> bytes \<Rightarrow> bytes option thrown" where
  "decrypt L key nonce ciphertext aad =
    (if length ciphertext < 16 then Inr None
     else let ct_len = length ciphertext - 16 in
       and_then (check_aead_inputs key nonce ct_len (length aad)) (\<lambda>_.
         Inr (gcm_open L key nonce aad (take ct_len ciphertext) (drop ct_len ciphertext))))"

text \<open>What AES-256-GCM promises for keys and nonces of the right size.\<close>

definition gcm_lawful :: "crypto_lib \<Rightarrow> bool" where
  "gcm_lawful L \<longleftrightarrow> (\<forall>k n a p. length k = AES_KEY_SIZE \<and> length n = NONCE_SIZE \<longrightarrow>
     (case gcm_seal L k n a p of (c, t) \<Rightarrow> length c = length p \<and> length t = AEAD_TAG_SIZE \<and> gcm_open L k n a c t = Some p))"

lemma gcm_lawfulD:
  assumes "gcm_lawful L" and "length k = 32" and "length n = 12" and "gcm_seal L k n a p = (c, t)"
  shows "length c = length p" and "length t = 16" and "gcm_open L k n a c t = Some p"
proof -
  from assms(1) have "length k = 32 \<and> length n = 12 \<longrightarrow>
      (case gcm_seal L k n a p of (c, t) \<Rightarrow> length c = length p \<and> length t = 16 \<and> gcm_open L k n a c t = Some p)"
    unfolding gcm_lawful_def by (elim allE)
  with assms(2-) show "length c = length p" "length t = 16" "gcm_open L k n a c t = Some p" by simp_all
qed

lemma check_aead_inputs_ok:
  "check_aead_inputs k n d a = Inr u \<longleftrightarrow> length k = 32 \<and> length n = 12 \<and> d \<le> INT_MAX \<and> a \<le> INT_MAX"
  by (simp add: check_aead_inputs_def not_less)

lemma encrypt_Inr:
  "encrypt L key nonce p aad = Inr c \<longleftrightarrow>
   length key = 32 \<and> length nonce = 12 \<and> length p \<le> INT_MAX \<and> length aad \<le> INT_MAX \<and>
   c = fst (gcm_seal L key nonce aad p) @ snd (gcm_seal L key nonce aad p)"
  unfolding encrypt_def and_then_Inr check_aead_inputs_ok by (cases "gcm_seal L key nonce aad p") auto

lemma encrypt_length:
  assumes "gcm_lawful L" and enc: "encrypt L key nonce p aad = Inr c"
  shows "length c = length p + 16"
proof -
  obtain out t where st: "gcm_seal L key nonce aad p = (out, t)" by force
  from enc have n: "length key = 32" "length nonce = 12" "c = out @ t" by (simp_all add: encrypt_Inr st)
  from gcm_lawfulD(1, 2) [OF assms(1) n(1, 2) st] n show ?thesis by simp
qed

lemma decrypt_encrypt:
  assumes "gcm_lawful L" and enc: "encrypt L key nonce p aad = Inr c"
  shows "decrypt L key nonce c aad = Inr (Some p)"
proof -
  obtain out t where st: "gcm_seal L key nonce aad p = (out, t)" by force
  from enc have n: "length key = 32" "length nonce = 12" "length p \<le> INT_MAX" "length aad \<le> INT_MAX" "c = out @ t"
    by (simp_all add: encrypt_Inr st)
  from gcm_lawfulD [OF assms(1) n(1, 2) st] n show ?thesis
    by (simp add: decrypt_def Let_def and_then_Inr check_aead_inputs_ok)
qed

text \<open>
  What the public-key algorithms promise of a matching pair of keys: a signature made with the private
  key verifies under the public one, what was encapsulated to the public key is what the private key
  decapsulates, and both sides of an X25519 exchange compute the same secret.
\<close>

definition sig_pair :: "crypto_lib \<Rightarrow> bytes \<Rightarrow> bytes \<Rightarrow> bool" where
  "sig_pair L pub priv \<longleftrightarrow> length pub = sig_length_public_key L \<and>
     (\<forall>seed m s. oqs_sig_sign L seed m priv = Some s \<longrightarrow>
        s \<noteq> [] \<and> length s \<le> sig_length_signature L \<and> oqs_sig_verify L m s pub)"

definition kem_pair :: "crypto_lib \<Rightarrow> bytes \<Rightarrow> bytes \<Rightarrow> bool" where
  "kem_pair L pub priv \<longleftrightarrow> length priv = kem_length_secret_key L \<and>
     (\<forall>seed ct ss. oqs_kem_encaps L seed pub = Some (ct, ss) \<longrightarrow>
        length ct = kem_length_ciphertext L \<and> oqs_kem_decaps L ct priv = Some ss)"

definition x25519_agrees :: "crypto_lib \<Rightarrow> bool" where
  "x25519_agrees L \<longleftrightarrow> (\<forall>a b A B. evp_x25519_public L a = Some A \<and> evp_x25519_public L b = Some B \<longrightarrow>
     evp_x25519_derive L a B = evp_x25519_derive L b A)"

lemma sign_verify: "sig_pair L pub priv \<Longrightarrow> sign L seed m priv = Inr s \<Longrightarrow> verify L m s pub"
  by (auto simp: sig_pair_def sign_def verify_def and_then_Inr not_less split: option.splits)

lemma decapsulate_encapsulate:
  "kem_pair L pub priv \<Longrightarrow> encapsulate L seed pub = Inr e \<Longrightarrow>
     decapsulate L (er_ciphertext e) priv = Inr (er_shared_secret e) \<and> length (er_ciphertext e) = kem_length_ciphertext L"
  by (auto simp: kem_pair_def encapsulate_def decapsulate_def and_then_Inr require_size_def split: option.splits)

lemma x25519_shared_agree:
  assumes "x25519_agrees L" and "evp_x25519_public L a = Some A" and "evp_x25519_public L b = Some B"
    and "length a = 32" and "length A = 32" and "x25519_shared L b A = Inr s"
  shows "length b = 32 \<and> (length B = 32 \<longrightarrow> x25519_shared L a B = Inr s)"
proof -
  have "evp_x25519_derive L a B = evp_x25519_derive L b A"
    using assms(1-3) unfolding x25519_agrees_def by blast
  with assms(4-) show ?thesis by (auto simp: x25519_shared_def split: if_splits option.splits)
qed

section \<open>Secrets under a passphrase\<close>

abbreviation (input) "PROTECTED_MAGIC \<equiv> ([0x50, 0x51, 0x4B, 0x45] :: bytes)"
abbreviation (input) "PROTECTED_VERSION \<equiv> (1 :: byte)"
abbreviation (input) "KDF_SCRYPT \<equiv> (1 :: byte)"
abbreviation (input) "SCRYPT_R \<equiv> (8 :: byte)"
abbreviation (input) "SCRYPT_P \<equiv> (1 :: byte)"
abbreviation (input) "PROTECTED_SALT_SIZE \<equiv> (16 :: nat)"
abbreviation (input) "PROTECTED_NONCE_SIZE \<equiv> (12 :: nat)"
abbreviation (input) "PROTECTED_HEADER_SIZE \<equiv> (37 :: nat)"

definition scrypt_key :: "crypto_lib \<Rightarrow> string \<Rightarrow> bytes \<Rightarrow> byte \<Rightarrow> byte \<Rightarrow> byte \<Rightarrow> bytes thrown" where
  "scrypt_key L passphrase salt log2_n r p =
    (let n = push_bit (unat log2_n) 1; maxmem = 256 * n * ucast r in
     case evp_scrypt L (bytes_of_string passphrase) salt n (ucast r) (ucast p) maxmem of
       None \<Rightarrow> Inl ''Key derivation (scrypt) failed''
     | Some key \<Rightarrow> Inr key)"

definition protected_aad :: "bytes \<Rightarrow> string \<Rightarrow> bytes" where
  "protected_aad header label = take PROTECTED_HEADER_SIZE header @ bytes_of_string label"

definition is_protected_blob :: "bytes \<Rightarrow> bool" where
  "is_protected_blob data \<longleftrightarrow> length data \<ge> 4 \<and> take 4 data = PROTECTED_MAGIC"

text \<open>The two draws of \<^verbatim>\<open>random_bytes\<close> are the arguments \<^verbatim>\<open>salt\<close> and \<^verbatim>\<open>nonce\<close>.\<close>

definition protect_secret :: "crypto_lib \<Rightarrow> bytes \<Rightarrow> bytes \<Rightarrow> bytes \<Rightarrow> string \<Rightarrow> string \<Rightarrow> byte \<Rightarrow> bytes thrown" where
  "protect_secret L salt nonce secret passphrase label scrypt_log2_n =
    (if passphrase = [] then Inl ''The passphrase is empty''
     else if scrypt_log2_n < MIN_SCRYPT_LOG2_N \<or> scrypt_log2_n > MAX_SCRYPT_LOG2_N then Inl ''Key derivation cost is out of range''
     else let blob = PROTECTED_MAGIC @ [PROTECTED_VERSION, KDF_SCRYPT, scrypt_log2_n, SCRYPT_R, SCRYPT_P] @ salt @ nonce in
       and_then (scrypt_key L passphrase salt scrypt_log2_n SCRYPT_R SCRYPT_P) (\<lambda>key.
       and_then (encrypt L key nonce secret (protected_aad blob label)) (\<lambda>ciphertext. Inr (blob @ ciphertext))))"

definition unprotect_secret :: "crypto_lib \<Rightarrow> bytes \<Rightarrow> string \<Rightarrow> string \<Rightarrow> bytes option thrown" where
  "unprotect_secret L blob passphrase label =
    (if \<not> is_protected_blob blob \<or> length blob < PROTECTED_HEADER_SIZE + 16 then Inl ''The protected key file is damaged''
     else if blob ! 4 \<noteq> PROTECTED_VERSION \<or> blob ! 5 \<noteq> KDF_SCRYPT then Inl ''The protected key file was made by an incompatible version''
     else let log2_n = blob ! 6; r = blob ! 7; p = blob ! 8 in
       if log2_n < MIN_SCRYPT_LOG2_N \<or> log2_n > MAX_SCRYPT_LOG2_N \<or> r \<noteq> SCRYPT_R \<or> p \<noteq> SCRYPT_P
       then Inl ''The protected key file uses unsupported key derivation settings''
       else if passphrase = [] then Inr None
       else let salt = take PROTECTED_SALT_SIZE (drop 9 blob);
                nonce = take PROTECTED_NONCE_SIZE (drop (9 + PROTECTED_SALT_SIZE) blob);
                ciphertext = drop PROTECTED_HEADER_SIZE blob in
         and_then (scrypt_key L passphrase salt log2_n r p) (\<lambda>key.
           decrypt L key nonce ciphertext (protected_aad blob label)))"

section \<open>Fingerprints\<close>

definition fingerprint :: "crypto_lib \<Rightarrow> bytes \<Rightarrow> string" where
  "fingerprint L pub_dsa = bytes_to_hex (sha256 L pub_dsa)"

fun format_from :: "nat \<Rightarrow> string \<Rightarrow> string" where
  "format_from i [] = []"
| "format_from i (c # cs) =
    (if i > 0 \<and> i mod 4 = 0 then [if i mod 32 = 0 then CHR 0x0A else CHR '' ''] else []) @ c # format_from (i + 1) cs"

definition format_fingerprint :: "string \<Rightarrow> string" where
  "format_fingerprint fp = format_from 0 fp"

section \<open>Properties\<close>

text \<open>
  A library that satisfies the laws, for evaluating the definitions: no secrecy, but the right
  sizes, and a signature that is the message itself.
\<close>

definition sample_lib :: crypto_lib where
  "sample_lib = \<lparr>
     kem_length_public_key = 4, kem_length_secret_key = 4, kem_length_ciphertext = 4,
     sig_length_public_key = 4, sig_length_secret_key = 4, sig_length_signature = 4096,
     oqs_kem_keypair = (\<lambda>s. Some (s, s)), oqs_kem_encaps = (\<lambda>s pk. Some (s, replicate 32 7)),
     oqs_kem_decaps = (\<lambda>c sk. Some (replicate 32 7)), oqs_sig_keypair = (\<lambda>s. Some (s, s)),
     oqs_sig_sign = (\<lambda>s m sk. Some m), oqs_sig_verify = (\<lambda>m s pk. s = m),
     evp_sha256 = (\<lambda>m. take 32 (m @ replicate 32 0)), evp_hkdf = (\<lambda>k s i n. Some (replicate n 9)),
     gcm_seal = (\<lambda>k n a p. (p, replicate 16 0)), gcm_open = (\<lambda>k n a c t. Some c),
     evp_scrypt = (\<lambda>pw s n r p m. Some (replicate 32 5)), evp_x25519_public = Some,
     evp_x25519_derive = (\<lambda>k p. Some (replicate 32 3)) \<rparr>"

lemma sample_lib_lawful: "gcm_lawful sample_lib"
  by (simp add: gcm_lawful_def sample_lib_def)

text \<open>The same with key pairs that match: any four bytes are both halves of a pair.\<close>

definition sample_pk_lib :: crypto_lib where
  "sample_pk_lib = sample_lib \<lparr>
     oqs_kem_encaps := (\<lambda>s pk. Some (take 4 (s @ replicate 4 0), replicate 32 7)),
     oqs_sig_sign := (\<lambda>s m sk. Some (take 4096 (1 # m))), oqs_sig_verify := (\<lambda>m s pk. s = take 4096 (1 # m)) \<rparr>"

lemma sample_pk_lib_laws:
  "gcm_lawful sample_pk_lib" "x25519_agrees sample_pk_lib" "length k = 4 \<Longrightarrow> sig_pair sample_pk_lib k k"
  "length k = 4 \<Longrightarrow> kem_pair sample_pk_lib k k"
  by (auto simp: gcm_lawful_def x25519_agrees_def sig_pair_def kem_pair_def sample_pk_lib_def sample_lib_def)

lemma protect_secret_Inr:
  "protect_secret L salt nonce secret pass label n = Inr blob \<longleftrightarrow>
   pass \<noteq> [] \<and> 10 \<le> n \<and> n \<le> 18 \<and>
   (\<exists>key c. scrypt_key L pass salt n SCRYPT_R SCRYPT_P = Inr key \<and>
      encrypt L key nonce secret (protected_aad (PROTECTED_MAGIC @ [1, 1, n, 8, 1] @ salt @ nonce) label) = Inr c \<and>
      blob = PROTECTED_MAGIC @ [1, 1, n, 8, 1] @ salt @ nonce @ c)"
  by (auto simp: protect_secret_def Let_def and_then_Inr not_less)

text \<open>
  C20: A secret protected under a passphrase comes back. Whatever secret, label and cost
  \<^verbatim>\<open>protect_secret\<close> accepted, with a salt of the right size, \<^verbatim>\<open>unprotect_secret\<close> with the same passphrase
  and label returns exactly the secret.
\<close>
theorem protect_round_trip:
  assumes "gcm_lawful L" and "length salt = PROTECTED_SALT_SIZE"
    and prot: "protect_secret L salt nonce secret pass label n = Inr blob"
  shows "unprotect_secret L blob pass label = Inr (Some secret)"
proof -
  let ?h = "PROTECTED_MAGIC @ [1, 1, n, 8, 1] @ salt @ nonce"
  from prot obtain key c where n: "pass \<noteq> []" "10 \<le> n" "n \<le> 18"
    and key: "scrypt_key L pass salt n 8 1 = Inr key"
    and c: "encrypt L key nonce secret (protected_aad ?h label) = Inr c" and blob: "blob = ?h @ c"
    by (auto simp: protect_secret_Inr)
  from c have nonce: "length nonce = 12" by (simp add: encrypt_Inr)
  have "protected_aad blob label = protected_aad ?h label"
    using nonce assms(2) by (simp add: blob protected_aad_def)
  then have "decrypt L key nonce c (protected_aad blob label) = Inr (Some secret)"
    using decrypt_encrypt [OF assms(1) c] by simp
  moreover have "length c \<ge> 16" using encrypt_length [OF assms(1) c] by simp
  ultimately show ?thesis using n key nonce assms(2)
    by (simp add: unprotect_secret_def is_protected_blob_def Let_def blob not_less)
qed

theorem protect_round_trip_witness:
  "unprotect_secret sample_lib
     ([0x50, 0x51, 0x4B, 0x45, 1, 1, 10, 8, 1] @ replicate 16 2 @ replicate 12 3 @ [42] @ replicate 16 0) ''pw'' ''private_kem'' =
   Inr (Some [42])"
proof -
  have "protect_secret sample_lib (replicate 16 2) (replicate 12 3) [42] ''pw'' ''private_kem'' 10 =
      Inr ([0x50, 0x51, 0x4B, 0x45, 1, 1, 10, 8, 1] @ replicate 16 2 @ replicate 12 3 @ [42] @ replicate 16 0)"
    by (simp add: protect_secret_def Let_def scrypt_key_def encrypt_def check_aead_inputs_def sample_lib_def protected_aad_def
        bytes_of_string_def)
  from protect_round_trip [OF sample_lib_lawful _ this] show ?thesis by simp
qed

lemma scrypt_key_agree:
  assumes "\<And>k salt. k \<in> {10..18} \<Longrightarrow>
      s (bytes_of_string pass) salt (2 ^ k) 8 1 (2 ^ (k + 11)) = evp_scrypt L (bytes_of_string pass) salt (2 ^ k) 8 1 (2 ^ (k + 11))"
    and n: "10 \<le> n" "n \<le> (18 :: byte)"
  shows "scrypt_key (L \<lparr> evp_scrypt := s \<rparr>) pass salt n 8 1 = scrypt_key L pass salt n 8 1"
proof -
  have k: "unat n \<in> {10..18}" using n by (simp add: word_le_nat_alt)
  have "256 * 2 ^ unat n * 8 = (2 ^ (unat n + 11) :: u64)" by (simp add: power_add)
  then show ?thesis using assms(1) [OF k] by (simp add: scrypt_key_def Let_def push_bit_eq_mult)
qed

text \<open>
  A key file cannot choose its own cost. Reading a protected blob, whatever it holds, asks the
  key derivation only for \<open>N = 2 ^ 10\<close> to \<open>2 ^ 18\<close>, \<open>r = 8\<close>, \<open>p = 1\<close> and a memory bound of \<open>2 ^ 11 * N\<close>
  bytes, computed without wrap-around at 64 bits: replacing the library's \<^verbatim>\<open>scrypt\<close> by one that answers
  differently everywhere else changes no result.
\<close>
lemma unprotect_bounded_cost:
  assumes "\<And>k salt. k \<in> {10..18} \<Longrightarrow>
    s (bytes_of_string pass) salt (2 ^ k) 8 1 (2 ^ (k + 11)) = evp_scrypt L (bytes_of_string pass) salt (2 ^ k) 8 1 (2 ^ (k + 11))"
  shows "unprotect_secret (L \<lparr> evp_scrypt := s \<rparr>) blob pass label = unprotect_secret L blob pass label"
proof -
  have dec: "decrypt (L \<lparr> evp_scrypt := s \<rparr>) = decrypt L" by (intro ext) (simp add: decrypt_def)
  show ?thesis using scrypt_key_agree [of s pass L, OF assms] unfolding unprotect_secret_def dec
    by (auto simp: Let_def not_less)
qed

end
