(* ===== verification/Rate_Limiter.thy ===== *)
theory Rate_Limiter
  imports Prelude
begin

text \<open>
  \<^verbatim>\<open>RelayService::RateLimiter\<close> (\<^verbatim>\<open>src/server/relay_service.cpp\<close>): a fixed one-minute window per key.  The
  \<^verbatim>\<open>std::map\<close> of windows is a map; a key that is not there gets the default window, start 0 and
  count 0, as \<^verbatim>\<open>operator[]\<close> makes it.  Counts and times are integers: a count would need
  \<open>2 ^ 31\<close> calls in a minute to leave its type.
\<close>

record Window = w_start :: time w_count :: int

type_synonym windows = "string \<rightharpoonup> Window"

definition allow :: "string \<Rightarrow> int \<Rightarrow> time \<Rightarrow> windows \<Rightarrow> bool \<times> windows" where
  "allow key limit now windows =
    (let w = (case windows key of None \<Rightarrow> \<lparr> w_start = 0, w_count = 0 \<rparr> | Some w \<Rightarrow> w);
         w = (if now - w_start w \<ge> 60 then \<lparr> w_start = now, w_count = 0 \<rparr> else w);
         w = w \<lparr> w_count := w_count w + 1 \<rparr> in
     (w_count w \<le> limit, windows (key \<mapsto> w)))"

definition prune :: "time \<Rightarrow> windows \<Rightarrow> windows" where
  "prune now windows =
    (\<lambda>key. case windows key of None \<Rightarrow> None | Some w \<Rightarrow> if now - w_start w \<ge> 300 then None else Some w)"

text \<open>A history of calls, and the calls of \<^const>\<open>allow\<close> that were granted.\<close>

datatype rate_call = Allow string int time | Prune time

fun call_time :: "rate_call \<Rightarrow> time" where
  "call_time (Allow key limit now) = now"
| "call_time (Prune now) = now"

fun granted :: "rate_call list \<Rightarrow> windows \<Rightarrow> (string \<times> time) list" where
  "granted [] windows = []"
| "granted (Allow key limit now # cs) windows =
    (let (ok, windows) = allow key limit now windows in
     (if ok then [(key, now)] else []) @ granted cs windows)"
| "granted (Prune now # cs) windows = granted cs (prune now windows)"

abbreviation (input) granted_between :: "string \<Rightarrow> time \<Rightarrow> time \<Rightarrow> (string \<times> time) list \<Rightarrow> int" where
  "granted_between key a b gs \<equiv> int (length (filter (\<lambda>(k, n). k = key \<and> a \<le> n \<and> n < b) gs))"

fun limit_of :: "string \<Rightarrow> int \<Rightarrow> rate_call \<Rightarrow> bool" where
  "limit_of key l (Allow key' limit now) = (key' = key \<longrightarrow> limit = l)"
| "limit_of key l (Prune now) = True"

lemma granted_late:
  "\<forall>c\<in>set cs. b \<le> call_time c \<Longrightarrow> granted_between key a b (granted cs windows) = 0"
proof (induction cs windows rule: granted.induct)
  case (2 key' limit now cs windows)
  then show ?case by (cases "allow key' limit now windows") auto
qed auto

text \<open>
  What a window still lets through of the minute from \<open>T\<close> on: what is left of it, and the whole of
  one more window unless the minute lies inside it.
\<close>

definition budget :: "int \<Rightarrow> time \<Rightarrow> Window option \<Rightarrow> int" where
  "budget l T w =
    (case w of None \<Rightarrow> 2 * l
     | Some w \<Rightarrow> if T \<le> w_start w then max 0 (l - w_count w)
                 else if T \<le> w_start w + 60 then max 0 (l - w_count w) + l else 2 * l)"

lemma allow_budget:
  fixes now :: time
  assumes "0 \<le> l" and "0 \<le> now" and "allow key l now windows = (ok, windows')"
    and "\<forall>w. windows key = Some w \<longrightarrow> w_start w \<le> now" and "now < T + 60"
  shows "(if ok \<and> T \<le> now then 1 else 0) + budget l T (windows' key) \<le> budget l T (windows key)"
  using assms
  by (cases "windows key") (auto simp: allow_def Let_def budget_def split: if_splits)

lemma granted_budget:
  assumes "0 \<le> l" and "sorted (map call_time cs)" and "\<forall>c\<in>set cs. 0 \<le> call_time c \<and> limit_of key l c"
    and "\<forall>w. windows key = Some w \<longrightarrow> (\<forall>c\<in>set cs. w_start w \<le> call_time c)"
  shows "granted_between key T (T + 60) (granted cs windows) \<le> budget l T (windows key)"
  using assms
proof (induction cs windows rule: granted.induct)
  case (1 windows)
  then show ?case by (auto simp: budget_def split: option.splits)
next
  case (2 key' limit now cs windows)
  obtain ok windows' where al: "allow key' limit now windows = (ok, windows')" by force
  have starts: "\<forall>w. windows' key = Some w \<longrightarrow> (\<forall>c\<in>set cs. w_start w \<le> call_time c)"
    using 2(3, 4, 5) al by (auto simp: allow_def Let_def split: if_splits option.splits)
  have rest: "granted_between key T (T + 60) (granted cs windows') \<le> budget l T (windows' key)"
    using 2(1) [OF al [symmetric] refl] 2(2-4) starts by simp
  show ?case
  proof (cases "now < T + 60 \<and> key' = key")
    case True
    then have "limit = l" using 2(4) by simp
    with True al have "(if ok \<and> T \<le> now then 1 else 0) + budget l T (windows' key) \<le> budget l T (windows key)"
      using allow_budget [of l now key windows ok windows' T] 2(2, 4, 5) by simp
    with rest True al show ?thesis by (auto split: if_splits)
  next
    case False
    show ?thesis
    proof (cases "key' = key")
      case True
      with False have "T + 60 \<le> now" by simp
      then have "\<forall>c\<in>set (Allow key' limit now # cs). T + 60 \<le> call_time c" using 2(3) by auto
      then have "granted_between key T (T + 60) (granted (Allow key' limit now # cs) windows) = 0" by (rule granted_late)
      moreover have "0 \<le> budget l T (windows key)" using 2(2) by (simp add: budget_def split: option.splits)
      ultimately show ?thesis by linarith
    next
      case False
      then have "windows' key = windows key" using al by (auto simp: allow_def Let_def)
      with rest al False show ?thesis by (auto split: if_splits)
    qed
  qed
next
  case (3 now cs windows)
  have rest: "granted_between key T (T + 60) (granted cs (prune now windows)) \<le> budget l T (prune now windows key)"
    using 3 by (auto simp: prune_def split: option.splits if_splits)
  show ?case
  proof (cases "prune now windows key = windows key")
    case True
    with rest show ?thesis by simp
  next
    case False
    then obtain w where w: "windows key = Some w" "w_start w + 300 \<le> now" "prune now windows key = None"
      by (auto simp: prune_def split: option.splits if_splits)
    show ?thesis
    proof (cases "T \<le> w_start w + 60")
      case True
      then have "\<forall>c\<in>set cs. T + 60 \<le> call_time c" using 3(3) w by auto
      then have "granted_between key T (T + 60) (granted cs (prune now windows)) = 0" by (rule granted_late)
      moreover have "0 \<le> budget l T (windows key)" using 3(2) by (simp add: budget_def split: option.splits)
      ultimately show ?thesis by simp
    next
      case False
      with rest w show ?thesis by (simp add: budget_def)
    qed
  qed
qed

text \<open>
  C22: The rate limit holds. From a fresh limiter, over any history of calls in order of time, for all
  keys and with pruning in between, at most twice the limit of a key's requests are granted in any
  sixty seconds, and at most the limit in the minute that its first request opens.
\<close>
theorem rate_limit_holds:
  assumes "0 \<le> l" and "sorted (map call_time cs)" and "\<forall>c\<in>set cs. 0 \<le> call_time c \<and> limit_of key l c"
  shows "granted_between key T (T + 60) (granted cs Map.empty) \<le> 2 * l \<and>
    (\<forall>t cs'. 60 \<le> t \<and> cs = Allow key l t # cs' \<longrightarrow> granted_between key t (t + 60) (granted cs Map.empty) \<le> l)"
proof (intro conjI allI impI)
  show "granted_between key T (T + 60) (granted cs Map.empty) \<le> 2 * l"
    using granted_budget [OF assms, of Map.empty T] by (simp add: budget_def)
next
  fix t cs'
  assume t: "60 \<le> t \<and> cs = Allow key l t # cs'"
  let ?w = "Map.empty (key \<mapsto> \<lparr> w_start = t, w_count = 1 \<rparr>)"
  have "granted_between key t (t + 60) (granted cs' ?w) \<le> max 0 (l - 1)"
    using granted_budget [of l cs' key ?w t] assms t by (auto simp: budget_def)
  then show "granted_between key t (t + 60) (granted cs Map.empty) \<le> l"
    using t assms(1) by (auto simp: allow_def Let_def)
qed

theorem rate_limit_holds_witness:
  "granted_between ''a'' 100 160 (granted [Allow ''a'' 1 90, Allow ''a'' 1 120, Allow ''b'' 9 130, Prune 140, Allow ''a'' 1 151] Map.empty) \<le> 2 \<and>
   granted_between ''a'' 90 150 (granted [Allow ''a'' 1 90, Allow ''a'' 1 120, Allow ''b'' 9 130, Prune 140, Allow ''a'' 1 151] Map.empty) \<le> 1"
  using rate_limit_holds [of 1 "[Allow ''a'' 1 90, Allow ''a'' 1 120, Allow ''b'' 9 130, Prune 140, Allow ''a'' 1 151]" "''a''" 100] by simp

end
