(* ===== verification/Socket_IO.thy ===== *)
theory Socket_IO
  imports Wire
begin

text \<open>
  Message types, framing and the loops over \<^verbatim>\<open>send\<close> and \<^verbatim>\<open>recv\<close> (\<^verbatim>\<open>src/protocol/messages.h\<close>,
  \<^verbatim>\<open>src/protocol/protocol.cpp\<close>).  A message type is any byte, as \<^verbatim>\<open>enum class MessageType :
  uint8_t\<close> is after the cast in \<^verbatim>\<open>recv_message\<close>.  What the operating system answers to successive
  system calls is an input of the model: a list of how much each \<^verbatim>\<open>send\<close> accepts, and a list of
  the segments \<^verbatim>\<open>recv\<close> finds, with interruptions and failures in between.  A call that is still
  waiting when the list ends has the value \<^term>\<open>None\<close>.
\<close>

type_synonym message_type = byte

abbreviation (input) "UPLOAD_REQUEST \<equiv> (0x01 :: message_type)"
abbreviation (input) "UPLOAD_CHUNK \<equiv> (0x02 :: message_type)"
abbreviation (input) "UPLOAD_DONE \<equiv> (0x03 :: message_type)"
abbreviation (input) "DOWNLOAD_REQUEST \<equiv> (0x04 :: message_type)"
abbreviation (input) "DOWNLOAD_CHUNK \<equiv> (0x05 :: message_type)"
abbreviation (input) "DOWNLOAD_DONE \<equiv> (0x06 :: message_type)"
abbreviation (input) "DOWNLOAD_HEADER \<equiv> (0x09 :: message_type)"
abbreviation (input) "RELAY_HELLO \<equiv> (0x20 :: message_type)"
abbreviation (input) "RELAY_HELLO_REPLY \<equiv> (0x21 :: message_type)"
abbreviation (input) "RELAY_REGISTER \<equiv> (0x22 :: message_type)"
abbreviation (input) "RELAY_REGISTER_OK \<equiv> (0x23 :: message_type)"
abbreviation (input) "RELAY_AUTH \<equiv> (0x24 :: message_type)"
abbreviation (input) "RELAY_AUTH_OK \<equiv> (0x25 :: message_type)"
abbreviation (input) "RELAY_DEPOSIT \<equiv> (0x26 :: message_type)"
abbreviation (input) "RELAY_DEPOSIT_OK \<equiv> (0x27 :: message_type)"
abbreviation (input) "RELAY_COLLECT \<equiv> (0x28 :: message_type)"
abbreviation (input) "RELAY_ENVELOPE \<equiv> (0x29 :: message_type)"
abbreviation (input) "RELAY_COLLECT_END \<equiv> (0x2A :: message_type)"
abbreviation (input) "RELAY_ACK \<equiv> (0x2B :: message_type)"
abbreviation (input) "RELAY_ACK_OK \<equiv> (0x2C :: message_type)"
abbreviation (input) "RELAY_TOKEN_ADD \<equiv> (0x2D :: message_type)"
abbreviation (input) "RELAY_TOKEN_REVOKE \<equiv> (0x2E :: message_type)"
abbreviation (input) "RELAY_TOKEN_OK \<equiv> (0x2F :: message_type)"
abbreviation (input) "RELAY_PING \<equiv> (0x30 :: message_type)"
abbreviation (input) "RELAY_PONG \<equiv> (0x31 :: message_type)"
abbreviation (input) "RELAY_INVITE_CREATE \<equiv> (0x32 :: message_type)"
abbreviation (input) "RELAY_INVITE_OK \<equiv> (0x33 :: message_type)"
abbreviation (input) "RELAY_INVITE_LIST \<equiv> (0x34 :: message_type)"
abbreviation (input) "RELAY_INVITE_LIST_OK \<equiv> (0x35 :: message_type)"
abbreviation (input) "RELAY_INVITE_CANCEL \<equiv> (0x36 :: message_type)"
abbreviation (input) "RELAY_INVITE_CANCEL_OK \<equiv> (0x37 :: message_type)"
abbreviation (input) "ARCHIVE_CREATE \<equiv> (0x40 :: message_type)"
abbreviation (input) "ARCHIVE_CREATE_OK \<equiv> (0x41 :: message_type)"
abbreviation (input) "ARCHIVE_JOIN \<equiv> (0x42 :: message_type)"
abbreviation (input) "ARCHIVE_JOIN_OK \<equiv> (0x43 :: message_type)"
abbreviation (input) "ARCHIVE_AUTH \<equiv> (0x44 :: message_type)"
abbreviation (input) "ARCHIVE_AUTH_OK \<equiv> (0x45 :: message_type)"
abbreviation (input) "ARCHIVE_APPEND \<equiv> (0x46 :: message_type)"
abbreviation (input) "ARCHIVE_APPEND_OK \<equiv> (0x47 :: message_type)"
abbreviation (input) "ARCHIVE_STALE \<equiv> (0x48 :: message_type)"
abbreviation (input) "ARCHIVE_FETCH \<equiv> (0x49 :: message_type)"
abbreviation (input) "ARCHIVE_ENTRY \<equiv> (0x4A :: message_type)"
abbreviation (input) "ARCHIVE_FETCH_END \<equiv> (0x4B :: message_type)"
abbreviation (input) "KEYRING_PUT \<equiv> (0x4C :: message_type)"
abbreviation (input) "KEYRING_PUT_OK \<equiv> (0x4D :: message_type)"
abbreviation (input) "KEYRING_GET \<equiv> (0x4E :: message_type)"
abbreviation (input) "KEYRING_DATA \<equiv> (0x4F :: message_type)"
abbreviation (input) "ARCHIVE_DELETE \<equiv> (0x50 :: message_type)"
abbreviation (input) "ARCHIVE_DELETE_OK \<equiv> (0x51 :: message_type)"
abbreviation (input) "FILE_UPLOAD_BEGIN \<equiv> (0x60 :: message_type)"
abbreviation (input) "FILE_UPLOAD_OK \<equiv> (0x61 :: message_type)"
abbreviation (input) "FILE_CHUNK \<equiv> (0x62 :: message_type)"
abbreviation (input) "FILE_CHUNK_OK \<equiv> (0x63 :: message_type)"
abbreviation (input) "FILE_DOWNLOAD \<equiv> (0x64 :: message_type)"
abbreviation (input) "FILE_INFO \<equiv> (0x65 :: message_type)"
abbreviation (input) "FILE_DATA \<equiv> (0x66 :: message_type)"
abbreviation (input) "FILE_DOWNLOAD_END \<equiv> (0x67 :: message_type)"
abbreviation (input) "FILE_REDEEM \<equiv> (0x68 :: message_type)"
abbreviation (input) "FILE_REDEEM_OK \<equiv> (0x69 :: message_type)"
abbreviation (input) "FILE_CANCEL \<equiv> (0x6A :: message_type)"
abbreviation (input) "FILE_CANCEL_OK \<equiv> (0x6B :: message_type)"
abbreviation (input) "FILE_STATUS \<equiv> (0x6C :: message_type)"
abbreviation (input) "FILE_STATUS_OK \<equiv> (0x6D :: message_type)"
abbreviation (input) "PREKEY_PUT \<equiv> (0x70 :: message_type)"
abbreviation (input) "PREKEY_PUT_OK \<equiv> (0x71 :: message_type)"
abbreviation (input) "PREKEY_TAKE \<equiv> (0x72 :: message_type)"
abbreviation (input) "PREKEY_DATA \<equiv> (0x73 :: message_type)"
abbreviation (input) "PREKEY_STATUS \<equiv> (0x74 :: message_type)"
abbreviation (input) "PREKEY_STATUS_OK \<equiv> (0x75 :: message_type)"
abbreviation (input) "ERROR_MSG \<equiv> (0xFE :: message_type)"
abbreviation (input) "ACK \<equiv> (0xFF :: message_type)"

record WireMessage = wm_type :: message_type wm_payload :: bytes

definition serialize_wire_message :: "message_type \<Rightarrow> bytes \<Rightarrow> bytes" where
  "serialize_wire_message typ payload =
    (let b = []; b = write_u32 b (word_of_nat (length payload)); b = b @ [typ]; b = write_bytes b payload (length payload) in b)"

section \<open>Sending\<close>

datatype sys_send = Accepted nat | SendInterrupted | SendFailed

text \<open>The most that one system call is asked to move.\<close>

definition io_piece :: nat where
  "io_piece = 1048576"

text \<open>
  The second argument is what is left to send, the third what has gone onto the wire; the
  result is the return value with the wire and the answers not used.
\<close>

primrec send_exact :: "sys_send list \<Rightarrow> bytes \<Rightarrow> bytes \<Rightarrow> (bool \<times> bytes \<times> sys_send list) option" where
  "send_exact [] xs wire = (if xs = [] then Some (True, wire, []) else None)"
| "send_exact (e # evs) xs wire =
    (if xs = [] then Some (True, wire, e # evs)
     else case e of
         SendInterrupted \<Rightarrow> send_exact evs xs wire
       | SendFailed \<Rightarrow> Some (False, wire, evs)
       | Accepted n \<Rightarrow>
          let piece = min (length xs) io_piece; sent = min n piece in
          if sent = 0 then Some (False, wire, evs)
          else send_exact evs (drop sent xs) (wire @ take sent xs))"

definition send_message :: "sys_send list \<Rightarrow> message_type \<Rightarrow> bytes \<Rightarrow> bytes \<Rightarrow> (bool \<times> bytes \<times> sys_send list) option" where
  "send_message evs typ payload wire =
    (if length payload > 0xFFFFFFFF then Some (False, wire, evs)
     else let pre = write_u32 [] (word_of_nat (length payload)) @ [typ] in
       case send_exact evs pre wire of
         None \<Rightarrow> None
       | Some (ok, wire, evs) \<Rightarrow>
           if \<not> ok then Some (False, wire, evs)
           else if payload = [] then Some (True, wire, evs) else send_exact evs payload wire)"

definition send_text_message :: "sys_send list \<Rightarrow> message_type \<Rightarrow> string \<Rightarrow> bytes \<Rightarrow> (bool \<times> bytes \<times> sys_send list) option" where
  "send_text_message evs typ txt wire = send_message evs typ (bytes_of_string txt) wire"

section \<open>Receiving\<close>

datatype sys_recv = Received bytes | RecvInterrupted | RecvFailed

text \<open>
  \<^verbatim>\<open>recv\<close> takes at most the piece asked for from the segment that has arrived, and leaves the
  rest; an empty segment is the peer's orderly shutdown.
\<close>

function recv_exact :: "nat \<Rightarrow> sys_recv list \<Rightarrow> bytes \<Rightarrow> (bytes option \<times> sys_recv list) option" where
  "recv_exact len evs buf =
    (if len = 0 then Some (Some buf, evs)
     else case evs of
         [] \<Rightarrow> None
       | RecvInterrupted # evs \<Rightarrow> recv_exact len evs buf
       | RecvFailed # evs \<Rightarrow> Some (None, evs)
       | Received bs # evs \<Rightarrow>
          if bs = [] then Some (None, evs)
          else let piece = min len io_piece; got = take piece bs;
                   evs' = (if length bs \<le> piece then evs else Received (drop piece bs) # evs) in
            recv_exact (len - length got) evs' (buf @ got))"
  by pat_completeness auto
termination
  by (relation "measure (\<lambda>(len, evs, _). len + length evs)") (auto simp: io_piece_def)

declare recv_exact.simps [simp del]

definition recv_message :: "sys_recv list \<Rightarrow> u32 \<Rightarrow> (WireMessage option \<times> sys_recv list) option" where
  "recv_message evs max_payload =
    (case recv_exact 5 evs [] of
       None \<Rightarrow> None
     | Some (None, evs) \<Rightarrow> Some (None, evs)
     | Some (Some pre, evs) \<Rightarrow>
        (case read_u32 pre 0 of
           None \<Rightarrow> Some (None, evs)
         | Some (payload_len, _) \<Rightarrow>
            if payload_len > max_payload then Some (None, evs)
            else if payload_len = 0 then Some (Some \<lparr> wm_type = pre ! 4, wm_payload = [] \<rparr>, evs)
            else (case recv_exact (unat payload_len) evs [] of
                    None \<Rightarrow> None
                  | Some (None, evs) \<Rightarrow> Some (None, evs)
                  | Some (Some payload, evs) \<Rightarrow> Some (Some \<lparr> wm_type = pre ! 4, wm_payload = payload \<rparr>, evs))))"

text \<open>Receiving a number of messages one after the other.\<close>

fun recv_messages :: "nat \<Rightarrow> sys_recv list \<Rightarrow> u32 \<Rightarrow> (WireMessage list option \<times> sys_recv list) option" where
  "recv_messages 0 evs max_payload = Some (Some [], evs)"
| "recv_messages (Suc n) evs max_payload =
    (case recv_message evs max_payload of
       None \<Rightarrow> None
     | Some (None, evs) \<Rightarrow> Some (None, evs)
     | Some (Some m, evs) \<Rightarrow>
        (case recv_messages n evs max_payload of
           None \<Rightarrow> None
         | Some (None, evs) \<Rightarrow> Some (None, evs)
         | Some (Some ms, evs) \<Rightarrow> Some (Some (m # ms), evs)))"

text \<open>The bytes that arrive before the connection fails or is shut down.\<close>

fun stream_bytes :: "sys_recv list \<Rightarrow> bytes" where
  "stream_bytes [] = []"
| "stream_bytes (RecvInterrupted # evs) = stream_bytes evs"
| "stream_bytes (RecvFailed # evs) = []"
| "stream_bytes (Received bs # evs) = (if bs = [] then [] else bs @ stream_bytes evs)"

lemma recv_exact_step:
  "recv_exact 0 evs buf = Some (Some buf, evs)"
  "0 < len \<Longrightarrow> recv_exact len [] buf = None"
  "0 < len \<Longrightarrow> recv_exact len (RecvInterrupted # evs) buf = recv_exact len evs buf"
  "0 < len \<Longrightarrow> recv_exact len (RecvFailed # evs) buf = Some (None, evs)"
  "0 < len \<Longrightarrow> recv_exact len (Received [] # evs) buf = Some (None, evs)"
  by (subst recv_exact.simps, simp add: Let_def)+

lemma recv_exact_received:
  "0 < len \<Longrightarrow> bs \<noteq> [] \<Longrightarrow> recv_exact len (Received bs # evs) buf =
    recv_exact (len - length (take (min len io_piece) bs))
      (if length bs \<le> min len io_piece then evs else Received (drop (min len io_piece) bs) # evs)
      (buf @ take (min len io_piece) bs)"
  by (subst recv_exact.simps, simp add: Let_def)+

lemma recv_exact_stream:
  "len \<le> length (stream_bytes evs) \<Longrightarrow>
   \<exists>evs'. recv_exact len evs buf = Some (Some (buf @ take len (stream_bytes evs)), evs') \<and>
     stream_bytes evs' = drop len (stream_bytes evs)"
proof (induction len evs buf rule: recv_exact.induct)
  case (1 len evs buf)
  show ?case
  proof (cases "len = 0")
    case True
    then show ?thesis by (simp add: recv_exact_step)
  next
    case False
    then obtain e es where evs: "evs = e # es" using "1.prems" by (cases evs) auto
    show ?thesis
    proof (cases e)
      case RecvInterrupted
      then show ?thesis using "1.IH"(2) [OF False evs RecvInterrupted] "1.prems" evs False by (simp add: recv_exact_step)
    next
      case RecvFailed
      then show ?thesis using "1.prems" evs False by simp
    next
      case (Received bs)
      let ?piece = "min len io_piece"
      let ?evs = "if length bs \<le> ?piece then es else Received (drop ?piece bs) # es"
      have bs: "bs \<noteq> []" using "1.prems" evs False Received by auto
      have stream: "stream_bytes ?evs = drop (length (take ?piece bs)) (bs @ stream_bytes es)" by (auto simp: min_def)
      have "\<exists>evs'. recv_exact (len - length (take ?piece bs)) ?evs (buf @ take ?piece bs) =
          Some (Some ((buf @ take ?piece bs) @ take (len - length (take ?piece bs)) (stream_bytes ?evs)), evs') \<and>
          stream_bytes evs' = drop (len - length (take ?piece bs)) (stream_bytes ?evs)"
        using "1.IH"(1) [OF False evs Received bs refl refl refl] "1.prems" evs Received bs unfolding stream by simp
      moreover have "take len (bs @ stream_bytes es) =
          take ?piece bs @ take (len - length (take ?piece bs)) (stream_bytes ?evs)"
      proof -
        have "length (take ?piece bs) \<le> len" by simp
        then have "take len (bs @ stream_bytes es) = take (length (take ?piece bs)) (bs @ stream_bytes es) @
            take (len - length (take ?piece bs)) (drop (length (take ?piece bs)) (bs @ stream_bytes es))"
          by (metis le_add_diff_inverse take_add)
        moreover have "take (length (take ?piece bs)) (bs @ stream_bytes es) = take ?piece bs" by (simp add: min_def)
        ultimately show ?thesis unfolding stream by simp
      qed
      moreover have "drop (len - length (take ?piece bs)) (stream_bytes ?evs) = drop len (bs @ stream_bytes es)"
        unfolding stream drop_drop by (simp add: min_def)
      ultimately show ?thesis using evs Received bs recv_exact_received [of len bs es buf] False by simp
    qed
  qed
qed

lemma recv_exact_short:
  "length (stream_bytes evs) < len \<Longrightarrow> recv_exact len evs buf = Some (Some got, evs') \<Longrightarrow> False"
proof (induction len evs buf rule: recv_exact.induct)
  case (1 len evs buf)
  then have len: "len \<noteq> 0" by simp
  with 1 obtain e es where evs: "evs = e # es" by (cases evs) (auto simp: recv_exact_step)
  show ?case
  proof (cases e)
    case RecvInterrupted
    then show ?thesis using "1.IH"(2) [OF len evs] "1.prems" evs len by (simp add: recv_exact_step)
  next
    case RecvFailed
    then show ?thesis using "1.prems" evs len by (simp add: recv_exact_step)
  next
    case (Received bs)
    let ?piece = "min len io_piece"
    let ?evs = "if length bs \<le> ?piece then es else Received (drop ?piece bs) # es"
    have bs: "bs \<noteq> []" using "1.prems" evs len Received by (auto simp: recv_exact_step)
    then have "length (stream_bytes ?evs) < len - length (take ?piece bs)"
      using "1.prems"(1) evs Received by (auto simp: min_def)
    moreover have "recv_exact (len - length (take ?piece bs)) ?evs (buf @ take ?piece bs) = Some (Some got, evs')"
      using "1.prems"(2) evs Received recv_exact_received [of len bs es buf] bs len by simp
    ultimately show ?thesis by (rule "1.IH"(1) [OF len evs Received bs refl refl refl])
  qed
qed

lemma recv_exact_length: "recv_exact len evs buf = Some (Some got, evs') \<Longrightarrow> length got = length buf + len"
proof -
  assume r: "recv_exact len evs buf = Some (Some got, evs')"
  then have "len \<le> length (stream_bytes evs)" using recv_exact_short [OF _ r] by (meson not_le_imp_less)
  then show ?thesis using recv_exact_stream [of len evs buf] r by auto
qed

lemma serialize_wire_message_eq:
  "serialize_wire_message typ payload = write_u32 [] (word_of_nat (length payload)) @ typ # payload"
  by (simp add: serialize_wire_message_def Let_def write_u32_def write_bytes_def)

lemma send_exact_wire:
  "send_exact evs xs wire = Some (True, wire', evs') \<Longrightarrow> wire' = wire @ xs"
proof (induction evs arbitrary: xs wire)
  case Nil
  then show ?case by (simp split: if_splits)
next
  case (Cons e evs)
  show ?case using Cons.prems by (auto simp: Let_def dest!: Cons.IH split: if_splits sys_send.splits)
qed

lemma send_message_wire:
  "send_message evs typ payload wire = Some (True, wire', evs') \<Longrightarrow>
   length payload < 2 ^ 32 \<and> wire' = wire @ serialize_wire_message typ payload"
  by (auto simp: send_message_def Let_def serialize_wire_message_eq dest!: send_exact_wire split: if_splits option.splits)

lemma read_u32_head: "read_u32 (write_u32 [] v @ rest) 0 = Some (v, 4)"
  using read_u32_iff [of "[]" "write_u32 [] v @ rest" v 4] by (simp add: write_u32_def prefix_def)

lemma recv_message_stream:
  assumes s: "stream_bytes evs = serialize_wire_message typ payload @ rest"
    and n: "length payload \<le> unat max_payload"
  shows "\<exists>evs'. recv_message evs max_payload = Some (Some \<lparr> wm_type = typ, wm_payload = payload \<rparr>, evs') \<and>
    stream_bytes evs' = rest"
proof -
  let ?len = "word_of_nat (length payload) :: u32"
  have n32: "length payload < 2 ^ 32" using n le_less_trans [OF n unsigned_less] by simp
  then have len: "unat ?len = length payload" by (simp add: unat_of_nat)
  have pre: "length (write_u32 [] ?len) = 4" by (simp add: write_u32_def)
  have small: "\<not> ?len > max_payload" using n len by (simp add: word_less_nat_alt)
  obtain evs1 where r1: "recv_exact 5 evs [] = Some (Some (write_u32 [] ?len @ [typ]), evs1)"
    and s1: "stream_bytes evs1 = payload @ rest"
    using recv_exact_stream [of 5 evs "[]"] pre by (auto simp: s serialize_wire_message_eq)
  show ?thesis
  proof (cases "payload = []")
    case True
    then show ?thesis using r1 s1 small pre by (simp add: recv_message_def read_u32_head nth_append)
  next
    case False
    then have "?len \<noteq> 0" using len by (metis length_0_conv unat_0)
    moreover obtain evs2 where "recv_exact (length payload) evs1 [] = Some (Some payload, evs2)" "stream_bytes evs2 = rest"
      using recv_exact_stream [of "length payload" evs1 "[]"] s1 by auto
    ultimately show ?thesis using r1 small pre len by (simp add: recv_message_def read_u32_head nth_append)
  qed
qed

text \<open>What a session writes when it sends a list of messages.\<close>

primrec send_messages :: "sys_send list \<Rightarrow> WireMessage list \<Rightarrow> bytes \<Rightarrow> (bool \<times> bytes \<times> sys_send list) option" where
  "send_messages evs [] wire = Some (True, wire, evs)"
| "send_messages evs (m # ms) wire =
    (case send_message evs (wm_type m) (wm_payload m) wire of
       None \<Rightarrow> None
     | Some (ok, wire, evs) \<Rightarrow> if ok then send_messages evs ms wire else Some (False, wire, evs))"

abbreviation (input) wire_of :: "WireMessage list \<Rightarrow> bytes" where
  "wire_of ms \<equiv> concat (map (\<lambda>m. serialize_wire_message (wm_type m) (wm_payload m)) ms)"

lemma send_messages_wire:
  "send_messages evs ms wire = Some (True, wire', evs') \<Longrightarrow> wire' = wire @ wire_of ms"
  by (induction ms arbitrary: evs wire) (fastforce dest!: send_message_wire split: option.splits if_splits)+

lemma recv_messages_stream:
  "stream_bytes evs = wire_of ms @ rest \<Longrightarrow> list_all (\<lambda>m. length (wm_payload m) \<le> unat max_payload) ms \<Longrightarrow>
   \<exists>evs'. recv_messages (length ms) evs max_payload = Some (Some ms, evs') \<and> stream_bytes evs' = rest"
proof (induction ms arbitrary: evs)
  case Nil
  then show ?case by simp
next
  case (Cons m ms)
  from Cons.prems obtain evs1 where "recv_message evs max_payload = Some (Some m, evs1)" "stream_bytes evs1 = wire_of ms @ rest"
    using recv_message_stream [of evs "wm_type m" "wm_payload m" "wire_of ms @ rest" max_payload] by auto
  with Cons.IH [of evs1] Cons.prems show ?case by auto
qed

text \<open>
  C10: Framing round trip: when a peer has sent a list of messages without an error, however the
  operating system cut the writes, and the bytes arrive in any segmentation with any
  interruptions, receiving that many messages gives exactly the list that was sent, in order,
  provided no payload is above the receiver's limit; what follows on the stream is untouched.
\<close>
theorem framing_round_trip:
  assumes "send_messages sends ms [] = Some (True, wire, sends')"
    and "stream_bytes evs = wire @ rest"
    and "list_all (\<lambda>m. length (wm_payload m) \<le> unat max_payload) ms"
  shows "\<exists>evs'. recv_messages (length ms) evs max_payload = Some (Some ms, evs') \<and> stream_bytes evs' = rest"
  using recv_messages_stream [of evs ms rest max_payload] send_messages_wire [OF assms(1)] assms(2, 3) by simp

theorem framing_round_trip_witness:
  "\<exists>evs'. recv_messages (Suc (Suc 0)) [Received [0, 0], RecvInterrupted, Received [0, 2, 0x30, 7], Received [8, 0, 0, 0, 0, 0x31, 9]] 4 =
     Some (Some [\<lparr> wm_type = 0x30, wm_payload = [7, 8] \<rparr>, \<lparr> wm_type = 0x31, wm_payload = [] \<rparr>], evs') \<and>
   stream_bytes evs' = [9]"
proof -
  let ?ms = "[\<lparr> wm_type = 0x30, wm_payload = [7, 8] \<rparr>, \<lparr> wm_type = 0x31, wm_payload = [] \<rparr>] :: WireMessage list"
  let ?evs = "[Received [0, 0], RecvInterrupted, Received [0, 2, 0x30, 7], Received [8, 0, 0, 0, 0, 0x31, 9]]"
  have "send_messages [Accepted 3, SendInterrupted, Accepted 9, Accepted 9, Accepted 9] ?ms [] =
      Some (True, [0, 0, 0, 2, 0x30, 7, 8, 0, 0, 0, 0, 0x31], [])"
    by (simp add: send_message_def Let_def write_u32_def split32_def io_piece_def)
  moreover have "stream_bytes ?evs = [0, 0, 0, 2, 0x30, 7, 8, 0, 0, 0, 0, 0x31] @ [9]" by simp
  moreover have "list_all (\<lambda>m. length (wm_payload m) \<le> unat (4 :: u32)) ?ms" by simp
  ultimately have "\<exists>evs'. recv_messages (length ?ms) ?evs 4 = Some (Some ?ms, evs') \<and> stream_bytes evs' = [9]"
    by (rule framing_round_trip)
  then show ?thesis by (simp only: list.size add_0 add_0_right add_Suc_right One_nat_def)
qed

text \<open>
  A receiver is bounded by its limit: whatever arrives, a message that \<^verbatim>\<open>recv_message\<close>
  returns has at most \<^verbatim>\<open>max_payload\<close> bytes, and a prefix announcing more is refused after its
  five bytes, with nothing of the payload read.
\<close>
lemma recv_message_bounded:
  assumes "recv_message evs max_payload = Some (r, evs')"
  shows "(\<forall>m. r = Some m \<longrightarrow> length (wm_payload m) \<le> unat max_payload) \<and>
    (\<forall>len typ rest. stream_bytes evs = write_u32 [] len @ typ # rest \<and> max_payload < len \<longrightarrow>
       r = None \<and> stream_bytes evs' = rest)"
proof (intro conjI allI impI)
  fix m assume "r = Some m"
  with assms show "length (wm_payload m) \<le> unat max_payload"
    by (auto simp: recv_message_def word_less_nat_alt dest!: recv_exact_length split: option.splits if_splits)
next
  fix len t rest
  assume s: "stream_bytes evs = write_u32 [] len @ t # rest \<and> max_payload < len"
  have "length (write_u32 [] len) = 4" by (simp add: write_u32_def)
  then obtain evs1 where "recv_exact 5 evs [] = Some (Some (write_u32 [] len @ [t]), evs1)" "stream_bytes evs1 = rest"
    using recv_exact_stream [of 5 evs "[]"] s by auto
  with s assms show "r = None" "stream_bytes evs' = rest" by (auto simp: recv_message_def read_u32_head)
qed

end
