(* ===== verification/Relay_Service.thy ===== *)
theory Relay_Service
  imports Relay_Protocol Signing_Inputs Relay_Store_Spec Crypto_Engine Rate_Limiter Socket_IO
begin

text \<open>
  The relay around its sessions (\<^verbatim>\<open>src/server/relay_service.h\<close>, \<^verbatim>\<open>src/server/relay_service.cpp\<close>): limits,
  identity, the files of attachments, operator commands, sweeping, and which connection of a
  mailbox receives its deliveries.  A directory is a map from names to inodes with their
  contents beside it, because the relay writes to files it holds open while names are renamed
  and removed.  The clock and the random generator are arguments.  Log lines, file permissions
  and the sweeper's thread are not modelled.
\<close>

section \<open>Limits\<close>

record RelayLimits =
  lm_mailbox_quota_bytes :: nat
  lm_max_mailboxes :: nat
  lm_max_tokens_per_mailbox :: nat
  lm_rate_limit_per_minute :: int
  lm_sweep_seconds :: int
  lm_invite_lifetime_seconds :: int
  lm_member_invites_outstanding :: nat
  lm_member_invites_total :: nat
  lm_max_archives :: nat
  lm_archive_quota_bytes :: nat
  lm_archive_join_window_seconds :: int
  lm_keyring_max_bytes :: nat
  lm_max_prekeys :: u32
  lm_prekey_takes_per_hour :: u32
  lm_max_attachment_bytes :: u64
  lm_attachment_quota_bytes :: u64
  lm_attachment_max_seconds :: int
  lm_abandoned_upload_seconds :: int
  lm_idle_timeout_seconds :: int
  lm_poll_millis :: int

definition default_limits :: RelayLimits where
  "default_limits = \<lparr>
     lm_mailbox_quota_bytes = 67108864, lm_max_mailboxes = 1000, lm_max_tokens_per_mailbox = 1024,
     lm_rate_limit_per_minute = 120, lm_sweep_seconds = 60, lm_invite_lifetime_seconds = 1209600,
     lm_member_invites_outstanding = 3, lm_member_invites_total = 10, lm_max_archives = 1000,
     lm_archive_quota_bytes = 536870912, lm_archive_join_window_seconds = 2592000, lm_keyring_max_bytes = 4194304,
     lm_max_prekeys = 200, lm_prekey_takes_per_hour = 60, lm_max_attachment_bytes = 1073741824,
     lm_attachment_quota_bytes = 4294967296, lm_attachment_max_seconds = 2592000, lm_abandoned_upload_seconds = 3600,
     lm_idle_timeout_seconds = 180, lm_poll_millis = 250 \<rparr>"

section \<open>Files\<close>

record disk =
  dk_names :: "string \<rightharpoonup> nat"
  dk_data :: "nat \<Rightarrow> bytes"
  dk_next :: nat

definition empty_disk :: disk where
  "empty_disk = \<lparr> dk_names = Map.empty, dk_data = (\<lambda>_. []), dk_next = 0 \<rparr>"

text \<open>Opening for writing with truncation: the file of that name, or a new one.\<close>

definition disk_open_trunc :: "string \<Rightarrow> disk \<Rightarrow> nat \<times> disk" where
  "disk_open_trunc name dk =
    (case dk_names dk name of
       Some i \<Rightarrow> (i, dk \<lparr> dk_data := (dk_data dk) (i := []) \<rparr>)
     | None \<Rightarrow> (dk_next dk, dk \<lparr> dk_names := (dk_names dk) (name \<mapsto> dk_next dk),
                 dk_data := (dk_data dk) (dk_next dk := []), dk_next := dk_next dk + 1 \<rparr>))"

definition disk_append :: "nat \<Rightarrow> bytes \<Rightarrow> disk \<Rightarrow> disk" where
  "disk_append i bs dk = dk \<lparr> dk_data := (dk_data dk) (i := dk_data dk i @ bs) \<rparr>"

definition disk_remove :: "string \<Rightarrow> disk \<Rightarrow> disk" where
  "disk_remove name dk = dk \<lparr> dk_names := (dk_names dk) (name := None) \<rparr>"

definition disk_rename :: "string \<Rightarrow> string \<Rightarrow> disk \<Rightarrow> disk option" where
  "disk_rename old new dk =
    (case dk_names dk old of
       None \<Rightarrow> None
     | Some i \<Rightarrow> Some (dk \<lparr> dk_names := (dk_names dk) (old := None, new \<mapsto> i) \<rparr>))"

definition disk_read :: "string \<Rightarrow> disk \<Rightarrow> bytes option" where
  "disk_read name dk = map_option (dk_data dk) (dk_names dk name)"

text \<open>Names are relative to \<^verbatim>\<open>files_dir_\<close>.\<close>

definition file_path :: "bytes \<Rightarrow> string \<Rightarrow> string" where
  "file_path file_id extension = bytes_to_hex file_id @ extension"

definition remove_file_bytes :: "bytes \<Rightarrow> disk \<Rightarrow> disk" where
  "remove_file_bytes file_id dk = disk_remove (file_path file_id ''.part'') (disk_remove (file_path file_id ''.bin'') dk)"

text \<open>\<^verbatim>\<open>std::filesystem::path::stem\<close>: the name up to its last dot, unless the only dot is the first character.\<close>

definition stem :: "string \<Rightarrow> string" where
  "stem name = (if CHR ''.'' \<in> set (tl name) then rev (tl (dropWhile (\<lambda>c. c \<noteq> CHR ''.'') (rev name))) else name)"

section \<open>The relay\<close>

record relay_config =
  cf_lib :: crypto_lib
  cf_limits :: RelayLimits
  cf_public_key :: bytes
  cf_private_key :: bytes
  cf_relay_id :: bytes

text \<open>
  \<^verbatim>\<open>owners_\<close> maps a mailbox (in hexadecimal) to the connection that receives its deliveries; a
  connection is named by its flag \<^verbatim>\<open>kick\<close>, and \<^verbatim>\<open>sv_kicked\<close> says which flags are raised.
\<close>

record service =
  sv_db :: relay_db
  sv_rate :: windows
  sv_owners :: "string \<rightharpoonup> nat"
  sv_kicked :: "nat \<Rightarrow> bool"
  sv_disk :: disk

subsection \<open>Identity\<close>

record identity =
  id_public_key :: bytes
  id_private_key :: bytes
  id_relay_id :: bytes
  id_created :: bool

text \<open>
  The state folder is a map from names to contents.  A file is written under a temporary name and renamed:
  the temporary file cannot be opened, cannot be written in full (some bytes land), cannot be
  renamed (with the system's message), or all goes well.
\<close>

datatype write_outcome = Cannot_Open | Cannot_Write bytes | Cannot_Rename string | Written

definition write_file_private ::
    "write_outcome \<Rightarrow> string \<Rightarrow> string \<Rightarrow> bytes \<Rightarrow> (string \<rightharpoonup> bytes) \<Rightarrow> unit thrown \<times> (string \<rightharpoonup> bytes)" where
  "write_file_private outcome data_dir name data dir =
    (let path = data_dir @ ''/'' @ name; tmp = name @ ''.tmp'' in
     case outcome of
       Cannot_Open \<Rightarrow> (Inl (''Cannot write '' @ path), dir)
     | Cannot_Write landed \<Rightarrow> (Inl (''Cannot write '' @ path), dir (tmp \<mapsto> landed))
     | Cannot_Rename message \<Rightarrow> (Inl (''Cannot write '' @ path @ '': '' @ message), dir (tmp \<mapsto> data))
     | Written \<Rightarrow> (Inr (), dir (tmp := None, name \<mapsto> data)))"

definition identity_exists :: "(string \<rightharpoonup> bytes) \<Rightarrow> bool" where
  "identity_exists dir \<longleftrightarrow> dir ''relay_public.key'' \<noteq> None \<and> dir ''relay_private.key'' \<noteq> None"

text \<open>The result is the identity, or the error, with the folder as the call leaves it.\<close>

definition load_or_create_identity ::
    "crypto_lib \<Rightarrow> bytes \<Rightarrow> write_outcome \<Rightarrow> write_outcome \<Rightarrow> string \<Rightarrow> (string \<rightharpoonup> bytes) \<Rightarrow> identity thrown \<times> (string \<rightharpoonup> bytes)" where
  "load_or_create_identity L seed priv_out pub_out data_dir dir =
    (case (dir ''relay_public.key'', dir ''relay_private.key'') of
       (Some pub, Some priv) \<Rightarrow>
         (if length pub \<noteq> sig_length_public_key L \<or> length priv \<noteq> sig_length_secret_key L
          then Inl (''The relay's key files in '' @ data_dir @ '' are damaged'')
          else Inr \<lparr> id_public_key = pub, id_private_key = priv, id_relay_id = sha256 L pub, id_created = False \<rparr>, dir)
     | (None, None) \<Rightarrow>
         (case generate_sig_keypair L seed of
            Inl e \<Rightarrow> (Inl e, dir)
          | Inr kp \<Rightarrow>
             (case write_file_private priv_out data_dir ''relay_private.key'' (kp_sig_private kp) dir of
                (Inl e, dir) \<Rightarrow> (Inl e, dir)
              | (Inr _, dir) \<Rightarrow>
                 (case write_file_private pub_out data_dir ''relay_public.key'' (kp_sig_public kp) dir of
                    (Inl e, dir) \<Rightarrow> (Inl e, dir)
                  | (Inr _, dir) \<Rightarrow> (Inr \<lparr> id_public_key = kp_sig_public kp, id_private_key = kp_sig_private kp,
                      id_relay_id = sha256 L (kp_sig_public kp), id_created = True \<rparr>, dir))))
     | _ \<Rightarrow> (Inl (''Only one of the relay's key files exists in '' @ data_dir @
                ''. Restore the missing file from a backup. Not generating a new identity.''), dir))"

subsection \<open>Operator commands\<close>

text \<open>The inner loop of \<^verbatim>\<open>remove_mailbox\<close>: everyone the mailbox invited who is not yet on the list.\<close>

definition add_invitees :: "Member list \<Rightarrow> bytes \<Rightarrow> bytes list \<Rightarrow> bytes list" where
  "add_invitees all inviter doomed =
    foldl (\<lambda>doomed m. if me_invited_by m = inviter \<and> me_id m \<notin> set doomed then doomed @ [me_id m] else doomed) doomed all"

lemma add_invitees_set:
  "set (add_invitees all inviter doomed) = set doomed \<union> me_id ` {m \<in> set all. me_invited_by m = inviter}"
  unfolding add_invitees_def by (induction all arbitrary: doomed) auto

lemma add_invitees_same: "set (add_invitees all inviter doomed) = set doomed \<Longrightarrow> add_invitees all inviter doomed = doomed"
proof -
  have "\<exists>xs. foldl (\<lambda>doomed m. if me_invited_by m = inviter \<and> me_id m \<notin> set doomed then doomed @ [me_id m] else doomed) doomed all = doomed @ xs \<and>
      set xs \<inter> set doomed = {}"
  proof (induction all arbitrary: doomed)
    case Nil
    then show ?case by simp
  next
    case (Cons m all)
    from Cons [of "doomed @ [me_id m]"] Cons [of doomed] show ?case by auto
  qed
  then obtain xs where "add_invitees all inviter doomed = doomed @ xs" "set xs \<inter> set doomed = {}"
    unfolding add_invitees_def by blast
  moreover assume "set (add_invitees all inviter doomed) = set doomed"
  ultimately have "xs = []" by (cases xs) auto
  with \<open>add_invitees all inviter doomed = doomed @ xs\<close> show ?thesis by simp
qed

function doomed_from :: "Member list \<Rightarrow> nat \<Rightarrow> bytes list \<Rightarrow> bytes list" where
  "doomed_from all i doomed =
    (if i < length doomed then doomed_from all (Suc i) (add_invitees all (doomed ! i) doomed) else doomed)"
  by pat_completeness auto
termination
proof (relation "measures [\<lambda>(all, i, doomed). card (me_id ` set all - set doomed), \<lambda>(all, i, doomed). length doomed - i]")
  fix all :: "Member list" and i and doomed :: "bytes list"
  assume "i < length doomed"
  let ?d = "add_invitees all (doomed ! i) doomed"
  have sub: "me_id ` set all - set ?d \<subseteq> me_id ` set all - set doomed" by (auto simp: add_invitees_set)
  show "((all, Suc i, ?d), all, i, doomed) \<in> measures [\<lambda>(all, i, doomed). card (me_id ` set all - set doomed), \<lambda>(all, i, doomed). length doomed - i]"
  proof (cases "set ?d = set doomed")
    case True
    with \<open>i < length doomed\<close> show ?thesis by (simp add: add_invitees_same)
  next
    case False
    then have "me_id ` set all - set ?d \<subset> me_id ` set all - set doomed" using sub by (auto simp: add_invitees_set)
    then have "card (me_id ` set all - set ?d) < card (me_id ` set all - set doomed)" by (intro psubset_card_mono) simp_all
    then show ?thesis by simp
  qed
qed simp

declare doomed_from.simps [simp del]

primrec delete_each :: "bytes list \<Rightarrow> nat \<Rightarrow> relay_db \<Rightarrow> nat \<times> relay_db" where
  "delete_each [] removed d = (removed, d)"
| "delete_each (i # ids) removed d =
    (let (existed, d) = delete_mailbox i d in delete_each ids (if existed then removed + 1 else removed) d)"

definition remove_mailbox :: "bytes \<Rightarrow> bool \<Rightarrow> relay_db \<Rightarrow> nat \<times> relay_db" where
  "remove_mailbox mailbox_id with_invitees d =
    (let doomed = (if with_invitees then doomed_from (members d) 0 [mailbox_id] else [mailbox_id]) in delete_each doomed 0 d)"

definition create_invite :: "relay_config \<Rightarrow> bytes \<Rightarrow> time \<Rightarrow> service \<Rightarrow> (string \<times> service) option" where
  "create_invite cf invite now sv =
    (case add_invite (sha256 (cf_lib cf) invite) (now + lm_invite_lifetime_seconds (cf_limits cf)) (sv_db sv) of
       None \<Rightarrow> None
     | Some d \<Rightarrow> Some (bytes_to_hex invite, sv \<lparr> sv_db := d \<rparr>))"

subsection \<open>Maintenance\<close>

text \<open>The clock is read five times.\<close>

definition sweep_once :: "relay_config \<Rightarrow> (nat \<Rightarrow> time) \<Rightarrow> service \<Rightarrow> nat \<times> service" where
  "sweep_once cf clock sv =
    (let (swept, d) = sweep (clock 0) (sv_db sv);
         rate = prune (clock 1) (sv_rate sv);
         d = sweep_prekey_takes (clock 2) d;
         (ids, d) = sweep_files (clock 3) (clock 4 - lm_abandoned_upload_seconds (cf_limits cf)) d;
         dk = foldl (\<lambda>dk i. remove_file_bytes i dk) (sv_disk sv) ids;
         known = set (map bytes_to_hex (all_file_ids d));
         dk = dk \<lparr> dk_names := (\<lambda>name. if stem name \<in> known then dk_names dk name else None) \<rparr> in
     (sw_envelopes swept, sv \<lparr> sv_db := d, sv_rate := rate, sv_disk := dk \<rparr>))"

subsection \<open>One receiving connection per mailbox\<close>

definition install_owner :: "bytes \<Rightarrow> nat \<Rightarrow> service \<Rightarrow> service" where
  "install_owner mailbox kick sv =
    (let slot = sv_owners sv (bytes_to_hex mailbox);
         sv = (case slot of None \<Rightarrow> sv | Some k \<Rightarrow> sv \<lparr> sv_kicked := (sv_kicked sv) (k := True) \<rparr>) in
     sv \<lparr> sv_owners := (sv_owners sv) (bytes_to_hex mailbox \<mapsto> kick) \<rparr>)"

definition release_owner :: "bytes \<Rightarrow> nat \<Rightarrow> service \<Rightarrow> service" where
  "release_owner mailbox kick sv =
    (if sv_owners sv (bytes_to_hex mailbox) = Some kick
     then sv \<lparr> sv_owners := (sv_owners sv) (bytes_to_hex mailbox := None) \<rparr> else sv)"

end
