(* ===== verification/Relay_Session.thy ===== *)
theory Relay_Session
  imports Relay_Service
begin

text \<open>
  One client session of the relay: \<^verbatim>\<open>RelayService::push_pending\<close> and \<^verbatim>\<open>RelayService::handle_session\<close>
  (\<^verbatim>\<open>src/server/relay_service.cpp\<close>), one definition per message type.  The state of a session is the
  record of its local variables; a handler works on the world, which is the relay, the session
  and the connection.  The connection takes \<^verbatim>\<open>wo_room\<close> more messages and then fails, and
  \<^verbatim>\<open>wo_sent\<close> holds what has gone out.  A handler ends as the case of the \<^verbatim>\<open>switch\<close> does: with \<^verbatim>\<open>break\<close>,
  which goes on to push envelopes, with \<^verbatim>\<open>continue\<close>, which does not, with \<^verbatim>\<open>return\<close>, or with an
  exception of the store.  One turn of the loop is one step: other sessions run between turns.
\<close>

section \<open>The state of a session\<close>

record FileUploadState =
  up_active :: bool
  up_id :: bytes
  up_count :: u32
  up_next :: u32
  up_chunk_size :: u32
  up_total :: u64
  up_out :: nat
  up_part :: string

definition no_upload :: FileUploadState where
  "no_upload = \<lparr> up_active = False, up_id = [], up_count = 0, up_next = 0, up_chunk_size = 0, up_total = 0, up_out = 0, up_part = [] \<rparr>"

record KeyringUpload =
  ku_active :: bool
  ku_total :: u32
  ku_count :: u32
  ku_next :: u32
  ku_buffer :: bytes

definition no_keyring_upload :: KeyringUpload where
  "no_keyring_upload = \<lparr> ku_active = False, ku_total = 0, ku_count = 0, ku_next = 0, ku_buffer = [] \<rparr>"

record session =
  ss_peer_ip :: string
  ss_kick :: nat
  ss_challenge :: bytes
  ss_mailbox :: "bytes option"
  ss_challenge_used :: bool
  ss_collecting :: bool
  ss_is_owner :: bool
  ss_archive_session :: "(bytes \<times> bytes) option"
  ss_upload :: FileUploadState
  ss_keyring_upload :: KeyringUpload
  ss_last_seq :: int

record world =
  wo_service :: service
  wo_session :: session
  wo_sent :: "WireMessage list"
  wo_room :: nat

text \<open>What the surroundings contribute to a turn: the clock, random bytes, and whether file operations succeed.\<close>

record turn_env =
  tv_now :: time
  tv_random :: bytes
  tv_clock :: "nat \<Rightarrow> time"
  tv_open_ok :: bool
  tv_write_ok :: bool
  tv_rename_ok :: bool

datatype control = Break | Continue | Return | Throw

abbreviation (input) db :: "world \<Rightarrow> relay_db" where "db w \<equiv> sv_db (wo_service w)"
abbreviation (input) ses :: "world \<Rightarrow> session" where "ses w \<equiv> wo_session w"

definition set_db :: "relay_db \<Rightarrow> world \<Rightarrow> world" where
  "set_db d w = w \<lparr> wo_service := (wo_service w) \<lparr> sv_db := d \<rparr> \<rparr>"

definition set_disk :: "disk \<Rightarrow> world \<Rightarrow> world" where
  "set_disk dk w = w \<lparr> wo_service := (wo_service w) \<lparr> sv_disk := dk \<rparr> \<rparr>"

definition set_upload :: "FileUploadState \<Rightarrow> world \<Rightarrow> world" where
  "set_upload u w = w \<lparr> wo_session := (ses w) \<lparr> ss_upload := u \<rparr> \<rparr>"

definition set_keyring_upload :: "KeyringUpload \<Rightarrow> world \<Rightarrow> world" where
  "set_keyring_upload u w = w \<lparr> wo_session := (ses w) \<lparr> ss_keyring_upload := u \<rparr> \<rparr>"

definition send_on :: "message_type \<Rightarrow> bytes \<Rightarrow> world \<Rightarrow> bool \<times> world" where
  "send_on typ payload w =
    (if wo_room w = 0 then (False, w)
     else (True, w \<lparr> wo_room := wo_room w - 1, wo_sent := wo_sent w @ [\<lparr> wm_type = typ, wm_payload = payload \<rparr>] \<rparr>))"

definition send_error :: "string \<Rightarrow> world \<Rightarrow> world" where
  "send_error txt w = snd (send_on ERROR_MSG (bytes_of_string txt) w)"

text \<open>
  The three ways a case answers: \<^verbatim>\<open>if (!send_message(...)) return; break;\<close>, an error text and \<^verbatim>\<open>break\<close>, an error
  text and \<^verbatim>\<open>return\<close>.
\<close>

definition reply :: "message_type \<Rightarrow> bytes \<Rightarrow> world \<Rightarrow> control \<times> world" where
  "reply typ payload w = (let (ok, w) = send_on typ payload w in (if ok then Break else Return, w))"

definition refuse :: "string \<Rightarrow> world \<Rightarrow> control \<times> world" where
  "refuse txt w = (Break, send_error txt w)"

definition hang_up :: "string \<Rightarrow> world \<Rightarrow> control \<times> world" where
  "hang_up txt w = (Return, send_error txt w)"

text \<open>\<^verbatim>\<open>if (!rate_.allow(...)) { send_error(...); break; }\<close>, and otherwise the rest of the case.\<close>

definition rate_guard :: "string \<Rightarrow> int \<Rightarrow> time \<Rightarrow> string \<Rightarrow> (world \<Rightarrow> control \<times> world) \<Rightarrow> world \<Rightarrow> control \<times> world" where
  "rate_guard key limit now txt rest w =
    (let (ok, windows) = allow key limit now (sv_rate (wo_service w));
         w = w \<lparr> wo_service := (wo_service w) \<lparr> sv_rate := windows \<rparr> \<rparr> in
     if ok then rest w else refuse txt w)"

text \<open>\<^verbatim>\<open>if (!mailbox) { send_error(sock, "Sign in first"); break; }\<close>.\<close>

definition signed_in :: "(bytes \<Rightarrow> world \<Rightarrow> control \<times> world) \<Rightarrow> world \<Rightarrow> control \<times> world" where
  "signed_in rest w = (case ss_mailbox (ses w) of None \<Rightarrow> refuse ''Sign in first'' w | Some mailbox \<Rightarrow> rest mailbox w)"

definition in_archive :: "(bytes \<Rightarrow> world \<Rightarrow> control \<times> world) \<Rightarrow> world \<Rightarrow> control \<times> world" where
  "in_archive rest w =
    (case ss_archive_session (ses w) of None \<Rightarrow> refuse ''Sign in to an archive first'' w | Some (archive_id, _) \<Rightarrow> rest archive_id w)"

primrec send_all :: "(message_type \<times> bytes) list \<Rightarrow> world \<Rightarrow> bool \<times> world" where
  "send_all [] w = (True, w)"
| "send_all (m # ms) w = (let (ok, w) = send_on (fst m) (snd m) w in if ok then send_all ms w else (False, w))"

section \<open>Delivering envelopes\<close>

primrec send_batch :: "Stored list \<Rightarrow> world \<Rightarrow> bool \<times> world" where
  "send_batch [] w = (True, w)"
| "send_batch (e # es) w =
    (let out = \<lparr> se_id = st_id e, se_deposited_at = word_of_int (st_deposited_at e), se_token_hash = st_token_hash e,
                 se_envelope = st_envelope e \<rparr>;
         (ok, w) = send_on RELAY_ENVELOPE (encode_StoredEnvelope out) w in
     if ok then send_batch es (w \<lparr> wo_session := (ses w) \<lparr> ss_last_seq := st_seq e \<rparr> \<rparr>) else (False, w))"

lemma send_on_keeps [simp]:
  "wo_service (snd (send_on t p w)) = wo_service w" "wo_session (snd (send_on t p w)) = wo_session w"
  by (simp_all add: send_on_def)

lemma send_batch_service: "wo_service (snd (send_batch es w)) = wo_service w"
  by (induction es arbitrary: w) (simp_all add: Let_def split_def)

lemma send_batch_last_seq:
  "fst (send_batch es w) \<Longrightarrow>
   ss_last_seq (ses (snd (send_batch es w))) = (if es = [] then ss_last_seq (ses w) else st_seq (last es))"
  by (induction es arbitrary: w) (simp_all add: Let_def split_def split: if_splits)

lemma fetch_set:
  "e \<in> set (fetch m after now limit d) \<Longrightarrow>
   \<exists>r\<in>set (envelopes d). en_mailbox_id r = m \<and> en_seq r > after \<and> en_expires_at r > now \<and> e = stored_of r"
  unfolding fetch_def set_map by (auto dest!: in_set_takeD)

text \<open>The loop ends because every batch moves \<^verbatim>\<open>last_seq\<close> past an envelope of the mailbox.\<close>

function push_pending :: "(nat \<Rightarrow> time) \<Rightarrow> nat \<Rightarrow> bytes \<Rightarrow> world \<Rightarrow> bool \<times> world" where
  "push_pending clock i mailbox w =
    (case fetch mailbox (ss_last_seq (ses w)) (clock i) 32 (db w) of
       [] \<Rightarrow> (True, w)
     | e # es \<Rightarrow>
        (case send_batch (e # es) w of
           (False, w) \<Rightarrow> (False, w)
         | (True, w) \<Rightarrow> push_pending clock (Suc i) mailbox w))"
  by pat_completeness auto
termination
proof (relation "measure (\<lambda>(clock, i, mailbox, w).
    length (filter (\<lambda>r. en_mailbox_id r = mailbox \<and> en_seq r > ss_last_seq (ses w)) (envelopes (db w))))")
  fix clock :: "nat \<Rightarrow> time" and i mailbox w e es ok w'
  assume f: "fetch mailbox (ss_last_seq (ses w)) (clock i) 32 (db w) = e # es"
    and "(ok, w') = send_batch (e # es) w" "ok = True"
  then have s: "send_batch (e # es) w = (True, w')" by simp
  let ?old = "ss_last_seq (ses w)" and ?new = "ss_last_seq (ses w')"
  have new: "?new = st_seq (last (e # es))" using send_batch_last_seq [of "e # es" w] s by (metis fst_conv list.distinct(1) snd_conv)
  have "last (e # es) \<in> set (fetch mailbox ?old (clock i) 32 (db w))" unfolding f by (rule last_in_set) simp
  then obtain r where r: "r \<in> set (envelopes (db w))" "en_mailbox_id r = mailbox" "en_seq r > ?old" "?new = en_seq r"
    using fetch_set [of "last (e # es)" mailbox ?old "clock i" 32 "db w"] unfolding new
    by (metis Stored.select_convs(1) stored_of_def)
  have sub: "filter (\<lambda>r. en_mailbox_id r = mailbox \<and> en_seq r > ?new) (envelopes (db w)) =
      filter (\<lambda>r. en_seq r > ?new) (filter (\<lambda>r. en_mailbox_id r = mailbox \<and> en_seq r > ?old) (envelopes (db w)))"
    using r by (auto intro: filter_cong)
  have "length (filter (\<lambda>r. en_mailbox_id r = mailbox \<and> en_seq r > ?new) (envelopes (db w))) <
      length (filter (\<lambda>r. en_mailbox_id r = mailbox \<and> en_seq r > ?old) (envelopes (db w)))"
    unfolding sub using r by (intro length_filter_less [of r]) simp_all
  moreover have "wo_service w' = wo_service w" using send_batch_service [of "e # es" w] s by (metis snd_conv)
  ultimately show "((clock, Suc i, mailbox, w'), clock, i, mailbox, w) \<in> measure (\<lambda>(clock, i, mailbox, w).
      length (filter (\<lambda>r. en_mailbox_id r = mailbox \<and> en_seq r > ss_last_seq (ses w)) (envelopes (db w))))"
    by simp
qed simp

declare push_pending.simps [simp del]

section \<open>The cases of the switch\<close>

subsection \<open>Mailboxes\<close>

definition on_ping :: "world \<Rightarrow> control \<times> world" where
  "on_ping w = reply RELAY_PONG [] w"

definition on_register :: "relay_config \<Rightarrow> turn_env \<Rightarrow> bytes \<Rightarrow> world \<Rightarrow> control \<times> world" where
  "on_register cf ev payload w =
    (case decode_register payload of
       None \<Rightarrow> hang_up ''Malformed register request'' w
     | Some m \<Rightarrow>
        rate_guard (''reg:'' @ ss_peer_ip (ses w)) 10 (tv_now ev) ''Too many attempts, try again later'' (\<lambda>w.
          if length (rg_access_public_key m) \<noteq> sig_length_public_key (cf_lib cf) then refuse ''Invalid access key'' w
          else if \<not> verify (cf_lib cf)
                    (register_signing_input (cf_relay_id cf) (rg_mailbox_id m) (rg_access_public_key m) (rg_send_token_hash m))
                    (rg_signature m) (rg_access_public_key m)
          then refuse ''Invalid proof of key ownership'' w
          else case register_mailbox (sha256 (cf_lib cf) (rg_invite m)) (rg_mailbox_id m) (rg_access_public_key m)
                      (rg_send_token_hash m) (tv_now ev) (lm_max_mailboxes (cf_limits cf)) (db w) of
              None \<Rightarrow> (Throw, w)
            | Some (r, d) \<Rightarrow>
               let w = set_db d w in
               case r of
                 Register_Ok \<Rightarrow> reply RELAY_REGISTER_OK [] w
               | BadInvite \<Rightarrow> refuse ''Invalid, used or expired invite'' w
               | MailboxExists \<Rightarrow> refuse ''That mailbox already exists'' w
               | Register_LimitReached \<Rightarrow> refuse ''This relay is full'' w) w)"

definition on_auth :: "relay_config \<Rightarrow> bytes \<Rightarrow> world \<Rightarrow> control \<times> world" where
  "on_auth cf payload w =
    (case decode_auth payload of
       None \<Rightarrow> hang_up ''Malformed auth request'' w
     | Some m \<Rightarrow>
        if ss_challenge_used (ses w) then hang_up ''Reconnect to authenticate again'' w
        else let w = w \<lparr> wo_session := (ses w) \<lparr> ss_challenge_used := True \<rparr> \<rparr> in
          case access_key (au_mailbox_id m) (db w) of
            None \<Rightarrow> hang_up ''Authentication failed'' w
          | Some key \<Rightarrow>
             if \<not> verify (cf_lib cf) (auth_signing_input (ss_challenge (ses w)) (cf_relay_id cf) (au_mailbox_id m)) (au_signature m) key
             then hang_up ''Authentication failed'' w
             else reply RELAY_AUTH_OK [] (w \<lparr> wo_session := (ses w) \<lparr> ss_mailbox := Some (au_mailbox_id m) \<rparr> \<rparr>))"

definition on_deposit :: "relay_config \<Rightarrow> turn_env \<Rightarrow> bytes \<Rightarrow> world \<Rightarrow> control \<times> world" where
  "on_deposit cf ev payload w =
    (case decode_deposit payload of
       None \<Rightarrow> hang_up ''Malformed deposit'' w
     | Some m \<Rightarrow>
        if dp_ttl_seconds m < MIN_TTL_SECONDS then refuse ''Invalid lifetime'' w
        else rate_guard (''dep-ip:'' @ ss_peer_ip (ses w)) (lm_rate_limit_per_minute (cf_limits cf)) (tv_now ev)
               ''Too many deposits, slow down'' (\<lambda>w.
          let token_hash = sha256 (cf_lib cf) (dp_send_token m) in
          if \<not> token_valid (dp_mailbox_id m) token_hash (db w) then refuse ''Unknown mailbox or token'' w
          else rate_guard (''dep-tok:'' @ bytes_to_hex token_hash) (lm_rate_limit_per_minute (cf_limits cf)) (tv_now ev)
                 ''Too many deposits with this token'' (\<lambda>w.
            let envelope_id = tv_random ev;
                ttl = (if dp_ttl_seconds m > MAX_TTL_SECONDS then MAX_TTL_SECONDS else dp_ttl_seconds m) in
            case deposit (dp_mailbox_id m) envelope_id (dp_envelope m) token_hash (tv_now ev) ttl
                   (lm_mailbox_quota_bytes (cf_limits cf)) (db w) of
              None \<Rightarrow> (Throw, w)
            | Some (MailboxFull, d) \<Rightarrow> refuse ''Mailbox is full'' (set_db d w)
            | Some (Deposit_Ok, d) \<Rightarrow> reply RELAY_DEPOSIT_OK (encode_IdList \<lparr> il_ids = [envelope_id] \<rparr>) (set_db d w)) w) w)"

definition on_collect :: "turn_env \<Rightarrow> world \<Rightarrow> control \<times> world" where
  "on_collect ev w = signed_in (\<lambda>mailbox w.
     let w = (if \<not> ss_is_owner (ses w)
              then w \<lparr> wo_service := install_owner mailbox (ss_kick (ses w)) (wo_service w),
                       wo_session := (ses w) \<lparr> ss_is_owner := True \<rparr> \<rparr>
              else w);
         w = w \<lparr> wo_session := (ses w) \<lparr> ss_collecting := True, ss_last_seq := 0 \<rparr> \<rparr>;
         (ok, w) = push_pending (tv_clock ev) 0 mailbox w in
     if ok then reply RELAY_COLLECT_END [] w else (Return, w)) w"

definition on_ack :: "bytes \<Rightarrow> world \<Rightarrow> control \<times> world" where
  "on_ack payload w = signed_in (\<lambda>mailbox w.
     case decode_id_list payload of
       None \<Rightarrow> hang_up ''Malformed acknowledgement'' w
     | Some m \<Rightarrow>
        let (n, d) = ack mailbox (il_ids m) (db w) in
        reply RELAY_ACK_OK (write_u32 [] (word_of_nat n)) (set_db d w)) w"

definition on_invite_create :: "relay_config \<Rightarrow> turn_env \<Rightarrow> world \<Rightarrow> control \<times> world" where
  "on_invite_create cf ev w = signed_in (\<lambda>mailbox w.
     if lm_member_invites_outstanding (cf_limits cf) = 0 then refuse ''This relay doesn't let members make invites'' w
     else rate_guard (''invite:'' @ bytes_to_hex mailbox) 10 (tv_now ev) ''Too many requests, try again later'' (\<lambda>w.
       let invite = tv_random ev in
       case add_member_invite mailbox (sha256 (cf_lib cf) invite) (tv_now ev) (tv_now ev + lm_invite_lifetime_seconds (cf_limits cf))
              (lm_member_invites_outstanding (cf_limits cf)) (lm_member_invites_total (cf_limits cf)) (db w) of
         None \<Rightarrow> (Throw, w)
       | Some (r, d) \<Rightarrow>
          let w = set_db d w in
          case r of
            Issue_Ok \<Rightarrow> reply RELAY_INVITE_OK invite w
          | TooManyOutstanding \<Rightarrow>
              refuse (''You already have '' @ to_string (lm_member_invites_outstanding (cf_limits cf)) @
                      '' unused invites. Wait until a friend uses one or it expires.'') w
          | TooManyIssued \<Rightarrow> refuse ''You have reached the limit of people you can invite to this relay'' w
          | Issue_NoSuchMailbox \<Rightarrow> refuse ''Unknown mailbox'' w) w) w"

definition on_invite_list :: "relay_config \<Rightarrow> turn_env \<Rightarrow> world \<Rightarrow> control \<times> world" where
  "on_invite_list cf ev w = signed_in (\<lambda>mailbox w.
     if lm_member_invites_outstanding (cf_limits cf) = 0 then refuse ''This relay doesn't let members make invites'' w
     else let status = \<lparr>
         is_max_unused = word_of_nat (lm_member_invites_outstanding (cf_limits cf)),
         is_max_total = word_of_nat (lm_member_invites_total (cf_limits cf)),
         is_unused = map (\<lambda>u. \<lparr> un_hash = ui_hash u, un_expires_at = word_of_int (ui_expires_at u) \<rparr>)
           (unused_invites mailbox (tv_now ev) (db w)),
         is_joined = map (\<lambda>j. \<lparr> jo_mailbox_id = jm_mailbox_id j, jo_joined_at = word_of_int (jm_joined_at j) \<rparr>)
           (joined_through mailbox (db w)) \<rparr> in
       reply RELAY_INVITE_LIST_OK (encode_InviteStatus status) w) w"

definition on_invite_cancel :: "bytes \<Rightarrow> world \<Rightarrow> control \<times> world" where
  "on_invite_cancel payload w = signed_in (\<lambda>mailbox w.
     case decode_hash_op payload of
       None \<Rightarrow> hang_up ''Malformed request'' w
     | Some m \<Rightarrow>
        let (gone, d) = cancel_member_invite mailbox (ho_token_hash m) (db w); w = set_db d w in
        if \<not> gone then refuse ''That isn't one of your unused invites'' w else reply RELAY_INVITE_CANCEL_OK [] w) w"

text \<open>\<^verbatim>\<open>RELAY_TOKEN_ADD\<close> and \<^verbatim>\<open>RELAY_TOKEN_REVOKE\<close> share a case.\<close>

definition on_token :: "relay_config \<Rightarrow> turn_env \<Rightarrow> bool \<Rightarrow> bytes \<Rightarrow> world \<Rightarrow> control \<times> world" where
  "on_token cf ev add payload w = signed_in (\<lambda>mailbox w.
     case decode_hash_op payload of
       None \<Rightarrow> hang_up ''Malformed token request'' w
     | Some m \<Rightarrow>
        if add then
          (case add_token mailbox (ho_token_hash m) (tv_now ev) (lm_max_tokens_per_mailbox (cf_limits cf)) (db w) of
             None \<Rightarrow> (Throw, w)
           | Some (r, d) \<Rightarrow>
              if r \<noteq> Token_Ok then refuse ''Too many send tokens on this mailbox'' (set_db d w)
              else reply RELAY_TOKEN_OK [] (set_db d w))
        else let (_, d) = revoke_token mailbox (ho_token_hash m) (db w) in reply RELAY_TOKEN_OK [] (set_db d w)) w"

subsection \<open>Archives\<close>

definition on_archive_create :: "relay_config \<Rightarrow> turn_env \<Rightarrow> bytes \<Rightarrow> world \<Rightarrow> control \<times> world" where
  "on_archive_create cf ev payload w = signed_in (\<lambda>mailbox w.
     case decode_archive_create payload of
       None \<Rightarrow> hang_up ''Malformed archive request'' w
     | Some m \<Rightarrow>
        rate_guard (''archive-create:'' @ bytes_to_hex mailbox) 10 (tv_now ev) ''Too many requests, try again later'' (\<lambda>w.
          case create_archive (ac_archive_id m) (ac_join_token_hashes m) (sha256 (cf_lib cf) (archive_genesis_input (ac_archive_id m)))
                 (tv_now ev) (tv_now ev + lm_archive_join_window_seconds (cf_limits cf)) (lm_max_archives (cf_limits cf)) (db w) of
            None \<Rightarrow> (Throw, w)
          | Some (r, d) \<Rightarrow>
             let w = set_db d w in
             case r of
               CreateArchive_Ok \<Rightarrow> reply ARCHIVE_CREATE_OK [] w
             | CreateArchive_Exists \<Rightarrow> refuse ''That archive already exists'' w
             | CreateArchive_LimitReached \<Rightarrow> refuse ''This relay can't hold more archives'' w) w) w"

definition on_archive_join :: "relay_config \<Rightarrow> turn_env \<Rightarrow> bytes \<Rightarrow> world \<Rightarrow> control \<times> world" where
  "on_archive_join cf ev payload w =
    (case decode_archive_join payload of
       None \<Rightarrow> hang_up ''Malformed archive request'' w
     | Some m \<Rightarrow>
        rate_guard (''archive-join:'' @ ss_peer_ip (ses w)) 30 (tv_now ev) ''Too many attempts, try again later'' (\<lambda>w.
          if length (aj_public_key m) \<noteq> sig_length_public_key (cf_lib cf) then refuse ''Invalid key'' w
          else let token_hash = sha256 (cf_lib cf) (aj_join_token m) in
            if \<not> verify (cf_lib cf) (archive_join_signing_input (cf_relay_id cf) (aj_archive_id m) (aj_public_key m) token_hash)
                   (aj_signature m) (aj_public_key m)
            then refuse ''Invalid proof of key ownership'' w
            else case join_archive (aj_archive_id m) token_hash (sha256 (cf_lib cf) (aj_public_key m)) (aj_public_key m) (tv_now ev) (db w) of
                None \<Rightarrow> (Throw, w)
              | Some (r, d) \<Rightarrow>
                 let w = set_db d w in
                 case r of
                   Join_Ok \<Rightarrow> reply ARCHIVE_JOIN_OK [] w
                 | Join_NoSuchArchive \<Rightarrow> refuse ''Unknown archive or join token'' w
                 | Join_BadToken \<Rightarrow> refuse ''Unknown archive or join token'' w
                 | Join_Closed \<Rightarrow> refuse ''Registration for this archive is closed'' w
                 | KeyExists \<Rightarrow> refuse ''That key is already registered'' w) w)"

definition on_archive_auth :: "relay_config \<Rightarrow> bytes \<Rightarrow> world \<Rightarrow> control \<times> world" where
  "on_archive_auth cf payload w =
    (case decode_archive_auth payload of
       None \<Rightarrow> hang_up ''Malformed archive request'' w
     | Some m \<Rightarrow>
        if ss_challenge_used (ses w) then hang_up ''Reconnect to authenticate again'' w
        else let w = w \<lparr> wo_session := (ses w) \<lparr> ss_challenge_used := True \<rparr> \<rparr> in
          case archive_member_key (aa_archive_id m) (aa_key_hash m) (db w) of
            None \<Rightarrow> hang_up ''Authentication failed'' w
          | Some key \<Rightarrow>
             if \<not> verify (cf_lib cf) (archive_auth_signing_input (ss_challenge (ses w)) (cf_relay_id cf) (aa_archive_id m) (aa_key_hash m))
                    (aa_signature m) key
             then hang_up ''Authentication failed'' w
             else reply ARCHIVE_AUTH_OK []
               (w \<lparr> wo_session := (ses w) \<lparr> ss_archive_session := Some (aa_archive_id m, aa_key_hash m) \<rparr> \<rparr>))"

definition archive_guard :: "relay_config \<Rightarrow> turn_env \<Rightarrow> bytes \<Rightarrow> (world \<Rightarrow> control \<times> world) \<Rightarrow> world \<Rightarrow> control \<times> world" where
  "archive_guard cf ev archive_id =
    rate_guard (''archive:'' @ bytes_to_hex archive_id) (lm_rate_limit_per_minute (cf_limits cf)) (tv_now ev) ''Too many requests, slow down''"

definition on_archive_append :: "relay_config \<Rightarrow> turn_env \<Rightarrow> bytes \<Rightarrow> world \<Rightarrow> control \<times> world" where
  "on_archive_append cf ev payload w = in_archive (\<lambda>archive_id w.
     case decode_archive_append payload of
       None \<Rightarrow> hang_up ''Malformed archive request'' w
     | Some m \<Rightarrow>
        if ap_expected_number m = - 1 then hang_up ''Malformed archive request'' w
        else archive_guard cf ev archive_id (\<lambda>w.
          let new_hash = sha256 (cf_lib cf) (archive_entry_hash_input archive_id (ap_expected_number m + 1) (ap_expected_hash m) (ap_ciphertext m)) in
          case append_entry archive_id (ap_expected_number m) (ap_expected_hash m) new_hash (ap_ciphertext m) (tv_now ev)
                 (lm_archive_quota_bytes (cf_limits cf)) (db w) of
            None \<Rightarrow> (Throw, w)
          | Some (r, head, d) \<Rightarrow>
             let w = set_db d w;
                 head = (case head of None \<Rightarrow> \<lparr> ah_number = 0, ah_hash = [] \<rparr> | Some h \<Rightarrow> \<lparr> ah_number = hs_number h, ah_hash = hs_hash h \<rparr>) in
             case r of
               Append_Ok \<Rightarrow> reply ARCHIVE_APPEND_OK (encode_ArchiveHead head) w
             | Stale \<Rightarrow> reply ARCHIVE_STALE (encode_ArchiveHead head) w
             | ArchiveFull \<Rightarrow> refuse ''This archive is full'' w
             | Append_NoSuchArchive \<Rightarrow> refuse ''Unknown archive'' w) w) w"

text \<open>
  The loop over the member keys: the pair \<^verbatim>\<open>(agreed, valid)\<close>.  Of several signatures for a key the
  inner loop keeps the last.
\<close>

primrec check_agreement :: "crypto_lib \<Rightarrow> bytes \<Rightarrow> ArchiveSignature list \<Rightarrow> MemberKey list \<Rightarrow> bool \<times> bool" where
  "check_agreement L signed_input sigs [] = (True, True)"
| "check_agreement L signed_input sigs (key # keys) =
    (case rev (filter (\<lambda>s. as_key_hash s = mk_key_hash key) sigs) of
       [] \<Rightarrow> (False, True)
     | mine # _ \<Rightarrow>
        if \<not> verify L signed_input (as_signature mine) (mk_public_key key) then (True, False)
        else check_agreement L signed_input sigs keys)"

definition on_archive_delete :: "relay_config \<Rightarrow> turn_env \<Rightarrow> bytes \<Rightarrow> world \<Rightarrow> control \<times> world" where
  "on_archive_delete cf ev payload w = in_archive (\<lambda>archive_id w.
     case decode_archive_delete payload of
       None \<Rightarrow> hang_up ''Malformed archive request'' w
     | Some m \<Rightarrow>
        archive_guard cf ev archive_id (\<lambda>w.
          if ad_expires_at m < word_of_int (tv_now ev) then refuse ''That deletion order has expired'' w
          else case archive_info archive_id (tv_now ev) (db w) of
              None \<Rightarrow> refuse ''Unknown archive'' w
            | Some info \<Rightarrow>
               if ai_registration_open info
               then refuse ''Not everyone has joined this chat's archive yet, so it can't be deleted'' w
               else let
                   signed_input = archive_delete_signing_input (cf_relay_id cf) archive_id (ad_scope m) (ad_op_id m) (ad_expires_at m) (ad_entry_hashes m);
                   (agreed, valid) = check_agreement (cf_lib cf) signed_input (ad_signatures m) (archive_member_keys archive_id (db w)) in
                 if \<not> agreed then refuse ''Not every member has agreed to this deletion'' w
                 else if \<not> valid then refuse ''A member's signature on this deletion is not valid'' w
                 else if ad_scope m = DELETE_SCOPE_CHAT then
                   (let (_, d) = delete_archive archive_id (db w) in reply ARCHIVE_DELETE_OK [] (set_db d w))
                 else let (r, d) = redact_entries archive_id (ad_entry_hashes m) (db w); w = set_db d w in
                   case r of
                     Redact_Ok \<Rightarrow> reply ARCHIVE_DELETE_OK [] w
                   | UnknownEntry \<Rightarrow> (Continue, send_error ''One of those entries isn't in this archive'' w)
                   | Redact_NoSuchArchive \<Rightarrow> (Continue, send_error ''Unknown archive'' w)) w) w"

definition on_archive_fetch :: "relay_config \<Rightarrow> turn_env \<Rightarrow> bytes \<Rightarrow> world \<Rightarrow> control \<times> world" where
  "on_archive_fetch cf ev payload w = in_archive (\<lambda>archive_id w.
     case decode_archive_fetch payload of
       None \<Rightarrow> hang_up ''Malformed archive request'' w
     | Some m \<Rightarrow>
        archive_guard cf ev archive_id (\<lambda>w.
          let (ok, w) = send_all (map (\<lambda>e. (ARCHIVE_ENTRY, encode_ArchiveEntry \<lparr> ae_number = sn_number e, ae_hash = sn_hash e,
                ae_ciphertext = sn_ciphertext e, ae_tombstone = sn_redacted e \<rparr>))
                (fetch_entries archive_id (af_from_number m) (unat (af_limit m)) (db w))) w in
          if \<not> ok then (Return, w)
          else case archive_info archive_id (tv_now ev) (db w) of
              None \<Rightarrow> refuse ''Unknown archive'' w
            | Some info \<Rightarrow> reply ARCHIVE_FETCH_END
                (encode_ArchiveHead \<lparr> ah_number = hs_number (ai_head info), ah_hash = hs_hash (ai_head info) \<rparr>) w) w) w"

subsection \<open>Prekeys\<close>

definition prekey_status_payload :: "bytes \<Rightarrow> relay_db \<Rightarrow> bytes" where
  "prekey_status_payload mailbox d =
    (let st = prekey_status mailbox d in
     encode_PrekeyStatus \<lparr> ps_one_time = st_one_time st, ps_last_resort = st_last_resort st, ps_generation = st_generation st \<rparr>)"

definition on_prekey_put :: "relay_config \<Rightarrow> turn_env \<Rightarrow> bytes \<Rightarrow> world \<Rightarrow> control \<times> world" where
  "on_prekey_put cf ev payload w = signed_in (\<lambda>mailbox w.
     case decode_prekey_put payload of
       None \<Rightarrow> hang_up ''Malformed prekey request'' w
     | Some m \<Rightarrow>
        let entries = map (\<lambda>p. \<lparr> pi_id = pe_id p, pi_last_resort = pe_last_resort p, pi_blob = pe_blob p \<rparr>) (pp_prekeys m) in
        case put_prekeys mailbox (pp_replace m) (pp_generation m) entries (tv_now ev) (lm_max_prekeys (cf_limits cf)) (db w) of
          None \<Rightarrow> (Throw, w)
        | Some (r, d) \<Rightarrow>
           let w = set_db d w in
           case r of
             PrekeyPut_Ok \<Rightarrow> reply PREKEY_PUT_OK (prekey_status_payload mailbox (db w)) w
           | WrongGeneration \<Rightarrow> refuse ''The relay holds a different set of prekeys for you: replace them'' w
           | TooMany \<Rightarrow> refuse (''Too many prekeys (this relay keeps at most '' @ to_string (unat (lm_max_prekeys (cf_limits cf))) @ '')'') w
           | Prekey_Duplicate \<Rightarrow> refuse ''That prekey is already there'' w
           | Prekey_NoSuchMailbox \<Rightarrow> refuse ''Unknown mailbox'' w) w"

definition on_prekey_take :: "relay_config \<Rightarrow> turn_env \<Rightarrow> bytes \<Rightarrow> world \<Rightarrow> control \<times> world" where
  "on_prekey_take cf ev payload w =
    (case decode_prekey_take payload of
       None \<Rightarrow> hang_up ''Malformed prekey request'' w
     | Some m \<Rightarrow>
        rate_guard (''dep-ip:'' @ ss_peer_ip (ses w)) (lm_rate_limit_per_minute (cf_limits cf)) (tv_now ev) ''Too many requests, slow down'' (\<lambda>w.
          let token_hash = sha256 (cf_lib cf) (pt_send_token m) in
          if \<not> token_valid (pt_mailbox_id m) token_hash (db w) then refuse ''Unknown mailbox or token'' w
          else let (r, d) = take_prekey (pt_mailbox_id m) token_hash (tv_now ev) (lm_prekey_takes_per_hour (cf_limits cf)) (db w);
                   w = set_db d w in
            case r of
              PrekeyTake_Ok blob last_resort \<Rightarrow> reply PREKEY_DATA (encode_PrekeyData \<lparr> pd_last_resort = last_resort, pd_blob = blob \<rparr>) w
            | RateLimited \<Rightarrow> refuse ''Too many prekeys taken with this token; try again later'' w
            | Prekey_Empty \<Rightarrow> refuse ''That mailbox has no prekeys'' w) w)"

definition on_prekey_status :: "world \<Rightarrow> control \<times> world" where
  "on_prekey_status w = signed_in (\<lambda>mailbox w. reply PREKEY_STATUS_OK (prekey_status_payload mailbox (db w)) w) w"

subsection \<open>Attachments\<close>

definition abort_upload :: "world \<Rightarrow> world" where
  "abort_upload w =
    (let u = ss_upload (ses w) in
     if \<not> up_active u then w
     else let w = set_disk (disk_remove (up_part u) (sv_disk (wo_service w))) w;
              (_, d) = delete_file (up_id u) [] (db w) in
       set_upload (u \<lparr> up_active := False \<rparr>) (set_db d w))"

definition on_file_upload_begin :: "relay_config \<Rightarrow> turn_env \<Rightarrow> bytes \<Rightarrow> world \<Rightarrow> control \<times> world" where
  "on_file_upload_begin cf ev payload w = signed_in (\<lambda>mailbox w.
     case decode_file_begin payload of
       None \<Rightarrow> hang_up ''Malformed file request'' w
     | Some m \<Rightarrow>
        rate_guard (''file-up:'' @ bytes_to_hex mailbox) 30 (tv_now ev) ''Too many requests, try again later'' (\<lambda>w.
          if fb_total_size m > lm_max_attachment_bytes (cf_limits cf)
          then refuse (''That file is larger than this relay allows ('' @
                 to_string (unat (lm_max_attachment_bytes (cf_limits cf) div 1048576)) @ '' MiB)'') w
          else if sint (fb_expires_at m) < tv_now ev + 60 \<or> sint (fb_expires_at m) > tv_now ev + lm_attachment_max_seconds (cf_limits cf)
          then refuse (''A file's expiry must be between a minute and '' @
                 to_string_int (lm_attachment_max_seconds (cf_limits cf) sdiv 86400) @ '' days from now'') w
          else case begin_file mailbox (fb_file_id m) (fb_total_size m) (fb_chunk_size m) (fb_chunk_count m) (sint (fb_expires_at m))
                      (fb_token_hashes m) (tv_now ev) (lm_attachment_quota_bytes (cf_limits cf)) (db w) of
              None \<Rightarrow> (Throw, w)
            | Some (began, d) \<Rightarrow>
               let w = set_db d w in
               case began of
                 BeginFile_Exists \<Rightarrow> refuse ''That file already exists'' w
               | QuotaExceeded \<Rightarrow> refuse (''Your stored attachments would go over this relay's limit ('' @
                   to_string (unat (lm_attachment_quota_bytes (cf_limits cf) div 1048576)) @ '' MiB)'') w
               | BeginFile_NoSuchMailbox \<Rightarrow> refuse ''Unknown mailbox'' w
               | BeginFile_Ok \<Rightarrow>
                   let u = no_upload \<lparr> up_id := fb_file_id m, up_count := fb_chunk_count m, up_chunk_size := fb_chunk_size m,
                             up_total := fb_total_size m, up_part := file_path (fb_file_id m) ''.part'' \<rparr> in
                   if \<not> tv_open_ok ev
                   then let (_, d) = delete_file (fb_file_id m) [] (db w) in
                     refuse ''The relay can't store files right now'' (set_db d (set_upload u w))
                   else let (i, dk) = disk_open_trunc (up_part u) (sv_disk (wo_service w)) in
                     reply FILE_UPLOAD_OK [] (set_upload (u \<lparr> up_out := i, up_active := True \<rparr>) (set_disk dk w))) (abort_upload w)) w"

definition expected_chunk_size :: "FileUploadState \<Rightarrow> u64" where
  "expected_chunk_size u =
    (if up_next u + 1 < up_count u then ucast (up_chunk_size u)
     else up_total u - ucast (up_chunk_size u) * ucast (up_count u - 1))"

definition on_file_chunk :: "turn_env \<Rightarrow> bytes \<Rightarrow> world \<Rightarrow> control \<times> world" where
  "on_file_chunk ev payload w =
    (let u = ss_upload (ses w) in
     if \<not> up_active u then refuse ''No upload in progress'' w
     else case decode_file_chunk payload of
         None \<Rightarrow> hang_up ''Malformed file request'' (abort_upload w)
       | Some m \<Rightarrow>
          if fc_index m \<noteq> up_next u \<or> length (fc_data m) \<noteq> unat (expected_chunk_size u)
          then refuse ''File chunks out of order, or of the wrong size'' (abort_upload w)
          else if \<not> tv_write_ok ev then refuse ''The relay can't store files right now'' (abort_upload w)
          else let w = set_disk (disk_append (up_out u) (fc_data m) (sv_disk (wo_service w))) w;
                   u = u \<lparr> up_next := up_next u + 1 \<rparr>; w = set_upload u w; last = (up_next u = up_count u) in
            if last then
              (case (if tv_rename_ok ev then disk_rename (up_part u) (file_path (up_id u) ''.bin'') (sv_disk (wo_service w)) else None) of
                 None \<Rightarrow> refuse ''The relay can't store files right now'' (abort_upload w)
               | Some dk \<Rightarrow>
                  let w = set_disk dk w; w = set_db (finish_file (up_id u) (db w)) w; w = set_upload (u \<lparr> up_active := False \<rparr>) w in
                  reply FILE_CHUNK_OK (write_u32 [] (fc_index m + 1)) w)
            else if up_next u mod FILE_ACK_WINDOW = 0 then reply FILE_CHUNK_OK (write_u32 [] (up_next u)) w
            else (Break, w))"

text \<open>The loop of \<^verbatim>\<open>FILE_DOWNLOAD\<close> over the chunks that are left.\<close>

fun send_chunks :: "bytes \<Rightarrow> FileMeta \<Rightarrow> nat list \<Rightarrow> world \<Rightarrow> control \<times> world" where
  "send_chunks content meta [] w = reply FILE_DOWNLOAD_END [] w"
| "send_chunks content meta (i # is) w =
    (let offset = word_of_nat i * ucast (fm_chunk_size meta) :: u64;
         size = min (ucast (fm_chunk_size meta)) (fm_total_size meta - offset) in
     if size \<noteq> 0 \<and> unat offset + unat size > length content then hang_up ''That file is no longer available'' w
     else let data = take (unat size) (drop (unat offset) content);
              (ok, w) = send_on FILE_DATA (encode_FileChunk \<lparr> fc_index = word_of_nat i, fc_data = data \<rparr>) w in
       if ok then send_chunks content meta is w else (Return, w))"

definition on_file_download :: "relay_config \<Rightarrow> turn_env \<Rightarrow> bytes \<Rightarrow> world \<Rightarrow> control \<times> world" where
  "on_file_download cf ev payload w =
    (case decode_file_download payload of
       None \<Rightarrow> hang_up ''Malformed file request'' w
     | Some m \<Rightarrow>
        rate_guard (''file-dl:'' @ ss_peer_ip (ses w)) (lm_rate_limit_per_minute (cf_limits cf)) (tv_now ev) ''Too many attempts, try again later'' (\<lambda>w.
          case check_file_token (fd_file_id m) (sha256 (cf_lib cf) (fd_token m)) (tv_now ev) (db w) of
            Expired \<Rightarrow> (Continue, send_error ''That file has expired'' w)
          | TokenCheck_AlreadyRedeemed \<Rightarrow> (Continue, send_error ''That file was already downloaded with this token'' w)
          | NotReady \<Rightarrow> (Continue, send_error ''That file isn't ready yet'' w)
          | TokenCheck_NoSuchFile \<Rightarrow> (Continue, send_error ''No such file, or that token isn't valid'' w)
          | TokenCheck_BadToken \<Rightarrow> (Continue, send_error ''No such file, or that token isn't valid'' w)
          | TokenCheck_Ok \<Rightarrow>
             (case file_meta (fd_file_id m) (db w) of
                None \<Rightarrow> refuse ''No such file, or that token isn't valid'' w
              | Some meta \<Rightarrow>
                 if fd_from_chunk m \<ge> fm_chunk_count meta then refuse ''No such file, or that token isn't valid'' w
                 else case (if tv_open_ok ev then disk_read (file_path (fd_file_id m) ''.bin'') (sv_disk (wo_service w)) else None) of
                     None \<Rightarrow> refuse ''That file is no longer available'' w
                   | Some content \<Rightarrow>
                      let (ok, w) = send_on FILE_INFO (encode_FileInfo \<lparr> fi_total_size = fm_total_size meta, fi_chunk_size = fm_chunk_size meta,
                            fi_chunk_count = fm_chunk_count meta, fi_expires_at = word_of_int (fm_expires_at meta) \<rparr>) w in
                      if ok then send_chunks content meta [unat (fd_from_chunk m) ..< unat (fm_chunk_count meta)] w else (Return, w))) w)"

definition on_file_redeem :: "relay_config \<Rightarrow> turn_env \<Rightarrow> bytes \<Rightarrow> world \<Rightarrow> control \<times> world" where
  "on_file_redeem cf ev payload w =
    (case decode_file_redeem payload of
       None \<Rightarrow> hang_up ''Malformed file request'' w
     | Some m \<Rightarrow>
        rate_guard (''file-dl:'' @ ss_peer_ip (ses w)) (lm_rate_limit_per_minute (cf_limits cf)) (tv_now ev) ''Too many attempts, try again later'' (\<lambda>w.
          let (r, all_done, d) = redeem_file_token (fr_file_id m) (sha256 (cf_lib cf) (fr_token m)) (db w); w = set_db d w in
          case r of
            Redeem_Ok \<Rightarrow>
              reply FILE_REDEEM_OK [] (if all_done then set_disk (remove_file_bytes (fr_file_id m) (sv_disk (wo_service w))) w else w)
          | Redeem_AlreadyRedeemed \<Rightarrow> refuse ''That token was already used'' w
          | Redeem_NoSuchFile \<Rightarrow> refuse ''No such file, or that token isn't valid'' w
          | Redeem_BadToken \<Rightarrow> refuse ''No such file, or that token isn't valid'' w) w)"

definition on_file_cancel :: "bytes \<Rightarrow> world \<Rightarrow> control \<times> world" where
  "on_file_cancel payload w = signed_in (\<lambda>mailbox w.
     case decode_file_ref payload of
       None \<Rightarrow> hang_up ''Malformed file request'' w
     | Some m \<Rightarrow>
        let (gone, d) = delete_file (ff_file_id m) mailbox (db w); w = set_db d w in
        if \<not> gone then refuse ''That isn't one of your files'' w
        else reply FILE_CANCEL_OK [] (set_disk (remove_file_bytes (ff_file_id m) (sv_disk (wo_service w))) w)) w"

definition on_file_status :: "bytes \<Rightarrow> world \<Rightarrow> control \<times> world" where
  "on_file_status payload w = signed_in (\<lambda>mailbox w.
     case decode_file_ref payload of
       None \<Rightarrow> hang_up ''Malformed file request'' w
     | Some m \<Rightarrow>
        (case file_meta (ff_file_id m) (db w) of
           None \<Rightarrow> refuse ''That isn't one of your files'' w
         | Some meta \<Rightarrow>
            if fm_owner meta \<noteq> mailbox then refuse ''That isn't one of your files'' w
            else reply FILE_STATUS_OK (encode_FileStatus \<lparr> fs_tokens_total = fm_tokens_total meta, fs_tokens_redeemed = fm_tokens_redeemed meta,
                   fs_expires_at = word_of_int (fm_expires_at meta), fs_ready = fm_ready meta \<rparr>) w)) w"

subsection \<open>Keyrings\<close>

text \<open>The part of \<^verbatim>\<open>KEYRING_PUT\<close> that takes an accepted chunk.\<close>

definition keyring_accept :: "turn_env \<Rightarrow> bytes \<Rightarrow> KeyringChunk \<Rightarrow> world \<Rightarrow> control \<times> world" where
  "keyring_accept ev mailbox m w =
    (let u = ss_keyring_upload (ses w); u = u \<lparr> ku_next := ku_next u + 1, ku_buffer := ku_buffer u @ kc_data m \<rparr>;
         w = set_keyring_upload u w in
     if ku_next u = ku_count u
     then (case put_keyring mailbox (ku_buffer u) (tv_now ev) (db w) of
             None \<Rightarrow> (Throw, w)
           | Some d \<Rightarrow> reply KEYRING_PUT_OK [] (set_keyring_upload no_keyring_upload (set_db d w)))
     else reply KEYRING_PUT_OK [] w)"

definition on_keyring_put :: "relay_config \<Rightarrow> turn_env \<Rightarrow> bytes \<Rightarrow> world \<Rightarrow> control \<times> world" where
  "on_keyring_put cf ev payload w = signed_in (\<lambda>mailbox w.
     case decode_keyring_chunk payload of
       None \<Rightarrow> hang_up ''Malformed keyring request'' w
     | Some m \<Rightarrow>
        let u = ss_keyring_upload (ses w) in
        if kc_count m = 0 then hang_up ''Malformed keyring request'' w
        else if kc_index m = 0 then
          rate_guard (''keyring:'' @ bytes_to_hex mailbox) 20 (tv_now ev) ''Too many requests, try again later'' (\<lambda>w.
            let w = set_keyring_upload no_keyring_upload w in
            if unat (kc_total_size m) > lm_keyring_max_bytes (cf_limits cf)
            then refuse (''Your keyring is larger than this relay allows ('' @ to_string (lm_keyring_max_bytes (cf_limits cf) div 1024) @ '' KiB)'') w
            else keyring_accept ev mailbox m (set_keyring_upload
                   (no_keyring_upload \<lparr> ku_active := True, ku_total := kc_total_size m, ku_count := kc_count m \<rparr>) w)) w
        else if \<not> ku_active u \<or> kc_index m \<noteq> ku_next u \<or> kc_total_size m \<noteq> ku_total u \<or> kc_count m \<noteq> ku_count u
        then refuse ''Keyring chunks out of order'' (set_keyring_upload no_keyring_upload w)
        else keyring_accept ev mailbox m w) w"

definition keyring_chunks :: "bytes \<Rightarrow> KeyringChunk list" where
  "keyring_chunks blob =
    (let count = (length blob + KEYRING_CHUNK_BYTES - 1) div KEYRING_CHUNK_BYTES in
     map (\<lambda>i. let start = i * KEYRING_CHUNK_BYTES; stop = min (length blob) (start + KEYRING_CHUNK_BYTES) in
            \<lparr> kc_total_size = word_of_nat (length blob), kc_index = word_of_nat i, kc_count = word_of_nat count,
              kc_data = take (stop - start) (drop start blob) \<rparr>)
       [0 ..< unat (word_of_nat count :: u32)])"

definition on_keyring_get :: "world \<Rightarrow> control \<times> world" where
  "on_keyring_get w = signed_in (\<lambda>mailbox w.
     case get_keyring mailbox (db w) of
       None \<Rightarrow> reply KEYRING_DATA (encode_KeyringChunk \<lparr> kc_total_size = 0, kc_index = 0, kc_count = 0, kc_data = [] \<rparr>) w
     | Some blob \<Rightarrow>
        let (ok, w) = send_all (map (\<lambda>c. (KEYRING_DATA, encode_KeyringChunk c)) (keyring_chunks blob)) w in
        (if ok then Break else Return, w)) w"

section \<open>The loop\<close>

definition on_message :: "relay_config \<Rightarrow> turn_env \<Rightarrow> WireMessage \<Rightarrow> world \<Rightarrow> control \<times> world" where
  "on_message cf ev msg w =
    (let t = wm_type msg; payload = wm_payload msg in
     if t = RELAY_PING then on_ping w
     else if t = RELAY_REGISTER then on_register cf ev payload w
     else if t = RELAY_AUTH then on_auth cf payload w
     else if t = RELAY_DEPOSIT then on_deposit cf ev payload w
     else if t = RELAY_COLLECT then on_collect ev w
     else if t = RELAY_ACK then on_ack payload w
     else if t = RELAY_INVITE_CREATE then on_invite_create cf ev w
     else if t = ARCHIVE_CREATE then on_archive_create cf ev payload w
     else if t = ARCHIVE_JOIN then on_archive_join cf ev payload w
     else if t = ARCHIVE_AUTH then on_archive_auth cf payload w
     else if t = ARCHIVE_APPEND then on_archive_append cf ev payload w
     else if t = ARCHIVE_DELETE then on_archive_delete cf ev payload w
     else if t = ARCHIVE_FETCH then on_archive_fetch cf ev payload w
     else if t = PREKEY_PUT then on_prekey_put cf ev payload w
     else if t = PREKEY_TAKE then on_prekey_take cf ev payload w
     else if t = PREKEY_STATUS then on_prekey_status w
     else if t = FILE_UPLOAD_BEGIN then on_file_upload_begin cf ev payload w
     else if t = FILE_CHUNK then on_file_chunk ev payload w
     else if t = FILE_DOWNLOAD then on_file_download cf ev payload w
     else if t = FILE_REDEEM then on_file_redeem cf ev payload w
     else if t = FILE_CANCEL then on_file_cancel payload w
     else if t = FILE_STATUS then on_file_status payload w
     else if t = KEYRING_PUT then on_keyring_put cf ev payload w
     else if t = KEYRING_GET then on_keyring_get w
     else if t = RELAY_INVITE_LIST then on_invite_list cf ev w
     else if t = RELAY_INVITE_CANCEL then on_invite_cancel payload w
     else if t = RELAY_TOKEN_ADD then on_token cf ev True payload w
     else if t = RELAY_TOKEN_REVOKE then on_token cf ev False payload w
     else hang_up ''Unexpected message'' w)"

text \<open>
  What a turn finds on the connection: nothing within the polling interval (and whether the client has
  been silent for too long by then), a connection that fails, or a message.
\<close>

datatype arrival = Nothing_Yet | Idle_Too_Long | Disconnected | Arrived WireMessage

text \<open>\<^verbatim>\<open>if (collecting && mailbox && !push_pending(sock, *mailbox, last_seq)) return;\<close>\<close>

definition push_news :: "turn_env \<Rightarrow> world \<Rightarrow> control \<times> world" where
  "push_news ev w =
    (case ss_mailbox (ses w) of
       Some mailbox \<Rightarrow>
         if ss_collecting (ses w)
         then (let (ok, w) = push_pending (tv_clock ev) 0 mailbox w in (if ok then Continue else Return, w))
         else (Continue, w)
     | None \<Rightarrow> (Continue, w))"

definition session_turn :: "relay_config \<Rightarrow> turn_env \<Rightarrow> arrival \<Rightarrow> world \<Rightarrow> control \<times> world" where
  "session_turn cf ev a w =
    (if sv_kicked (wo_service w) (ss_kick (ses w)) then hang_up ''Another client signed in to this mailbox'' w
     else case a of
         Idle_Too_Long \<Rightarrow> (Return, w)
       | Disconnected \<Rightarrow> (Return, w)
       | Nothing_Yet \<Rightarrow> push_news ev w
       | Arrived msg \<Rightarrow>
          (case on_message cf ev msg w of
             (Break, w) \<Rightarrow> push_news ev w
           | (c, w) \<Rightarrow> (c, w)))"

definition start_session :: "relay_config \<Rightarrow> bytes \<Rightarrow> bytes \<Rightarrow> string \<Rightarrow> nat \<Rightarrow> bytes \<Rightarrow> nat \<Rightarrow> service \<Rightarrow> control \<times> world" where
  "start_session cf challenge seed peer_ip kick hello_payload room sv =
    (let w = \<lparr> wo_service = sv, wo_session = \<lparr> ss_peer_ip = peer_ip, ss_kick = kick, ss_challenge = challenge, ss_mailbox = None,
                 ss_challenge_used = False, ss_collecting = False, ss_is_owner = False, ss_archive_session = None,
                 ss_upload = no_upload, ss_keyring_upload = no_keyring_upload, ss_last_seq = 0 \<rparr>, wo_sent = [], wo_room = room \<rparr> in
     case decode_hello hello_payload of
       None \<Rightarrow> hang_up ''Unsupported or malformed hello (this relay speaks protocol version 3)'' w
     | Some hello \<Rightarrow>
        if hl_version hello \<noteq> WIRE_VERSION
        then hang_up ''Unsupported or malformed hello (this relay speaks protocol version 3)'' w
        else case sign (cf_lib cf) seed (hello_signing_input (hl_client_nonce hello) (cf_relay_id cf) WIRE_VERSION challenge) (cf_private_key cf) of
            Inl _ \<Rightarrow> (Throw, w)
          | Inr signature \<Rightarrow>
             (let (ok, w) = send_on RELAY_HELLO_REPLY (encode_HelloReply \<lparr> hr_relay_public_key = cf_public_key cf, hr_signature = signature,
                    hr_auth_challenge = challenge \<rparr>) w in
              (if ok then Continue else Return, w)))"

text \<open>The two guards, in the order they run when the session ends: the owner's slot, then an unfinished upload.\<close>

definition end_session :: "world \<Rightarrow> world" where
  "end_session w =
    (let w = (case ss_mailbox (ses w) of
                Some mailbox \<Rightarrow> if ss_is_owner (ses w)
                  then w \<lparr> wo_service := release_owner mailbox (ss_kick (ses w)) (wo_service w) \<rparr> else w
              | None \<Rightarrow> w) in
     abort_upload w)"

fun run_turns :: "relay_config \<Rightarrow> (turn_env \<times> arrival) list \<Rightarrow> world \<Rightarrow> bool \<times> world" where
  "run_turns cf [] w = (False, w)"
| "run_turns cf ((ev, a) # ts) w =
    (case session_turn cf ev a w of
       (Return, w) \<Rightarrow> (True, end_session w)
     | (Throw, w) \<Rightarrow> (True, end_session w)
     | (_, w) \<Rightarrow> run_turns cf ts w)"

end
