(* ===== verification/Relay_Session_Effects.thy ===== *)
theory Relay_Session_Effects
  imports Relay_Session
begin

text \<open>
  What a message of a client can do.  \<^verbatim>\<open>permitted\<close> lists, as rules, every change of the database that a
  message may cause, each with the credential it takes; \<^verbatim>\<open>who\<close> is the part of the state that says who the
  client is.  One lemma per case of the switch shows that the case stays within the list and leaves \<^verbatim>\<open>who\<close>
  alone, except for the two sign-ins and \<^verbatim>\<open>RELAY_COLLECT\<close>; the theorems about sessions rest on these lemmas.
\<close>

section \<open>Access to the parts of the world\<close>

definition set_rate :: "windows \<Rightarrow> world \<Rightarrow> world" where
  "set_rate r w = w \<lparr> wo_service := (wo_service w) \<lparr> sv_rate := r \<rparr> \<rparr>"

lemma ses_simps [simp]:
  "ses (set_db d w) = ses w" "ses (set_disk dk w) = ses w" "ses (set_rate r w) = ses w"
  "ses (set_upload u w) = (ses w) \<lparr> ss_upload := u \<rparr>"
  "ses (set_keyring_upload k w) = (ses w) \<lparr> ss_keyring_upload := k \<rparr>"
  "ses (send_error t w) = ses w" "ses (snd (reply typ p w)) = ses w" "ses (snd (refuse t w)) = ses w"
  "ses (snd (hang_up t w)) = ses w"
  by (simp_all add: set_db_def set_disk_def set_rate_def set_upload_def set_keyring_upload_def send_error_def reply_def
      refuse_def hang_up_def split_def Let_def)

lemma service_simps [simp]:
  "wo_service (set_db d w) = (wo_service w) \<lparr> sv_db := d \<rparr>" "wo_service (set_disk dk w) = (wo_service w) \<lparr> sv_disk := dk \<rparr>"
  "wo_service (set_rate r w) = (wo_service w) \<lparr> sv_rate := r \<rparr>"
  "wo_service (set_upload u w) = wo_service w" "wo_service (set_keyring_upload k w) = wo_service w"
  "wo_service (send_error t w) = wo_service w" "wo_service (snd (reply typ p w)) = wo_service w"
  "wo_service (snd (refuse t w)) = wo_service w" "wo_service (snd (hang_up t w)) = wo_service w"
  by (simp_all add: set_db_def set_disk_def set_rate_def set_upload_def set_keyring_upload_def send_error_def reply_def
      refuse_def hang_up_def split_def Let_def)

lemma send_all_keeps [simp]: "wo_service (snd (send_all ms w)) = wo_service w" "wo_session (snd (send_all ms w)) = wo_session w"
  by (induction ms arbitrary: w) (simp_all add: Let_def split_def)

lemma send_chunks_keeps [simp]:
  "wo_service (snd (send_chunks c m is w)) = wo_service w" "wo_session (snd (send_chunks c m is w)) = wo_session w"
  by (induction "is" arbitrary: w) (simp_all add: Let_def split_def)

lemma send_batch_session:
  "ses (snd (send_batch es w)) = (ses w) \<lparr> ss_last_seq := ss_last_seq (ses (snd (send_batch es w))) \<rparr>"
proof (induction es arbitrary: w)
  case Nil
  then show ?case by simp
next
  case (Cons e es)
  show ?case
    by (simp add: Let_def split_def) (subst Cons.IH, simp)
qed

lemma push_pending_keeps:
  "wo_service (snd (push_pending clock i m w)) = wo_service w \<and>
   ses (snd (push_pending clock i m w)) = (ses w) \<lparr> ss_last_seq := ss_last_seq (ses (snd (push_pending clock i m w))) \<rparr>"
proof (induction clock i m w rule: push_pending.induct)
  case (1 clock i m w)
  show ?case
  proof (cases "fetch m (ss_last_seq (ses w)) (clock i) 32 (db w)")
    case Nil
    then show ?thesis by (simp add: push_pending.simps)
  next
    case (Cons e es)
    obtain ok w' where sb: "send_batch (e # es) w = (ok, w')" by force
    have keep: "wo_service w' = wo_service w" "ses w' = (ses w) \<lparr> ss_last_seq := ss_last_seq (ses w') \<rparr>"
      using send_batch_service [of "e # es" w] send_batch_session [of "e # es" w] by (simp_all only: sb snd_conv)
    show ?thesis
    proof (cases ok)
      case True
      from 1 [OF Cons sb [symmetric]] True keep
      have "wo_service (snd (push_pending clock (Suc i) m w')) = wo_service w"
        "ses (snd (push_pending clock (Suc i) m w')) =
           (ses w) \<lparr> ss_last_seq := ss_last_seq (ses (snd (push_pending clock (Suc i) m w'))) \<rparr>"
        by (simp, metis session.update_convs(11) session.surjective)
      then show ?thesis using Cons sb True by (simp add: push_pending.simps [of clock i m w])
    next
      case False
      then show ?thesis using Cons sb keep by (simp add: push_pending.simps [of clock i m w])
    qed
  qed
qed

text \<open>The guards, as rules for a property of what the case does.\<close>

lemma rate_guardI:
  assumes "\<And>r. P (rest (set_rate r w))" and "\<And>r. P (refuse t (set_rate r w))"
  shows "P (rate_guard key limit now t rest w)"
  using assms by (simp add: rate_guard_def Let_def split_def set_rate_def)

lemma signed_inI:
  assumes "ss_mailbox (ses w) = None \<Longrightarrow> P (refuse ''Sign in first'' w)" and "\<And>m. ss_mailbox (ses w) = Some m \<Longrightarrow> P (rest m w)"
  shows "P (signed_in rest w)"
  using assms by (simp add: signed_in_def split: option.splits)

lemma in_archiveI:
  assumes "ss_archive_session (ses w) = None \<Longrightarrow> P (refuse ''Sign in to an archive first'' w)"
    and "\<And>a k. ss_archive_session (ses w) = Some (a, k) \<Longrightarrow> P (rest a w)"
  shows "P (in_archive rest w)"
  using assms by (auto simp: in_archive_def split: option.splits)

section \<open>What a message may change\<close>

definition who :: "world \<Rightarrow> (string \<rightharpoonup> nat) \<times> (nat \<Rightarrow> bool) \<times> string \<times> nat \<times> bytes \<times> bytes option \<times> bool \<times> bool \<times> (bytes \<times> bytes) option" where
  "who w = (sv_owners (wo_service w), sv_kicked (wo_service w), ss_peer_ip (ses w), ss_kick (ses w), ss_challenge (ses w), ss_mailbox (ses w),
     ss_challenge_used (ses w), ss_is_owner (ses w), ss_archive_session (ses w))"

text \<open>Every registered member has signed.\<close>

definition unanimous :: "crypto_lib \<Rightarrow> bytes \<Rightarrow> ArchiveSignature list \<Rightarrow> MemberKey list \<Rightarrow> bool" where
  "unanimous L signed_input sigs keys \<longleftrightarrow>
    list_all (\<lambda>k. list_ex (\<lambda>s. as_key_hash s = mk_key_hash k \<and> verify L signed_input (as_signature s) (mk_public_key k)) sigs) keys"

lemma check_agreement_unanimous: "check_agreement L signed_input sigs keys = (True, True) \<Longrightarrow> unanimous L signed_input sigs keys"
proof (induction keys)
  case Nil
  then show ?case by (simp add: unanimous_def)
next
  case (Cons k keys)
  then obtain mine rest where m: "rev (filter (\<lambda>s. as_key_hash s = mk_key_hash k) sigs) = mine # rest"
    and v: "verify L signed_input (as_signature mine) (mk_public_key k)"
    and c: "check_agreement L signed_input sigs keys = (True, True)"
    by (auto split: list.splits if_splits)
  have "mine \<in> set (rev (filter (\<lambda>s. as_key_hash s = mk_key_hash k) sigs))" unfolding m by simp
  with v Cons.IH [OF c] show ?case by (auto simp: unanimous_def list_ex_iff)
qed

definition aborted :: "session \<Rightarrow> relay_db \<Rightarrow> relay_db" where
  "aborted s d = (if up_active (ss_upload s) then snd (delete_file (up_id (ss_upload s)) [] d) else d)"

text \<open>The deletion order that an arrival carries, unless it has expired.\<close>

definition order_of :: "turn_env \<Rightarrow> arrival \<Rightarrow> ArchiveDelete option" where
  "order_of ev arr =
    (case arr of
       Arrived msg \<Rightarrow>
         if wm_type msg \<noteq> ARCHIVE_DELETE then None
         else case decode_archive_delete (wm_payload msg) of
             None \<Rightarrow> None
           | Some m \<Rightarrow> if ad_expires_at m < word_of_int (tv_now ev) then None else Some m
     | _ \<Rightarrow> None)"

text \<open>The members of the archive are complete, and all of them have signed the order.\<close>

definition agreed_order :: "relay_config \<Rightarrow> turn_env \<Rightarrow> bytes \<Rightarrow> relay_db \<Rightarrow> ArchiveDelete \<Rightarrow> bool" where
  "agreed_order cf ev a d m \<longleftrightarrow>
    (\<exists>info. archive_info a (tv_now ev) d = Some info \<and> \<not> ai_registration_open info) \<and>
    unanimous (cf_lib cf) (archive_delete_signing_input (cf_relay_id cf) a (ad_scope m) (ad_op_id m) (ad_expires_at m) (ad_entry_hashes m))
      (ad_signatures m) (archive_member_keys a d)"

text \<open>The message of a type and with a payload has arrived.\<close>

definition asks :: "arrival \<Rightarrow> message_type \<Rightarrow> bytes \<Rightarrow> bool" where
  "asks arr t p \<longleftrightarrow> (\<exists>msg. arr = Arrived msg \<and> wm_type msg = t \<and> wm_payload msg = p)"

text \<open>
  Each rule names the message that must have arrived, the credential that must be valid or the sign-in there must be, and the one
  call of the store, with its arguments taken from that message, from the session, from the limits and from the
  clock.  \<^term>\<open>aborted\<close> drops the session's own unfinished upload.
\<close>

inductive permitted :: "relay_config \<Rightarrow> turn_env \<Rightarrow> arrival \<Rightarrow> session \<Rightarrow> relay_db \<Rightarrow> relay_db \<Rightarrow> bool"
  for cf :: relay_config and ev :: turn_env and arr :: arrival and s :: session where
  permitted_nothing: "permitted cf ev arr s d d"
| permitted_register: "asks arr RELAY_REGISTER p \<Longrightarrow> decode_register p = Some m \<Longrightarrow>
    length (rg_access_public_key m) = sig_length_public_key (cf_lib cf) \<Longrightarrow>
    verify (cf_lib cf) (register_signing_input (cf_relay_id cf) (rg_mailbox_id m) (rg_access_public_key m) (rg_send_token_hash m))
      (rg_signature m) (rg_access_public_key m) \<Longrightarrow>
    register_mailbox (sha256 (cf_lib cf) (rg_invite m)) (rg_mailbox_id m) (rg_access_public_key m) (rg_send_token_hash m) (tv_now ev)
      (lm_max_mailboxes (cf_limits cf)) d = Some (rr, d') \<Longrightarrow> permitted cf ev arr s d d'"
| permitted_deposit: "asks arr RELAY_DEPOSIT p \<Longrightarrow> decode_deposit p = Some m \<Longrightarrow>
    token_valid (dp_mailbox_id m) (sha256 (cf_lib cf) (dp_send_token m)) d \<Longrightarrow>
    deposit (dp_mailbox_id m) (tv_random ev) (dp_envelope m) (sha256 (cf_lib cf) (dp_send_token m)) (tv_now ev)
      ttl (lm_mailbox_quota_bytes (cf_limits cf)) d = Some (dr, d') \<Longrightarrow>
    \<not> dp_ttl_seconds m < MIN_TTL_SECONDS \<Longrightarrow> ttl = (if dp_ttl_seconds m > MAX_TTL_SECONDS then MAX_TTL_SECONDS else dp_ttl_seconds m) \<Longrightarrow> permitted cf ev arr s d d'"
| permitted_take: "asks arr PREKEY_TAKE p \<Longrightarrow> decode_prekey_take p = Some m \<Longrightarrow>
    token_valid (pt_mailbox_id m) (sha256 (cf_lib cf) (pt_send_token m)) d \<Longrightarrow>
    take_prekey (pt_mailbox_id m) (sha256 (cf_lib cf) (pt_send_token m)) (tv_now ev) (lm_prekey_takes_per_hour (cf_limits cf)) d = (tr, d') \<Longrightarrow>
    permitted cf ev arr s d d'"
| permitted_redeem: "asks arr FILE_REDEEM p \<Longrightarrow> decode_file_redeem p = Some m \<Longrightarrow>
    redeem_file_token (fr_file_id m) (sha256 (cf_lib cf) (fr_token m)) d = (rd, all, d') \<Longrightarrow> permitted cf ev arr s d d'"
| permitted_join: "asks arr ARCHIVE_JOIN p \<Longrightarrow> decode_archive_join p = Some m \<Longrightarrow>
    verify (cf_lib cf) (archive_join_signing_input (cf_relay_id cf) (aj_archive_id m) (aj_public_key m) (sha256 (cf_lib cf) (aj_join_token m)))
      (aj_signature m) (aj_public_key m) \<Longrightarrow>
    join_archive (aj_archive_id m) (sha256 (cf_lib cf) (aj_join_token m)) (sha256 (cf_lib cf) (aj_public_key m)) (aj_public_key m) (tv_now ev) d =
      Some (jr, d') \<Longrightarrow> permitted cf ev arr s d d'"
| permitted_ack: "asks arr RELAY_ACK p \<Longrightarrow> decode_id_list p = Some m \<Longrightarrow> ss_mailbox s = Some mailbox \<Longrightarrow>
    ack mailbox (il_ids m) d = (n, d') \<Longrightarrow> permitted cf ev arr s d d'"
| permitted_invite: "asks arr RELAY_INVITE_CREATE p \<Longrightarrow> ss_mailbox s = Some mailbox \<Longrightarrow>
    add_member_invite mailbox (sha256 (cf_lib cf) (tv_random ev)) (tv_now ev) (tv_now ev + lm_invite_lifetime_seconds (cf_limits cf))
      (lm_member_invites_outstanding (cf_limits cf)) (lm_member_invites_total (cf_limits cf)) d = Some (ir, d') \<Longrightarrow> permitted cf ev arr s d d'"
| permitted_cancel_invite: "asks arr RELAY_INVITE_CANCEL p \<Longrightarrow> decode_hash_op p = Some m \<Longrightarrow> ss_mailbox s = Some mailbox \<Longrightarrow>
    cancel_member_invite mailbox (ho_token_hash m) d = (b, d') \<Longrightarrow> permitted cf ev arr s d d'"
| permitted_add_token: "asks arr RELAY_TOKEN_ADD p \<Longrightarrow> decode_hash_op p = Some m \<Longrightarrow> ss_mailbox s = Some mailbox \<Longrightarrow>
    add_token mailbox (ho_token_hash m) (tv_now ev) (lm_max_tokens_per_mailbox (cf_limits cf)) d = Some (kr, d') \<Longrightarrow> permitted cf ev arr s d d'"
| permitted_revoke_token: "asks arr RELAY_TOKEN_REVOKE p \<Longrightarrow> decode_hash_op p = Some m \<Longrightarrow> ss_mailbox s = Some mailbox \<Longrightarrow>
    revoke_token mailbox (ho_token_hash m) d = (b, d') \<Longrightarrow> permitted cf ev arr s d d'"
| permitted_put_prekeys: "asks arr PREKEY_PUT p \<Longrightarrow> decode_prekey_put p = Some m \<Longrightarrow> ss_mailbox s = Some mailbox \<Longrightarrow>
    put_prekeys mailbox (pp_replace m) (pp_generation m)
      (map (\<lambda>p. \<lparr> pi_id = pe_id p, pi_last_resort = pe_last_resort p, pi_blob = pe_blob p \<rparr>) (pp_prekeys m)) (tv_now ev)
      (lm_max_prekeys (cf_limits cf)) d = Some (pr, d') \<Longrightarrow> permitted cf ev arr s d d'"
| permitted_put_keyring: "asks arr KEYRING_PUT p \<Longrightarrow> decode_keyring_chunk p = Some m \<Longrightarrow> ss_mailbox s = Some mailbox \<Longrightarrow>
    put_keyring mailbox blob (tv_now ev) d = Some d' \<Longrightarrow>
    blob = (if kc_index m = 0 then [] else ku_buffer (ss_keyring_upload s)) @ kc_data m \<Longrightarrow>
    kc_index m + 1 = kc_count m \<Longrightarrow> kc_index m = 0 \<or> ku_active (ss_keyring_upload s) \<and> kc_index m = ku_next (ss_keyring_upload s) \<Longrightarrow>
    permitted cf ev arr s d d'"
| permitted_create_archive: "asks arr ARCHIVE_CREATE p \<Longrightarrow> decode_archive_create p = Some m \<Longrightarrow> ss_mailbox s = Some mailbox \<Longrightarrow>
    create_archive (ac_archive_id m) (ac_join_token_hashes m) (sha256 (cf_lib cf) (archive_genesis_input (ac_archive_id m))) (tv_now ev)
      (tv_now ev + lm_archive_join_window_seconds (cf_limits cf)) (lm_max_archives (cf_limits cf)) d = Some (cr, d') \<Longrightarrow> permitted cf ev arr s d d'"
| permitted_abort: "asks arr FILE_UPLOAD_BEGIN p \<Longrightarrow> ss_mailbox s = Some mailbox \<Longrightarrow> permitted cf ev arr s d (aborted s d)"
| permitted_abort_chunk: "asks arr FILE_CHUNK p \<Longrightarrow> up_active (ss_upload s) \<Longrightarrow> permitted cf ev arr s d (aborted s d)"
| permitted_begin: "asks arr FILE_UPLOAD_BEGIN p \<Longrightarrow> decode_file_begin p = Some m \<Longrightarrow> ss_mailbox s = Some mailbox \<Longrightarrow>
    begin_file mailbox (fb_file_id m) (fb_total_size m) (fb_chunk_size m) (fb_chunk_count m) (sint (fb_expires_at m))
      (fb_token_hashes m) (tv_now ev) (lm_attachment_quota_bytes (cf_limits cf)) (aborted s d) = Some (br, d') \<Longrightarrow> permitted cf ev arr s d d'"
| permitted_begin_failed: "asks arr FILE_UPLOAD_BEGIN p \<Longrightarrow> decode_file_begin p = Some m \<Longrightarrow> ss_mailbox s = Some mailbox \<Longrightarrow>
    begin_file mailbox (fb_file_id m) (fb_total_size m) (fb_chunk_size m) (fb_chunk_count m) (sint (fb_expires_at m))
      (fb_token_hashes m) (tv_now ev) (lm_attachment_quota_bytes (cf_limits cf)) (aborted s d) = Some (BeginFile_Ok, d1) \<Longrightarrow>
    delete_file (fb_file_id m) [] d1 = (b, d') \<Longrightarrow> permitted cf ev arr s d d'"
| permitted_finish: "asks arr FILE_CHUNK p \<Longrightarrow> decode_file_chunk p = Some m \<Longrightarrow> up_active (ss_upload s) \<Longrightarrow>
    fc_index m = up_next (ss_upload s) \<Longrightarrow> up_next (ss_upload s) + 1 = up_count (ss_upload s) \<Longrightarrow>
    length (fc_data m) = unat (expected_chunk_size (ss_upload s)) \<Longrightarrow> permitted cf ev arr s d (finish_file (up_id (ss_upload s)) d)"
| permitted_cancel_file: "asks arr FILE_CANCEL p \<Longrightarrow> decode_file_ref p = Some m \<Longrightarrow> ss_mailbox s = Some mailbox \<Longrightarrow>
    delete_file (ff_file_id m) mailbox d = (b, d') \<Longrightarrow> permitted cf ev arr s d d'"
| permitted_append: "asks arr ARCHIVE_APPEND p \<Longrightarrow> decode_archive_append p = Some m \<Longrightarrow> ss_archive_session s = Some (a, k) \<Longrightarrow>
    append_entry a (ap_expected_number m) (ap_expected_hash m)
      (sha256 (cf_lib cf) (archive_entry_hash_input a (ap_expected_number m + 1) (ap_expected_hash m) (ap_ciphertext m)))
      (ap_ciphertext m) (tv_now ev) (lm_archive_quota_bytes (cf_limits cf)) d = Some (ar, st, d') \<Longrightarrow>
    ap_expected_number m \<noteq> - 1 \<Longrightarrow> permitted cf ev arr s d d'"
| permitted_delete_archive: "ss_archive_session s = Some (a, k) \<Longrightarrow> order_of ev arr = Some m \<Longrightarrow> agreed_order cf ev a d m \<Longrightarrow>
    ad_scope m = DELETE_SCOPE_CHAT \<Longrightarrow> delete_archive a d = (b, d') \<Longrightarrow> permitted cf ev arr s d d'"
| permitted_redact: "ss_archive_session s = Some (a, k) \<Longrightarrow> order_of ev arr = Some m \<Longrightarrow> agreed_order cf ev a d m \<Longrightarrow>
    ad_scope m \<noteq> DELETE_SCOPE_CHAT \<Longrightarrow> redact_entries a (ad_entry_hashes m) d = (re, d') \<Longrightarrow> permitted cf ev arr s d d'"

text \<open>The effect of a case: its change of the database is permitted, and it leaves \<^const>\<open>who\<close> as it is.\<close>

definition effect :: "relay_config \<Rightarrow> turn_env \<Rightarrow> arrival \<Rightarrow> world \<Rightarrow> control \<times> world \<Rightarrow> bool" where
  "effect cf ev arr w r \<longleftrightarrow> permitted cf ev arr (ses w) (db w) (db (snd r)) \<and> who (snd r) = who w"

lemma effectI: "permitted cf ev arr (ses w) (db w) (db (snd r)) \<Longrightarrow> who (snd r) = who w \<Longrightarrow> effect cf ev arr w r"
  by (simp add: effect_def)

lemma effect_answer [simp]:
  "effect cf ev arr w (reply t p w') \<longleftrightarrow> effect cf ev arr w (Break, w')" "effect cf ev arr w (refuse x w') \<longleftrightarrow> effect cf ev arr w (Break, w')"
  "effect cf ev arr w (hang_up x w') \<longleftrightarrow> effect cf ev arr w (Break, w')" "effect cf ev arr w (c, send_error x w') \<longleftrightarrow> effect cf ev arr w (Break, w')"
  "NO_MATCH Break c \<Longrightarrow> effect cf ev arr w (c, w') \<longleftrightarrow> effect cf ev arr w (Break, w')"
  by (simp_all add: effect_def who_def)

lemma effect_Break [simp]: "effect cf ev arr w (Break, w') \<longleftrightarrow> permitted cf ev arr (ses w) (db w) (db w') \<and> who w' = who w"
  by (simp add: effect_def)

declare permitted_nothing [simp]

lemma effect_guards:
  "(\<And>r. effect cf ev arr w (rest (set_rate r w'))) \<Longrightarrow> (\<And>r. effect cf ev arr w (Break, set_rate r w')) \<Longrightarrow>
   effect cf ev arr w (rate_guard k l n t rest w')"
  "(\<And>m. ss_mailbox (ses w) = Some m \<Longrightarrow> effect cf ev arr w (rest1 m w)) \<Longrightarrow> effect cf ev arr w (signed_in rest1 w)"
  "(\<And>a k. ss_archive_session (ses w) = Some (a, k) \<Longrightarrow> effect cf ev arr w (rest2 a w)) \<Longrightarrow> effect cf ev arr w (in_archive rest2 w)"
  by (rule rate_guardI, simp_all) (rule signed_inI, simp_all, rule in_archiveI, simp_all)

lemmas effect_split = option.split prod.split RegisterResult.split DepositResult.split IssueResult.split CreateArchiveResult.split
  JoinResult.split AppendResult.split RedactResult.split PrekeyPutResult.split PrekeyTakeResult.split TokenCheck.split
  BeginFileResult.split RedeemResult.split

lemma on_ping_effect: "effect cf ev arr w (on_ping w)"
  by (simp add: on_ping_def)

lemma on_register_effect: "asks arr RELAY_REGISTER p \<Longrightarrow> effect cf ev arr w (on_register cf ev p w)"
  unfolding on_register_def
  by (auto split: effect_split intro!: effect_guards simp: Let_def who_def)
    (blast intro: permitted_register)+

lemma on_deposit_effect: "asks arr RELAY_DEPOSIT p \<Longrightarrow> effect cf ev arr w (on_deposit cf ev p w)"
  unfolding on_deposit_def
  by (auto split: effect_split intro!: effect_guards simp: Let_def who_def)
    (rule permitted_deposit, assumption+, simp, simp)+

lemma on_ack_effect: "asks arr RELAY_ACK p \<Longrightarrow> effect cf ev arr w (on_ack p w)"
  unfolding on_ack_def
  by (auto split: effect_split intro!: effect_guards simp: Let_def who_def)
    (blast intro: permitted_ack)+

lemma on_invite_create_effect: "asks arr RELAY_INVITE_CREATE p \<Longrightarrow> effect cf ev arr w (on_invite_create cf ev w)"
  unfolding on_invite_create_def
  by (auto split: effect_split intro!: effect_guards simp: Let_def who_def)
    (blast intro: permitted_invite)+

lemma on_invite_list_effect: "effect cf ev arr w (on_invite_list cf ev w)"
  unfolding on_invite_list_def by (auto intro!: effect_guards simp: Let_def who_def)

lemma on_invite_cancel_effect: "asks arr RELAY_INVITE_CANCEL p \<Longrightarrow> effect cf ev arr w (on_invite_cancel p w)"
  unfolding on_invite_cancel_def
  by (auto split: effect_split intro!: effect_guards simp: Let_def who_def)
    (blast intro: permitted_cancel_invite)+

lemma on_token_effect: "asks arr (if b then RELAY_TOKEN_ADD else RELAY_TOKEN_REVOKE) p \<Longrightarrow> effect cf ev arr w (on_token cf ev b p w)"
  unfolding on_token_def
  by (auto split: effect_split intro!: effect_guards simp: Let_def who_def)
    (blast intro: permitted_add_token permitted_revoke_token)+

lemma on_archive_create_effect: "asks arr ARCHIVE_CREATE p \<Longrightarrow> effect cf ev arr w (on_archive_create cf ev p w)"
  unfolding on_archive_create_def
  by (auto split: effect_split intro!: effect_guards simp: Let_def who_def)
    (blast intro: permitted_create_archive)+

lemma on_archive_join_effect: "asks arr ARCHIVE_JOIN p \<Longrightarrow> effect cf ev arr w (on_archive_join cf ev p w)"
  unfolding on_archive_join_def
  by (auto split: effect_split intro!: effect_guards simp: Let_def who_def)
    (blast intro: permitted_join)+

lemma on_archive_append_effect: "asks arr ARCHIVE_APPEND p \<Longrightarrow> effect cf ev arr w (on_archive_append cf ev p w)"
  unfolding on_archive_append_def archive_guard_def
  by (auto split: effect_split intro!: effect_guards simp: Let_def who_def)
    (blast intro: permitted_append)+

lemma agreed_orderI:
  "archive_info a (tv_now ev) d = Some info \<Longrightarrow> \<not> ai_registration_open info \<Longrightarrow> ad_scope m = sc \<Longrightarrow>
   unanimous (cf_lib cf) (archive_delete_signing_input (cf_relay_id cf) a sc (ad_op_id m) (ad_expires_at m) (ad_entry_hashes m))
     (ad_signatures m) (archive_member_keys a d) \<Longrightarrow> agreed_order cf ev a d m"
  by (auto simp: agreed_order_def)

lemma on_archive_delete_effect:
  assumes "\<And>m. decode_archive_delete p = Some m \<Longrightarrow> \<not> ad_expires_at m < word_of_int (tv_now ev) \<Longrightarrow> order_of ev arr = Some m"
  shows "effect cf ev arr w (on_archive_delete cf ev p w)"
  unfolding on_archive_delete_def archive_guard_def
  by (auto split: effect_split intro!: effect_guards simp: Let_def who_def dest!: check_agreement_unanimous)
    (blast intro: permitted_delete_archive permitted_redact agreed_orderI assms)+

lemma on_archive_fetch_effect: "effect cf ev arr w (on_archive_fetch cf ev p w)"
  unfolding on_archive_fetch_def archive_guard_def
  by (auto split: effect_split intro!: effect_guards simp: Let_def who_def dest!: arg_cong [of _ _ snd])

lemma on_prekey_put_effect: "asks arr PREKEY_PUT p \<Longrightarrow> effect cf ev arr w (on_prekey_put cf ev p w)"
  unfolding on_prekey_put_def
  by (auto split: effect_split intro!: effect_guards simp: Let_def who_def)
    (blast intro: permitted_put_prekeys)+

lemma on_prekey_take_effect: "asks arr PREKEY_TAKE p \<Longrightarrow> effect cf ev arr w (on_prekey_take cf ev p w)"
  unfolding on_prekey_take_def
  by (auto split: effect_split intro!: effect_guards simp: Let_def who_def)
    (blast intro: permitted_take)+

lemma on_prekey_status_effect: "effect cf ev arr w (on_prekey_status w)"
  unfolding on_prekey_status_def by (auto intro!: effect_guards simp: who_def)

lemma abort_upload_simps [simp]:
  "db (abort_upload w) = aborted (ses w) (db w)"
  "sv_owners (wo_service (abort_upload w)) = sv_owners (wo_service w)" "sv_kicked (wo_service (abort_upload w)) = sv_kicked (wo_service w)"
  "sv_rate (wo_service (abort_upload w)) = sv_rate (wo_service w)"
  "ses (abort_upload w) = (ses w) \<lparr> ss_upload := (ss_upload (ses w)) \<lparr> up_active := False \<rparr> \<rparr>"
  by (simp_all add: abort_upload_def aborted_def Let_def split_def)

lemma on_file_upload_begin_effect: "asks arr FILE_UPLOAD_BEGIN p \<Longrightarrow> effect cf ev arr w (on_file_upload_begin cf ev p w)"
  unfolding on_file_upload_begin_def
  by (auto split: effect_split intro!: effect_guards simp: Let_def who_def)
    ((rule permitted_abort permitted_begin permitted_begin_failed, assumption+)+)

lemma aborted_next [simp]: "aborted (s \<lparr> ss_upload := (ss_upload s) \<lparr> up_next := n \<rparr> \<rparr>) d = aborted s d"
  by (simp add: aborted_def)

lemma on_file_chunk_effect: "asks arr FILE_CHUNK p \<Longrightarrow> effect cf ev arr w (on_file_chunk ev p w)"
  unfolding on_file_chunk_def
  by (auto split: effect_split intro: permitted_finish permitted_abort_chunk simp: Let_def who_def)

lemma on_file_download_effect: "effect cf ev arr w (on_file_download cf ev p w)"
  unfolding on_file_download_def
  by (auto split: effect_split intro!: effect_guards simp: Let_def who_def effect_def [of _ _ _ _ "send_chunks _ _ _ _"] dest!: arg_cong [of _ _ snd])

lemma on_file_redeem_effect: "asks arr FILE_REDEEM p \<Longrightarrow> effect cf ev arr w (on_file_redeem cf ev p w)"
  unfolding on_file_redeem_def
  by (auto split: effect_split intro!: effect_guards simp: Let_def who_def) (blast intro: permitted_redeem)+

lemma on_file_cancel_effect: "asks arr FILE_CANCEL p \<Longrightarrow> effect cf ev arr w (on_file_cancel p w)"
  unfolding on_file_cancel_def
  by (auto split: effect_split intro!: effect_guards simp: Let_def who_def) (blast intro: permitted_cancel_file)+

lemma on_file_status_effect: "effect cf ev arr w (on_file_status p w)"
  unfolding on_file_status_def by (auto split: effect_split intro!: effect_guards simp: Let_def who_def)

lemma on_keyring_put_effect: "asks arr KEYRING_PUT p \<Longrightarrow> effect cf ev arr w (on_keyring_put cf ev p w)"
  unfolding on_keyring_put_def keyring_accept_def
  by (auto split: effect_split intro!: effect_guards simp: Let_def who_def)
    (rule permitted_put_keyring, assumption+, simp_all add: no_keyring_upload_def)+

lemma on_keyring_get_effect: "effect cf ev arr w (on_keyring_get w)"
  unfolding on_keyring_get_def
  by (auto split: effect_split intro!: effect_guards simp: Let_def who_def dest!: arg_cong [of _ _ snd])

section \<open>Signing in and collecting\<close>

text \<open>The three cases that change \<^const>\<open>who\<close> leave the database as it is.\<close>

lemma on_auth_result:
  "wo_service (snd (on_auth cf p w)) = wo_service w \<and>
   (ses (snd (on_auth cf p w)) = ses w \<or>
    (\<exists>m. decode_auth p = Some m \<and> \<not> ss_challenge_used (ses w) \<and>
      (ses (snd (on_auth cf p w)) = (ses w) \<lparr> ss_challenge_used := True \<rparr> \<or>
       (\<exists>key. access_key (au_mailbox_id m) (db w) = Some key \<and>
          verify (cf_lib cf) (auth_signing_input (ss_challenge (ses w)) (cf_relay_id cf) (au_mailbox_id m)) (au_signature m) key \<and>
          ses (snd (on_auth cf p w)) = (ses w) \<lparr> ss_challenge_used := True, ss_mailbox := Some (au_mailbox_id m) \<rparr>))))"
  by (auto simp: on_auth_def Let_def split: option.splits)

lemma on_archive_auth_result:
  "wo_service (snd (on_archive_auth cf p w)) = wo_service w \<and>
   (ses (snd (on_archive_auth cf p w)) = ses w \<or>
    (\<exists>m. decode_archive_auth p = Some m \<and> \<not> ss_challenge_used (ses w) \<and>
      (ses (snd (on_archive_auth cf p w)) = (ses w) \<lparr> ss_challenge_used := True \<rparr> \<or>
       (\<exists>key. archive_member_key (aa_archive_id m) (aa_key_hash m) (db w) = Some key \<and>
          verify (cf_lib cf) (archive_auth_signing_input (ss_challenge (ses w)) (cf_relay_id cf) (aa_archive_id m) (aa_key_hash m))
            (aa_signature m) key \<and>
          ses (snd (on_archive_auth cf p w)) =
            (ses w) \<lparr> ss_challenge_used := True, ss_archive_session := Some (aa_archive_id m, aa_key_hash m) \<rparr>))))"
  by (auto simp: on_archive_auth_def Let_def split: option.splits)

definition receiving :: "bytes \<Rightarrow> world \<Rightarrow> world" where
  "receiving mailbox w =
    (if ss_is_owner (ses w) then w
     else w \<lparr> wo_service := install_owner mailbox (ss_kick (ses w)) (wo_service w), wo_session := (ses w) \<lparr> ss_is_owner := True \<rparr> \<rparr>)"

lemma on_collect_result:
  "ss_mailbox (ses w) = None \<Longrightarrow> on_collect ev w = refuse ''Sign in first'' w"
  "ss_mailbox (ses w) = Some m \<Longrightarrow>
     wo_service (snd (on_collect ev w)) = wo_service (receiving m w) \<and>
     (\<exists>n. ses (snd (on_collect ev w)) = (ses (receiving m w)) \<lparr> ss_collecting := True, ss_last_seq := n \<rparr>)"
proof -
  show "ss_mailbox (ses w) = None \<Longrightarrow> on_collect ev w = refuse ''Sign in first'' w"
    by (simp add: on_collect_def signed_in_def)
next
  assume m: "ss_mailbox (ses w) = Some m"
  let ?w = "(receiving m w) \<lparr> wo_session := (ses (receiving m w)) \<lparr> ss_collecting := True, ss_last_seq := 0 \<rparr> \<rparr>"
  have "on_collect ev w = (let (ok, w) = push_pending (tv_clock ev) 0 m ?w in if ok then reply RELAY_COLLECT_END [] w else (Return, w))"
    by (simp add: on_collect_def signed_in_def m receiving_def Let_def)
  then have "wo_service (snd (on_collect ev w)) = wo_service (snd (push_pending (tv_clock ev) 0 m ?w))"
    "ses (snd (on_collect ev w)) = ses (snd (push_pending (tv_clock ev) 0 m ?w))"
    by (simp_all add: split_def Let_def)
  moreover note push_pending_keeps [of "tv_clock ev" 0 m ?w]
  ultimately have "wo_service (snd (on_collect ev w)) = wo_service ?w"
    "ses (snd (on_collect ev w)) = (ses ?w) \<lparr> ss_last_seq := ss_last_seq (ses (snd (push_pending (tv_clock ev) 0 m ?w))) \<rparr>"
    by simp_all
  then show "wo_service (snd (on_collect ev w)) = wo_service (receiving m w) \<and>
     (\<exists>n. ses (snd (on_collect ev w)) = (ses (receiving m w)) \<lparr> ss_collecting := True, ss_last_seq := n \<rparr>)"
    by auto
qed

lemma receiving_db [simp]: "db (receiving m w) = db w"
  by (simp add: receiving_def install_owner_def Let_def split: option.splits)

lemmas case_effects = on_ping_effect on_register_effect on_deposit_effect on_ack_effect on_invite_create_effect on_invite_list_effect
  on_invite_cancel_effect on_token_effect on_archive_create_effect on_archive_join_effect on_archive_append_effect
  on_archive_fetch_effect on_prekey_put_effect on_prekey_take_effect on_prekey_status_effect
  on_file_upload_begin_effect on_file_chunk_effect on_file_download_effect on_file_redeem_effect on_file_cancel_effect
  on_file_status_effect on_keyring_put_effect on_keyring_get_effect

lemma asks_arrived: "wm_type msg = t \<Longrightarrow> asks (Arrived msg) t (wm_payload msg)"
  by (simp add: asks_def)

lemma on_message_delete_effect:
  "wm_type msg = ARCHIVE_DELETE \<Longrightarrow> effect cf ev (Arrived msg) w (on_archive_delete cf ev (wm_payload msg) w)"
  by (rule on_archive_delete_effect) (simp add: order_of_def)

lemma on_message_effect:
  "effect cf ev (Arrived msg) w (on_message cf ev msg w) \<or>
   wm_type msg = RELAY_AUTH \<and> on_message cf ev msg w = on_auth cf (wm_payload msg) w \<or>
   wm_type msg = ARCHIVE_AUTH \<and> on_message cf ev msg w = on_archive_auth cf (wm_payload msg) w \<or>
   wm_type msg = RELAY_COLLECT \<and> on_message cf ev msg w = on_collect ev w"
  unfolding on_message_def Let_def by (simp add: case_effects on_message_delete_effect asks_arrived on_invite_create_effect [OF asks_arrived])

lemma on_message_permitted: "permitted cf ev (Arrived msg) (ses w) (db w) (db (snd (on_message cf ev msg w)))"
proof -
  consider "effect cf ev (Arrived msg) w (on_message cf ev msg w)" | "on_message cf ev msg w = on_auth cf (wm_payload msg) w"
    | "on_message cf ev msg w = on_archive_auth cf (wm_payload msg) w" | "on_message cf ev msg w = on_collect ev w"
    using on_message_effect [of cf ev msg w] by blast
  then show ?thesis
  proof cases
    case 4
    then show ?thesis using on_collect_result(1) [of w ev] on_collect_result(2) [of w _ ev] by (cases "ss_mailbox (ses w)") auto
  qed (simp_all add: effect_def on_auth_result on_archive_auth_result)
qed

lemma push_news_keeps:
  "wo_service (snd (push_news ev w)) = wo_service w \<and> (\<exists>n. ses (snd (push_news ev w)) = (ses w) \<lparr> ss_last_seq := n \<rparr>)"
proof -
  show ?thesis
  proof (cases "ss_mailbox (ses w)")
    case None
    then show ?thesis by (simp add: push_news_def exI [of _ "ss_last_seq (ses w)"])
  next
    case (Some m)
    then show ?thesis using push_pending_keeps [of "tv_clock ev" 0 m w]
      by (cases "ss_collecting (ses w)") (auto simp: push_news_def split_def Let_def exI [of _ "ss_last_seq (ses w)"])
  qed
qed

lemma session_turn_permitted: "permitted cf ev a (ses w) (db w) (db (snd (session_turn cf ev a w)))"
proof (cases "\<exists>msg. a = Arrived msg \<and> \<not> sv_kicked (wo_service w) (ss_kick (ses w))")
  case True
  then obtain msg where a: "a = Arrived msg" "\<not> sv_kicked (wo_service w) (ss_kick (ses w))" by blast
  obtain c w' where m: "on_message cf ev msg w = (c, w')" by force
  have "db (snd (session_turn cf ev a w)) = db w'"
    using push_news_keeps [of ev w'] by (cases c) (simp_all add: session_turn_def a m)
  then show ?thesis using on_message_permitted [of cf ev msg w] m a(1) by simp
next
  case False
  then show ?thesis using push_news_keeps [of ev w] by (cases a) (auto simp: session_turn_def)
qed

end
