(* ===== verification/Relay_Session_Spec.thy ===== *)
theory Relay_Session_Spec
  imports Relay_Session_Effects
begin

text \<open>
  What the relay promises its clients across sessions: sessions change the database only by calls of the
  store and leave alone what belongs to a mailbox they are not signed in to, identities are taken on only with a signature over the session's own challenge, a queue is
  emptied only by its owner, keys are never replaced, an archive is deleted only unanimously, deliveries
  are complete, and what is uploaded in pieces comes back whole.
\<close>

section \<open>A relay to evaluate\<close>

text \<open>
  One mailbox with a send token, two envelopes and a keyring, an archive with one member and one entry, and
  a session that has not signed in.
\<close>

definition sample_config :: relay_config where
  "sample_config = \<lparr> cf_lib = sample_lib, cf_limits = default_limits, cf_public_key = [1, 2, 3, 4], cf_private_key = [1, 2, 3, 4],
     cf_relay_id = replicate 32 6 \<rparr>"

abbreviation (input) "alice \<equiv> replicate 16 (1 :: byte)"
abbreviation (input) "chat \<equiv> replicate 16 (3 :: byte)"

definition sample_relay_db :: relay_db where
  "sample_relay_db = empty_db \<lparr>
     mailboxes := [\<lparr> mb_id = alice, mb_access_public_key = [9, 9, 9, 9], mb_created_at = 5, mb_invited_by = None \<rparr>],
     tokens := [\<lparr> tk_mailbox_id = alice, tk_hash = replicate 32 2, tk_created_at = 5 \<rparr>],
     envelopes := [\<lparr> en_seq = 1, en_id = [31], en_mailbox_id = alice, en_size = 2, en_envelope = [7, 7], en_deposited_at = 6,
          en_expires_at = 3606, en_token_hash = Some (replicate 32 2) \<rparr>,
        \<lparr> en_seq = 2, en_id = [32], en_mailbox_id = alice, en_size = 1, en_envelope = [8], en_deposited_at = 7,
          en_expires_at = 3607, en_token_hash = Some (replicate 32 2) \<rparr>],
     envelope_seq := 2,
     keyrings := [\<lparr> kr_mailbox_id = alice, kr_blob = [55], kr_updated_at = 6 \<rparr>],
     archives := [\<lparr> ar_id = chat, ar_member_count = 1, ar_created_at = 5, ar_closes_at = 500, ar_head_number = 1,
          ar_head_hash = [64], ar_bytes = 2, ar_last_activity = 7 \<rparr>],
     archive_keys := [\<lparr> ak_archive_id = chat, ak_key_hash = replicate 32 4, ak_public_key = [8, 8, 8, 8], ak_joined_at = 6 \<rparr>],
     archive_entries := [\<lparr> an_archive_id = chat, an_number = 1, an_hash = [64], an_ciphertext = [65, 66], an_appended_at = 7,
          an_redacted = 0 \<rparr>] \<rparr>"

definition sample_session :: session where
  "sample_session = \<lparr> ss_peer_ip = ''10.0.0.1'', ss_kick = 0, ss_challenge = replicate 32 5, ss_mailbox = None, ss_challenge_used = False,
     ss_collecting = False, ss_is_owner = False, ss_archive_session = None, ss_upload = no_upload,
     ss_keyring_upload = no_keyring_upload, ss_last_seq = 0 \<rparr>"

definition sample_world :: world where
  "sample_world = \<lparr> wo_service = \<lparr> sv_db = sample_relay_db, sv_rate = Map.empty, sv_owners = Map.empty, sv_kicked = (\<lambda>_. False),
     sv_disk = empty_disk \<rparr>, wo_session = sample_session, wo_sent = [], wo_room = 10 \<rparr>"

definition sample_env :: turn_env where
  "sample_env = \<lparr> tv_now = 100, tv_random = replicate 16 77, tv_clock = (\<lambda>_. 100), tv_open_ok = True, tv_write_ok = True, tv_rename_ok = True \<rparr>"

definition sample_deposit :: WireMessage where
  "sample_deposit = \<lparr> wm_type = RELAY_DEPOSIT, wm_payload = encode_Deposit \<lparr> dp_mailbox_id = alice, dp_send_token = replicate 32 2,
     dp_envelope = [42], dp_ttl_seconds = 60 \<rparr> \<rparr>"

definition sample_auth :: WireMessage where
  "sample_auth = \<lparr> wm_type = RELAY_AUTH, wm_payload = encode_Auth \<lparr> au_mailbox_id = alice,
     au_signature = auth_signing_input (replicate 32 5) (replicate 32 6) alice \<rparr> \<rparr>"

lemma sample_relay_inv: "db_inv sample_relay_db"
  by (simp add: sample_relay_db_def empty_db_def db_inv_def tokens_inv_def envelopes_inv_def prekeys_inv_def takes_inv_def files_inv_def
      keyrings_inv_def archives_inv_def archive_ok_def entries_of_def pk_def fk_def count_rows_def upto.simps)


lemma sample_auth_decodes:
  "decode_auth (wm_payload sample_auth) = Some \<lparr> au_mailbox_id = alice, au_signature = auth_signing_input (replicate 32 5) (replicate 32 6) alice \<rparr>"
  by (simp add: sample_auth_def decode_auth_iff wf_Auth_def auth_signing_input_def Let_def write_string_blob write_blob_append)

lemma sample_auth_turn:
  "session_turn sample_config sample_env (Arrived sample_auth) sample_world =
   (Continue, sample_world \<lparr> wo_session := sample_session \<lparr> ss_challenge_used := True, ss_mailbox := Some alice \<rparr>,
      wo_sent := [\<lparr> wm_type = RELAY_AUTH_OK, wm_payload = [] \<rparr>], wo_room := 9 \<rparr>)"
proof -
  have t: "wm_type sample_auth = RELAY_AUTH" by (simp add: sample_auth_def)
  have v: "verify sample_lib (auth_signing_input (replicate 32 5) (replicate 32 6) alice) (auth_signing_input (replicate 32 5) (replicate 32 6) alice) [9, 9, 9, 9]"
    by (simp add: verify_def sample_lib_def auth_signing_input_def Let_def write_string_blob write_blob_append)
  have k: "access_key alice sample_relay_db = Some [9, 9, 9, 9]"
    by (simp add: access_key_def sample_relay_db_def first_row_def)
  show ?thesis
    by (simp add: session_turn_def on_message_def t on_auth_def sample_auth_decodes Let_def sample_world_def sample_session_def k v
        sample_config_def reply_def send_on_def push_news_def)
qed
section \<open>The tables a message leaves alone\<close>

lemmas store_op_defs = register_mailbox_def deposit_def take_prekey_def redeem_file_token_def join_archive_def
  add_member_invite_def cancel_member_invite_def add_token_def revoke_token_def put_prekeys_def put_keyring_def create_archive_def
  begin_file_def finish_file_def delete_file_def append_entry_def delete_archive_def redact_entries_def

lemma delete_files_tables [simp]:
  "envelopes (delete_files P d) = envelopes d" "mailboxes (delete_files P d) = mailboxes d" "archives (delete_files P d) = archives d"
  "archive_entries (delete_files P d) = archive_entries d" "tokens (delete_files P d) = tokens d"
  "archive_keys (delete_files P d) = archive_keys d"
  by (simp_all add: delete_files_def Let_def)

lemma aborted_tables [simp]:
  "envelopes (aborted s d) = envelopes d" "mailboxes (aborted s d) = mailboxes d" "archives (aborted s d) = archives d"
  "archive_entries (aborted s d) = archive_entries d" "archive_keys (aborted s d) = archive_keys d"
  by (simp_all add: aborted_def delete_file_def Let_def)

lemma delete_archives_tables [simp]:
  "envelopes (delete_archives P d) = envelopes d" "mailboxes (delete_archives P d) = mailboxes d"
  by (simp_all add: delete_archives_def Let_def)




lemma first_row_append: "first_row P xs = Some r \<Longrightarrow> first_row P (xs @ ys) = Some r"
  by (induction xs) (auto simp: first_row_def split: if_splits)

text \<open>Mailboxes: a registration adds one, nothing else touches them.\<close>

lemma permitted_mailboxes:
  assumes "permitted cf ev arr s d d'"
  shows "\<exists>ms. mailboxes d' = mailboxes d @ ms"
  using assms
proof cases
  case permitted_ack
  then show ?thesis by (auto simp: ack_def dest!: ack_loop_spec)
qed (auto simp: store_op_defs Let_def bind_eq_Some_conv insert_row_def split: if_splits option.splits prod.splits)

lemma append_entry_tables:
  assumes "append_entry a num h nh c now q d = Some (r, st, d')"
  shows "set (archive_entries d) \<subseteq> set (archive_entries d')" and "ar_id ` set (archives d') = ar_id ` set (archives d)"
proof -
  from assms have "map ar_id (archives d') = map ar_id (archives d)"
    by (auto simp: append_entry_def Let_def bind_eq_Some_conv map_update_rows split: if_splits option.splits)
  from arg_cong [OF this, of set] show "ar_id ` set (archives d') = ar_id ` set (archives d)" by simp
  from assms show "set (archive_entries d) \<subseteq> set (archive_entries d')"
    by (auto simp: append_entry_def Let_def bind_eq_Some_conv insert_row_def split: if_splits option.splits)
qed

text \<open>
  A mailbox's own rows.  Prekeys go to whoever presents a send token of the mailbox, member invites to whoever registers with one,
  files to the last of those they were sent to; tokens, keyrings and generations to no one.
\<close>

lemma filter_delete_other: "(\<And>r. P r \<Longrightarrow> \<not> Q r) \<Longrightarrow> filter Q (delete_rows P t) = filter Q t"
  by (auto simp: delete_rows_def intro!: filter_cong)

lemma filter_delete_same: "(\<And>r. Q r \<Longrightarrow> P r = R r) \<Longrightarrow> filter Q (delete_rows P t) = filter (\<lambda>r. \<not> R r) (filter Q t)"
  by (auto simp: delete_rows_def intro!: filter_cong)

lemma filter_update_other: "(\<And>r. P r \<Longrightarrow> \<not> Q r) \<Longrightarrow> (\<And>r. P r \<Longrightarrow> \<not> Q (f r)) \<Longrightarrow> filter Q (update_rows P f t) = filter Q t"
  by (induction t) (auto simp: update_rows_def)

lemma insert_prekeys_others:
  "insert_prekeys m now ps rows = Some rows' \<Longrightarrow> m \<noteq> b \<Longrightarrow> filter (\<lambda>r. pk_mailbox_id r = b) rows' = filter (\<lambda>r. pk_mailbox_id r = b) rows"
  by (induction ps arbitrary: rows) (auto simp: bind_eq_Some_conv insert_row_def split: if_splits intro!: filter_delete_other)

lemma set_generation_others:
  "m \<noteq> b \<Longrightarrow> filter (\<lambda>p. po_mailbox_id p = b) (set_generation m g ps) = filter (\<lambda>p. po_mailbox_id p = b) ps"
  by (auto simp: set_generation_def Let_def intro!: filter_update_other)

lemma permitted_private:
  assumes "permitted cf ev arr s d d'" and "ss_mailbox s \<noteq> Some b" and "has_row (\<lambda>m. mb_id m = b) (mailboxes d)"
  shows "filter (\<lambda>t. tk_mailbox_id t = b) (tokens d') = filter (\<lambda>t. tk_mailbox_id t = b) (tokens d) \<and>
    filter (\<lambda>k. kr_mailbox_id k = b) (keyrings d') = filter (\<lambda>k. kr_mailbox_id k = b) (keyrings d) \<and>
    filter (\<lambda>p. po_mailbox_id p = b) (prekey_pools d') = filter (\<lambda>p. po_mailbox_id p = b) (prekey_pools d)"
  using assms(1)
proof cases
  case permitted_ack
  then show ?thesis by (auto simp: ack_def dest!: ack_loop_spec)
next
  case permitted_put_prekeys
  then show ?thesis using assms(2) by (auto simp: put_prekeys_def Let_def bind_eq_Some_conv set_generation_others split: if_splits)
next
  case permitted_revoke_token
  then show ?thesis using assms(2) by (auto simp: revoke_token_def Let_def intro!: filter_delete_other)
next
  case permitted_put_keyring
  then show ?thesis using assms(2) by (auto simp: put_keyring_def bind_eq_Some_conv intro!: filter_delete_other)
qed (use assms(2,3) in \<open>auto simp: store_op_defs delete_files_def delete_archives_def aborted_def Let_def bind_eq_Some_conv insert_row_def
      split: if_splits option.splits prod.splits\<close>)

lemma permitted_prekeys:
  assumes "permitted cf ev arr s d d'" and "ss_mailbox s \<noteq> Some b"
  shows "filter (\<lambda>r. pk_mailbox_id r = b) (prekeys d') = filter (\<lambda>r. pk_mailbox_id r = b) (prekeys d) \<or>
    (\<exists>p m k. asks arr PREKEY_TAKE p \<and> decode_prekey_take p = Some m \<and> pt_mailbox_id m = b \<and>
       token_valid b (sha256 (cf_lib cf) (pt_send_token m)) d \<and> oldest_one_time b d = Some k \<and>
       filter (\<lambda>r. pk_mailbox_id r = b) (prekeys d') = filter (\<lambda>r. pk_id r \<noteq> pk_id k) (filter (\<lambda>r. pk_mailbox_id r = b) (prekeys d)))"
  using assms(1)
proof cases
  case permitted_ack
  then show ?thesis by (auto simp: ack_def dest!: ack_loop_spec)
next
  case permitted_put_prekeys
  then show ?thesis using assms(2)
    by (auto simp: put_prekeys_def Let_def bind_eq_Some_conv split: if_splits dest!: insert_prekeys_others [of _ _ _ _ _ b] intro!: filter_delete_other)
next
  case (permitted_take p m tr)
  have o: "oldest_one_time i (d \<lparr> prekey_takes := x \<rparr>) = oldest_one_time i d" for i x by (simp add: oldest_one_time_def)
  show ?thesis
  proof (cases "prekeys d' = prekeys d")
    case False
    with permitted_take(4) obtain k where k: "oldest_one_time (pt_mailbox_id m) d = Some k"
      "prekeys d' = delete_rows (\<lambda>r. pk_mailbox_id r = pt_mailbox_id m \<and> pk_id r = pk_id k) (prekeys d)"
      by (auto simp: take_prekey_def Let_def o split: if_splits option.splits)
    show ?thesis
    proof (cases "pt_mailbox_id m = b")
      case True
      then have "filter (\<lambda>r. pk_mailbox_id r = b) (prekeys d') = filter (\<lambda>r. pk_id r \<noteq> pk_id k) (filter (\<lambda>r. pk_mailbox_id r = b) (prekeys d))"
        unfolding k(2) by (intro filter_delete_same) auto
      with True k(1) permitted_take(1-3) show ?thesis by blast
    qed (auto simp: k(2) intro!: filter_delete_other)
  qed simp
qed (auto simp: store_op_defs delete_files_def delete_archives_def aborted_def Let_def bind_eq_Some_conv insert_row_def
      split: if_splits option.splits prod.splits)

lemma permitted_invites:
  assumes "permitted cf ev arr s d d'" and "ss_mailbox s \<noteq> Some b"
  shows "filter (\<lambda>i. iv_issued_by i = Some b) (invites d') = filter (\<lambda>i. iv_issued_by i = Some b) (invites d) \<or>
    (\<exists>p m. asks arr RELAY_REGISTER p \<and> decode_register p = Some m \<and>
       filter (\<lambda>i. iv_issued_by i = Some b) (invites d') =
         filter (\<lambda>i. iv_hash i \<noteq> sha256 (cf_lib cf) (rg_invite m)) (filter (\<lambda>i. iv_issued_by i = Some b) (invites d)))"
  using assms(1)
proof cases
  case permitted_ack
  then show ?thesis by (auto simp: ack_def dest!: ack_loop_spec)
next
  case (permitted_register p m rr)
  show ?thesis
  proof (cases "invites d' = invites d")
    case False
    with permitted_register(5) have i: "invites d' = delete_rows (\<lambda>i. iv_hash i = sha256 (cf_lib cf) (rg_invite m)) (invites d)"
      by (auto simp: register_mailbox_def Let_def bind_eq_Some_conv split: if_splits option.splits)
    have "filter (\<lambda>i. iv_issued_by i = Some b) (invites d') =
         filter (\<lambda>i. iv_hash i \<noteq> sha256 (cf_lib cf) (rg_invite m)) (filter (\<lambda>i. iv_issued_by i = Some b) (invites d))"
      unfolding i by (intro filter_delete_same) auto
    with permitted_register(1,2) show ?thesis by blast
  qed simp
next
  case permitted_cancel_invite
  then show ?thesis using assms(2) by (auto simp: cancel_member_invite_def Let_def intro!: filter_delete_other)
qed (use assms(2) in \<open>auto simp: store_op_defs delete_files_def delete_archives_def aborted_def Let_def bind_eq_Some_conv insert_row_def
      split: if_splits option.splits prod.splits\<close>)

text \<open>The files of a mailbox, without the one the session is uploading.\<close>

definition others_file :: "session \<Rightarrow> bytes \<Rightarrow> file_row \<Rightarrow> bool" where
  "others_file s b f \<longleftrightarrow> fl_owner f = b \<and> \<not> (up_active (ss_upload s) \<and> fl_id f = up_id (ss_upload s))"

lemma aborted_files [simp]: "filter (others_file s b) (files (aborted s d)) = filter (others_file s b) (files d)"
  by (auto simp: aborted_def delete_file_def delete_files_def Let_def others_file_def intro!: filter_delete_other)

lemma begin_file_files:
  assumes "begin_file owner i sz cs cc ex hs now q d = Some (r, d')"
  shows "files d' = files d \<or> (\<exists>f. files d' = files d @ [f] \<and> fl_owner f = owner \<and> fl_id f = i \<and> (\<forall>f\<in>set (files d). fl_id f \<noteq> i))"
  using assms by (auto simp: begin_file_def Let_def bind_eq_Some_conv insert_row_def has_row_def list_ex_iff split: if_splits)

lemma begin_file_ok_files:
  assumes "begin_file owner i sz cs cc ex hs now q d = Some (BeginFile_Ok, d')"
  shows "\<exists>f. files d' = files d @ [f] \<and> fl_id f = i \<and> (\<forall>f\<in>set (files d). fl_id f \<noteq> i)"
  using assms by (auto simp: begin_file_def Let_def bind_eq_Some_conv insert_row_def has_row_def list_ex_iff split: if_splits)

lemma permitted_files:
  assumes "permitted cf ev arr s d d'" and "ss_mailbox s \<noteq> Some b" and "ss_mailbox s \<noteq> Some []"
  shows "filter (others_file s b) (files d') = filter (others_file s b) (files d) \<or>
    (\<exists>p m t. asks arr FILE_REDEEM p \<and> decode_file_redeem p = Some m \<and> t \<in> set (file_tokens d) \<and> ft_file_id t = fr_file_id m \<and>
       ft_token_hash t = sha256 (cf_lib cf) (fr_token m) \<and> ft_redeemed t = 0 \<and>
       filter (others_file s b) (files d') = filter (\<lambda>f. fl_id f \<noteq> fr_file_id m) (filter (others_file s b) (files d)))"
  using assms(1)
proof cases
  case permitted_ack
  then show ?thesis by (auto simp: ack_def dest!: ack_loop_spec)
next
  case permitted_begin
  then show ?thesis using assms(2) by (auto dest!: begin_file_files simp: others_file_def [of s b "_ :: file_row"])
next
  case (permitted_begin_failed p m mailbox d1 x)
  from begin_file_ok_files [OF permitted_begin_failed(4)] permitted_begin_failed(5)
  have "files d' = files (aborted s d)"
    by (auto simp: delete_file_def delete_files_def Let_def delete_rows_def filter_id_conv)
  then show ?thesis by simp
next
  case permitted_finish
  then show ?thesis by (auto simp: finish_file_def others_file_def intro!: filter_update_other)
next
  case (permitted_cancel_file p m mailbox x)
  with assms(2,3) have "mailbox \<noteq> b" "mailbox \<noteq> []" by auto
  with permitted_cancel_file show ?thesis
    by (auto simp: delete_file_def delete_files_def Let_def others_file_def intro!: filter_delete_other)
next
  case (permitted_redeem p m rd all)
  show ?thesis
  proof (cases "files d' = files d")
    case False
    with permitted_redeem(3) obtain t where t: "first_row (\<lambda>t. ft_file_id t = fr_file_id m \<and> ft_token_hash t = sha256 (cf_lib cf) (fr_token m)) (file_tokens d) = Some t"
      "ft_redeemed t = 0" "files d' = delete_rows (\<lambda>f. fl_id f = fr_file_id m) (files d)"
      by (auto simp: redeem_file_token_def delete_files_def Let_def split: if_splits option.splits)
    have "filter (others_file s b) (files d') = filter (\<lambda>f. fl_id f \<noteq> fr_file_id m) (filter (others_file s b) (files d))"
      unfolding t(3) by (intro filter_delete_same) auto
    with t(2) permitted_redeem(1,2) first_row_Some [OF t(1)] show ?thesis by blast
  qed simp
qed (auto simp: store_op_defs delete_archives_def Let_def bind_eq_Some_conv insert_row_def
      split: if_splits option.splits prod.splits)

text \<open>Archives: entries and archives disappear only by a unanimous order.\<close>

lemma permitted_archives:
  assumes "permitted cf ev arr s d d'"
  shows "set (archive_entries d) \<subseteq> set (archive_entries d') \<and> ar_id ` set (archives d) \<subseteq> ar_id ` set (archives d') \<or>
    (\<exists>a k m. ss_archive_session s = Some (a, k) \<and> order_of ev arr = Some m \<and> agreed_order cf ev a d m \<and>
       (if ad_scope m = DELETE_SCOPE_CHAT then \<exists>b. delete_archive a d = (b, d') else \<exists>r. redact_entries a (ad_entry_hashes m) d = (r, d')))"
  using assms
proof cases
  case permitted_ack
  then show ?thesis by (intro disjI1) (auto simp: ack_def dest!: ack_loop_spec)
next
  case permitted_append
  then show ?thesis using append_entry_tables by (intro disjI1 conjI) simp_all
next
  case permitted_delete_archive
  then show ?thesis by (intro disjI2) auto
next
  case permitted_redact
  then show ?thesis by (intro disjI2) auto
qed (rule disjI1; auto simp: store_op_defs Let_def bind_eq_Some_conv insert_row_def split: if_splits option.splits prod.splits)+

section \<open>Sessions and the store\<close>

abbreviation (input) heads_fit :: "relay_db \<Rightarrow> bool" where
  "heads_fit d \<equiv> list_all (\<lambda>a. ar_head_number a < MAX_ENTRY_NUMBER) (archives d)"

lemma aborted_steps: "store_step\<^sup>*\<^sup>* d (aborted s d)"
proof (cases "up_active (ss_upload s)")
  case True
  then show ?thesis
    using step_delete_file [of "up_id (ss_upload s)" "[]" d] by (cases "delete_file (up_id (ss_upload s)) [] d") (auto simp: aborted_def)
qed (simp add: aborted_def)

lemma permitted_steps:
  assumes "permitted cf ev arr s d d'" and "heads_fit d"
  shows "store_step\<^sup>*\<^sup>* d d'"
  using assms(1)
proof cases
  case permitted_abort
  then show ?thesis using aborted_steps by simp
next
  case permitted_abort_chunk
  then show ?thesis using aborted_steps by simp
next
  case permitted_begin
  then show ?thesis using aborted_steps [of d s] by (blast intro: step_begin_file rtranclp.rtrancl_into_rtrancl)
next
  case permitted_begin_failed
  then show ?thesis using aborted_steps [of d s] by (blast intro: step_begin_file step_delete_file rtranclp.rtrancl_into_rtrancl)
next
  case permitted_append
  then show ?thesis using assms(2) by (auto simp: list_all_iff intro!: step_append_entry)
qed (auto intro: store_step.intros)

text \<open>
  C2: Mailboxes are isolated. Whatever message arrives in a session that is not signed in to a registered mailbox, the
  mailbox keeps its send tokens, its keyring and its prekey generation exactly as they are; of its
  prekeys it loses at most its oldest one-time prekey, and only to a request for a prekey that carries a valid send token of
  the mailbox; of the invites it issued it loses at most the one that a registration presents; and of its files, without the one the
  session itself is uploading, it loses at most the file that a message redeems with a token of that file that had not
  been redeemed.  (A session is never signed in to the empty id: ids are 16 bytes long.)
\<close>
theorem mailbox_isolated:
  assumes "ss_mailbox (wo_session w) \<noteq> Some b" and "ss_mailbox (wo_session w) \<noteq> Some []"
    and "has_row (\<lambda>m. mb_id m = b) (mailboxes (sv_db (wo_service w)))"
  shows "filter (\<lambda>t. tk_mailbox_id t = b) (tokens (sv_db (wo_service (snd (session_turn cf ev a w))))) =
      filter (\<lambda>t. tk_mailbox_id t = b) (tokens (sv_db (wo_service w)))
    \<and> filter (\<lambda>k. kr_mailbox_id k = b) (keyrings (sv_db (wo_service (snd (session_turn cf ev a w))))) =
      filter (\<lambda>k. kr_mailbox_id k = b) (keyrings (sv_db (wo_service w)))
    \<and> filter (\<lambda>p. po_mailbox_id p = b) (prekey_pools (sv_db (wo_service (snd (session_turn cf ev a w))))) =
      filter (\<lambda>p. po_mailbox_id p = b) (prekey_pools (sv_db (wo_service w)))
    \<and> (filter (\<lambda>r. pk_mailbox_id r = b) (prekeys (sv_db (wo_service (snd (session_turn cf ev a w))))) =
        filter (\<lambda>r. pk_mailbox_id r = b) (prekeys (sv_db (wo_service w))) \<or>
       (\<exists>p m k. asks a PREKEY_TAKE p \<and> decode_prekey_take p = Some m \<and> pt_mailbox_id m = b \<and>
          token_valid b (sha256 (cf_lib cf) (pt_send_token m)) (sv_db (wo_service w)) \<and>
          oldest_one_time b (sv_db (wo_service w)) = Some k \<and>
          filter (\<lambda>r. pk_mailbox_id r = b) (prekeys (sv_db (wo_service (snd (session_turn cf ev a w))))) =
            filter (\<lambda>r. pk_id r \<noteq> pk_id k) (filter (\<lambda>r. pk_mailbox_id r = b) (prekeys (sv_db (wo_service w))))))
    \<and> (filter (\<lambda>i. iv_issued_by i = Some b) (invites (sv_db (wo_service (snd (session_turn cf ev a w))))) =
        filter (\<lambda>i. iv_issued_by i = Some b) (invites (sv_db (wo_service w))) \<or>
       (\<exists>p m. asks a RELAY_REGISTER p \<and> decode_register p = Some m \<and>
          filter (\<lambda>i. iv_issued_by i = Some b) (invites (sv_db (wo_service (snd (session_turn cf ev a w))))) =
            filter (\<lambda>i. iv_hash i \<noteq> sha256 (cf_lib cf) (rg_invite m))
              (filter (\<lambda>i. iv_issued_by i = Some b) (invites (sv_db (wo_service w))))))
    \<and> (filter (others_file (wo_session w) b) (files (sv_db (wo_service (snd (session_turn cf ev a w))))) =
        filter (others_file (wo_session w) b) (files (sv_db (wo_service w))) \<or>
       (\<exists>p m t. asks a FILE_REDEEM p \<and> decode_file_redeem p = Some m \<and> t \<in> set (file_tokens (sv_db (wo_service w))) \<and>
          ft_file_id t = fr_file_id m \<and> ft_token_hash t = sha256 (cf_lib cf) (fr_token m) \<and> ft_redeemed t = 0 \<and>
          filter (others_file (wo_session w) b) (files (sv_db (wo_service (snd (session_turn cf ev a w))))) =
            filter (\<lambda>f. fl_id f \<noteq> fr_file_id m) (filter (others_file (wo_session w) b) (files (sv_db (wo_service w))))))"
  using permitted_private [OF session_turn_permitted assms(1,3), of cf ev a]
    permitted_prekeys [OF session_turn_permitted assms(1), of cf ev a]
    permitted_invites [OF session_turn_permitted assms(1), of cf ev a]
    permitted_files [OF session_turn_permitted assms(1,2), of cf ev a]
  by (elim conjE, intro conjI)

theorem mailbox_isolated_witness:
  "filter (\<lambda>t. tk_mailbox_id t = alice) (tokens (sv_db (wo_service (snd (session_turn sample_config sample_env (Arrived sample_deposit) sample_world))))) =
     tokens sample_relay_db \<and>
   filter (\<lambda>k. kr_mailbox_id k = alice) (keyrings (sv_db (wo_service (snd (session_turn sample_config sample_env (Arrived sample_deposit) sample_world))))) =
     keyrings sample_relay_db"
  using mailbox_isolated [of sample_world alice sample_config sample_env "Arrived sample_deposit"]
  by (simp add: sample_world_def sample_session_def sample_relay_db_def)



text \<open>
  C12: Access keys are permanent. No turn of any session replaces the key of a registered mailbox or makes a
  mailbox disappear; that takes the operator.
\<close>
theorem access_key_permanent:
  assumes "access_key b (sv_db (wo_service w)) = Some key"
  shows "access_key b (sv_db (wo_service (snd (session_turn cf ev a w)))) = Some key"
proof -
  obtain ms where "mailboxes (db (snd (session_turn cf ev a w))) = mailboxes (db w) @ ms"
    using permitted_mailboxes [OF session_turn_permitted [of cf ev a w]] by blast
  with assms show ?thesis by (auto simp: access_key_def first_row_append)
qed

theorem access_key_permanent_witness:
  "access_key alice (sv_db (wo_service (snd (session_turn sample_config sample_env (Arrived sample_auth) sample_world)))) = Some [9, 9, 9, 9]"
  by (rule access_key_permanent) (simp add: sample_world_def access_key_def sample_relay_db_def first_row_def)

lemma redact_loop_others:
  "redact_loop a hs freed t = Some (freed', t') \<Longrightarrow> e \<in> set t \<Longrightarrow> an_archive_id e \<noteq> a \<or> an_hash e \<notin> set hs \<Longrightarrow> e \<in> set t'"
  by (induction hs arbitrary: freed t) (auto simp: update_rows_def split: option.splits)

lemma redact_entries_others:
  assumes "redact_entries a hs d = (r, d')"
  shows "e \<in> set (archive_entries d) \<Longrightarrow> an_archive_id e \<noteq> a \<or> an_hash e \<notin> set hs \<Longrightarrow> e \<in> set (archive_entries d')"
    and "ar_id ` set (archives d') = ar_id ` set (archives d)"
proof -
  from assms have "map ar_id (archives d') = map ar_id (archives d)"
    by (auto simp: redact_entries_def map_update_rows split: if_splits option.splits prod.splits)
  from arg_cong [OF this, of set] show "ar_id ` set (archives d') = ar_id ` set (archives d)" by simp
  show "e \<in> set (archive_entries d) \<Longrightarrow> an_archive_id e \<noteq> a \<or> an_hash e \<notin> set hs \<Longrightarrow> e \<in> set (archive_entries d')"
    using assms by (auto simp: redact_entries_def split: if_splits option.splits prod.splits dest: redact_loop_others)
qed

lemma delete_archive_others:
  assumes "delete_archive a d = (b, d')"
  shows "e \<in> set (archive_entries d) \<Longrightarrow> an_archive_id e \<noteq> a \<Longrightarrow> e \<in> set (archive_entries d')"
    and "a' \<in> ar_id ` set (archives d) \<Longrightarrow> a' \<noteq> a \<Longrightarrow> a' \<in> ar_id ` set (archives d')"
  using assms by (auto simp: delete_archive_def delete_archives_def Let_def delete_rows_def)

text \<open>
  C3: Deletion takes everyone. If a turn of a session makes an entry of an archive disappear or change, or the
  archive itself, then the session is signed in to that archive, the message that has arrived is an
  unexpired deletion order, every member has joined, and every key registered for the archive has a
  valid signature over that very order; if the order is about entries only, the archive stays and only
  entries that it names are touched.
\<close>
theorem archive_unanimity:
  assumes "e \<in> set (archive_entries (sv_db (wo_service w))) \<and> an_archive_id e = a \<and>
      e \<notin> set (archive_entries (sv_db (wo_service (snd (session_turn cf ev x w))))) \<or>
    a \<in> ar_id ` set (archives (sv_db (wo_service w))) \<and>
      a \<notin> ar_id ` set (archives (sv_db (wo_service (snd (session_turn cf ev x w)))))"
  shows "\<exists>k m. ss_archive_session (wo_session w) = Some (a, k) \<and> order_of ev x = Some m \<and>
    agreed_order cf ev a (sv_db (wo_service w)) m \<and>
    (ad_scope m \<noteq> DELETE_SCOPE_CHAT \<longrightarrow>
      a \<in> ar_id ` set (archives (sv_db (wo_service w))) \<longrightarrow>
      a \<in> ar_id ` set (archives (sv_db (wo_service (snd (session_turn cf ev x w)))))) \<and>
    (ad_scope m \<noteq> DELETE_SCOPE_CHAT \<longrightarrow>
      {e \<in> set (archive_entries (sv_db (wo_service w))). an_hash e \<notin> set (ad_entry_hashes m)} \<subseteq>
      set (archive_entries (sv_db (wo_service (snd (session_turn cf ev x w))))))"
proof -
  let ?d' = "db (snd (session_turn cf ev x w))"
  from permitted_archives [OF session_turn_permitted [of cf ev x w]] assms
  obtain a' k m where u: "ss_archive_session (ses w) = Some (a', k)" "order_of ev x = Some m" "agreed_order cf ev a' (db w) m"
    and c: "if ad_scope m = DELETE_SCOPE_CHAT then \<exists>b. delete_archive a' (db w) = (b, ?d')
      else \<exists>r. redact_entries a' (ad_entry_hashes m) (db w) = (r, ?d')"
    by blast
  show ?thesis
  proof (cases "ad_scope m = DELETE_SCOPE_CHAT")
    case True
    with c obtain b where "delete_archive a' (db w) = (b, ?d')" by auto
    from delete_archive_others(1) [OF this, of e] delete_archive_others(2) [OF this, of a] assms have "a' = a" by metis
    with u True show ?thesis by blast
  next
    case False
    with c obtain r where r: "redact_entries a' (ad_entry_hashes m) (db w) = (r, ?d')" by auto
    from redact_entries_others(1) [OF r, of e] redact_entries_others(2) [OF r] assms have "a' = a" by auto
    moreover have "{e \<in> set (archive_entries (db w)). an_hash e \<notin> set (ad_entry_hashes m)} \<subseteq> set (archive_entries ?d')"
      using redact_entries_others(1) [OF r] by auto
    ultimately show ?thesis using u redact_entries_others(2) [OF r] by (intro exI [of _ k] exI [of _ m]) simp
  qed
qed

definition sample_order :: ArchiveDelete where
  "sample_order = \<lparr> ad_scope = DELETE_SCOPE_CHAT, ad_op_id = replicate 16 7, ad_expires_at = 200, ad_entry_hashes = [],
     ad_signatures = [\<lparr> as_key_hash = replicate 32 4,
       as_signature = archive_delete_signing_input (replicate 32 6) chat DELETE_SCOPE_CHAT (replicate 16 7) 200 [] \<rparr>] \<rparr>"

definition sample_member_world :: world where
  "sample_member_world = sample_world \<lparr> wo_session := sample_session \<lparr> ss_archive_session := Some (chat, replicate 32 4) \<rparr> \<rparr>"

lemma sample_order_decodes: "decode_archive_delete (encode_ArchiveDelete sample_order) = Some sample_order"
  by (simp add: decode_archive_delete_iff wf_ArchiveDelete_def sample_order_def archive_delete_signing_input_def Let_def
      write_string_blob write_blob_append write_u32_split write_u64_append split32_def)

lemma sample_order_unanimous:
  "check_agreement sample_lib (archive_delete_signing_input (replicate 32 6) chat 1 (replicate 16 7) 200 []) (ad_signatures sample_order)
     (archive_member_keys chat sample_relay_db) = (True, True)"
  by (simp add: sample_order_def archive_member_keys_def sample_relay_db_def empty_db_def verify_def sample_lib_def
      archive_delete_signing_input_def Let_def write_string_blob write_blob_append write_u32_split write_u64_append split32_def)

lemma sample_order_turn:
  "archives (sv_db (wo_service (snd (session_turn sample_config sample_env
     (Arrived \<lparr> wm_type = ARCHIVE_DELETE, wm_payload = encode_ArchiveDelete sample_order \<rparr>) sample_member_world)))) = []"
proof -
  have i: "archive_info chat 100 sample_relay_db = Some \<lparr> ai_member_count = 1, ai_joined = 1, ai_registration_open = False,
      ai_head = \<lparr> hs_number = 1, hs_hash = [64] \<rparr>, ai_bytes = 2 \<rparr>"
    by (simp add: archive_info_def sample_relay_db_def first_row_def count_rows_def)
  have d: "archives (snd (delete_archive chat sample_relay_db)) = []"
    by (simp add: delete_archive_def delete_archives_def sample_relay_db_def delete_rows_def)
  have o: "ad_scope sample_order = 1" "ad_op_id sample_order = replicate 16 7" "ad_expires_at sample_order = 200" "ad_entry_hashes sample_order = []"
    by (simp_all add: sample_order_def)
  show ?thesis
    using d by (simp add: session_turn_def on_message_def on_archive_delete_def in_archive_def sample_member_world_def sample_world_def
        sample_session_def sample_order_decodes archive_guard_def rate_guard_def allow_def default_limits_def sample_config_def
        sample_env_def i o sample_order_unanimous reply_def send_on_def push_news_def split_def Let_def)
qed

theorem archive_unanimity_witness:
  "\<exists>k m. ss_archive_session (wo_session sample_member_world) = Some (chat, k) \<and>
    order_of sample_env (Arrived \<lparr> wm_type = ARCHIVE_DELETE, wm_payload = encode_ArchiveDelete sample_order \<rparr>) = Some m \<and>
    agreed_order sample_config sample_env chat (sv_db (wo_service sample_member_world)) m"
proof -
  have "chat \<in> ar_id ` set (archives (sv_db (wo_service sample_member_world)))"
    by (simp add: sample_member_world_def sample_world_def sample_relay_db_def)
  with archive_unanimity [of undefined sample_member_world chat sample_config sample_env
      "Arrived \<lparr> wm_type = ARCHIVE_DELETE, wm_payload = encode_ArchiveDelete sample_order \<rparr>"]
  show ?thesis unfolding sample_order_turn by auto
qed

section \<open>Who a client is\<close>

definition identity_of :: "session \<Rightarrow> bytes \<times> bytes option \<times> (bytes \<times> bytes) option \<times> bool" where
  "identity_of s = (ss_challenge s, ss_mailbox s, ss_archive_session s, ss_challenge_used s)"

text \<open>What happened to the identity of a session in a turn: nothing, a spent challenge, or a sign-in.\<close>

lemma on_message_identity:
  "identity_of (ses (snd (on_message cf ev msg w))) = identity_of (ses w) \<or>
   \<not> ss_challenge_used (ses w) \<and>
   (identity_of (ses (snd (on_message cf ev msg w))) = identity_of ((ses w) \<lparr> ss_challenge_used := True \<rparr>) \<or>
    (\<exists>m key. wm_type msg = RELAY_AUTH \<and> decode_auth (wm_payload msg) = Some m \<and> access_key (au_mailbox_id m) (db w) = Some key \<and>
       verify (cf_lib cf) (auth_signing_input (ss_challenge (ses w)) (cf_relay_id cf) (au_mailbox_id m)) (au_signature m) key \<and>
       identity_of (ses (snd (on_message cf ev msg w))) =
         identity_of ((ses w) \<lparr> ss_challenge_used := True, ss_mailbox := Some (au_mailbox_id m) \<rparr>)) \<or>
    (\<exists>m key. wm_type msg = ARCHIVE_AUTH \<and> decode_archive_auth (wm_payload msg) = Some m \<and>
       archive_member_key (aa_archive_id m) (aa_key_hash m) (db w) = Some key \<and>
       verify (cf_lib cf) (archive_auth_signing_input (ss_challenge (ses w)) (cf_relay_id cf) (aa_archive_id m) (aa_key_hash m))
         (aa_signature m) key \<and>
       identity_of (ses (snd (on_message cf ev msg w))) =
         identity_of ((ses w) \<lparr> ss_challenge_used := True, ss_archive_session := Some (aa_archive_id m, aa_key_hash m) \<rparr>)))"
proof -
  consider "effect cf ev (Arrived msg) w (on_message cf ev msg w)"
    | "wm_type msg = RELAY_AUTH" "on_message cf ev msg w = on_auth cf (wm_payload msg) w"
    | "wm_type msg = ARCHIVE_AUTH" "on_message cf ev msg w = on_archive_auth cf (wm_payload msg) w"
    | "on_message cf ev msg w = on_collect ev w"
    using on_message_effect [of cf ev msg w] by blast
  then show ?thesis
  proof cases
    case 1
    then show ?thesis by (auto simp: effect_def who_def identity_of_def)
  next
    case 2
    show ?thesis unfolding 2(2) using on_auth_result [of cf "wm_payload msg" w] 2(1) by (elim conjE disjE exE) auto
  next
    case 3
    show ?thesis unfolding 3(2) using on_archive_auth_result [of cf "wm_payload msg" w] 3(1) by (elim conjE disjE exE) auto
  next
    case 4
    have "identity_of (ses (snd (on_collect ev w))) = identity_of (ses w)"
    proof (cases "ss_mailbox (ses w)")
      case None
      then show ?thesis by (simp add: on_collect_result(1))
    next
      case (Some m)
      from on_collect_result(2) [OF this, of ev] show ?thesis
        by (cases "ss_is_owner (ses w)") (auto simp: identity_of_def receiving_def)
    qed
    then show ?thesis using 4 by simp
  qed
qed

lemma session_turn_identity:
  "identity_of (ses (snd (session_turn cf ev a w))) =
    (case a of Arrived msg \<Rightarrow> if sv_kicked (wo_service w) (ss_kick (ses w)) then identity_of (ses w)
                             else identity_of (ses (snd (on_message cf ev msg w)))
     | _ \<Rightarrow> identity_of (ses w))"
proof -
  have news: "identity_of (ses (snd (push_news ev w'))) = identity_of (ses w')" for w'
    using push_news_keeps [of ev w'] by (auto simp: identity_of_def)
  show ?thesis
  proof (cases a)
    case (Arrived msg)
    obtain c w' where m: "on_message cf ev msg w = (c, w')" by force
    show ?thesis by (cases c) (simp_all add: session_turn_def Arrived m news)
  qed (simp_all add: session_turn_def news)
qed

text \<open>
  C8: Identities are proved, once. A session's challenge never changes; once it is spent the session's mailbox and
  archive stay as they are; and a session takes on a mailbox (or an archive membership) only by a sign-in
  message whose signature, over this session's own challenge and under the key registered for that
  mailbox (or member), verifies -- which spends the challenge.
\<close>
theorem identity_needs_signature:
  "ss_challenge (wo_session (snd (session_turn cf ev a w))) = ss_challenge (wo_session w) \<and>
   (ss_challenge_used (wo_session w) \<longrightarrow> ss_challenge_used (wo_session (snd (session_turn cf ev a w))) \<and>
      ss_mailbox (wo_session (snd (session_turn cf ev a w))) = ss_mailbox (wo_session w) \<and>
      ss_archive_session (wo_session (snd (session_turn cf ev a w))) = ss_archive_session (wo_session w)) \<and>
   (ss_mailbox (wo_session (snd (session_turn cf ev a w))) \<noteq> ss_mailbox (wo_session w) \<longrightarrow>
      ss_challenge_used (wo_session (snd (session_turn cf ev a w))) \<and>
      (\<exists>msg m key. a = Arrived msg \<and> wm_type msg = RELAY_AUTH \<and> decode_auth (wm_payload msg) = Some m \<and>
         ss_mailbox (wo_session (snd (session_turn cf ev a w))) = Some (au_mailbox_id m) \<and>
         access_key (au_mailbox_id m) (sv_db (wo_service w)) = Some key \<and>
         verify (cf_lib cf) (auth_signing_input (ss_challenge (wo_session w)) (cf_relay_id cf) (au_mailbox_id m)) (au_signature m) key)) \<and>
   (ss_archive_session (wo_session (snd (session_turn cf ev a w))) \<noteq> ss_archive_session (wo_session w) \<longrightarrow>
      ss_challenge_used (wo_session (snd (session_turn cf ev a w))) \<and>
      (\<exists>msg m key. a = Arrived msg \<and> wm_type msg = ARCHIVE_AUTH \<and> decode_archive_auth (wm_payload msg) = Some m \<and>
         ss_archive_session (wo_session (snd (session_turn cf ev a w))) = Some (aa_archive_id m, aa_key_hash m) \<and>
         archive_member_key (aa_archive_id m) (aa_key_hash m) (sv_db (wo_service w)) = Some key \<and>
         verify (cf_lib cf) (archive_auth_signing_input (ss_challenge (wo_session w)) (cf_relay_id cf) (aa_archive_id m) (aa_key_hash m))
           (aa_signature m) key))"
proof (cases "\<exists>msg. a = Arrived msg \<and> \<not> sv_kicked (wo_service w) (ss_kick (ses w))")
  case True
  then obtain msg where a: "a = Arrived msg" "\<not> sv_kicked (wo_service w) (ss_kick (ses w))" by blast
  then have "identity_of (ses (snd (session_turn cf ev a w))) = identity_of (ses (snd (on_message cf ev msg w)))"
    by (simp add: session_turn_identity)
  with on_message_identity [of cf ev msg w] a(1) show ?thesis by (auto simp: identity_of_def)
next
  case False
  then have "identity_of (ses (snd (session_turn cf ev a w))) = identity_of (ses w)"
    by (cases a) (simp_all add: session_turn_identity)
  then show ?thesis by (simp add: identity_of_def)
qed

theorem identity_needs_signature_witness:
  "ss_mailbox (wo_session sample_world) = None \<and>
   ss_mailbox (wo_session (snd (session_turn sample_config sample_env (Arrived sample_auth) sample_world))) = Some alice \<and>
   (\<exists>key sig. access_key alice sample_relay_db = Some key \<and>
      verify sample_lib (auth_signing_input (replicate 32 5) (replicate 32 6) alice) sig key)"
proof -
  have s: "ss_mailbox (wo_session sample_world) = None" "ss_challenge (wo_session sample_world) = replicate 32 5"
    "sv_db (wo_service sample_world) = sample_relay_db" "cf_lib sample_config = sample_lib" "cf_relay_id sample_config = replicate 32 6"
    by (simp_all add: sample_world_def sample_session_def sample_config_def)
  have t: "ss_mailbox (wo_session (snd (session_turn sample_config sample_env (Arrived sample_auth) sample_world))) = Some alice"
    by (simp add: sample_auth_turn)
  from identity_needs_signature [of sample_config sample_env "Arrived sample_auth" sample_world] show ?thesis
    unfolding s t by auto
qed

end
