(* ===== verification/Relay_Delivery.thy ===== *)
theory Relay_Delivery
  imports Relay_Session_Spec
begin

text \<open>
  What reaches the owner of a mailbox: the loop that delivers envelopes sends the whole queue in order, and
  a keyring that was uploaded in chunks is stored and sent back whole.
\<close>

section \<open>Envelopes\<close>

definition envelope_message :: "envelope_row \<Rightarrow> WireMessage" where
  "envelope_message e = \<lparr> wm_type = RELAY_ENVELOPE, wm_payload = encode_StoredEnvelope
     \<lparr> se_id = en_id e, se_deposited_at = word_of_int (en_deposited_at e), se_token_hash = st_token_hash (stored_of e),
       se_envelope = en_envelope e \<rparr> \<rparr>"

text \<open>The world after a number of envelopes has been sent.\<close>

definition after_sending :: "envelope_row list \<Rightarrow> world \<Rightarrow> world" where
  "after_sending es w = w \<lparr> wo_room := wo_room w - length es, wo_sent := wo_sent w @ map envelope_message es,
     wo_session := (ses w) \<lparr> ss_last_seq := (if es = [] then ss_last_seq (ses w) else en_seq (last es)) \<rparr> \<rparr>"

lemma after_sending_simps [simp]:
  "wo_service (after_sending es w) = wo_service w" "wo_room (after_sending es w) = wo_room w - length es"
  "ss_last_seq (ses (after_sending es w)) = (if es = [] then ss_last_seq (ses w) else en_seq (last es))"
  "after_sending [] w = w"
  by (simp_all add: after_sending_def)

lemma after_sending_append: "after_sending ys (after_sending xs w) = after_sending (xs @ ys) w"
  by (simp add: after_sending_def)

lemma stored_of_simps [simp]:
  "st_seq (stored_of e) = en_seq e" "st_id (stored_of e) = en_id e" "st_deposited_at (stored_of e) = en_deposited_at e"
  "st_envelope (stored_of e) = en_envelope e"
  by (simp_all add: stored_of_def Let_def)

lemma send_batch_all:
  "length es \<le> wo_room w \<Longrightarrow> send_batch (map stored_of es) w = (True, after_sending es w)"
proof (induction es arbitrary: w)
  case Nil
  then show ?case by simp
next
  case (Cons e es)
  let ?w = "after_sending [e] w"
  have "send_batch (map stored_of (e # es)) w = send_batch (map stored_of es) ?w"
    using Cons.prems by (simp add: send_on_def after_sending_def envelope_message_def Let_def)
  also have "\<dots> = (True, after_sending es ?w)" using Cons by simp
  finally show ?case by (simp add: after_sending_append)
qed

lemma sorted_after_take:
  fixes q :: "envelope_row list"
  assumes "sorted_wrt (\<lambda>e f. en_seq e < en_seq f) q" and "take n q \<noteq> []"
  shows "filter (\<lambda>e. en_seq e > en_seq (last (take n q))) q = drop n q"
proof -
  have sw: "sorted_wrt (\<lambda>e f. en_seq e < en_seq f) (take n q @ drop n q)" using assms(1) by simp
  have le: "en_seq e \<le> en_seq (last (take n q))" if "e \<in> set (take n q)" for e
  proof -
    have "take n q = butlast (take n q) @ [last (take n q)]" using assms(2) by simp
    then have "sorted_wrt (\<lambda>e f. en_seq e < en_seq f) (butlast (take n q) @ [last (take n q)])"
      using sw by (metis sorted_wrt_append)
    moreover have "e \<in> set (butlast (take n q) @ [last (take n q)])" using that assms(2) by simp
    ultimately show ?thesis by (auto simp: sorted_wrt_append)
  qed
  have gt: "en_seq e > en_seq (last (take n q))" if "e \<in> set (drop n q)" for e
    using sw that assms(2) unfolding sorted_wrt_append by (meson last_in_set)
  have "filter P q = filter P (take n q) @ filter P (drop n q)" for P by (metis append_take_drop_id filter_append)
  moreover have "filter (\<lambda>e. en_seq e > en_seq (last (take n q))) (take n q) = []"
    unfolding filter_empty_conv using le by fastforce
  moreover have "filter (\<lambda>e. en_seq e > en_seq (last (take n q))) (drop n q) = drop n q"
    using gt by (simp add: filter_id_conv)
  ultimately show ?thesis by simp
qed

definition unsent :: "bytes \<Rightarrow> time \<Rightarrow> world \<Rightarrow> envelope_row list" where
  "unsent m now w = filter (\<lambda>e. en_seq e > ss_last_seq (ses w)) (queue m now (db w))"

lemma push_pending_complete:
  assumes "db_inv (db w)" and "length (unsent m now w) \<le> wo_room w" and "\<And>i. clock i = now"
  shows "push_pending clock i m w = (True, after_sending (unsent m now w) w)"
  using assms
proof (induction clock i m w rule: push_pending.induct)
  case (1 clock i m w)
  let ?q = "unsent m now w"
  have sorted: "sorted_wrt (\<lambda>e f. en_seq e < en_seq f) ?q"
    unfolding unsent_def using queue_sorted [OF 1(2)] by (rule sorted_wrt_filter)
  have f: "fetch m (ss_last_seq (ses w)) (clock i) 32 (db w) = map stored_of (take 32 ?q)"
    using fetch_queue [OF 1(2)] by (simp add: unsent_def 1(4))
  show ?case
  proof (cases "take 32 ?q = []")
    case True
    then have "?q = []" by simp
    with f True show ?thesis by (simp add: push_pending.simps)
  next
    case False
    let ?w = "after_sending (take 32 ?q) w"
    have sb: "send_batch (map stored_of (take 32 ?q)) w = (True, ?w)" using 1(3) by (intro send_batch_all) simp
    have rest: "unsent m now ?w = drop 32 ?q"
    proof -
      have "unsent m now ?w = filter (\<lambda>e. en_seq e > en_seq (last (take 32 ?q))) (queue m now (db w))"
        unfolding unsent_def [of m now ?w] using False by (simp only: after_sending_simps if_False)
      also have "\<dots> = filter (\<lambda>e. en_seq e > en_seq (last (take 32 ?q))) ?q"
      proof -
        have "last (take 32 ?q) \<in> set ?q" using False by (meson in_set_takeD last_in_set)
        then have "ss_last_seq (ses w) < en_seq (last (take 32 ?q))" unfolding unsent_def by auto
        then show ?thesis unfolding unsent_def [of m now w] filter_filter by (intro filter_cong) auto
      qed
      also have "\<dots> = drop 32 ?q" by (rule sorted_after_take [OF sorted False])
      finally show ?thesis .
    qed
    obtain x xs where x: "map stored_of (take 32 ?q) = x # xs" using False by (cases "map stored_of (take 32 ?q)") auto
    have "length (unsent m now ?w) \<le> wo_room ?w" using 1(3) by (simp add: rest)
    with 1(2) have "push_pending clock (Suc i) m ?w = (True, after_sending (unsent m now ?w) ?w)"
      by (intro 1(1) [OF f [unfolded x] sb [unfolded x, symmetric] refl _ _ 1(4)]) simp_all
    then have "push_pending clock i m w = (True, after_sending (drop 32 ?q) ?w)"
      by (simp only: push_pending.simps [of clock i m w] f x sb [unfolded x] rest list.case prod.case bool.case if_True)
    then show ?thesis by (simp only: after_sending_append append_take_drop_id)
  qed
qed

text \<open>
  C9: Delivery is complete and in order. When the owner of a mailbox collects, on a connection that takes the
  messages, the relay sends every unexpired envelope of the mailbox exactly once, in the order of arrival, then
  the end marker, and leaves the database as it is, so that whatever is not acknowledged is sent again next time.
\<close>
theorem collect_delivers:
  assumes "db_inv (sv_db (wo_service w))" and "ss_mailbox (wo_session w) = Some m"
    and "length (queue m now (sv_db (wo_service w))) < wo_room w" and "\<And>i. tv_clock ev i = now"
  shows "fst (on_collect ev w) = Break \<and>
    wo_sent (snd (on_collect ev w)) = wo_sent w @ map envelope_message (queue m now (sv_db (wo_service w))) @
      [\<lparr> wm_type = RELAY_COLLECT_END, wm_payload = [] \<rparr>] \<and>
    sv_db (wo_service (snd (on_collect ev w))) = sv_db (wo_service w)"
proof -
  let ?w = "(receiving m w) \<lparr> wo_session := (ses (receiving m w)) \<lparr> ss_collecting := True, ss_last_seq := 0 \<rparr> \<rparr>"
  have "on_collect ev w = (let (ok, w) = push_pending (tv_clock ev) 0 m ?w in if ok then reply RELAY_COLLECT_END [] w else (Return, w))"
    by (simp add: on_collect_def signed_in_def assms(2) receiving_def Let_def)
  moreover have "unsent m now ?w = queue m now (db w)"
  proof -
    have "\<forall>e\<in>set (envelopes (db w)). 0 < en_seq e" using assms(1) by (simp add: db_inv_def envelopes_inv_def)
    then show ?thesis by (auto simp: unsent_def queue_def intro: filter_cong)
  qed
  moreover have keep: "wo_room ?w = wo_room w" "wo_sent ?w = wo_sent w" by (simp_all add: receiving_def)
  ultimately show ?thesis
    using push_pending_complete [of ?w m now "tv_clock ev" 0] assms(1, 3, 4)
    by (simp add: reply_def send_on_def after_sending_def)
qed

theorem collect_delivers_witness:
  "wo_sent (snd (on_collect sample_env (sample_world \<lparr> wo_session := sample_session \<lparr> ss_mailbox := Some alice \<rparr> \<rparr>))) =
   map envelope_message (envelopes sample_relay_db) @ [\<lparr> wm_type = RELAY_COLLECT_END, wm_payload = [] \<rparr>]"
proof -
  let ?w = "sample_world \<lparr> wo_session := sample_session \<lparr> ss_mailbox := Some alice \<rparr> \<rparr>"
  have w: "sv_db (wo_service ?w) = sample_relay_db" "wo_room ?w = 10" "wo_sent ?w = []" "ss_mailbox (wo_session ?w) = Some alice"
    by (simp_all add: sample_world_def)
  have q: "queue alice 100 sample_relay_db = envelopes sample_relay_db" by (simp add: queue_def sample_relay_db_def)
  have "length (queue alice 100 (sv_db (wo_service ?w))) < wo_room ?w" unfolding w q by (simp add: sample_relay_db_def)
  moreover have "db_inv (sv_db (wo_service ?w))" unfolding w by (rule sample_relay_inv)
  moreover have "tv_clock sample_env i = 100" for i by (simp add: sample_env_def)
  ultimately show ?thesis using collect_delivers [OF _ w(4), of 100 sample_env] unfolding w q by simp
qed

section \<open>Keyrings\<close>

text \<open>A client's messages one after the other, each of them accepted.\<close>

fun feed :: "relay_config \<Rightarrow> turn_env \<Rightarrow> WireMessage list \<Rightarrow> world \<Rightarrow> world option" where
  "feed cf ev [] w = Some w"
| "feed cf ev (m # ms) w = (case on_message cf ev m w of (Break, w) \<Rightarrow> feed cf ev ms w | _ \<Rightarrow> None)"

definition chunk_count :: "bytes \<Rightarrow> nat" where
  "chunk_count blob = (length blob + KEYRING_CHUNK_BYTES - 1) div KEYRING_CHUNK_BYTES"

definition keyring_chunk :: "bytes \<Rightarrow> nat \<Rightarrow> KeyringChunk" where
  "keyring_chunk blob i = \<lparr> kc_total_size = word_of_nat (length blob), kc_index = word_of_nat i, kc_count = word_of_nat (chunk_count blob),
     kc_data = take (min (length blob) (i * KEYRING_CHUNK_BYTES + KEYRING_CHUNK_BYTES) - i * KEYRING_CHUNK_BYTES) (drop (i * KEYRING_CHUNK_BYTES) blob) \<rparr>"

abbreviation (input) keyring_fits :: "bytes \<Rightarrow> bool" where
  "keyring_fits blob \<equiv> 0 < length blob \<and> length blob \<le> 16777216"

lemma chunk_count_bounds:
  assumes "keyring_fits blob"
  shows "0 < chunk_count blob" "(chunk_count blob - 1) * 49152 < length blob" "length blob \<le> chunk_count blob * 49152" "chunk_count blob \<le> 342"
proof -
  note b = ceil_div_bounds [of 49152 "length blob" "chunk_count blob"]
  show "0 < chunk_count blob" "(chunk_count blob - 1) * 49152 < length blob" "length blob \<le> chunk_count blob * 49152"
    using b assms by (simp_all add: chunk_count_def)
  then show "chunk_count blob \<le> 342" using assms by (cases "chunk_count blob") simp_all
qed

lemma keyring_chunks_eq:
  assumes "keyring_fits blob"
  shows "keyring_chunks blob = map (keyring_chunk blob) [0 ..< chunk_count blob]"
proof -
  have "unat (word_of_nat (chunk_count blob) :: u32) = chunk_count blob"
    using chunk_count_bounds(4) [OF assms] by (simp add: unat_of_nat)
  then show ?thesis
    by (simp add: keyring_chunks_def Let_def keyring_chunk_def chunk_count_def)
qed

lemma keyring_chunk_wf:
  assumes "keyring_fits blob" and "i < chunk_count blob"
  shows "wf_KeyringChunk (keyring_chunk blob i)"
proof -
  note b = chunk_count_bounds [OF assms(1)]
  have w: "unat (word_of_nat (length blob) :: u32) = length blob" "unat (word_of_nat i :: u32) = i"
    "unat (word_of_nat (chunk_count blob) :: u32) = chunk_count blob"
    using assms b by (simp_all add: unat_of_nat)
  have "i * 49152 < length blob" using b(2) assms(2) by (cases "i = chunk_count blob - 1") auto
  moreover have "i * 49152 + 49152 \<le> length blob" if "i + 1 < chunk_count blob" using b(2) that by simp
  moreover have "i = chunk_count blob - 1" if "\<not> i + 1 < chunk_count blob" using that assms(2) by simp
  moreover have "chunk_count blob = (49151 + length blob) div 49152" by (simp add: chunk_count_def)
  ultimately show ?thesis using assms b(3)
    by (auto simp: wf_KeyringChunk_def keyring_chunk_def w Let_def mult.commute)
qed

lemma word_of_nat_u32_eq:
  assumes "a < 2 ^ 32" and "b < 2 ^ 32"
  shows "(word_of_nat a :: u32) = word_of_nat b \<longleftrightarrow> a = b"
proof -
  have "unat (word_of_nat a :: u32) = a" "unat (word_of_nat b :: u32) = b" using assms by (simp_all add: unat_of_nat)
  then show ?thesis by metis
qed

text \<open>What the relay has kept after \<open>i\<close> chunks.\<close>

definition keyring_progress :: "bytes \<Rightarrow> nat \<Rightarrow> KeyringUpload" where
  "keyring_progress blob i = \<lparr> ku_active = True, ku_total = word_of_nat (length blob), ku_count = word_of_nat (chunk_count blob),
     ku_next = word_of_nat i, ku_buffer = take (i * 49152) blob \<rparr>"

lemma keyring_buffer:
  assumes "keyring_fits blob" and "i < chunk_count blob"
  shows "take (i * 49152) blob @ kc_data (keyring_chunk blob i) = take (Suc i * 49152) blob"
proof -
  have "kc_data (keyring_chunk blob i) = take 49152 (drop (i * 49152) blob)"
    by (simp add: keyring_chunk_def min_def)
  then show ?thesis by (simp add: take_add [symmetric] add.commute)
qed

lemma keyring_accept_progress:
  assumes "keyring_fits blob" and "i < chunk_count blob" and "ss_keyring_upload (ses w) = keyring_progress blob i"
  shows "keyring_accept ev m (keyring_chunk blob i) w =
    (if Suc i < chunk_count blob then reply KEYRING_PUT_OK [] (set_keyring_upload (keyring_progress blob (Suc i)) w)
     else case put_keyring m blob (tv_now ev) (db w) of
         None \<Rightarrow> (Throw, set_keyring_upload (keyring_progress blob (Suc i)) w)
       | Some d \<Rightarrow> reply KEYRING_PUT_OK [] (set_keyring_upload no_keyring_upload (set_db d w)))"
proof -
  note b = chunk_count_bounds [OF assms(1)]
  let ?u = "keyring_progress blob i"
  have next_u: "?u \<lparr> ku_next := ku_next ?u + 1, ku_buffer := ku_buffer ?u @ kc_data (keyring_chunk blob i) \<rparr> = keyring_progress blob (Suc i)"
    using keyring_buffer [OF assms(1, 2)] by (simp add: keyring_progress_def)
  have "(word_of_nat (Suc i) :: u32) = word_of_nat (chunk_count blob) \<longleftrightarrow> Suc i = chunk_count blob"
    using assms(2) b(4) by (intro word_of_nat_u32_eq) simp_all
  then have last: "ku_next (keyring_progress blob (Suc i)) = ku_count (keyring_progress blob (Suc i)) \<longleftrightarrow> \<not> Suc i < chunk_count blob"
    using assms(2) by (auto simp: keyring_progress_def)
  have whole: "ku_buffer (keyring_progress blob (Suc i)) = blob" if "\<not> Suc i < chunk_count blob"
  proof -
    from that assms(2) have "Suc i = chunk_count blob" by simp
    with b(3) show ?thesis by (simp add: keyring_progress_def)
  qed
  show ?thesis unfolding keyring_accept_def assms(3) Let_def next_u
    using last whole by (auto simp: set_keyring_upload_def set_db_def split: option.splits)
qed

definition keyring_message :: "KeyringChunk \<Rightarrow> WireMessage" where
  "keyring_message c = \<lparr> wm_type = KEYRING_PUT, wm_payload = encode_KeyringChunk c \<rparr>"

lemma reply_ok:
  "0 < wo_room w \<Longrightarrow> reply t p w = (Break, w \<lparr> wo_room := wo_room w - 1, wo_sent := wo_sent w @ [\<lparr> wm_type = t, wm_payload = p \<rparr>] \<rparr>)"
  by (simp add: reply_def send_on_def)

lemma keyring_chunk_decodes:
  "keyring_fits blob \<Longrightarrow> i < chunk_count blob \<Longrightarrow> decode_keyring_chunk (encode_KeyringChunk (keyring_chunk blob i)) = Some (keyring_chunk blob i)"
  by (rule keyring_chunk_codec.round_trip) (rule keyring_chunk_wf)

text \<open>The relay is where it should be after \<open>i\<close> chunks; or it has stored the blob, after the last.\<close>

definition keyring_state :: "bytes \<Rightarrow> bytes \<Rightarrow> nat \<Rightarrow> nat \<Rightarrow> world \<Rightarrow> bool" where
  "keyring_state m blob i room w \<longleftrightarrow> ss_mailbox (ses w) = Some m \<and> wo_room w = room \<and>
     (if i < chunk_count blob then ss_keyring_upload (ses w) = keyring_progress blob i \<and> has_row (\<lambda>r. mb_id r = m) (mailboxes (db w))
      else get_keyring m (db w) = Some blob)"

lemma find_other_append: "P x \<Longrightarrow> find P (filter (\<lambda>y. \<not> P y) ys @ [x]) = Some x"
  by (induction ys) auto

lemma get_put_keyring: "put_keyring m blob now d = Some d' \<Longrightarrow> get_keyring m d' = Some blob"
  using find_other_append [of "\<lambda>k. kr_mailbox_id k = m" "\<lparr> kr_mailbox_id = m, kr_blob = blob, kr_updated_at = now \<rparr>" "keyrings d"]
  by (auto simp: put_keyring_def get_keyring_def require_def bind_eq_Some_conv first_row_def delete_rows_def split: if_splits)

lemma keyring_accept_state:
  assumes "keyring_fits blob" and "i < chunk_count blob" and "keyring_state m blob i (Suc room) w"
  shows "\<exists>w'. keyring_accept ev m (keyring_chunk blob i) w = (Break, w') \<and> keyring_state m blob (Suc i) room w'"
proof -
  have s: "ss_mailbox (ses w) = Some m" "wo_room w = Suc room" "ss_keyring_upload (ses w) = keyring_progress blob i"
    "has_row (\<lambda>r. mb_id r = m) (mailboxes (db w))"
    using assms(2, 3) by (simp_all add: keyring_state_def)
  show ?thesis
  proof (cases "Suc i < chunk_count blob")
    case True
    then show ?thesis using s
      by (simp add: keyring_accept_progress [OF assms(1, 2) s(3)] reply_ok keyring_state_def set_keyring_upload_def)
  next
    case False
    obtain d where "put_keyring m blob (tv_now ev) (db w) = Some d"
      using s(4) by (auto simp: put_keyring_def require_def)
    with False s show ?thesis
      by (auto simp: keyring_accept_progress [OF assms(1, 2) s(3)] reply_ok keyring_state_def set_keyring_upload_def set_db_def
          dest: get_put_keyring)
  qed
qed

lemma keyring_put_next:
  assumes "keyring_fits blob" and "0 < i" and "i < chunk_count blob" and "keyring_state m blob i (Suc room) w"
  shows "\<exists>w'. on_message cf ev (keyring_message (keyring_chunk blob i)) w = (Break, w') \<and> keyring_state m blob (Suc i) room w'"
proof -
  note b = chunk_count_bounds [OF assms(1)]
  have nz: "(word_of_nat i :: u32) \<noteq> 0" "(word_of_nat (chunk_count blob) :: u32) \<noteq> 0"
    using word_of_nat_u32_eq [of i 0] word_of_nat_u32_eq [of "chunk_count blob" 0] assms(2, 3) b by simp_all
  have s: "ss_mailbox (ses w) = Some m" "ss_keyring_upload (ses w) = keyring_progress blob i"
    using assms(3, 4) by (simp_all add: keyring_state_def)
  have "on_message cf ev (keyring_message (keyring_chunk blob i)) w = keyring_accept ev m (keyring_chunk blob i) w"
    using nz by (simp add: on_message_def keyring_message_def on_keyring_put_def signed_in_def s keyring_chunk_decodes [OF assms(1, 3)] Let_def)
      (simp add: keyring_progress_def keyring_chunk_def)
  then show ?thesis using keyring_accept_state [OF assms(1, 3, 4)] by simp
qed

lemma keyring_put_rest:
  assumes "keyring_fits blob" and "0 < i" and "i + k = chunk_count blob" and "keyring_state m blob i (k + room) w"
  shows "\<exists>w'. feed cf ev (map (\<lambda>j. keyring_message (keyring_chunk blob j)) [i ..< chunk_count blob]) w = Some w' \<and>
    keyring_state m blob (chunk_count blob) room w'"
  using assms
proof (induction k arbitrary: i w)
  case 0
  then show ?case by simp
next
  case (Suc k)
  then have i: "i < chunk_count blob" by simp
  from keyring_put_next [OF Suc.prems(1, 2) i, of m "k + room" w cf ev] Suc.prems(4) obtain w' where
    w': "on_message cf ev (keyring_message (keyring_chunk blob i)) w = (Break, w')" "keyring_state m blob (Suc i) (k + room) w'"
    by auto
  with Suc.IH [of "Suc i" w'] Suc.prems(1, 3) show ?case by (simp add: upt_conv_Cons [OF i])
qed

lemma keyring_put_first:
  assumes "keyring_fits blob" and "length blob \<le> lm_keyring_max_bytes (cf_limits cf)"
    and "ss_mailbox (ses w) = Some m" and "has_row (\<lambda>r. mb_id r = m) (mailboxes (db w))" and "wo_room w = Suc room"
    and "fst (allow (''keyring:'' @ bytes_to_hex m) 20 (tv_now ev) (sv_rate (wo_service w)))"
  shows "\<exists>w'. on_message cf ev (keyring_message (keyring_chunk blob 0)) w = (Break, w') \<and> keyring_state m blob 1 room w'"
proof -
  note b = chunk_count_bounds [OF assms(1)]
  have c: "kc_index (keyring_chunk blob 0) = 0" "kc_count (keyring_chunk blob 0) \<noteq> 0" "unat (kc_total_size (keyring_chunk blob 0)) = length blob"
    using word_of_nat_u32_eq [of "chunk_count blob" 0] b assms(1) by (simp_all add: keyring_chunk_def unat_of_nat)
  have p: "no_keyring_upload \<lparr> ku_active := True, ku_total := kc_total_size (keyring_chunk blob 0), ku_count := kc_count (keyring_chunk blob 0) \<rparr> =
      keyring_progress blob 0"
    by (simp add: no_keyring_upload_def keyring_progress_def keyring_chunk_def)
  let ?w = "set_keyring_upload (keyring_progress blob 0) (set_keyring_upload no_keyring_upload
      (set_rate (snd (allow (''keyring:'' @ bytes_to_hex m) 20 (tv_now ev) (sv_rate (wo_service w)))) w))"
  have "on_message cf ev (keyring_message (keyring_chunk blob 0)) w = keyring_accept ev m (keyring_chunk blob 0) ?w"
    using assms(2, 6) c
    by (simp add: on_message_def keyring_message_def on_keyring_put_def signed_in_def assms(3) keyring_chunk_decodes [OF assms(1) b(1)]
        Let_def rate_guard_def split_def p set_rate_def not_less)
  moreover have "keyring_state m blob 0 (Suc room) ?w"
    using assms(3, 4, 5) b(1) by (simp add: keyring_state_def) (simp add: set_keyring_upload_def set_rate_def)
  ultimately show ?thesis using keyring_accept_state [OF assms(1) b(1)] by simp
qed

lemma keyring_data: "keyring_fits blob \<Longrightarrow> n \<le> chunk_count blob \<Longrightarrow> concat (map (\<lambda>i. kc_data (keyring_chunk blob i)) [0 ..< n]) = take (n * 49152) blob"
proof (induction n)
  case (Suc n)
  then show ?case using keyring_buffer [of blob n] by simp
qed simp

lemma send_all_ok:
  "length ms \<le> wo_room w \<Longrightarrow> send_all ms w =
    (True, w \<lparr> wo_room := wo_room w - length ms, wo_sent := wo_sent w @ map (\<lambda>m. \<lparr> wm_type = fst m, wm_payload = snd m \<rparr>) ms \<rparr>)"
  by (induction ms arbitrary: w) (simp_all add: send_on_def)

text \<open>
  C17: A keyring comes back whole. A signed-in owner who sends the chunks of a blob in order, within the relay's
  limits, has the blob stored; asking for it afterwards sends exactly the same chunks, each of which the
  other side decodes, and their data put together is the blob.
\<close>
theorem keyring_round_trip:
  assumes "0 < length blob" and "length blob \<le> 16777216" and "length blob \<le> lm_keyring_max_bytes (cf_limits cf)"
    and "ss_mailbox (wo_session w) = Some m" and "has_row (\<lambda>r. mb_id r = m) (mailboxes (sv_db (wo_service w)))"
    and "fst (allow (''keyring:'' @ bytes_to_hex m) 20 (tv_now ev) (sv_rate (wo_service w)))"
    and "2 * length (keyring_chunks blob) \<le> wo_room w"
  shows "\<exists>w'. feed cf ev (map keyring_message (keyring_chunks blob)) w = Some w' \<and> get_keyring m (sv_db (wo_service w')) = Some blob \<and>
    wo_sent (snd (on_keyring_get w')) = wo_sent w' @ map (\<lambda>c. \<lparr> wm_type = KEYRING_DATA, wm_payload = encode_KeyringChunk c \<rparr>) (keyring_chunks blob) \<and>
    map (\<lambda>c. decode_keyring_chunk (encode_KeyringChunk c)) (keyring_chunks blob) = map Some (keyring_chunks blob) \<and>
    concat (map kc_data (keyring_chunks blob)) = blob"
proof -
  have fits: "keyring_fits blob" using assms(1, 2) by simp
  note b = chunk_count_bounds [OF fits] and eq = keyring_chunks_eq [OF fits]
  obtain room where room: "wo_room w = Suc (chunk_count blob - 1 + room)" "chunk_count blob \<le> room"
  proof
    show "wo_room w = Suc (chunk_count blob - 1 + (wo_room w - chunk_count blob))" "chunk_count blob \<le> wo_room w - chunk_count blob"
      using assms(7) b(1) eq by simp_all
  qed
  from keyring_put_first [OF fits assms(3, 4, 5) room(1) assms(6)] obtain w1 where
    w1: "on_message cf ev (keyring_message (keyring_chunk blob 0)) w = (Break, w1)" "keyring_state m blob 1 (chunk_count blob - 1 + room) w1" by blast
  from keyring_put_rest [OF fits _ _ w1(2), of cf ev] b(1) obtain w' where
    w': "feed cf ev (map (\<lambda>j. keyring_message (keyring_chunk blob j)) [1 ..< chunk_count blob]) w1 = Some w'" "keyring_state m blob (chunk_count blob) room w'"
    by auto
  have "feed cf ev (map keyring_message (keyring_chunks blob)) w = Some w'"
    using w1(1) w'(1) b(1) by (simp add: eq comp_def upt_conv_Cons)
  moreover from w'(2) have s: "get_keyring m (db w') = Some blob" "ss_mailbox (ses w') = Some m" "chunk_count blob \<le> wo_room w'"
    using room(2) by (simp_all add: keyring_state_def)
  moreover have "wo_sent (snd (on_keyring_get w')) =
      wo_sent w' @ map (\<lambda>c. \<lparr> wm_type = KEYRING_DATA, wm_payload = encode_KeyringChunk c \<rparr>) (keyring_chunks blob)"
    using s by (simp add: on_keyring_get_def signed_in_def send_all_ok eq comp_def)
  moreover have "map (\<lambda>c. decode_keyring_chunk (encode_KeyringChunk c)) (keyring_chunks blob) = map Some (keyring_chunks blob)"
    by (simp add: eq keyring_chunk_decodes [OF fits])
  moreover have "concat (map kc_data (keyring_chunks blob)) = blob"
    using keyring_data [OF fits order.refl] b(3) by (simp add: eq comp_def)
  ultimately show ?thesis by blast
qed

theorem keyring_round_trip_witness:
  "\<exists>w'. feed sample_config sample_env (map keyring_message (keyring_chunks [1, 2, 3]))
      (sample_world \<lparr> wo_session := sample_session \<lparr> ss_mailbox := Some alice \<rparr> \<rparr>) = Some w' \<and>
    get_keyring alice (sv_db (wo_service w')) = Some [1, 2, 3]"
proof -
  let ?w = "sample_world \<lparr> wo_session := sample_session \<lparr> ss_mailbox := Some alice \<rparr> \<rparr>"
  have w: "ss_mailbox (wo_session ?w) = Some alice" "has_row (\<lambda>r. mb_id r = alice) (mailboxes (sv_db (wo_service ?w)))" "wo_room ?w = 10"
    "sv_rate (wo_service ?w) = Map.empty"
    by (simp_all add: sample_world_def sample_relay_db_def)
  have a: "fst (allow (''keyring:'' @ bytes_to_hex alice) 20 (tv_now sample_env) (sv_rate (wo_service ?w)))"
    unfolding w by (simp add: allow_def sample_env_def)
  have n: "2 * length (keyring_chunks [1, 2, 3]) \<le> wo_room ?w" unfolding w by (simp add: keyring_chunks_def)
  have l: "length [1, 2, 3 :: byte] \<le> lm_keyring_max_bytes (cf_limits sample_config)" by (simp add: sample_config_def default_limits_def)
  from keyring_round_trip [OF _ _ l w(1, 2) a n] show ?thesis by auto
qed

end
