(* ===== verification/Relay_Operators.thy ===== *)
theory Relay_Operators
  imports Relay_Session_Spec
begin

text \<open>
  The relay outside its sessions: removing a member with everyone they brought in, the periodic sweep,
  the relay's own key, and the connections of a mailbox taken together.
\<close>

section \<open>Removing a mailbox and its invitees\<close>

definition invited :: "Member list \<Rightarrow> (bytes \<times> bytes) set" where
  "invited all = {(a, b). \<exists>m\<in>set all. me_invited_by m = a \<and> me_id m = b}"

lemma add_invitees_image: "set (add_invitees all a doomed) = set doomed \<union> invited all `` {a}"
  by (auto simp: add_invitees_set invited_def)

lemma add_invitees_prefix: "\<exists>xs. add_invitees all a doomed = doomed @ xs"
proof (induction all arbitrary: doomed)
  case Nil
  then show ?case by (simp add: add_invitees_def)
next
  case (Cons m all)
  from Cons [of doomed] Cons [of "doomed @ [me_id m]"] show ?case by (auto simp: add_invitees_def)
qed

lemma doomed_from_closure:
  assumes "invited all `` set (take i doomed) \<subseteq> set doomed" and "i \<le> length doomed"
  shows "set (doomed_from all i doomed) = (invited all)\<^sup>* `` set doomed"
  using assms
proof (induction all i doomed rule: doomed_from.induct)
  case (1 all i doomed)
  show ?case
  proof (cases "i < length doomed")
    case False
    with 1(3) have "take i doomed = doomed" by simp
    with 1(2) have closed: "invited all `` set doomed \<subseteq> set doomed" by simp
    have "doomed_from all i doomed = doomed" using False by (simp add: doomed_from.simps)
    moreover have "(invited all)\<^sup>* `` set doomed = set doomed"
      using closed by (rule Image_closed_trancl)
    ultimately show ?thesis by simp
  next
    case True
    let ?d = "add_invitees all (doomed ! i) doomed"
    obtain xs where xs: "?d = doomed @ xs" using add_invitees_prefix by blast
    have t: "take (Suc i) ?d = take i doomed @ [doomed ! i]" using True by (simp add: xs take_Suc_conv_app_nth nth_append)
    have "invited all `` set (take (Suc i) ?d) \<subseteq> set ?d"
      unfolding t using 1(2) by (auto simp: add_invitees_image)
    then have IH: "set (doomed_from all (Suc i) ?d) = (invited all)\<^sup>* `` set ?d"
      using 1(1) [OF True] True by (simp add: xs)
    have "(invited all)\<^sup>* `` set ?d = (invited all)\<^sup>* `` set doomed"
    proof -
      have "invited all `` {doomed ! i} \<subseteq> (invited all)\<^sup>* `` set doomed" using nth_mem [OF True] by blast
      then show ?thesis unfolding add_invitees_image by (blast intro: rtrancl_trans)
    qed
    with IH show ?thesis using True by (simp add: doomed_from.simps [of all i doomed])
  qed
qed

lemma delete_mailbox_mailboxes: "mailboxes (snd (delete_mailbox i d)) = filter (\<lambda>m. mb_id m \<noteq> i) (mailboxes d)"
  by (simp add: delete_mailbox_def delete_mailboxes_def delete_rows_def delete_files_def Let_def)

lemma delete_each_mailboxes:
  "mailboxes (snd (delete_each ids n d)) = filter (\<lambda>m. mb_id m \<notin> set ids) (mailboxes d)"
proof (induction ids arbitrary: n d)
  case (Cons i ids)
  have "mailboxes (snd (delete_each (i # ids) n d)) = filter (\<lambda>m. mb_id m \<notin> set ids) (mailboxes (snd (delete_mailbox i d)))"
    using Cons by (simp add: split_def Let_def)
  then show ?case by (simp add: delete_mailbox_mailboxes conj_commute)
qed simp

lemma delete_each_inv: "db_inv d \<Longrightarrow> db_inv (snd (delete_each ids n d))"
proof (induction ids arbitrary: n d)
  case (Cons i ids)
  obtain e d' where d': "delete_mailbox i d = (e, d')" by force
  with Cons delete_mailbox_inv [OF Cons.prems d'] show ?case by simp
qed simp

lemma distinct_filter_one: "distinct (map f xs) \<Longrightarrow> length (filter (\<lambda>x. f x = i) xs) \<le> 1"
  by (induction xs) (auto simp: filter_empty_conv image_iff)

lemma one_or_none: "(k :: nat) \<le> 1 \<Longrightarrow> e \<longleftrightarrow> k > 0 \<Longrightarrow> k = (if e then 1 else 0)"
  by auto

lemma delete_each_count:
  "db_inv d \<Longrightarrow> fst (delete_each ids n d) + length (mailboxes (snd (delete_each ids n d))) = n + length (mailboxes d)"
proof (induction ids arbitrary: n d)
  case (Cons i ids)
  obtain e d' where d': "delete_mailbox i d = (e, d')" by force
  let ?k = "length (filter (\<lambda>m. mb_id m = i) (mailboxes d))"
  have "?k \<le> 1" using Cons.prems by (intro distinct_filter_one) (simp add: db_inv_def pk_def)
  moreover have "e \<longleftrightarrow> ?k > 0" using d' by (auto simp: delete_mailbox_def count_rows_def Let_def)
  ultimately have "?k = (if e then 1 else 0)" by (rule one_or_none)
  moreover have "length (mailboxes d') + ?k = length (mailboxes d)"
    using delete_mailbox_mailboxes [of i d] d' sum_length_filter_compl [of "\<lambda>m. mb_id m = i" "mailboxes d"] by simp
  ultimately have "(if e then n + 1 else n) + length (mailboxes d') = n + length (mailboxes d)" by (simp split: if_splits)
  with Cons.IH [of d' "if e then n + 1 else n"] delete_mailbox_inv [OF Cons.prems d'] d' show ?case by simp
qed simp

text \<open>Alice invited Bob, Bob invited Carol; Dave came on the operator's invitation.\<close>

definition sample_family :: relay_db where
  "sample_family = empty_db \<lparr> mailboxes := map (\<lambda>(i, by). \<lparr> mb_id = [i], mb_access_public_key = [9], mb_created_at = 5,
     mb_invited_by = by \<rparr>) [(1, None), (2, Some [1]), (3, Some [2]), (4, None)] \<rparr>"

lemma sample_family_inv: "db_inv sample_family"
  by (simp add: sample_family_def empty_db_def db_inv_def tokens_inv_def envelopes_inv_def prekeys_inv_def takes_inv_def files_inv_def
      keyrings_inv_def archives_inv_def archive_ok_def entries_of_def pk_def fk_def count_rows_def upto.simps)

lemma invited_members: "invited (members d) = {(a, b). \<exists>m\<in>set (mailboxes d). column_blob (mb_invited_by m) = a \<and> mb_id m = b}"
  by (auto simp: invited_def members_def)

text \<open>
  C18: Removing a member with everyone they brought in. With \<^verbatim>\<open>with_invitees\<close> exactly the mailboxes that can be
  reached from the given one by following invitations are removed -- the loop ends, misses nobody and takes nobody
  else -- and without it exactly the one; the number returned is the number removed.
\<close>
theorem remove_mailbox_closure:
  assumes "db_inv d" and "remove_mailbox mailbox_id with_invitees d = (n, d')"
  shows "mailboxes d' = filter (\<lambda>m. if with_invitees
      then (mailbox_id, mb_id m) \<notin> {(a, b). \<exists>m\<in>set (mailboxes d). column_blob (mb_invited_by m) = a \<and> mb_id m = b}\<^sup>*
      else mb_id m \<noteq> mailbox_id) (mailboxes d) \<and>
    n + length (mailboxes d') = length (mailboxes d) \<and> db_inv d'"
proof -
  let ?doomed = "if with_invitees then doomed_from (members d) 0 [mailbox_id] else [mailbox_id]"
  have "set (doomed_from (members d) 0 [mailbox_id]) = (invited (members d))\<^sup>* `` {mailbox_id}"
    using doomed_from_closure [of "members d" 0 "[mailbox_id]"] by simp
  then have doomed: "set ?doomed = (if with_invitees then (invited (members d))\<^sup>* `` {mailbox_id} else {mailbox_id})" by simp
  have "delete_each ?doomed 0 d = (n, d')" using assms(2) by (simp add: remove_mailbox_def Let_def)
  then have "mailboxes d' = filter (\<lambda>m. mb_id m \<notin> set ?doomed) (mailboxes d)" "n + length (mailboxes d') = length (mailboxes d)" "db_inv d'"
    using delete_each_mailboxes [of ?doomed 0 d] delete_each_count [OF assms(1), of ?doomed 0] delete_each_inv [OF assms(1), of ?doomed 0]
    by simp_all
  then show ?thesis unfolding doomed invited_members by (auto intro: filter_cong)
qed

theorem remove_mailbox_closure_witness:
  "fst (remove_mailbox [1] True sample_family) = 3 \<and> map mb_id (mailboxes (snd (remove_mailbox [1] True sample_family))) = [[4]] \<and>
   fst (remove_mailbox [1] True sample_family) + length (mailboxes (snd (remove_mailbox [1] True sample_family))) =
     length (mailboxes sample_family)"
proof -
  have "fst (remove_mailbox [1] True sample_family) = 3" "map mb_id (mailboxes (snd (remove_mailbox [1] True sample_family))) = [[4]]"
    by code_simp+
  with remove_mailbox_closure [OF sample_family_inv surjective_pairing, of "[1]" True] show ?thesis by blast
qed

section \<open>The sweep and the files of attachments\<close>

lemma bytes_to_hex_eq [simp]: "bytes_to_hex a = bytes_to_hex b \<longleftrightarrow> a = b"
  by (metis hex_pairs_bytes_to_hex option.inject)

lemma no_dot_in_hex: "CHR ''.'' \<notin> set (bytes_to_hex b)"
proof
  assume "CHR ''.'' \<in> set (bytes_to_hex b)"
  with bytes_to_hex_lower [of b] have "is_lower_hex ''.'' 1" by (simp add: is_lower_hex_def list_all_iff split: if_splits) fastforce
  then show False by (simp add: is_lower_hex_def)
qed

lemma stem_extension:
  assumes "CHR ''.'' \<notin> set s" and "s \<noteq> []" and "CHR ''.'' \<notin> set e"
  shows "stem (s @ CHR ''.'' # e) = s"
proof -
  have "dropWhile (\<lambda>c. c \<noteq> CHR ''.'') (rev (s @ CHR ''.'' # e)) = CHR ''.'' # rev s"
    using assms(3) by (auto simp: dropWhile_append)
  then show ?thesis using assms(2) by (cases s) (simp_all add: stem_def)
qed

lemma stem_file_path: "i \<noteq> [] \<Longrightarrow> e \<in> {''.bin'', ''.part''} \<Longrightarrow> stem (file_path i e) = bytes_to_hex i"
proof -
  assume "i \<noteq> []" "e \<in> {''.bin'', ''.part''}"
  moreover have "bytes_to_hex i \<noteq> []" using \<open>i \<noteq> []\<close> length_bytes_to_hex [of i] by auto
  ultimately show ?thesis using stem_extension [OF no_dot_in_hex, of i] by (auto simp: file_path_def)
qed

lemma file_path_empty:
  "i \<noteq> [] \<Longrightarrow> e \<in> {''.bin'', ''.part''} \<Longrightarrow> file_path i e \<noteq> file_path [] ''.bin'' \<and> file_path i e \<noteq> file_path [] ''.part''"
proof -
  assume i: "i \<noteq> []" and e: "e \<in> {''.bin'', ''.part''}"
  then obtain c cs where "bytes_to_hex i = c # cs" using length_bytes_to_hex [of i] by (cases "bytes_to_hex i") auto
  then have "c \<noteq> CHR ''.''" using no_dot_in_hex [of i] by auto
  with \<open>bytes_to_hex i = c # cs\<close> show ?thesis by (simp add: file_path_def bytes_to_hex_def)
qed

lemma remove_file_bytes_data: "dk_data (foldl (\<lambda>dk i. remove_file_bytes i dk) dk ids) = dk_data dk"
  by (induction ids arbitrary: dk) (simp_all add: remove_file_bytes_def disk_remove_def)

lemma remove_file_bytes_names:
  "dk_names (foldl (\<lambda>dk i. remove_file_bytes i dk) dk ids) name =
     (if \<exists>i\<in>set ids. name = file_path i ''.bin'' \<or> name = file_path i ''.part'' then None else dk_names dk name)"
  by (induction ids arbitrary: dk) (auto simp: remove_file_bytes_def disk_remove_def)

lemma delete_files_files: "files (delete_files P d) = delete_rows P (files d)"
  by (simp add: delete_files_def)

lemma sweep_files_files:
  "pk fl_id (files d) \<Longrightarrow> files (snd (sweep_files now before d)) =
     filter (\<lambda>f. \<not> (fl_expires_at f \<le> now \<or> (fl_ready f = 0 \<and> fl_created_at f \<le> before))) (files d)"
proof -
  assume pk: "pk fl_id (files d)"
  have "files (foldl (\<lambda>d i. delete_files (\<lambda>f. fl_id f = i) d) d ids) = filter (\<lambda>f. fl_id f \<notin> set ids) (files d)" for ids
    by (induction ids arbitrary: d) (simp_all add: delete_files_files delete_rows_def conj_commute)
  moreover have "f \<in> set (files d) \<Longrightarrow> g \<in> set (files d) \<Longrightarrow> fl_id f = fl_id g \<Longrightarrow> f = g" for f g
    using pk unfolding pk_def by (auto simp: distinct_map inj_on_def)
  ultimately show ?thesis by (auto simp: sweep_files_def Let_def intro!: filter_cong)
qed

lemma sweep_files_ids:
  "fst (sweep_files now before d) = map fl_id (filter (\<lambda>f. fl_expires_at f \<le> now \<or> (fl_ready f = 0 \<and> fl_created_at f \<le> before)) (files d))"
  by (simp add: sweep_files_def Let_def)

lemma sweep_files_unchanged: "files (sweep_prekey_takes now (snd (sweep now' d))) = files d"
  by (simp add: sweep_prekey_takes_def sweep_def Let_def delete_archives_def)

lemma sweep_once_parts:
  assumes "sweep_once cf clock sv = (n, sv')"
  obtains d ids where "d = sweep_prekey_takes (clock 2) (snd (sweep (clock 0) (sv_db sv)))"
    and "sweep_files (clock 3) (clock 4 - lm_abandoned_upload_seconds (cf_limits cf)) d = (ids, sv_db sv')"
    and "dk_data (sv_disk sv') = dk_data (sv_disk sv)"
    and "dk_names (sv_disk sv') = (\<lambda>name. if stem name \<in> bytes_to_hex ` fl_id ` set (files (sv_db sv')) \<and>
      \<not> (\<exists>i\<in>set ids. name = file_path i ''.bin'' \<or> name = file_path i ''.part'') then dk_names (sv_disk sv) name else None)"
proof -
  let ?d = "sweep_prekey_takes (clock 2) (snd (sweep (clock 0) (sv_db sv)))"
  obtain ids d' where s: "sweep_files (clock 3) (clock 4 - lm_abandoned_upload_seconds (cf_limits cf)) ?d = (ids, d')" by force
  from assms have sv': "sv' = snd (sweep_once cf clock sv)" by simp
  show ?thesis
    by (rule that [of ?d ids], unfold sv')
      (simp_all add: sweep_once_def Let_def split_def s remove_file_bytes_data remove_file_bytes_names all_file_ids_def fun_eq_iff image_image)
qed

lemma sweep_once_inv: "db_inv (sv_db sv) \<Longrightarrow> sweep_once cf clock sv = (n, sv') \<Longrightarrow> db_inv (sv_db sv')"
  by (erule sweep_once_parts) (metis prod.collapse sweep_files_inv sweep_inv sweep_prekey_takes_inv)

definition sample_files :: service where
  "sample_files = \<lparr> sv_db = sample_family \<lparr> files := map (\<lambda>(i, ready, created, expires).
       \<lparr> fl_id = [i], fl_owner = [1], fl_total_size = 3, fl_chunk_size = 3, fl_chunk_count = 1, fl_expires_at = expires,
         fl_created_at = created, fl_ready = ready \<rparr>) [(1, 1, 10, 9000), (2, 0, 10, 9000), (3, 1, 10, 20)] \<rparr>,
     sv_rate = Map.empty, sv_owners = Map.empty, sv_kicked = (\<lambda>_. False),
     sv_disk = \<lparr> dk_names = [''01.bin'' \<mapsto> 0, ''02.part'' \<mapsto> 1, ''03.bin'' \<mapsto> 2, ''04.bin'' \<mapsto> 3],
       dk_data = (\<lambda>i. [of_nat i, 7]), dk_next = 4 \<rparr> \<rparr>"

text \<open>
  C19: The sweep and the attachments. A file record survives exactly when it has not expired and is not an abandoned
  upload; the bytes of a surviving file, finished or in progress, are as they were; and no file is left
  in the folder that does not belong to a surviving record.
\<close>
theorem sweep_keeps_live_files:
  assumes "db_inv (sv_db sv)" and "sweep_once cf clock sv = (n, sv')"
  shows "files (sv_db sv') = filter (\<lambda>f. clock 3 < fl_expires_at f \<and>
      (fl_ready f = 0 \<longrightarrow> clock 4 - lm_abandoned_upload_seconds (cf_limits cf) < fl_created_at f)) (files (sv_db sv)) \<and>
    (\<forall>f\<in>set (files (sv_db sv')). \<forall>e\<in>{''.bin'', ''.part''}. fl_id f \<noteq> [] \<longrightarrow>
      disk_read (file_path (fl_id f) e) (sv_disk sv') = disk_read (file_path (fl_id f) e) (sv_disk sv)) \<and>
    (\<forall>name. disk_read name (sv_disk sv') \<noteq> None \<longrightarrow> (\<exists>f\<in>set (files (sv_db sv')). stem name = bytes_to_hex (fl_id f)))"
proof -
  from assms(2) obtain d ids where d: "d = sweep_prekey_takes (clock 2) (snd (sweep (clock 0) (sv_db sv)))"
    and s: "sweep_files (clock 3) (clock 4 - lm_abandoned_upload_seconds (cf_limits cf)) d = (ids, sv_db sv')"
    and data: "dk_data (sv_disk sv') = dk_data (sv_disk sv)"
    and names: "dk_names (sv_disk sv') = (\<lambda>name. if stem name \<in> bytes_to_hex ` fl_id ` set (files (sv_db sv')) \<and>
      \<not> (\<exists>i\<in>set ids. name = file_path i ''.bin'' \<or> name = file_path i ''.part'') then dk_names (sv_disk sv) name else None)"
    by (rule sweep_once_parts)
  have fs: "files d = files (sv_db sv)" by (simp add: d sweep_files_unchanged)
  have pk: "pk fl_id (files d)" using assms(1) by (simp add: fs db_inv_def files_inv_def)
  from sweep_files_files [OF pk, of "clock 3" "clock 4 - lm_abandoned_upload_seconds (cf_limits cf)"] s
  have left: "files (sv_db sv') = filter (\<lambda>f. clock 3 < fl_expires_at f \<and>
      (fl_ready f = 0 \<longrightarrow> clock 4 - lm_abandoned_upload_seconds (cf_limits cf) < fl_created_at f)) (files (sv_db sv))"
    by (simp add: fs not_le)
  have "disk_read (file_path (fl_id f) e) (sv_disk sv') = disk_read (file_path (fl_id f) e) (sv_disk sv)"
    if f: "f \<in> set (files (sv_db sv'))" and e: "e \<in> {''.bin'', ''.part''}" and ne: "fl_id f \<noteq> []" for f e
  proof -
    have "fl_id f \<notin> set ids"
    proof
      assume "fl_id f \<in> set ids"
      then obtain g where "g \<in> set (files d)" "fl_id g = fl_id f"
        "fl_expires_at g \<le> clock 3 \<or> (fl_ready g = 0 \<and> fl_created_at g \<le> clock 4 - lm_abandoned_upload_seconds (cf_limits cf))"
        using arg_cong [OF s, of fst] by (auto simp: sweep_files_ids)
      moreover have "f \<in> set (files d)" using f by (simp add: left fs)
      ultimately have "f = g" using pk unfolding pk_def by (auto simp: distinct_map inj_on_def)
      with f \<open>fl_expires_at g \<le> clock 3 \<or> _\<close> show False by (auto simp: left)
    qed
    then have "\<not> (\<exists>i\<in>set ids. file_path (fl_id f) e = file_path i ''.bin'' \<or> file_path (fl_id f) e = file_path i ''.part'')"
      using stem_file_path [OF ne e] stem_file_path [of _ "''.bin''"] stem_file_path [of _ "''.part''"] file_path_empty [OF ne e]
      by (metis bytes_to_hex_eq insertI1 insertI2)
    then show ?thesis using f by (simp add: disk_read_def data names stem_file_path [OF ne e])
  qed
  moreover have "\<exists>f\<in>set (files (sv_db sv')). stem name = bytes_to_hex (fl_id f)" if "disk_read name (sv_disk sv') \<noteq> None" for name
    using that by (auto simp: disk_read_def names split: if_splits)
  ultimately show ?thesis using left by blast
qed

theorem sweep_keeps_live_files_witness:
  "let sv' = snd (sweep_once sample_config (\<lambda>_. 5000) sample_files) in
   map fl_id (files (sv_db sv')) = [[1]] \<and> disk_read ''01.bin'' (sv_disk sv') = Some [0, 7] \<and> disk_read ''04.bin'' (sv_disk sv') = None"
proof -
  have inv: "db_inv (sv_db sample_files)"
    using sample_family_inv by (simp add: sample_files_def db_inv_def sample_family_def empty_db_def files_inv_def pk_def fk_def)
  let ?sv = "snd (sweep_once sample_config (\<lambda>_. 5000) sample_files)"
  have path: "file_path [1] ''.bin'' = ''01.bin''" by code_simp
  have stems: "stem ''04.bin'' = ''04''" "bytes_to_hex [1] = ''01''" by code_simp+
  note * = sweep_keeps_live_files [OF inv surjective_pairing, of sample_config "\<lambda>_. 5000"]
  from * have "files (sv_db ?sv) = [\<lparr> fl_id = [1], fl_owner = [1], fl_total_size = 3, fl_chunk_size = 3, fl_chunk_count = 1,
      fl_expires_at = 9000, fl_created_at = 10, fl_ready = 1 \<rparr>]"
    by (simp add: sample_files_def sample_config_def default_limits_def)
  with * path stems show ?thesis by (simp add: Let_def) (auto simp: sample_files_def disk_read_def)
qed

section \<open>The relay's own key\<close>

lemma write_file_private_keeps:
  assumes "write_file_private out data_dir name data dir = (r, dir')"
  shows "n \<noteq> name \<Longrightarrow> n \<noteq> name @ ''.tmp'' \<Longrightarrow> dir' n = dir n"
    and "isl r \<Longrightarrow> dir' name = dir name" and "\<not> isl r \<Longrightarrow> dir' name = Some data"
  using assms by (auto simp: write_file_private_def Let_def split: write_outcome.splits)

lemma identity_loads:
  "dir ''relay_public.key'' = Some pub \<Longrightarrow> dir ''relay_private.key'' = Some priv \<Longrightarrow>
   length pub = sig_length_public_key L \<Longrightarrow> length priv = sig_length_secret_key L \<Longrightarrow>
   load_or_create_identity L seed priv_out pub_out data_dir dir =
     (Inr \<lparr> id_public_key = pub, id_private_key = priv, id_relay_id = sha256 L pub, id_created = False \<rparr>, dir)"
  by (simp add: load_or_create_identity_def)

definition sample_signer :: crypto_lib where
  "sample_signer = sample_lib \<lparr> oqs_sig_keypair := (\<lambda>s. if s = [] then None else Some ([hd s, 2, 3, 4], [5, 6, 7, hd s])) \<rparr>"

text \<open>
  C23: A relay never replaces its identity. Starting it changes no key file that is in the state folder; if it
  starts, then starting it again, whatever the random generator and the disk do, gives the same key pair and the same
  relay identifier; and if only one of the two key files is there it does not start and writes nothing.
\<close>
theorem identity_never_replaced:
  assumes "\<forall>seed pub priv. oqs_sig_keypair L seed = Some (pub, priv) \<longrightarrow>
      length pub = sig_length_public_key L \<and> length priv = sig_length_secret_key L"
    and "load_or_create_identity L seed priv_out pub_out data_dir dir = (r, dir')"
  shows "(\<forall>name\<in>{''relay_public.key'', ''relay_private.key''}. dir name \<noteq> None \<longrightarrow> dir' name = dir name) \<and>
    (\<forall>i. r = Inr i \<longrightarrow> load_or_create_identity L seed' priv_out' pub_out' data_dir' dir' = (Inr (i \<lparr> id_created := False \<rparr>), dir')) \<and>
    ((dir ''relay_public.key'' = None \<longleftrightarrow> dir ''relay_private.key'' = None) \<or> (isl r \<and> dir' = dir))"
proof (cases "dir ''relay_public.key'' = None \<and> dir ''relay_private.key'' = None")
  case False
  then show ?thesis using assms(2) by (auto simp: load_or_create_identity_def split: option.splits if_splits)
next
  case True
  show ?thesis
  proof (cases "oqs_sig_keypair L seed")
    case None
    then have "isl r \<and> dir' = dir" using True assms(2) by (auto simp: load_or_create_identity_def generate_sig_keypair_def)
    then show ?thesis by auto
  next
    case (Some kp)
    obtain pub priv where kp: "kp = (pub, priv)" by force
    obtain r1 d1 where w1: "write_file_private priv_out data_dir ''relay_private.key'' priv dir = (r1, d1)" by force
    obtain r2 d2 where w2: "write_file_private pub_out data_dir ''relay_public.key'' pub d1 = (r2, d2)" by force
    have sizes: "length pub = sig_length_public_key L" "length priv = sig_length_secret_key L" using assms(1) Some kp by auto
    have "dir' = (if isl r1 then d1 else d2)" and "r = Inr i \<Longrightarrow> \<not> isl r1 \<and> \<not> isl r2 \<and>
        i = \<lparr> id_public_key = pub, id_private_key = priv, id_relay_id = sha256 L pub, id_created = True \<rparr>" for i
      using assms(2) True Some kp w1 w2
      by (auto simp: load_or_create_identity_def generate_sig_keypair_def split: sum.splits)
    then have "r = Inr i \<Longrightarrow> i = \<lparr> id_public_key = pub, id_private_key = priv, id_relay_id = sha256 L pub, id_created = True \<rparr> \<and>
        dir' ''relay_public.key'' = Some pub \<and> dir' ''relay_private.key'' = Some priv" for i
      using write_file_private_keeps(1) [OF w2, of "''relay_private.key''"] write_file_private_keeps(3) [OF w1]
        write_file_private_keeps(3) [OF w2] by simp
    then show ?thesis using True identity_loads [OF _ _ sizes, of dir'] by auto
  qed
qed

theorem identity_never_replaced_witness:
  "load_or_create_identity sample_signer [1] Cannot_Open Cannot_Open ''other''
     (snd (load_or_create_identity sample_signer [9] Written Written ''data'' Map.empty)) =
   (Inr \<lparr> id_public_key = [9, 2, 3, 4], id_private_key = [5, 6, 7, 9], id_relay_id = sha256 sample_signer [9, 2, 3, 4], id_created = False \<rparr>,
    snd (load_or_create_identity sample_signer [9] Written Written ''data'' Map.empty))"
proof -
  have lawful: "\<forall>seed pub priv. oqs_sig_keypair sample_signer seed = Some (pub, priv) \<longrightarrow>
      length pub = sig_length_public_key sample_signer \<and> length priv = sig_length_secret_key sample_signer"
    by (auto simp: sample_signer_def sample_lib_def)
  have "fst (load_or_create_identity sample_signer [9] Written Written ''data'' Map.empty) =
     Inr \<lparr> id_public_key = [9, 2, 3, 4], id_private_key = [5, 6, 7, 9], id_relay_id = sha256 sample_signer [9, 2, 3, 4], id_created = True \<rparr>"
    by (simp add: load_or_create_identity_def generate_sig_keypair_def write_file_private_def sample_signer_def sample_lib_def Let_def)
  with identity_never_replaced [OF lawful surjective_pairing, where seed = "[9]" and priv_out = Written and pub_out = Written and data_dir = "''data''" and dir = Map.empty]
  show ?thesis by simp
qed

end
