(* ===== verification/Transfer_Server.thy ===== *)
theory Transfer_Server
  imports Transfer_Protocol Socket_IO "HOL-Library.AList"
begin

text \<open>
  The file transfer half of the server, protocol version 2 (\<^verbatim>\<open>src/server/main.cpp\<close>): uploads, downloads,
  expiry and the restart.  Connections run in parallel, so a connection is a state machine and \<^verbatim>\<open>turn\<close> is one step of
  it: up to the next message, or up to the next place where another connection can intervene.
  The folder of the server is a map from directory names to directories.  What the surroundings contribute to
  a step (the clock, random bytes, whether file operations succeed and what a failed one leaves) is the record
  \<^verbatim>\<open>io\<close>.  A confirmed download and the cleaner take a transfer off the list and remove its directory in one step; the code
  removes the directory right after it has released the lock, when nobody can find the transfer any more and no new upload can
  get the name of a directory that is there.  Log lines and the preparation of the storage folder are not modelled.
\<close>

section \<open>State\<close>

type_synonym folder = "string \<rightharpoonup> bytes"

abbreviation (input) "MAX_CONNECTIONS \<equiv> (64 :: nat)"
abbreviation (input) "TRANSFER_TTL \<equiv> (86400 :: time)"

record StoredTransfer =
  tr_header :: FileHeader
  tr_dir :: string
  tr_created :: time
  tr_reserved_bytes :: u64
  tr_downloading :: bool

record server =
  g_transfers :: "(string \<times> StoredTransfer) list"
  g_reserved_bytes :: u64
  g_storage_quota :: u64
  g_storage :: "string \<rightharpoonup> folder"

datatype file_write = Not_Opened | Partly bytes | Whole

record io =
  io_now :: time
  io_random :: "bytes option"
  io_mkdir_ok :: bool
  io_write :: file_write
  io_read_ok :: bool
  io_left :: "folder option"

section \<open>Helpers\<close>

definition generate_transfer_id :: "io \<Rightarrow> string option" where
  "generate_transfer_id io = map_option bytes_to_hex (io_random io)"

definition chunk_filename :: "u32 \<Rightarrow> string" where
  "chunk_filename index = ''chunk_'' @ pad_zeros 8 (to_string (unat index)) @ ''.bin''"

definition write_whole_file :: "file_write \<Rightarrow> string \<Rightarrow> bytes \<Rightarrow> folder \<Rightarrow> bool \<times> folder" where
  "write_whole_file outcome name data f =
    (case outcome of
       Not_Opened \<Rightarrow> (False, f)
     | Partly landed \<Rightarrow> (False, f (name \<mapsto> landed))
     | Whole \<Rightarrow> (True, f (name \<mapsto> data)))"

definition read_whole_file :: "bool \<Rightarrow> string \<Rightarrow> nat \<Rightarrow> folder \<Rightarrow> bytes option" where
  "read_whole_file ok name max_size f =
    (case f name of
       None \<Rightarrow> None
     | Some data \<Rightarrow> if length data > max_size \<or> \<not> ok then None else Some data)"

text \<open>Errors are ignored: the directory is gone, or something of it is left.\<close>

definition remove_dir_quietly :: "folder option \<Rightarrow> string \<Rightarrow> (string \<rightharpoonup> folder) \<Rightarrow> (string \<rightharpoonup> folder)" where
  "remove_dir_quietly left dir st = st (dir := left)"

definition open_dir :: "string \<Rightarrow> server \<Rightarrow> folder" where
  "open_dir dir sv = (case g_storage sv dir of None \<Rightarrow> Map.empty | Some f \<Rightarrow> f)"

definition storage_cost :: "FileHeader \<Rightarrow> nat \<Rightarrow> u64" where
  "storage_cost h header_bytes = th_file_size h + ucast (th_total_chunks h) * of_nat AEAD_TAG_SIZE + of_nat header_bytes"

section \<open>Connections\<close>

text \<open>The local variables of \<^verbatim>\<open>handle_upload\<close> once a directory is there.\<close>

record Upload =
  ul_header :: FileHeader
  ul_reserve :: u64
  ul_id :: string
  ul_received :: "bool list"
  ul_received_count :: u32

text \<open>
  Where a connection is: nothing received yet; an upload whose space is reserved; an upload receiving chunks; a
  download with the number of messages it has sent; a download waiting for the confirmation; a
  session of the mailbox relay; closed.
\<close>

datatype phase =
    Accepted
  | Reserved FileHeader bytes u64
  | Receiving Upload
  | Sending string StoredTransfer nat
  | Confirming string StoredTransfer
  | Relaying bytes
  | Closed

record connection =
  cn_phase :: phase
  cn_sent :: "WireMessage list"
  cn_room :: nat

definition say :: "message_type \<Rightarrow> bytes \<Rightarrow> connection \<Rightarrow> bool \<times> connection" where
  "say kind payload c =
    (if cn_room c = 0 then (False, c)
     else (True, c \<lparr> cn_sent := cn_sent c @ [\<lparr> wm_type = kind, wm_payload = payload \<rparr>], cn_room := cn_room c - 1 \<rparr>))"

definition say_error :: "string \<Rightarrow> connection \<Rightarrow> connection" where
  "say_error message c = snd (say ERROR_MSG (bytes_of_string message) c)"

definition close :: "connection \<Rightarrow> connection" where
  "close c = c \<lparr> cn_phase := Closed \<rparr>"

section \<open>Upload\<close>

definition upload_request :: "bytes \<Rightarrow> server \<Rightarrow> connection \<Rightarrow> server \<times> connection" where
  "upload_request header_bytes sv c =
    (case deserialize_file_header header_bytes of
       None \<Rightarrow> (sv, close (say_error ''Malformed file header (client and server versions may not match)'' c))
     | Some header \<Rightarrow>
        let problem = validate_file_header header in
        if problem \<noteq> [] then (sv, close (say_error problem c))
        else let reserve = storage_cost header (length header_bytes) in
          if g_reserved_bytes sv + reserve > g_storage_quota sv
          then (sv, close (say_error ''Relay server storage is full, try again later'' c))
          else (sv \<lparr> g_reserved_bytes := g_reserved_bytes sv + reserve \<rparr>, c \<lparr> cn_phase := Reserved header header_bytes reserve \<rparr>))"

text \<open>The scope guard \<^verbatim>\<open>cleanup\<close>.\<close>

definition upload_cleanup :: "io \<Rightarrow> u64 \<Rightarrow> string option \<Rightarrow> server \<Rightarrow> server" where
  "upload_cleanup io reserve dir sv =
    sv \<lparr> g_reserved_bytes := g_reserved_bytes sv - reserve,
         g_storage := (case dir of None \<Rightarrow> g_storage sv | Some d \<Rightarrow> remove_dir_quietly (io_left io) d (g_storage sv)) \<rparr>"

definition upload_prepare :: "io \<Rightarrow> FileHeader \<Rightarrow> bytes \<Rightarrow> u64 \<Rightarrow> server \<Rightarrow> connection \<Rightarrow> server \<times> connection" where
  "upload_prepare io header header_bytes reserve sv c =
    (case generate_transfer_id io of
       None \<Rightarrow> (upload_cleanup io reserve None sv, close (say_error ''Server could not generate a transfer ID'' c))
     | Some i \<Rightarrow>
        if \<not> io_mkdir_ok io \<or> g_storage sv i \<noteq> None
        then (upload_cleanup io reserve None sv, close (say_error ''Server storage error'' c))
        else
          let (ok, f) = write_whole_file (io_write io) ''header.bin'' header_bytes Map.empty;
              sv = sv \<lparr> g_storage := (g_storage sv) (i \<mapsto> f) \<rparr> in
          if \<not> ok then (upload_cleanup io reserve (Some i) sv, close (say_error ''Server storage error'' c))
          else
            let (ok, c) = say ACK (bytes_of_string i) c in
            if \<not> ok then (upload_cleanup io reserve (Some i) sv, close c)
            else (sv, c \<lparr> cn_phase := Receiving \<lparr> ul_header = header, ul_reserve = reserve, ul_id = i,
                    ul_received = replicate (unat (th_total_chunks header)) False, ul_received_count = 0 \<rparr> \<rparr>))"

definition upload_failed :: "io \<Rightarrow> Upload \<Rightarrow> string \<Rightarrow> server \<Rightarrow> connection \<Rightarrow> server \<times> connection" where
  "upload_failed io u message sv c =
    (upload_cleanup io (ul_reserve u) (Some (ul_id u)) sv, close (say_error message c))"

definition upload_chunk :: "io \<Rightarrow> Upload \<Rightarrow> bytes \<Rightarrow> server \<Rightarrow> connection \<Rightarrow> server \<times> connection" where
  "upload_chunk io u payload sv c =
    (case deserialize_file_chunk payload of
       None \<Rightarrow> upload_failed io u ''Malformed chunk'' sv c
     | Some chunk \<Rightarrow>
        let idx = tc_index chunk in
        if idx \<ge> th_total_chunks (ul_header u) \<or> ul_received u ! unat idx
        then upload_failed io u (''Invalid or duplicate chunk index '' @ to_string (unat idx)) sv c
        else if of_nat (length (tc_data chunk)) \<noteq> expected_chunk_plaintext_size (ul_header u) idx + of_nat AEAD_TAG_SIZE
        then upload_failed io u (''Chunk '' @ to_string (unat idx) @ '' has an unexpected size'') sv c
        else
          let (ok, f) = write_whole_file (io_write io) (chunk_filename idx) (tc_data chunk) (open_dir (ul_id u) sv);
              sv = sv \<lparr> g_storage := (g_storage sv) (ul_id u \<mapsto> f) \<rparr> in
          if \<not> ok then upload_failed io u ''Server storage error'' sv c
          else (sv, c \<lparr> cn_phase := Receiving (u \<lparr> ul_received := (ul_received u) [unat idx := True],
                  ul_received_count := ul_received_count u + 1 \<rparr>) \<rparr>))"

definition upload_done :: "io \<Rightarrow> Upload \<Rightarrow> server \<Rightarrow> connection \<Rightarrow> server \<times> connection" where
  "upload_done io u sv c =
    (if ul_received_count u \<noteq> th_total_chunks (ul_header u)
     then upload_failed io u (''Upload incomplete: received '' @ to_string (unat (ul_received_count u)) @ '' of '' @
            to_string (unat (th_total_chunks (ul_header u))) @ '' chunks'') sv c
     else (sv \<lparr> g_transfers := AList.update (ul_id u) \<lparr> tr_header = ul_header u, tr_dir = ul_id u, tr_created = io_now io,
               tr_reserved_bytes = ul_reserve u, tr_downloading = False \<rparr> (g_transfers sv) \<rparr>,
           close (snd (say ACK (bytes_of_string ''UPLOAD_COMPLETE'') c))))"

definition upload_message :: "io \<Rightarrow> WireMessage option \<Rightarrow> Upload \<Rightarrow> server \<Rightarrow> connection \<Rightarrow> server \<times> connection" where
  "upload_message io arrived u sv c =
    (case arrived of
       None \<Rightarrow> (upload_cleanup io (ul_reserve u) (Some (ul_id u)) sv, close c)
     | Some msg \<Rightarrow>
        if wm_type msg = UPLOAD_DONE then upload_done io u sv c
        else if wm_type msg \<noteq> UPLOAD_CHUNK then upload_failed io u ''Unexpected message during upload'' sv c
        else upload_chunk io u (wm_payload msg) sv c)"

section \<open>Download\<close>

text \<open>
  The wait for another download of the same transfer ends when the transfer is free or gone or when the time is up;
  this is what follows it.
\<close>

definition download_request :: "bytes \<Rightarrow> server \<Rightarrow> connection \<Rightarrow> server \<times> connection" where
  "download_request payload sv c =
    (let i = string_of_bytes payload;
         not_found = ''Transfer not found (it may have expired or already been received)'' in
     if \<not> is_lower_hex i TRANSFER_ID_HEX_LEN then (sv, close (say_error not_found c))
     else case map_of (g_transfers sv) i of
         None \<Rightarrow> (sv, close (say_error not_found c))
       | Some t \<Rightarrow>
          if tr_downloading t then (sv, close (say_error ''This transfer is already being downloaded'' c))
          else let t = t \<lparr> tr_downloading := True \<rparr> in
            (sv \<lparr> g_transfers := AList.update i t (g_transfers sv) \<rparr>, c \<lparr> cn_phase := Sending i t 0 \<rparr>))"

text \<open>The scope guard \<^verbatim>\<open>release\<close>.\<close>

definition download_release :: "string \<Rightarrow> server \<Rightarrow> server" where
  "download_release i sv =
    (case map_of (g_transfers sv) i of
       None \<Rightarrow> sv
     | Some t \<Rightarrow> sv \<lparr> g_transfers := AList.update i (t \<lparr> tr_downloading := False \<rparr>) (g_transfers sv) \<rparr>)"

text \<open>The message a download sends next, if it can be read: the header, a chunk, or the end.\<close>

definition download_next :: "io \<Rightarrow> StoredTransfer \<Rightarrow> nat \<Rightarrow> server \<Rightarrow> (message_type \<times> bytes) option" where
  "download_next io t n sv =
    (let f = open_dir (tr_dir t) sv in
     if n = 0 then map_option (Pair DOWNLOAD_HEADER) (read_whole_file (io_read_ok io) ''header.bin'' (unat MAX_HEADER_MESSAGE) f)
     else if n \<le> unat (th_total_chunks (tr_header t))
     then map_option (\<lambda>data. (DOWNLOAD_CHUNK, serialize_file_chunk \<lparr> tc_index = of_nat (n - 1), tc_data = data \<rparr>))
            (read_whole_file (io_read_ok io) (chunk_filename (of_nat (n - 1))) (unat MAX_CHUNK_SIZE + AEAD_TAG_SIZE) f)
     else Some (DOWNLOAD_DONE, []))"

definition download_send :: "io \<Rightarrow> string \<Rightarrow> StoredTransfer \<Rightarrow> nat \<Rightarrow> server \<Rightarrow> connection \<Rightarrow> server \<times> connection" where
  "download_send io i t n sv c =
    (case download_next io t n sv of
       None \<Rightarrow> (download_release i sv, close (say_error ''Server storage error'' c))
     | Some (kind, payload) \<Rightarrow>
        let (ok, c) = say kind payload c in
        if \<not> ok then (download_release i sv, close c)
        else if kind = DOWNLOAD_DONE then (sv, c \<lparr> cn_phase := Confirming i t \<rparr>)
        else (sv, c \<lparr> cn_phase := Sending i t (n + 1) \<rparr>))"

definition download_confirm :: "io \<Rightarrow> WireMessage option \<Rightarrow> string \<Rightarrow> StoredTransfer \<Rightarrow> server \<Rightarrow> connection \<Rightarrow> server \<times> connection" where
  "download_confirm io arrived i t sv c =
    (if (case arrived of None \<Rightarrow> True | Some msg \<Rightarrow> wm_type msg \<noteq> ACK) then (download_release i sv, close c)
     else
       let sv = (case map_of (g_transfers sv) i of
                   None \<Rightarrow> sv
                 | Some t' \<Rightarrow> sv \<lparr> g_transfers := AList.delete i (g_transfers sv),
                                  g_reserved_bytes := g_reserved_bytes sv - tr_reserved_bytes t' \<rparr>) in
       (sv \<lparr> g_storage := remove_dir_quietly (io_left io) (tr_dir t) (g_storage sv) \<rparr>, close c))"

section \<open>The server\<close>

definition handle_first :: "WireMessage option \<Rightarrow> server \<Rightarrow> connection \<Rightarrow> server \<times> connection" where
  "handle_first arrived sv c =
    (case arrived of
       None \<Rightarrow> (sv, close c)
     | Some first \<Rightarrow>
        if wm_type first = UPLOAD_REQUEST then upload_request (wm_payload first) sv c
        else if wm_type first = DOWNLOAD_REQUEST then download_request (wm_payload first) sv c
        else if wm_type first = RELAY_HELLO then (sv, c \<lparr> cn_phase := Relaying (wm_payload first) \<rparr>)
        else (sv, close (say_error ''Unexpected first message'' c)))"

definition turn :: "io \<Rightarrow> WireMessage option \<Rightarrow> server \<Rightarrow> connection \<Rightarrow> server \<times> connection" where
  "turn io arrived sv c =
    (case cn_phase c of
       Accepted \<Rightarrow> handle_first arrived sv c
     | Reserved header header_bytes reserve \<Rightarrow> upload_prepare io header header_bytes reserve sv c
     | Receiving u \<Rightarrow> upload_message io arrived u sv c
     | Sending i t n \<Rightarrow> download_send io i t n sv c
     | Confirming i t \<Rightarrow> download_confirm io arrived i t sv c
     | Relaying _ \<Rightarrow> (sv, close c)
     | Closed \<Rightarrow> (sv, c))"

text \<open>One round of \<^verbatim>\<open>cleanup_loop\<close>.\<close>

definition expired_transfer :: "time \<Rightarrow> StoredTransfer \<Rightarrow> bool" where
  "expired_transfer now t \<longleftrightarrow> \<not> tr_downloading t \<and> now - tr_created t > TRANSFER_TTL"

definition cleanup_once :: "time \<Rightarrow> (string \<Rightarrow> folder option) \<Rightarrow> server \<Rightarrow> server" where
  "cleanup_once now left sv =
    (let gone = filter (\<lambda>(i, t). expired_transfer now t) (g_transfers sv) in
     sv \<lparr> g_transfers := filter (\<lambda>(i, t). \<not> expired_transfer now t) (g_transfers sv),
          g_reserved_bytes := foldl (\<lambda>n (i, t). n - tr_reserved_bytes t) (g_reserved_bytes sv) gone,
          g_storage := foldl (\<lambda>st (i, t). remove_dir_quietly (left (tr_dir t)) (tr_dir t) st) (g_storage sv) gone \<rparr>)"

text \<open>
  The restart: \<^verbatim>\<open>age\<close> says how long ago a header file was written, \<^verbatim>\<open>readable\<close> whether it can be read, and
  \<^verbatim>\<open>names\<close> lists the directories in the order they are found.
\<close>

definition complete_on_disk :: "FileHeader \<Rightarrow> folder \<Rightarrow> bool" where
  "complete_on_disk h f \<longleftrightarrow> validate_file_header h = [] \<and>
     list_all (\<lambda>k. case f (chunk_filename (of_nat k)) of
         None \<Rightarrow> False
       | Some data \<Rightarrow> of_nat (length data) = expected_chunk_plaintext_size h (of_nat k) + of_nat AEAD_TAG_SIZE)
       [0..<unat (th_total_chunks h)]"

definition restore_one ::
    "time \<Rightarrow> (string \<Rightarrow> time) \<Rightarrow> (string \<Rightarrow> bool) \<Rightarrow> (string \<Rightarrow> folder option) \<Rightarrow> server \<Rightarrow> string \<Rightarrow> server" where
  "restore_one now age readable left sv i =
    (let f = open_dir i sv;
         discard = sv \<lparr> g_storage := remove_dir_quietly (left i) i (g_storage sv) \<rparr> in
     case read_whole_file (readable i) ''header.bin'' (unat MAX_HEADER_MESSAGE) f of
       None \<Rightarrow> discard
     | Some header_bytes \<Rightarrow>
        (case deserialize_file_header header_bytes of
           None \<Rightarrow> discard
         | Some header \<Rightarrow>
            if \<not> complete_on_disk header f then discard
            else if age i > TRANSFER_TTL then discard
            else let cost = storage_cost header (length header_bytes) in
              sv \<lparr> g_transfers := AList.update i \<lparr> tr_header = header, tr_dir = i, tr_created = now - age i,
                     tr_reserved_bytes = cost, tr_downloading = False \<rparr> (g_transfers sv),
                   g_reserved_bytes := g_reserved_bytes sv + cost \<rparr>))"

definition restore_transfers ::
    "time \<Rightarrow> (string \<Rightarrow> time) \<Rightarrow> (string \<Rightarrow> bool) \<Rightarrow> (string \<Rightarrow> folder option) \<Rightarrow> string list \<Rightarrow> server \<Rightarrow> server" where
  "restore_transfers now age readable left names sv =
    foldl (restore_one now age readable left) sv (filter (\<lambda>i. is_lower_hex i TRANSFER_ID_HEX_LEN) names)"

definition start_server :: "u64 \<Rightarrow> (string \<rightharpoonup> folder) \<Rightarrow> server" where
  "start_server quota st = \<lparr> g_transfers = [], g_reserved_bytes = 0, g_storage_quota = quota, g_storage = st \<rparr>"

text \<open>The start: \<^verbatim>\<open>main\<close> restores what is in the folder before it accepts anyone.\<close>

definition boot ::
    "u64 \<Rightarrow> (string \<rightharpoonup> folder) \<Rightarrow> time \<Rightarrow> (string \<Rightarrow> time) \<Rightarrow> (string \<Rightarrow> bool) \<Rightarrow> (string \<Rightarrow> folder option) \<Rightarrow> string list \<Rightarrow> server" where
  "boot quota st now age readable left names = restore_transfers now age readable left names (start_server quota st)"

text \<open>
  The server with its connections: a client is accepted unless \<^verbatim>\<open>MAX_CONNECTIONS\<close> are open, some connection takes
  its next turn, or the cleaner runs.
\<close>

definition open_connections :: "connection list \<Rightarrow> nat" where
  "open_connections cs = length (filter (\<lambda>c. cn_phase c \<noteq> Closed) cs)"

inductive server_step :: "server \<times> connection list \<Rightarrow> server \<times> connection list \<Rightarrow> bool" where
  accept: "open_connections cs < MAX_CONNECTIONS \<Longrightarrow>
    server_step (sv, cs) (sv, cs @ [\<lparr> cn_phase = Accepted, cn_sent = [], cn_room = room \<rparr>])"
| serve: "k < length cs \<Longrightarrow> turn io arrived sv (cs ! k) = (sv', c') \<Longrightarrow> server_step (sv, cs) (sv', cs [k := c'])"
| clean: "server_step (sv, cs) (cleanup_once now left sv, cs)"

inductive_cases server_stepE: "server_step (sv, cs) s'"

end
