(* ===== verification/Transfer_Server_Spec.thy ===== *)
theory Transfer_Server_Spec
  imports Transfer_Server
begin

text \<open>
  What the file transfer server promises: its accounting is exact and within the quota, or what was there at the start, every listed transfer is
  complete on disk, downloads exclude each other, what is uploaded is what is downloaded, and a restart
  finds what was stored.
\<close>

section \<open>Tables\<close>

definition keys_sum :: "('v \<Rightarrow> nat) \<Rightarrow> ('k \<times> 'v) list \<Rightarrow> nat" where
  "keys_sum g al = sum_list (map (g \<circ> snd) al)"

lemma keys_sum_simps [simp]:
  "keys_sum g [] = 0" "keys_sum g (x # al) = g (snd x) + keys_sum g al" "keys_sum g (al @ bl) = keys_sum g al + keys_sum g bl"
  by (simp_all add: keys_sum_def)

lemma keys_sum_update_new: "map_of al k = None \<Longrightarrow> keys_sum g (AList.update k v al) = keys_sum g al + g v"
  by (induction al) (auto split: if_splits)

lemma keys_sum_update: "map_of al k = Some t \<Longrightarrow> keys_sum g (AList.update k v al) + g t = keys_sum g al + g v"
  by (induction al) (auto split: if_splits)

lemma keys_sum_delete:
  "distinct (map fst al) \<Longrightarrow> map_of al k = Some t \<Longrightarrow> keys_sum g (AList.delete k al) + g t = keys_sum g al"
proof (induction al)
  case (Cons x al)
  have "fst x \<notin> fst ` set al \<Longrightarrow> AList.delete (fst x) al = al" by (simp add: AList.delete_id dom_map_of_conv_image_fst)
  with Cons show ?case by (cases x) (auto split: if_splits)
qed simp

lemma delete_update_same: "AList.delete k (AList.update k v al) = AList.delete k al"
  by (induction al) auto

lemma keys_sum_filter: "keys_sum g (filter P al) + keys_sum g (filter (\<lambda>x. \<not> P x) al) = keys_sum g al"
  by (induction al) auto

lemma map_of_filter_keys:
  "distinct (map fst al) \<Longrightarrow> map_of (filter (\<lambda>(k, v). P v) al) k = (case map_of al k of None \<Rightarrow> None | Some v \<Rightarrow> if P v then Some v else None)"
proof (induction al)
  case (Cons x al)
  have "fst x \<notin> fst ` set al \<Longrightarrow> map_of al (fst x) = None" by (simp add: map_of_eq_None_iff)
  with Cons show ?case by (cases x) (auto split: option.splits)
qed simp

section \<open>What holds at every moment\<close>

definition chunk_ok :: "FileHeader \<Rightarrow> folder \<Rightarrow> nat \<Rightarrow> bool" where
  "chunk_ok h f k \<longleftrightarrow> (\<exists>data. f (chunk_filename (of_nat k)) = Some data \<and>
     of_nat (length data) = expected_chunk_plaintext_size h (of_nat k) + of_nat AEAD_TAG_SIZE)"

lemma complete_on_disk_iff:
  "complete_on_disk h f \<longleftrightarrow> validate_file_header h = [] \<and> (\<forall>k < unat (th_total_chunks h). chunk_ok h f k)"
proof -
  have "chunk_ok h f k \<longleftrightarrow> (case f (chunk_filename (of_nat k)) of None \<Rightarrow> False
      | Some data \<Rightarrow> of_nat (length data) = expected_chunk_plaintext_size h (of_nat k) + of_nat AEAD_TAG_SIZE)" for k
    by (auto simp: chunk_ok_def split: option.splits)
  then show ?thesis by (simp add: complete_on_disk_def list_all_iff Ball_def)
qed

text \<open>The header on disk is the header in memory, and the space set aside is what it costs.\<close>

definition header_ok :: "folder \<Rightarrow> FileHeader \<Rightarrow> u64 \<Rightarrow> bool" where
  "header_ok f h reserve \<longleftrightarrow> (\<exists>hb. f ''header.bin'' = Some hb \<and> deserialize_file_header hb = Some h \<and>
     reserve = storage_cost h (length hb))"

definition stored_ok :: "(string \<rightharpoonup> folder) \<Rightarrow> string \<Rightarrow> StoredTransfer \<Rightarrow> bool" where
  "stored_ok st i t \<longleftrightarrow> tr_dir t = i \<and>
     (\<exists>f. st i = Some f \<and> header_ok f (tr_header t) (tr_reserved_bytes t) \<and> complete_on_disk (tr_header t) f)"

definition upload_ok :: "(string \<rightharpoonup> folder) \<Rightarrow> Upload \<Rightarrow> bool" where
  "upload_ok st u \<longleftrightarrow> (\<exists>f. st (ul_id u) = Some f \<and> header_ok f (ul_header u) (ul_reserve u) \<and>
     validate_file_header (ul_header u) = [] \<and> length (ul_received u) = unat (th_total_chunks (ul_header u)) \<and>
     unat (ul_received_count u) = count_list (ul_received u) True \<and>
     (\<forall>k < length (ul_received u). ul_received u ! k \<longrightarrow> chunk_ok (ul_header u) f k))"

primrec phase_held :: "phase \<Rightarrow> nat" where
  "phase_held Accepted = 0"
| "phase_held (Reserved h hb r) = unat r"
| "phase_held (Receiving u) = unat (ul_reserve u)"
| "phase_held (Sending i t n) = 0"
| "phase_held (Confirming i t) = 0"
| "phase_held (Relaying p) = 0"
| "phase_held Closed = 0"

primrec phase_uses :: "phase \<Rightarrow> string option" where
  "phase_uses Accepted = None"
| "phase_uses (Reserved h hb r) = None"
| "phase_uses (Receiving u) = Some (ul_id u)"
| "phase_uses (Sending i t n) = Some i"
| "phase_uses (Confirming i t) = Some i"
| "phase_uses (Relaying p) = None"
| "phase_uses Closed = None"

primrec phase_downloads :: "phase \<Rightarrow> string option" where
  "phase_downloads Accepted = None"
| "phase_downloads (Reserved h hb r) = None"
| "phase_downloads (Receiving u) = None"
| "phase_downloads (Sending i t n) = Some i"
| "phase_downloads (Confirming i t) = Some i"
| "phase_downloads (Relaying p) = None"
| "phase_downloads Closed = None"

primrec phase_ok :: "phase \<Rightarrow> server \<Rightarrow> bool" where
  "phase_ok Accepted sv = True"
| "phase_ok (Reserved h hb r) sv =
    (deserialize_file_header hb = Some h \<and> validate_file_header h = [] \<and> r = storage_cost h (length hb))"
| "phase_ok (Receiving u) sv = (upload_ok (g_storage sv) u \<and> map_of (g_transfers sv) (ul_id u) = None)"
| "phase_ok (Sending i t n) sv = (map_of (g_transfers sv) i = Some t \<and> tr_downloading t)"
| "phase_ok (Confirming i t) sv = (map_of (g_transfers sv) i = Some t \<and> tr_downloading t)"
| "phase_ok (Relaying p) sv = True"
| "phase_ok Closed sv = True"

abbreviation (input) "held c \<equiv> phase_held (cn_phase c)"
abbreviation (input) "uses c \<equiv> phase_uses (cn_phase c)"
abbreviation (input) "downloads c \<equiv> phase_downloads (cn_phase c)"
abbreviation (input) "stored_bytes sv \<equiv> keys_sum (\<lambda>t. unat (tr_reserved_bytes t)) (g_transfers sv)"

text \<open>
  The invariant.  The limit is the quota, or what the transfers found at the start took, if that is more: the start takes them all on.
\<close>

definition server_ok :: "nat \<Rightarrow> server \<Rightarrow> connection list \<Rightarrow> bool" where
  "server_ok lim sv cs \<longleftrightarrow> distinct (map fst (g_transfers sv)) \<and>
     unat (g_reserved_bytes sv) = stored_bytes sv + sum_list (map (\<lambda>c. held c) cs) \<and>
     unat (g_reserved_bytes sv) \<le> lim \<and> unat (g_storage_quota sv) \<le> lim \<and> lim \<le> 2 ^ 63 \<and>
     (\<forall>i t. map_of (g_transfers sv) i = Some t \<longrightarrow> stored_ok (g_storage sv) i t) \<and>
     (\<forall>i t. map_of (g_transfers sv) i = Some t \<longrightarrow> tr_downloading t \<longrightarrow> (\<exists>c\<in>set cs. downloads c = Some i)) \<and>
     (\<forall>c\<in>set cs. phase_ok (cn_phase c) sv) \<and>
     (\<forall>j<length cs. \<forall>k<length cs. uses (cs ! j) \<noteq> None \<longrightarrow> uses (cs ! j) = uses (cs ! k) \<longrightarrow> j = k)"

lemma downloads_uses: "phase_downloads p = Some i \<Longrightarrow> phase_uses p = Some i"
  by (cases p) simp_all

lemma phase_ok_frame:
  assumes "phase_ok p sv" and "\<And>j. phase_uses p = Some j \<Longrightarrow> g_storage sv' j = g_storage sv j \<and> map_of (g_transfers sv') j = map_of (g_transfers sv) j"
  shows "phase_ok p sv'"
  using assms by (cases p) (auto simp: upload_ok_def)

text \<open>
  The step from one connection to all of them: a turn that touches only the transfer \<open>x\<close>, which no other connection
  uses, and whose own books balance, keeps the invariant.
\<close>

lemma server_ok_turn:
  assumes ok: "server_ok lim sv cs" and k: "k < length cs"
    and distinct: "distinct (map fst (g_transfers sv'))"
    and quota: "g_storage_quota sv' = g_storage_quota sv" "unat (g_reserved_bytes sv') \<le> lim"
    and balance: "unat (g_reserved_bytes sv') + stored_bytes sv + held (cs ! k) = unat (g_reserved_bytes sv) + stored_bytes sv' + held c'"
    and frame: "\<And>j. x \<noteq> Some j \<Longrightarrow> g_storage sv' j = g_storage sv j \<and> map_of (g_transfers sv') j = map_of (g_transfers sv) j"
    and own: "uses (cs ! k) \<noteq> None \<Longrightarrow> x = uses (cs ! k)" "uses c' \<noteq> None \<Longrightarrow> x = uses c'"
    and others: "\<And>j. j < length cs \<Longrightarrow> j \<noteq> k \<Longrightarrow> x \<noteq> None \<Longrightarrow> uses (cs ! j) \<noteq> x"
    and here: "\<And>i t. x = Some i \<Longrightarrow> map_of (g_transfers sv') i = Some t \<Longrightarrow> stored_ok (g_storage sv') i t \<and>
      (tr_downloading t \<longrightarrow> downloads c' = Some i)"
    and phase: "phase_ok (cn_phase c') sv'"
  shows "server_ok lim sv' (cs [k := c'])"
  unfolding server_ok_def
proof (intro conjI allI impI ballI)
  note inv = ok [unfolded server_ok_def]
  show "distinct (map fst (g_transfers sv'))" by (rule distinct)
  have "sum_list (map (\<lambda>c. held c) (cs [k := c'])) + held (cs ! k) = sum_list (map (\<lambda>c. held c) cs) + held c'"
    using k elem_le_sum_list [of k "map (\<lambda>c. held c) cs"] by (simp add: map_update sum_list_update)
  with balance inv show "unat (g_reserved_bytes sv') = stored_bytes sv' + sum_list (map (\<lambda>c. held c) (cs [k := c']))"
    by linarith
  show "unat (g_reserved_bytes sv') \<le> lim" "unat (g_storage_quota sv') \<le> lim" "lim \<le> 2 ^ 63" using quota inv by simp_all
  show "stored_ok (g_storage sv') i t" if t: "map_of (g_transfers sv') i = Some t" for i t
  proof (cases "x = Some i")
    case False
    with frame [of i] t inv show ?thesis by (simp add: stored_ok_def)
  qed (use here t in blast)
  show "\<exists>c\<in>set (cs [k := c']). downloads c = Some i" if t: "map_of (g_transfers sv') i = Some t" "tr_downloading t" for i t
  proof (cases "x = Some i")
    case True
    with here t k show ?thesis by (metis set_update_memI)
  next
    case False
    then have "map_of (g_transfers sv) i = Some t" using frame [of i] t by simp
    moreover have "map_of (g_transfers sv) i = Some t \<longrightarrow> tr_downloading t \<longrightarrow> (\<exists>c\<in>set cs. downloads c = Some i)"
      using inv by blast
    ultimately obtain c where c: "c \<in> set cs" "downloads c = Some i" using t(2) by blast
    then obtain j where j: "j < length cs" "cs ! j = c" by (metis in_set_conv_nth)
    have "j \<noteq> k" using own(1) downloads_uses [OF c(2)] j False by auto
    then have "(cs [k := c']) ! j = c" using j by simp
    with c(2) j(1) show ?thesis by (metis length_list_update nth_mem)
  qed
  show "phase_ok (cn_phase c) sv'" if c: "c \<in> set (cs [k := c'])" for c
  proof (cases "c = c'")
    case False
    from c obtain j where nth: "j < length cs" "(cs [k := c']) ! j = c" by (auto simp: in_set_conv_nth)
    with False k have "j \<noteq> k" by auto
    with nth have j: "j < length cs" "j \<noteq> k" "c = cs ! j" by auto
    then have was: "phase_ok (cn_phase c) sv" using inv by simp
    have free: "x \<noteq> Some i" if "uses c = Some i" for i using others [OF j(1, 2)] j(3) that by auto
    show ?thesis by (rule phase_ok_frame [OF was]) (use frame free in blast)
  qed (use phase in simp)
  show "j = m" if jm: "j < length (cs [k := c'])" "m < length (cs [k := c'])" "uses ((cs [k := c']) ! j) \<noteq> None"
    "uses ((cs [k := c']) ! j) = uses ((cs [k := c']) ! m)" for j m
  proof (cases "j = k"; cases "m = k")
    assume "j = k" "m \<noteq> k"
    with jm own(2) others [of m] k show ?thesis by auto
  next
    assume "j \<noteq> k" "m = k"
    with jm own(2) others [of j] k show ?thesis by auto
  next
    assume "j \<noteq> k" "m \<noteq> k"
    with jm inv show ?thesis by simp
  qed simp
qed

section \<open>Space is accounted for without wrap-around\<close>

lemma serialized_header_length: "wf_FileHeader h \<Longrightarrow> length (serialize_file_header h) \<le> 20528"
  by (simp add: serialize_file_header_def write_public_fields_def wf_FileHeader_def write_u32_def write_u64_def write_blob_def
      write_bytes_def Let_def)

lemma total_chunks_bound:
  assumes "validate_file_header h = []"
  shows "unat (th_total_chunks h) \<le> 4194304"
proof (cases "th_file_size h = 0")
  case False
  have c: "4096 \<le> unat (th_chunk_size h)" "unat (th_chunk_size h) \<le> 1048576" "unat (th_file_size h) \<le> 17179869184"
    using assms by (simp_all add: valid_header_iff word_le_nat_alt)
  have "0 < unat (th_file_size h)" using False by (simp add: unat_gt_0)
  then have "(unat (th_total_chunks h) - 1) * unat (th_chunk_size h) < unat (th_file_size h)"
    using round_up(2) [of "unat (th_chunk_size h)" "unat (th_file_size h)"] c False by (simp add: total_chunks_nat [OF assms])
  then have "(unat (th_total_chunks h) - 1) * 4096 < 17179869184"
    using c mult_le_mono2 [OF c(1), of "unat (th_total_chunks h) - 1"] by linarith
  then show ?thesis by linarith
qed (use total_chunks_nat [OF assms] in simp)

lemma storage_cost_nat:
  assumes "deserialize_file_header hb = Some h" and "validate_file_header h = []"
  shows "unat (storage_cost h (length hb)) = unat (th_file_size h) + unat (th_total_chunks h) * 16 + length hb"
    and "unat (storage_cost h (length hb)) < 2 ^ 36"
proof -
  have hb: "length hb \<le> 20528" using assms(1) serialized_header_length by (auto simp: deserialize_file_header_iff)
  have f: "unat (th_file_size h) \<le> 17179869184" using assms(2) by (simp add: valid_header_iff word_le_nat_alt)
  note n = total_chunks_bound [OF assms(2)]
  have m: "unat (ucast (th_total_chunks h) * 16 :: u64) = unat (th_total_chunks h) * 16"
    using n by (subst unat_mult_lem [THEN iffD1]) auto
  have a: "unat (th_file_size h + ucast (th_total_chunks h) * 16) = unat (th_file_size h) + unat (th_total_chunks h) * 16"
    using n f m by (subst unat_add_lem [THEN iffD1]) auto
  have l: "unat (of_nat (length hb) :: u64) = length hb" using hb by (simp add: unat_of_nat)
  show eq: "unat (storage_cost h (length hb)) = unat (th_file_size h) + unat (th_total_chunks h) * 16 + length hb"
    unfolding storage_cost_def using n f hb a l by (subst unat_add_lem [THEN iffD1]) auto
  show "unat (storage_cost h (length hb)) < 2 ^ 36" unfolding eq using n f hb by simp
qed

section \<open>Every turn keeps the invariant\<close>

lemma say_keeps [simp]: "cn_phase (snd (say kind payload c)) = cn_phase c" "cn_phase (say_error m c) = cn_phase c" "cn_phase (close c) = Closed"
  by (simp_all add: say_def say_error_def close_def)

text \<open>A turn that does nothing to the server and does not change what the connection holds.\<close>

lemma server_ok_idle:
  assumes "server_ok lim sv cs" and "k < length cs" and "held c' = held (cs ! k)" and "uses (cs ! k) = None" and "uses c' = None"
    and "phase_ok (cn_phase c') sv"
  shows "server_ok lim sv (cs [k := c'])"
  by (rule server_ok_turn [OF assms(1, 2), of sv c' None]) (use assms in \<open>auto simp: server_ok_def\<close>)

lemma server_ok_connD: "server_ok lim sv cs \<Longrightarrow> k < length cs \<Longrightarrow> phase_ok (cn_phase (cs ! k)) sv"
  by (simp add: server_ok_def)

lemma server_ok_limit: "server_ok lim sv cs \<Longrightarrow> unat (g_reserved_bytes sv) \<le> lim"
  by (simp add: server_ok_def)

lemma held_reserved: "server_ok lim sv cs \<Longrightarrow> k < length cs \<Longrightarrow> held (cs ! k) + stored_bytes sv \<le> unat (g_reserved_bytes sv)"
  using elem_le_sum_list [of k "map (\<lambda>c. held c) cs"] by (simp add: server_ok_def)

lemma server_ok_others:
  assumes "server_ok lim sv cs" and "k < length cs" and "uses (cs ! k) = Some i" and "j < length cs" "j \<noteq> k"
  shows "uses (cs ! j) \<noteq> Some i"
proof
  assume "uses (cs ! j) = Some i"
  then have "j = k" using assms unfolding server_ok_def by (metis option.distinct(1))
  with \<open>j \<noteq> k\<close> show False ..
qed

lemma unat_diff_le: "(n :: 'a :: len word) \<le> m \<Longrightarrow> unat (m - n) = unat m - unat n"
  by (rule unat_sub)

lemma upload_request_ok:
  assumes ok: "server_ok lim sv cs" and k: "k < length cs" and ph: "cn_phase (cs ! k) = Accepted"
    and turn: "upload_request hb sv (cs ! k) = (sv', c')"
  shows "server_ok lim sv' (cs [k := c'])"
proof (cases "\<exists>h. deserialize_file_header hb = Some h \<and> validate_file_header h = [] \<and>
    g_reserved_bytes sv + storage_cost h (length hb) \<le> g_storage_quota sv")
  case False
  then have "sv' = sv \<and> cn_phase c' = Closed"
    using turn by (auto simp: upload_request_def Let_def split: option.splits if_splits)
  then show ?thesis using server_ok_idle [OF ok k, of c'] ph by simp
next
  case True
  then obtain h where h: "deserialize_file_header hb = Some h" "validate_file_header h = []"
    and fits: "g_reserved_bytes sv + storage_cost h (length hb) \<le> g_storage_quota sv" by blast
  let ?r = "storage_cost h (length hb)"
  have "unat (g_reserved_bytes sv) \<le> 2 ^ 63" using ok by (auto simp: server_ok_def word_le_nat_alt)
  then have add: "unat (g_reserved_bytes sv + ?r) = unat (g_reserved_bytes sv) + unat ?r"
    using storage_cost_nat(2) [OF h] by (subst unat_add_lem [THEN iffD1]) auto
  have "sv' = sv \<lparr> g_reserved_bytes := g_reserved_bytes sv + ?r \<rparr>" "c' = (cs ! k) \<lparr> cn_phase := Reserved h hb ?r \<rparr>"
    using turn h fits by (auto simp: upload_request_def Let_def split: if_splits)
  moreover have "unat (g_reserved_bytes sv + ?r) \<le> lim" using fits ok by (simp add: server_ok_def word_le_nat_alt)
  ultimately show ?thesis using add h ok ph
    by (intro server_ok_turn [OF ok k, of _ _ None]) (auto simp: server_ok_def)
qed

text \<open>Giving back what a connection has reserved, with the directory it may have begun.\<close>

lemma server_ok_give_back:
  assumes ok: "server_ok lim sv cs" and k: "k < length cs" and held: "held (cs ! k) = unat r" and c': "cn_phase c' = Closed"
    and own: "uses (cs ! k) \<noteq> None \<Longrightarrow> x = uses (cs ! k)"
    and others: "\<And>j. j < length cs \<Longrightarrow> j \<noteq> k \<Longrightarrow> x \<noteq> None \<Longrightarrow> uses (cs ! j) \<noteq> x"
    and unlisted: "\<And>i. x = Some i \<Longrightarrow> map_of (g_transfers sv) i = None"
    and frame: "\<And>j. x \<noteq> Some j \<Longrightarrow> st j = g_storage sv j"
  shows "server_ok lim (sv \<lparr> g_reserved_bytes := g_reserved_bytes sv - r, g_storage := st \<rparr>) (cs [k := c'])"
proof -
  have le: "unat r + stored_bytes sv \<le> unat (g_reserved_bytes sv)" using held_reserved [OF ok k] held by simp
  then have sub: "unat (g_reserved_bytes sv - r) = unat (g_reserved_bytes sv) - unat r"
    by (intro unat_diff_le) (simp add: word_le_nat_alt)
  then have quota: "unat (g_reserved_bytes sv - r) \<le> lim" using server_ok_limit [OF ok] by simp
  show ?thesis
  proof (rule server_ok_turn [OF ok k, of _ _ x])
    show "distinct (map fst (g_transfers (sv \<lparr> g_reserved_bytes := g_reserved_bytes sv - r, g_storage := st \<rparr>)))"
      using ok by (simp add: server_ok_def)
  qed (use sub quota le held c' own others unlisted frame in auto)
qed

lemma upload_cleanup_reserved:
  assumes ok: "server_ok lim sv cs" and k: "k < length cs" and ph: "cn_phase (cs ! k) = Reserved h hb r" and c': "cn_phase c' = Closed"
  shows "server_ok lim (upload_cleanup io r None sv) (cs [k := c'])"
  using server_ok_give_back [OF ok k _ c', of r None "g_storage sv"] ph by (simp add: upload_cleanup_def)

lemma upload_cleanup_receiving:
  assumes ok: "server_ok lim sv cs" and k: "k < length cs" and ph: "cn_phase (cs ! k) = Receiving u" and c': "cn_phase c' = Closed"
    and sv': "sv' = sv \<lparr> g_storage := (g_storage sv) (ul_id u := d) \<rparr>"
  shows "server_ok lim (upload_cleanup io (ul_reserve u) (Some (ul_id u)) sv') (cs [k := c'])"
  unfolding upload_cleanup_def sv' remove_dir_quietly_def
  using server_ok_give_back [OF ok k _ c', of "ul_reserve u" "Some (ul_id u)" "(g_storage sv) (ul_id u := io_left io)"] ph
    server_ok_others [OF ok k] server_ok_connD [OF ok k] by simp

lemma chunk_filename_inject [simp]: "chunk_filename i = chunk_filename j \<longleftrightarrow> i = j"
  by (simp add: chunk_filename_def word_unat_eq_iff)

lemma chunk_filename_header [simp]: "chunk_filename i \<noteq> ''header.bin''" "''header.bin'' \<noteq> chunk_filename i"
  by (simp_all add: chunk_filename_def)

text \<open>No connection and no transfer uses a directory that is not there.\<close>

lemma uses_exists:
  assumes "server_ok lim sv cs" and "j < length cs" and "uses (cs ! j) = Some i"
  shows "g_storage sv i \<noteq> None"
proof -
  have "phase_ok (cn_phase (cs ! j)) sv" by (rule server_ok_connD [OF assms(1, 2)])
  moreover have "map_of (g_transfers sv) i = Some t \<Longrightarrow> g_storage sv i \<noteq> None" for t
    using assms(1) by (fastforce simp: server_ok_def stored_ok_def)
  ultimately show ?thesis using assms(3) by (cases "cn_phase (cs ! j)") (auto simp: upload_ok_def)
qed

lemma fresh_unused: "server_ok lim sv cs \<Longrightarrow> g_storage sv i = None \<Longrightarrow> j < length cs \<Longrightarrow> uses (cs ! j) \<noteq> Some i"
  using uses_exists by blast

lemma transfer_exists: "server_ok lim sv cs \<Longrightarrow> g_storage sv i = None \<Longrightarrow> map_of (g_transfers sv) i = None"
  by (rule ccontr) (fastforce simp: server_ok_def stored_ok_def)

lemma upload_prepare_ok:
  assumes ok: "server_ok lim sv cs" and k: "k < length cs" and ph: "cn_phase (cs ! k) = Reserved h hb r"
    and turn: "upload_prepare io h hb r sv (cs ! k) = (sv', c')"
  shows "server_ok lim sv' (cs [k := c'])"
proof -
  have hb: "deserialize_file_header hb = Some h" "validate_file_header h = []" "r = storage_cost h (length hb)"
    using server_ok_connD [OF ok k] ph by auto
  consider (failed) "sv' = upload_cleanup io r None sv" "cn_phase c' = Closed"
    | (half) i f where "g_storage sv i = None" "sv' = upload_cleanup io r (Some i) (sv \<lparr> g_storage := (g_storage sv) (i \<mapsto> f) \<rparr>)" "cn_phase c' = Closed"
    | (ready) i where "g_storage sv i = None" "sv' = sv \<lparr> g_storage := (g_storage sv) (i \<mapsto> [''header.bin'' \<mapsto> hb]) \<rparr>"
        "cn_phase c' = Receiving \<lparr> ul_header = h, ul_reserve = r, ul_id = i, ul_received = replicate (unat (th_total_chunks h)) False,
           ul_received_count = 0 \<rparr>"
    using turn by (auto simp: upload_prepare_def Let_def split: option.splits if_splits prod.splits)
      (auto simp: write_whole_file_def split: file_write.splits)
  then show ?thesis
  proof cases
    case failed
    then show ?thesis using upload_cleanup_reserved [OF ok k ph] by simp
  next
    case half
    then show ?thesis
      using server_ok_give_back [OF ok k _ half(3), of r "Some i" "(g_storage sv) (i := io_left io)"] ph fresh_unused [OF ok half(1)]
        transfer_exists [OF ok half(1)]
      by (simp add: upload_cleanup_def remove_dir_quietly_def)
  next
    case ready
    have "upload_ok (g_storage sv') \<lparr> ul_header = h, ul_reserve = r, ul_id = i, ul_received = replicate (unat (th_total_chunks h)) False,
           ul_received_count = 0 \<rparr>"
      using ready hb by (auto simp: upload_ok_def header_ok_def count_list_0_iff)
    then show ?thesis
      using ready ok ph fresh_unused [OF ok ready(1)] transfer_exists [OF ok ready(1)]
      by (intro server_ok_turn [OF ok k, of _ _ "Some i"]) (auto simp: server_ok_def)
  qed
qed

lemma count_list_update: "k < length xs \<Longrightarrow> \<not> xs ! k \<Longrightarrow> count_list (xs [k := True]) True = count_list xs True + 1"
  by (induction xs arbitrary: k) (auto simp: nth_Cons split: nat.splits)

lemma count_list_all: "count_list xs True = length xs \<Longrightarrow> k < length xs \<Longrightarrow> xs ! k"
proof (induction xs arbitrary: k)
  case (Cons x xs)
  moreover have "count_list xs True \<le> length xs" by (rule count_le_length)
  ultimately show ?case by (auto simp: nth_Cons split: nat.splits if_splits)
qed simp

lemma upload_ok_chunk:
  assumes u: "upload_ok st u" and idx: "idx < th_total_chunks (ul_header u)" "\<not> ul_received u ! unat idx"
    and size: "of_nat (length data) = expected_chunk_plaintext_size (ul_header u) idx + of_nat AEAD_TAG_SIZE"
    and f: "st (ul_id u) = Some f"
  shows "upload_ok (st (ul_id u \<mapsto> f (chunk_filename idx \<mapsto> data)))
    (u \<lparr> ul_received := (ul_received u) [unat idx := True], ul_received_count := ul_received_count u + 1 \<rparr>)"
proof -
  from u f have hd: "header_ok f (ul_header u) (ul_reserve u)" "validate_file_header (ul_header u) = []"
    and len: "length (ul_received u) = unat (th_total_chunks (ul_header u))"
    and cnt: "unat (ul_received_count u) = count_list (ul_received u) True"
    and got: "\<And>k. k < length (ul_received u) \<Longrightarrow> ul_received u ! k \<Longrightarrow> chunk_ok (ul_header u) f k"
    by (auto simp: upload_ok_def)
  have i: "unat idx < length (ul_received u)" using idx(1) len by (simp add: word_less_nat_alt)
  have "count_list ((ul_received u) [unat idx := True]) True \<le> length (ul_received u)"
    using count_le_length [of "(ul_received u) [unat idx := True]" True] by simp
  then have "unat (ul_received_count u) + 1 \<le> unat (th_total_chunks (ul_header u))"
    using count_list_update [OF i idx(2)] cnt len by simp
  also have "\<dots> < 2 ^ LENGTH(32)" by (rule unsigned_less)
  finally have "unat (ul_received_count u + 1) = unat (ul_received_count u) + 1"
    by (subst unat_add_lem [THEN iffD1]) auto
  moreover have "chunk_ok (ul_header u) (f (chunk_filename idx \<mapsto> data)) k"
    if k: "k < length (ul_received u)" "(ul_received u) [unat idx := True] ! k" for k
  proof (cases "k = unat idx")
    case True
    then show ?thesis using size by (simp add: chunk_ok_def)
  next
    case False
    have "unat (th_total_chunks (ul_header u)) < 2 ^ LENGTH(32)" by (rule unsigned_less)
    then have "k < 2 ^ LENGTH(32)" using k(1) len by linarith
    then have "unat (of_nat k :: u32) = k" by (simp add: unat_of_nat)
    then have "(of_nat k :: u32) \<noteq> idx" using False by auto
    then show ?thesis using got k False by (simp add: chunk_ok_def)
  qed
  ultimately show ?thesis using hd len cnt count_list_update [OF i idx(2)] by (simp add: upload_ok_def header_ok_def)
qed

lemma upload_ok_complete:
  assumes "upload_ok st u" and "ul_received_count u = th_total_chunks (ul_header u)"
  shows "stored_ok st (ul_id u) \<lparr> tr_header = ul_header u, tr_dir = ul_id u, tr_created = now,
    tr_reserved_bytes = ul_reserve u, tr_downloading = b \<rparr>"
  using assms count_list_all [of "ul_received u"] by (auto simp: upload_ok_def stored_ok_def complete_on_disk_iff)

lemma upload_failed_ok:
  assumes "server_ok lim sv cs" and "k < length cs" and "cn_phase (cs ! k) = Receiving u"
    and "upload_failed io u m (sv \<lparr> g_storage := (g_storage sv) (ul_id u := d) \<rparr>) (cs ! k) = (sv', c')"
  shows "server_ok lim sv' (cs [k := c'])"
  using upload_cleanup_receiving [OF assms(1-3), of c'] assms(4) by (auto simp: upload_failed_def)

lemma upload_ok_dir: "upload_ok (g_storage sv) u \<Longrightarrow> g_storage sv (ul_id u) = Some (open_dir (ul_id u) sv)"
  by (auto simp: upload_ok_def open_dir_def)

lemma storage_same: "sv \<lparr> g_storage := (g_storage sv) (i := g_storage sv i) \<rparr> = sv"
  by simp

lemma upload_chunk_ok:
  assumes ok: "server_ok lim sv cs" and k: "k < length cs" and ph: "cn_phase (cs ! k) = Receiving u"
    and turn: "upload_chunk io u payload sv (cs ! k) = (sv', c')"
  shows "server_ok lim sv' (cs [k := c'])"
proof -
  have u: "upload_ok (g_storage sv) u" "map_of (g_transfers sv) (ul_id u) = None" using server_ok_connD [OF ok k] ph by auto
  let ?f = "open_dir (ul_id u) sv"
  consider (failed) m d where "upload_failed io u m (sv \<lparr> g_storage := (g_storage sv) (ul_id u := d) \<rparr>) (cs ! k) = (sv', c')"
    | (kept) idx data where "idx < th_total_chunks (ul_header u)" "\<not> ul_received u ! unat idx"
        "of_nat (length data) = expected_chunk_plaintext_size (ul_header u) idx + of_nat AEAD_TAG_SIZE"
        "sv' = sv \<lparr> g_storage := (g_storage sv) (ul_id u \<mapsto> ?f (chunk_filename idx \<mapsto> data)) \<rparr>"
        "cn_phase c' = Receiving (u \<lparr> ul_received := (ul_received u) [unat idx := True], ul_received_count := ul_received_count u + 1 \<rparr>)"
  proof (cases "deserialize_file_chunk payload")
    case None
    then have "upload_failed io u ''Malformed chunk'' sv (cs ! k) = (sv', c')" using turn by (simp add: upload_chunk_def)
    with failed [of _ "g_storage sv (ul_id u)"] show ?thesis by (simp add: storage_same)
  next
    case (Some chunk)
    let ?idx = "tc_index chunk"
    obtain b f where w: "write_whole_file (io_write io) (chunk_filename ?idx) (tc_data chunk) ?f = (b, f)" by force
    show ?thesis
    proof (cases "?idx \<ge> th_total_chunks (ul_header u) \<or> ul_received u ! unat ?idx \<or>
        of_nat (length (tc_data chunk)) \<noteq> expected_chunk_plaintext_size (ul_header u) ?idx + of_nat AEAD_TAG_SIZE")
      case True
      then obtain m where "upload_failed io u m sv (cs ! k) = (sv', c')"
        using turn Some by (auto simp: upload_chunk_def Let_def split: if_splits)
      with failed [of _ "g_storage sv (ul_id u)"] show ?thesis by (simp add: storage_same)
    next
      case False
      let ?sv = "sv \<lparr> g_storage := (g_storage sv) (ul_id u \<mapsto> f) \<rparr>"
      let ?u = "u \<lparr> ul_received := (ul_received u) [unat ?idx := True], ul_received_count := ul_received_count u + 1 \<rparr>"
      from False have good: "?idx < th_total_chunks (ul_header u)" "\<not> ul_received u ! unat ?idx"
        "of_nat (length (tc_data chunk)) = expected_chunk_plaintext_size (ul_header u) ?idx + of_nat AEAD_TAG_SIZE"
        by (simp_all add: not_le)
      have res: "(sv', c') = (if \<not> b then upload_failed io u ''Server storage error'' ?sv (cs ! k) else (?sv, (cs ! k) \<lparr> cn_phase := Receiving ?u \<rparr>))"
        unfolding turn [symmetric] upload_chunk_def Some option.case Let_def w prod.case using good good(1) [THEN less_le_not_le [THEN iffD1]] by simp
      show ?thesis
      proof (cases b)
        case False
        with res failed [of "''Server storage error''" "Some f"] show ?thesis by simp
      next
        case True
        then have "f = ?f (chunk_filename ?idx \<mapsto> tc_data chunk)" using w by (simp add: write_whole_file_def split: file_write.splits)
        with True res show ?thesis by (intro kept [OF good]) simp_all
      qed
    qed
  qed
  then show ?thesis
  proof cases
    case failed
    then show ?thesis by (rule upload_failed_ok [OF ok k ph])
  next
    case kept
    have "upload_ok (g_storage sv') (u \<lparr> ul_received := (ul_received u) [unat idx := True], ul_received_count := ul_received_count u + 1 \<rparr>)"
      using upload_ok_chunk [OF u(1) kept(1-3) upload_ok_dir [OF u(1)]] kept(4) by simp
    then show ?thesis
      using kept(4, 5) ok ph u server_ok_others [OF ok k]
      by (intro server_ok_turn [OF ok k, of _ _ "Some (ul_id u)"]) (auto simp: server_ok_def)
  qed
qed

lemma upload_done_ok:
  assumes ok: "server_ok lim sv cs" and k: "k < length cs" and ph: "cn_phase (cs ! k) = Receiving u"
    and turn: "upload_done io u sv (cs ! k) = (sv', c')"
  shows "server_ok lim sv' (cs [k := c'])"
proof (cases "ul_received_count u = th_total_chunks (ul_header u)")
  case False
  then show ?thesis using turn upload_failed_ok [OF ok k ph, of io _ "g_storage sv (ul_id u)"] by (simp add: upload_done_def storage_same)
next
  case True
  have u: "upload_ok (g_storage sv) u" "map_of (g_transfers sv) (ul_id u) = None" using server_ok_connD [OF ok k] ph by auto
  let ?t = "\<lparr> tr_header = ul_header u, tr_dir = ul_id u, tr_created = io_now io, tr_reserved_bytes = ul_reserve u, tr_downloading = False \<rparr>"
  have "sv' = sv \<lparr> g_transfers := AList.update (ul_id u) ?t (g_transfers sv) \<rparr>" "cn_phase c' = Closed"
    using turn True by (auto simp: upload_done_def)
  then show ?thesis
    using ok ph u upload_ok_complete [OF u(1) True] server_ok_others [OF ok k]
    by (intro server_ok_turn [OF ok k, of _ _ "Some (ul_id u)"])
      (auto simp: server_ok_def keys_sum_update_new AList.update_conv' AList.distinct_update)
qed

lemma upload_message_ok:
  assumes ok: "server_ok lim sv cs" and k: "k < length cs" and ph: "cn_phase (cs ! k) = Receiving u"
    and turn: "upload_message io arrived u sv (cs ! k) = (sv', c')"
  shows "server_ok lim sv' (cs [k := c'])"
proof (cases arrived)
  case None
  then show ?thesis using turn upload_cleanup_receiving [OF ok k ph, of c' sv "g_storage sv (ul_id u)"]
    by (auto simp: upload_message_def storage_same)
next
  case (Some msg)
  then show ?thesis using turn upload_done_ok [OF ok k ph] upload_chunk_ok [OF ok k ph]
      upload_failed_ok [OF ok k ph, of io _ "g_storage sv (ul_id u)"]
    by (auto simp: upload_message_def storage_same split: if_splits)
qed

lemma free_unused:
  assumes "server_ok lim sv cs" and "map_of (g_transfers sv) i = Some t" and "\<not> tr_downloading t" and "j < length cs"
  shows "uses (cs ! j) \<noteq> Some i"
  using server_ok_connD [OF assms(1, 4)] assms(2, 3) by (cases "cn_phase (cs ! j)") auto

lemma server_ok_transferD: "server_ok lim sv cs \<Longrightarrow> map_of (g_transfers sv) i = Some t \<Longrightarrow> stored_ok (g_storage sv) i t"
  by (simp add: server_ok_def)

lemma server_ok_listed: "server_ok lim sv cs \<Longrightarrow> distinct (map fst (g_transfers sv))" "server_ok lim sv cs \<Longrightarrow> unat (g_reserved_bytes sv) \<le> lim"
  by (simp_all add: server_ok_def)

lemma keys_sum_flag:
  "map_of al i = Some t \<Longrightarrow> keys_sum (\<lambda>t. unat (tr_reserved_bytes t)) (AList.update i (t \<lparr> tr_downloading := b \<rparr>) al) =
   keys_sum (\<lambda>t. unat (tr_reserved_bytes t)) al"
  using keys_sum_update [of al i t "\<lambda>t. unat (tr_reserved_bytes t)" "t \<lparr> tr_downloading := b \<rparr>"] by simp

text \<open>Marking or unmarking a transfer that only this connection uses.\<close>

lemma server_ok_flag:
  assumes ok: "server_ok lim sv cs" and k: "k < length cs" and t: "map_of (g_transfers sv) i = Some t"
    and held: "held (cs ! k) = 0" "held c' = 0" and own: "uses (cs ! k) \<noteq> None \<Longrightarrow> uses (cs ! k) = Some i"
    and others: "\<And>j. j < length cs \<Longrightarrow> j \<noteq> k \<Longrightarrow> uses (cs ! j) \<noteq> Some i"
    and c': "uses c' \<noteq> None \<Longrightarrow> uses c' = Some i" "b \<Longrightarrow> downloads c' = Some i"
      "phase_ok (cn_phase c') (sv \<lparr> g_transfers := AList.update i (t \<lparr> tr_downloading := b \<rparr>) (g_transfers sv) \<rparr>)"
  shows "server_ok lim (sv \<lparr> g_transfers := AList.update i (t \<lparr> tr_downloading := b \<rparr>) (g_transfers sv) \<rparr>) (cs [k := c'])"
proof -
  have "stored_ok (g_storage sv) i (t \<lparr> tr_downloading := b \<rparr>)" using server_ok_transferD [OF ok t] by (simp add: stored_ok_def)
  then show ?thesis
    using server_ok_listed [OF ok] keys_sum_flag [OF t, of b] held own others c'
    by (intro server_ok_turn [OF ok k, of _ _ "Some i"]) (auto simp: AList.update_conv' AList.distinct_update)
qed

lemma download_release_ok:
  assumes ok: "server_ok lim sv cs" and k: "k < length cs" and ph: "downloads (cs ! k) = Some i" and c': "cn_phase c' = Closed"
  shows "server_ok lim (download_release i sv) (cs [k := c'])"
proof -
  have u: "uses (cs ! k) = Some i" by (rule downloads_uses [OF ph])
  from server_ok_connD [OF ok k] ph obtain t where t: "map_of (g_transfers sv) i = Some t"
    by (cases "cn_phase (cs ! k)") auto
  have "held (cs ! k) = 0" using ph by (cases "cn_phase (cs ! k)") auto
  then show ?thesis
    using server_ok_flag [OF ok k t, of c' False] server_ok_others [OF ok k u] u c' t by (simp add: download_release_def)
qed

lemma download_request_ok:
  assumes ok: "server_ok lim sv cs" and k: "k < length cs" and ph: "cn_phase (cs ! k) = Accepted"
    and turn: "download_request payload sv (cs ! k) = (sv', c')"
  shows "server_ok lim sv' (cs [k := c'])"
proof -
  let ?i = "string_of_bytes payload"
  show ?thesis
  proof (cases "is_lower_hex ?i TRANSFER_ID_HEX_LEN \<and> (\<exists>t. map_of (g_transfers sv) ?i = Some t \<and> \<not> tr_downloading t)")
    case False
    then have "sv' = sv \<and> cn_phase c' = Closed"
      using turn by (auto simp: download_request_def Let_def split: if_splits option.splits)
    then show ?thesis using server_ok_idle [OF ok k, of c'] ph by simp
  next
    case True
    then obtain t where t: "map_of (g_transfers sv) ?i = Some t" "\<not> tr_downloading t" by blast
    let ?sv = "sv \<lparr> g_transfers := AList.update ?i (t \<lparr> tr_downloading := True \<rparr>) (g_transfers sv) \<rparr>"
    have sv': "sv' = ?sv" and c': "cn_phase c' = Sending ?i (t \<lparr> tr_downloading := True \<rparr>) 0"
      using t True turn by (auto simp: download_request_def Let_def)
    have "phase_ok (cn_phase c') ?sv" unfolding c' by (simp add: AList.update_conv')
    then show ?thesis unfolding sv'
      by (intro server_ok_flag [OF ok k t(1)] free_unused [OF ok t]) (simp_all add: c' ph)
  qed
qed

lemma download_send_ok:
  assumes ok: "server_ok lim sv cs" and k: "k < length cs" and ph: "cn_phase (cs ! k) = Sending i t n"
    and turn: "download_send io i t n sv (cs ! k) = (sv', c')"
  shows "server_ok lim sv' (cs [k := c'])"
proof -
  consider "sv' = download_release i sv" "cn_phase c' = Closed"
    | "sv' = sv" "cn_phase c' = Confirming i t \<or> cn_phase c' = Sending i t (n + 1)"
    using turn by (auto simp: download_send_def Let_def split: option.splits if_splits prod.splits)
  then show ?thesis
  proof cases
    case 1
    then show ?thesis using download_release_ok [OF ok k] ph by simp
  next
    case 2
    have "map_of (g_transfers sv) i = Some t" "tr_downloading t" using server_ok_connD [OF ok k] ph by auto
    then show ?thesis
      using 2 ph server_ok_transferD [OF ok] server_ok_listed [OF ok] server_ok_others [OF ok k, of i]
      by (intro server_ok_turn [OF ok k, of _ _ "Some i"]) auto
  qed
qed

lemma download_confirm_ok:
  assumes ok: "server_ok lim sv cs" and k: "k < length cs" and ph: "cn_phase (cs ! k) = Confirming i t"
    and turn: "download_confirm io arrived i t sv (cs ! k) = (sv', c')"
  shows "server_ok lim sv' (cs [k := c'])"
proof -
  have t: "map_of (g_transfers sv) i = Some t" "tr_downloading t" using server_ok_connD [OF ok k] ph by auto
  have dir: "tr_dir t = i" using server_ok_transferD [OF ok t(1)] by (simp add: stored_ok_def)
  have c': "cn_phase c' = Closed" using turn by (auto simp: download_confirm_def Let_def split: if_splits)
  have del: "stored_bytes (sv \<lparr> g_transfers := AList.delete i (g_transfers sv) \<rparr>) + unat (tr_reserved_bytes t) = stored_bytes sv"
    using keys_sum_delete [OF server_ok_listed(1) [OF ok] t(1)] by simp
  moreover have "stored_bytes sv \<le> unat (g_reserved_bytes sv)" using held_reserved [OF ok k] by simp
  ultimately have sub: "unat (g_reserved_bytes sv - tr_reserved_bytes t) = unat (g_reserved_bytes sv) - unat (tr_reserved_bytes t)"
    and le: "unat (tr_reserved_bytes t) \<le> unat (g_reserved_bytes sv)"
    by (auto intro!: unat_diff_le simp: word_le_nat_alt)
  then have quota: "unat (g_reserved_bytes sv - tr_reserved_bytes t) \<le> lim"
    using server_ok_limit [OF ok] by simp
  consider "sv' = download_release i sv"
    | "sv' = sv \<lparr> g_transfers := AList.delete i (g_transfers sv), g_reserved_bytes := g_reserved_bytes sv - tr_reserved_bytes t,
          g_storage := (g_storage sv) (i := io_left io) \<rparr>"
    using turn t(1) dir by (auto simp: download_confirm_def Let_def remove_dir_quietly_def split: if_splits)
  then show ?thesis
  proof cases
    case 1
    then show ?thesis using download_release_ok [OF ok k _ c'] ph by simp
  next
    case 2
    then show ?thesis
      using c' ph server_ok_listed [OF ok] server_ok_others [OF ok k, of i] del sub le quota
      by (intro server_ok_turn [OF ok k, of _ _ "Some i"]) (auto simp: AList.delete_conv' AList.distinct_delete)
  qed
qed

lemma turn_ok:
  assumes ok: "server_ok lim sv cs" and k: "k < length cs" and turn: "turn io arrived sv (cs ! k) = (sv', c')"
  shows "server_ok lim sv' (cs [k := c'])"
proof (cases "cn_phase (cs ! k)")
  case Accepted
  have "handle_first arrived sv (cs ! k) = (sv', c')" using turn Accepted by (simp add: turn_def)
  then consider payload where "upload_request payload sv (cs ! k) = (sv', c')" | payload where "download_request payload sv (cs ! k) = (sv', c')"
    | "sv' = sv" "cn_phase c' = Closed \<or> (\<exists>p. cn_phase c' = Relaying p)"
    by (auto simp: handle_first_def split: option.splits if_splits)
  then show ?thesis
  proof cases
    case 3
    then show ?thesis using server_ok_idle [OF ok k, of c'] Accepted by auto
  qed (use upload_request_ok [OF ok k Accepted] download_request_ok [OF ok k Accepted] in blast)+
next
  case (Relaying p)
  then have "sv' = sv" "cn_phase c' = Closed" using turn by (auto simp: turn_def)
  then show ?thesis using server_ok_idle [OF ok k, of c'] Relaying by simp
next
  case Closed
  then show ?thesis using turn ok by (auto simp: turn_def)
qed (use turn upload_prepare_ok [OF ok k] upload_message_ok [OF ok k] download_send_ok [OF ok k] download_confirm_ok [OF ok k] in
    \<open>simp_all add: turn_def\<close>)

section \<open>Expiry\<close>

lemma unat_foldl_minus:
  "keys_sum (\<lambda>t. unat (g t)) al \<le> unat n \<Longrightarrow>
   unat (foldl (\<lambda>n (i, t). n - g t) (n :: 'a :: len word) al) = unat n - keys_sum (\<lambda>t. unat (g t)) al"
proof (induction al arbitrary: n)
  case (Cons x al)
  then have "unat (n - g (snd x)) = unat n - unat (g (snd x))" by (intro unat_diff_le) (simp add: word_le_nat_alt)
  with Cons show ?case by (simp add: split_def)
qed simp

lemma foldl_remove_dirs:
  "j \<notin> tr_dir ` snd ` set al \<Longrightarrow> foldl (\<lambda>st (i, t). remove_dir_quietly (left (tr_dir t)) (tr_dir t) st) st al j = st j"
  by (induction al arbitrary: st) (auto simp: remove_dir_quietly_def split_def)

lemma cleanup_once_ok:
  assumes ok: "server_ok lim sv cs"
  shows "server_ok lim (cleanup_once now left sv) cs"
proof -
  let ?P = "\<lambda>(i, t). expired_transfer now t" and ?r = "\<lambda>t. unat (tr_reserved_bytes t)"
  let ?gone = "filter ?P (g_transfers sv)" and ?kept = "filter (\<lambda>(i, t). \<not> expired_transfer now t) (g_transfers sv)"
  note inv = ok [unfolded server_ok_def]
  have total: "keys_sum ?r ?gone + keys_sum ?r ?kept = stored_bytes sv"
    using keys_sum_filter [of ?r ?P "g_transfers sv"] by (simp add: split_def)
  then have sub: "unat (g_reserved_bytes (cleanup_once now left sv)) = unat (g_reserved_bytes sv) - keys_sum ?r ?gone"
    using inv by (simp add: cleanup_once_def Let_def unat_foldl_minus)
  have kept: "map_of (g_transfers (cleanup_once now left sv)) i =
      (case map_of (g_transfers sv) i of None \<Rightarrow> None | Some t \<Rightarrow> if expired_transfer now t then None else Some t)" for i
    using map_of_filter_keys [of "g_transfers sv" "\<lambda>t. \<not> expired_transfer now t" i] inv
    by (auto simp: cleanup_once_def Let_def split: option.splits)
  have dirs: "g_storage (cleanup_once now left sv) j = g_storage sv j"
    if "\<And>t. map_of (g_transfers sv) j = Some t \<Longrightarrow> \<not> expired_transfer now t" for j
  proof -
    have "j \<notin> tr_dir ` snd ` set ?gone"
    proof
      assume "j \<in> tr_dir ` snd ` set ?gone"
      then obtain i t where "(i, t) \<in> set (g_transfers sv)" "expired_transfer now t" "j = tr_dir t" by auto
      moreover from this have "map_of (g_transfers sv) i = Some t" using inv by simp
      ultimately show False using that [of t] server_ok_transferD [OF ok, of i t] by (simp add: stored_ok_def)
    qed
    then show ?thesis by (simp add: cleanup_once_def Let_def foldl_remove_dirs)
  qed
  show ?thesis
    unfolding server_ok_def
  proof (intro conjI allI impI ballI)
    show "distinct (map fst (g_transfers (cleanup_once now left sv)))"
      using inv by (simp add: cleanup_once_def Let_def distinct_map_filter)
    show "unat (g_reserved_bytes (cleanup_once now left sv)) =
        stored_bytes (cleanup_once now left sv) + sum_list (map (\<lambda>c. held c) cs)"
      using inv total sub by (simp add: cleanup_once_def Let_def)
    show "unat (g_reserved_bytes (cleanup_once now left sv)) \<le> lim" using sub server_ok_limit [OF ok] by simp
    show "unat (g_storage_quota (cleanup_once now left sv)) \<le> lim" using inv by (simp add: cleanup_once_def Let_def)
  next
    fix i t assume t: "map_of (g_transfers (cleanup_once now left sv)) i = Some t"
    then have old: "map_of (g_transfers sv) i = Some t" "\<not> expired_transfer now t" by (auto simp: kept split: option.splits if_splits)
    then show "stored_ok (g_storage (cleanup_once now left sv)) i t"
      using server_ok_transferD [OF ok old(1)] dirs [of i] by (auto simp: stored_ok_def)
    assume "tr_downloading t"
    then show "\<exists>c\<in>set cs. downloads c = Some i" using inv old(1) by blast
  next
    fix c assume "c \<in> set cs"
    then have was: "phase_ok (cn_phase c) sv" using inv by blast
    have live: "map_of (g_transfers sv) j = Some t \<Longrightarrow> \<not> expired_transfer now t" if "uses c = Some j" for j t
      using was that by (cases "cn_phase c") (auto simp: expired_transfer_def)
    show "phase_ok (cn_phase c) (cleanup_once now left sv)"
      by (rule phase_ok_frame [OF was]) (use live dirs kept in \<open>auto split: option.splits\<close>)
  qed (use inv in blast)+
qed

lemma server_step_ok: "server_step (sv, cs) (sv', cs') \<Longrightarrow> server_ok lim sv cs \<Longrightarrow> server_ok lim sv' cs'"
proof (erule server_stepE)
  fix room assume "server_ok lim sv cs" and eq: "(sv', cs') = (sv, cs @ [\<lparr> cn_phase = Accepted, cn_sent = [], cn_room = room \<rparr>])"
  then show "server_ok lim sv' cs'" by (auto simp: server_ok_def nth_append less_Suc_eq split: if_splits)
qed (auto intro: turn_ok cleanup_once_ok)

lemma server_reachable_ok: "server_step\<^sup>*\<^sup>* (sv, cs) (sv', cs') \<Longrightarrow> server_ok lim sv cs \<Longrightarrow> server_ok lim sv' cs'"
  by (induction "(sv', cs')" arbitrary: sv' cs' rule: rtranclp_induct) (auto dest: server_step_ok)

section \<open>What is uploaded is what is downloaded\<close>

text \<open>One connection served without interruption.\<close>

definition run :: "io \<Rightarrow> WireMessage option list \<Rightarrow> server \<times> connection \<Rightarrow> server \<times> connection" where
  "run io arrivals s = foldl (\<lambda>(sv, c) arrived. turn io arrived sv c) s arrivals"

definition fresh :: "nat \<Rightarrow> connection" where
  "fresh room = \<lparr> cn_phase = Accepted, cn_sent = [], cn_room = room \<rparr>"

definition message :: "message_type \<Rightarrow> bytes \<Rightarrow> WireMessage" where
  "message kind payload = \<lparr> wm_type = kind, wm_payload = payload \<rparr>"

lemma run_Nil [simp]: "run io [] s = s" by (simp add: run_def)
lemma run_Cons [simp]: "run io (a # as) (sv, c) = run io as (turn io a sv c)" by (simp add: run_def)
lemma run_append: "run io (as @ bs) s = run io bs (run io as s)" by (simp add: run_def)

definition keep_chunk :: "folder \<Rightarrow> FileChunk \<Rightarrow> folder" where
  "keep_chunk f ch = f (chunk_filename (tc_index ch) \<mapsto> tc_data ch)"

definition right_size :: "FileHeader \<Rightarrow> FileChunk \<Rightarrow> bool" where
  "right_size h ch \<longleftrightarrow> tc_index ch < th_total_chunks h \<and>
     length (tc_data ch) = unat (expected_chunk_plaintext_size h (tc_index ch)) + AEAD_TAG_SIZE"

lemma right_size_facts:
  assumes "validate_file_header h = []" and "right_size h ch"
  shows "wf_TransferChunk ch" and "of_nat (length (tc_data ch)) = expected_chunk_plaintext_size h (tc_index ch) + of_nat AEAD_TAG_SIZE"
proof -
  have "unat (th_chunk_size h) \<le> 1048576" using assms(1) by (simp add: valid_header_iff word_le_nat_alt)
  then show "wf_TransferChunk ch" using assms chunk_size_nat [OF assms(1)] by (simp add: wf_TransferChunk_def right_size_def)
  show "of_nat (length (tc_data ch)) = expected_chunk_plaintext_size h (tc_index ch) + of_nat AEAD_TAG_SIZE"
    using assms(2) by (simp add: right_size_def)
qed

lemma upload_chunk_turn:
  assumes "io_write io = Whole" and "validate_file_header (ul_header u) = []" and "right_size (ul_header u) ch"
    and "\<not> ul_received u ! unat (tc_index ch)" and "cn_phase c = Receiving u" and "g_storage sv (ul_id u) = Some f"
  shows "turn io (Some (message UPLOAD_CHUNK (serialize_file_chunk ch))) sv c =
    (sv \<lparr> g_storage := (g_storage sv) (ul_id u \<mapsto> keep_chunk f ch) \<rparr>,
     c \<lparr> cn_phase := Receiving (u \<lparr> ul_received := (ul_received u) [unat (tc_index ch) := True],
       ul_received_count := ul_received_count u + 1 \<rparr>) \<rparr>)"
proof -
  have d: "deserialize_file_chunk (serialize_file_chunk ch) = Some ch"
    using right_size_facts(1) [OF assms(2, 3)] by (simp add: deserialize_file_chunk_iff)
  have "\<not> th_total_chunks (ul_header u) \<le> tc_index ch" using assms(3) by (simp add: right_size_def not_le)
  then show ?thesis
    using assms right_size_facts(2) [OF assms(2, 3)] d
    by (simp add: turn_def upload_message_def message_def upload_chunk_def Let_def write_whole_file_def open_dir_def keep_chunk_def)
qed

lemma upload_chunks_run:
  assumes "io_write io = Whole" and "validate_file_header (ul_header u) = []" and "list_all (right_size (ul_header u)) chs"
    and "distinct (map tc_index chs)" and "\<forall>ch\<in>set chs. \<not> ul_received u ! unat (tc_index ch)"
    and "length (ul_received u) = unat (th_total_chunks (ul_header u))"
    and "cn_phase c = Receiving u" and "g_storage sv (ul_id u) = Some f"
  shows "\<exists>r. run io (map (\<lambda>ch. Some (message UPLOAD_CHUNK (serialize_file_chunk ch))) chs) (sv, c) =
    (sv \<lparr> g_storage := (g_storage sv) (ul_id u \<mapsto> foldl keep_chunk f chs) \<rparr>,
     c \<lparr> cn_phase := Receiving (u \<lparr> ul_received := r, ul_received_count := ul_received_count u + of_nat (length chs) \<rparr>) \<rparr>)"
  using assms
proof (induction chs arbitrary: sv c u f)
  case Nil
  have "u \<lparr> ul_received := ul_received u, ul_received_count := ul_received_count u \<rparr> = u" by simp
  then show ?case using Nil by (intro exI [of _ "ul_received u"]) (auto simp: fun_upd_idem)
next
  case (Cons ch chs)
  let ?sv = "sv \<lparr> g_storage := (g_storage sv) (ul_id u \<mapsto> keep_chunk f ch) \<rparr>"
  let ?u = "u \<lparr> ul_received := (ul_received u) [unat (tc_index ch) := True], ul_received_count := ul_received_count u + 1 \<rparr>"
  let ?c = "c \<lparr> cn_phase := Receiving ?u \<rparr>"
  have "turn io (Some (message UPLOAD_CHUNK (serialize_file_chunk ch))) sv c = (?sv, ?c)"
    using upload_chunk_turn [of io u ch c sv f] Cons.prems by simp
  moreover have "\<not> (ul_received u) [unat (tc_index ch) := True] ! unat (tc_index b)" if "b \<in> set chs" for b
  proof -
    have "unat (tc_index ch) \<noteq> unat (tc_index b)" using that Cons.prems(4) by (auto simp: word_unat_eq_iff [symmetric])
    then show ?thesis using that Cons.prems(5) by simp
  qed
  then have "\<exists>r. run io (map (\<lambda>ch. Some (message UPLOAD_CHUNK (serialize_file_chunk ch))) chs) (?sv, ?c) =
    (?sv \<lparr> g_storage := (g_storage ?sv) (ul_id ?u \<mapsto> foldl keep_chunk (keep_chunk f ch) chs) \<rparr>,
     ?c \<lparr> cn_phase := Receiving (?u \<lparr> ul_received := r, ul_received_count := ul_received_count ?u + of_nat (length chs) \<rparr>) \<rparr>)"
    by (intro Cons.IH) (use Cons.prems in simp_all)
  then obtain r where "run io (map (\<lambda>ch. Some (message UPLOAD_CHUNK (serialize_file_chunk ch))) chs) (?sv, ?c) =
    (?sv \<lparr> g_storage := (g_storage ?sv) (ul_id ?u \<mapsto> foldl keep_chunk (keep_chunk f ch) chs) \<rparr>,
     ?c \<lparr> cn_phase := Receiving (?u \<lparr> ul_received := r, ul_received_count := ul_received_count ?u + of_nat (length chs) \<rparr>) \<rparr>)"
    by (elim exE)
  ultimately show ?case by (intro exI [of _ r]) (simp add: add.assoc, simp add: fun_upd_def)
qed

lemma foldl_keep_chunk_other: "(\<And>ch. ch \<in> set chs \<Longrightarrow> name \<noteq> chunk_filename (tc_index ch)) \<Longrightarrow> foldl keep_chunk f chs name = f name"
  by (induction chs arbitrary: f) (auto simp: keep_chunk_def)

lemma foldl_keep_chunk:
  "distinct (map tc_index chs) \<Longrightarrow> ch \<in> set chs \<Longrightarrow> foldl keep_chunk f chs (chunk_filename (tc_index ch)) = Some (tc_data ch)"
proof (induction chs arbitrary: f)
  case (Cons x chs)
  show ?case
  proof (cases "ch = x")
    case True
    then have "foldl keep_chunk (keep_chunk f x) chs (chunk_filename (tc_index ch)) = keep_chunk f x (chunk_filename (tc_index ch))"
      using Cons.prems(1) by (intro foldl_keep_chunk_other) auto
    moreover have "keep_chunk f x (chunk_filename (tc_index ch)) = Some (tc_data ch)" by (simp add: True keep_chunk_def)
    ultimately show ?thesis by simp
  next
    case False
    then show ?thesis using Cons by simp
  qed
qed simp

text \<open>The messages of a download, and that exactly these are sent.\<close>

definition download_script :: "bytes \<Rightarrow> FileChunk list \<Rightarrow> WireMessage list" where
  "download_script hb chs = message DOWNLOAD_HEADER hb # map (\<lambda>ch. message DOWNLOAD_CHUNK (serialize_file_chunk ch)) chs @ [message DOWNLOAD_DONE []]"

lemma download_next_script:
  assumes "io_read_ok io" and "g_storage sv (tr_dir t) = Some f" and "f ''header.bin'' = Some hb" and "length hb \<le> unat MAX_HEADER_MESSAGE"
    and "map tc_index chs = map of_nat [0..<unat (th_total_chunks (tr_header t))]"
    and "\<forall>ch\<in>set chs. f (chunk_filename (tc_index ch)) = Some (tc_data ch) \<and> wf_TransferChunk ch"
    and "n \<le> length chs + 1"
  shows "download_next io t n sv = Some (wm_type (download_script hb chs ! n), wm_payload (download_script hb chs ! n))"
proof -
  have len: "length chs = unat (th_total_chunks (tr_header t))" using arg_cong [OF assms(5), of length] by simp
  consider "n = 0" | k where "n = Suc k" "k < length chs" | "n = Suc (length chs)" using assms(7)
    by (cases n) (auto simp: le_less)
  then show ?thesis
  proof cases
    case 1
    then show ?thesis using assms(1-4) by (simp add: download_next_def open_dir_def read_whole_file_def download_script_def message_def)
  next
    case 2
    have "tc_index (chs ! k) = of_nat k" using arg_cong [OF assms(5), of "\<lambda>xs. xs ! k"] 2(2) len by simp
    moreover have "f (chunk_filename (tc_index (chs ! k))) = Some (tc_data (chs ! k))" "length (tc_data (chs ! k)) \<le> unat MAX_CHUNK_SIZE + AEAD_TAG_SIZE"
      using assms(6) 2(2) by (auto simp: wf_TransferChunk_def)
    moreover have "serialize_file_chunk \<lparr> tc_index = of_nat k, tc_data = tc_data (chs ! k) \<rparr> = serialize_file_chunk (chs ! k)"
      using calculation(1) by (cases "chs ! k") simp
    ultimately show ?thesis using 2 assms(1, 2) len
      by (simp add: download_next_def open_dir_def read_whole_file_def download_script_def message_def nth_append)
  next
    case 3
    then show ?thesis using len by (simp add: download_next_def download_script_def message_def nth_append)
  qed
qed

lemma download_send_turn:
  assumes "download_next io t n sv = Some (wm_type m, wm_payload m)" and "cn_phase c = Sending i t n" and "0 < cn_room c"
  shows "turn io arrived sv c = (sv, c \<lparr> cn_phase := (if wm_type m = DOWNLOAD_DONE then Confirming i t else Sending i t (n + 1)),
    cn_sent := cn_sent c @ [m], cn_room := cn_room c - 1 \<rparr>)"
  using assms by (simp add: turn_def download_send_def say_def)

lemma download_script_kind: "n < length chs + 1 \<Longrightarrow> wm_type (download_script hb chs ! n) \<noteq> DOWNLOAD_DONE"
  by (auto simp: download_script_def message_def nth_Cons nth_append split: nat.splits)

lemma download_run:
  assumes ready: "\<And>n. n \<le> length chs + 1 \<Longrightarrow> download_next io t n sv = Some (wm_type (download_script hb chs ! n), wm_payload (download_script hb chs ! n))"
    and c: "cn_phase c = Sending i t 0" "length chs + 2 \<le> cn_room c"
  shows "run io (replicate (length chs + 2) None) (sv, c) =
    (sv, c \<lparr> cn_phase := Confirming i t, cn_sent := cn_sent c @ download_script hb chs, cn_room := cn_room c - (length chs + 2) \<rparr>)"
proof -
  let ?s = "download_script hb chs"
  have len: "length ?s = length chs + 2" by (simp add: download_script_def)
  have steps: "n \<le> length chs + 1 \<Longrightarrow> run io (replicate n None) (sv, c) =
      (sv, c \<lparr> cn_phase := Sending i t n, cn_sent := cn_sent c @ take n ?s, cn_room := cn_room c - n \<rparr>)" for n
  proof (induction n)
    case 0
    have "c \<lparr> cn_phase := Sending i t 0, cn_sent := cn_sent c, cn_room := cn_room c \<rparr> = c" using c(1) by (cases c) simp
    then show ?case by simp
  next
    case (Suc n)
    have "replicate (Suc n) None = replicate n (None :: WireMessage option) @ [None]" by (simp add: replicate_append_same)
    moreover have "take (Suc n) ?s = take n ?s @ [?s ! n]" using Suc.prems len by (simp add: take_Suc_conv_app_nth)
    moreover have "turn io None sv (c \<lparr> cn_phase := Sending i t n, cn_sent := cn_sent c @ take n ?s, cn_room := cn_room c - n \<rparr>) =
        (sv, c \<lparr> cn_phase := Sending i t (Suc n), cn_sent := cn_sent c @ take n ?s @ [?s ! n], cn_room := cn_room c - Suc n \<rparr>)"
      using download_send_turn [OF ready [of n], of "c \<lparr> cn_phase := Sending i t n, cn_sent := cn_sent c @ take n ?s, cn_room := cn_room c - n \<rparr>" i None]
        Suc.prems c download_script_kind [of n chs hb] by simp
    ultimately show ?case using Suc by (simp add: run_append)
  qed
  have "?s = take (length chs + 1) ?s @ [message DOWNLOAD_DONE []]" "?s ! (length chs + 1) = message DOWNLOAD_DONE []"
    by (simp_all add: download_script_def nth_append)
  moreover have "run io (replicate (length chs + 2) None) (sv, c) = run io [None] (run io (replicate (length chs + 1) None) (sv, c))"
  proof -
    have "replicate (length chs + 2) None = replicate (length chs + 1) (None :: WireMessage option) @ [None]"
      by (simp add: replicate_append_same)
    then show ?thesis by (simp only: run_append)
  qed
  ultimately show ?thesis
    using c download_send_turn [OF ready [of "length chs + 1"], of "c \<lparr> cn_phase := Sending i t (length chs + 1),
        cn_sent := cn_sent c @ take (length chs + 1) ?s, cn_room := cn_room c - (length chs + 1) \<rparr>" i None]
    unfolding steps [OF order_refl] by (simp add: message_def)
qed

lemma sorted_chunks:
  assumes "distinct (map tc_index chs)" and "set (map tc_index chs) = {i. i < n}"
  shows "map tc_index (sort_key tc_index chs) = map of_nat [0..<unat n]" and "length chs = unat n"
proof -
  have "unat n < 2 ^ LENGTH(32)" by (rule unsigned_less)
  then have below: "k < unat n \<Longrightarrow> unat (of_nat k :: u32) = k" for k by (simp add: unat_of_nat)
  have "{i. i < n} = (of_nat :: nat \<Rightarrow> u32) ` {0..<unat n}"
  proof (intro equalityI subsetI)
    fix i assume "i \<in> {i. i < n}"
    then show "i \<in> (of_nat :: nat \<Rightarrow> u32) ` {0..<unat n}" by (intro image_eqI [of _ _ "unat i"]) (simp_all add: word_less_nat_alt)
  qed (auto simp: word_less_nat_alt below)
  moreover have "distinct (map (of_nat :: nat \<Rightarrow> u32) [0..<unat n])"
    unfolding distinct_map by (auto intro!: inj_onI) (metis below)
  moreover have "sorted (map (of_nat :: nat \<Rightarrow> u32) [0..<unat n])"
    unfolding sorted_map by (rule sorted_wrt_mono_rel [OF _ sorted_upt]) (simp add: word_le_nat_alt below)
  ultimately show "map tc_index (sort_key tc_index chs) = map of_nat [0..<unat n]"
    using assms by (intro sorted_distinct_set_unique) (auto simp: distinct_map)
  from arg_cong [OF this, of length] show "length chs = unat n" by simp
qed

lemma bytes_to_hex_id: "length rnd = TRANSFER_ID_BYTES \<Longrightarrow> is_lower_hex (bytes_to_hex rnd) TRANSFER_ID_HEX_LEN"
  using bytes_to_hex_lower [of rnd] by simp

text \<open>Everything the operating system is asked for works.\<close>

definition smooth :: "io \<Rightarrow> bytes \<Rightarrow> bool" where
  "smooth io rnd \<longleftrightarrow> io_random io = Some rnd \<and> length rnd = TRANSFER_ID_BYTES \<and> io_mkdir_ok io \<and> io_write io = Whole \<and> io_read_ok io"

lemma upload_run:
  assumes h: "deserialize_file_header hb = Some h" "validate_file_header h = []"
    and space: "unat (g_reserved_bytes sv) + unat (storage_cost h (length hb)) \<le> unat (g_storage_quota sv)"
    and io: "smooth io rnd" and new: "g_storage sv (bytes_to_hex rnd) = None"
    and chs: "distinct (map tc_index chs)" "set (map tc_index chs) = {i. i < th_total_chunks h}" "list_all (right_size h) chs"
    and room: "2 \<le> room"
  shows "run io ([Some (message UPLOAD_REQUEST hb), None] @ map (\<lambda>ch. Some (message UPLOAD_CHUNK (serialize_file_chunk ch))) chs @
      [Some (message UPLOAD_DONE [])]) (sv, fresh room) =
    (\<lparr> g_transfers = AList.update (bytes_to_hex rnd) \<lparr> tr_header = h, tr_dir = bytes_to_hex rnd, tr_created = io_now io,
         tr_reserved_bytes = storage_cost h (length hb), tr_downloading = False \<rparr> (g_transfers sv),
       g_reserved_bytes = g_reserved_bytes sv + storage_cost h (length hb), g_storage_quota = g_storage_quota sv,
       g_storage = (g_storage sv) (bytes_to_hex rnd \<mapsto> foldl keep_chunk [''header.bin'' \<mapsto> hb] chs) \<rparr>,
     \<lparr> cn_phase = Closed, cn_sent = [message ACK (bytes_of_string (bytes_to_hex rnd)), message ACK (bytes_of_string ''UPLOAD_COMPLETE'')],
       cn_room = room - 2 \<rparr>)"
proof -
  let ?i = "bytes_to_hex rnd" and ?r = "storage_cost h (length hb)"
  let ?sv = "sv \<lparr> g_reserved_bytes := g_reserved_bytes sv + ?r, g_storage := (g_storage sv) (?i \<mapsto> [''header.bin'' \<mapsto> hb]) \<rparr>"
  let ?u = "\<lparr> ul_header = h, ul_reserve = ?r, ul_id = ?i, ul_received = replicate (unat (th_total_chunks h)) False, ul_received_count = 0 \<rparr>"
  let ?c = "\<lparr> cn_phase = Receiving ?u, cn_sent = [message ACK (bytes_of_string ?i)], cn_room = room - 1 \<rparr>"
  let ?up = "map (\<lambda>ch. Some (message UPLOAD_CHUNK (serialize_file_chunk ch))) chs"
  have "unat (g_storage_quota sv) < 2 ^ LENGTH(64)" by (rule unsigned_less)
  with space have "unat (g_reserved_bytes sv + ?r) = unat (g_reserved_bytes sv) + unat ?r" by (subst unat_add_lem [THEN iffD1]) auto
  with space have fits: "\<not> g_reserved_bytes sv + ?r > g_storage_quota sv" by (simp add: word_less_nat_alt)
  have unseen: "\<forall>ch\<in>set chs. \<not> replicate (unat (th_total_chunks h)) False ! unat (tc_index ch)"
    using chs(3) by (auto simp: list_all_iff right_size_def word_less_nat_alt)
  have "run io ([Some (message UPLOAD_REQUEST hb), None] @ ?up @ [Some (message UPLOAD_DONE [])]) (sv, fresh room) =
      run io (?up @ [Some (message UPLOAD_DONE [])]) (?sv, ?c)"
    using h fits io new room
    by (simp add: turn_def handle_first_def upload_request_def Let_def upload_prepare_def generate_transfer_id_def smooth_def
        write_whole_file_def say_def fresh_def message_def)
  also obtain r where "run io (?up @ [Some (message UPLOAD_DONE [])]) (?sv, ?c) =
      run io [Some (message UPLOAD_DONE [])] (?sv \<lparr> g_storage := (g_storage ?sv) (?i \<mapsto> foldl keep_chunk [''header.bin'' \<mapsto> hb] chs) \<rparr>,
        ?c \<lparr> cn_phase := Receiving (?u \<lparr> ul_received := r, ul_received_count := of_nat (length chs) \<rparr>) \<rparr>)"
    using upload_chunks_run [of io ?u chs ?c ?sv "[''header.bin'' \<mapsto> hb]"] io h chs unseen
    by (auto simp: smooth_def run_append)
  also have "\<dots> = (?sv \<lparr> g_transfers := AList.update ?i \<lparr> tr_header = h, tr_dir = ?i, tr_created = io_now io, tr_reserved_bytes = ?r,
        tr_downloading = False \<rparr> (g_transfers sv), g_storage := (g_storage sv) (?i \<mapsto> foldl keep_chunk [''header.bin'' \<mapsto> hb] chs) \<rparr>,
      \<lparr> cn_phase = Closed, cn_sent = [message ACK (bytes_of_string ?i), message ACK (bytes_of_string ''UPLOAD_COMPLETE'')], cn_room = room - 2 \<rparr>)"
    using sorted_chunks(2) [OF chs(1, 2)] room by (simp add: turn_def upload_message_def upload_done_def say_def close_def message_def)
  finally show ?thesis by simp
qed

definition sample_header :: FileHeader where
  "sample_header = \<lparr> th_file_size = 5, th_chunk_size = 4096, th_total_chunks = 1, th_kem_ciphertext = [1], th_nonce = replicate 12 2,
     th_sealed_metadata = replicate 16 3 \<rparr>"

definition sample_io :: io where
  "sample_io = \<lparr> io_now = 100, io_random = Some (replicate 16 171), io_mkdir_ok = True, io_write = Whole, io_read_ok = True, io_left = None \<rparr>"

lemma sample_header_valid: "deserialize_file_header (serialize_file_header sample_header) = Some sample_header" "validate_file_header sample_header = []"
  by (simp_all add: deserialize_file_header_iff sample_header_def wf_FileHeader_def valid_header_iff expected_total_chunks_def)

definition sample_server :: server where
  "sample_server = start_server 1000000 Map.empty"

definition sample_chunk :: FileChunk where
  "sample_chunk = \<lparr> tc_index = 0, tc_data = replicate 21 9 \<rparr>"

lemma sample_cost:
  "unat (g_reserved_bytes sample_server) + unat (storage_cost sample_header (length (serialize_file_header sample_header))) \<le>
     unat (g_storage_quota sample_server)"
  unfolding storage_cost_nat(1) [OF sample_header_valid]
  by (simp add: sample_server_def start_server_def sample_header_def serialize_file_header_def write_public_fields_def Let_def
      write_u32_def write_u64_def write_blob_def write_bytes_def)

lemma sample_smooth: "smooth sample_io (replicate 16 171)"
  by (simp add: smooth_def sample_io_def)

lemma sample_empty: "g_storage sample_server i = None" "map_of (g_transfers sample_server) i = None"
  by (simp_all add: sample_server_def start_server_def)

lemma sample_size: "list_all (right_size sample_header) [sample_chunk]"
  by (simp add: right_size_def sample_header_def sample_chunk_def expected_chunk_plaintext_size_def)

lemma sample_index: "set (map tc_index [sample_chunk]) = {i. i < th_total_chunks sample_header}"
  by (auto simp: sample_header_def sample_chunk_def word_less_nat_alt unat_eq_zero)

lemma run_steps: "run io as (sv, c) = (sv', c') \<Longrightarrow> server_step\<^sup>*\<^sup>* (sv, [c]) (sv', [c'])"
proof (induction as arbitrary: sv c)
  case (Cons a as)
  obtain sv1 c1 where t: "turn io a sv c = (sv1, c1)" by force
  then have "server_step (sv, [c]) (sv1, [c1])" using server_step.serve [of 0 "[c]" io a sv sv1 c1] by simp
  moreover have "server_step\<^sup>*\<^sup>* (sv1, [c1]) (sv', [c'])" using Cons t by simp
  ultimately show ?case by (rule converse_rtranclp_into_rtranclp)
qed simp

text \<open>
  C11: What is uploaded is what is downloaded. A sender who announces a valid header for which there is space and sends its
  chunks, each once and in any order, gets an identifier and a confirmation; whoever then asks for that identifier receives
  the same header and the same chunks, in order of their index; and when the receiver confirms, the list of transfers and
  the space in use are as they were before the upload.
\<close>
theorem transfer_round_trip:
  assumes "deserialize_file_header hb = Some h" and "validate_file_header h = []"
    and "unat (g_reserved_bytes sv) + unat (storage_cost h (length hb)) \<le> unat (g_storage_quota sv)"
    and "smooth io rnd" and "g_storage sv (bytes_to_hex rnd) = None" and "map_of (g_transfers sv) (bytes_to_hex rnd) = None"
    and "distinct (map tc_index chs)" and "set (map tc_index chs) = {i. i < th_total_chunks h}" and "list_all (right_size h) chs"
    and "2 \<le> room" and "length chs + 2 \<le> room'"
    and "run io ([Some (message UPLOAD_REQUEST hb), None] @ map (\<lambda>ch. Some (message UPLOAD_CHUNK (serialize_file_chunk ch))) chs @
      [Some (message UPLOAD_DONE [])]) (sv, fresh room) = (sv1, c1)"
    and "run io (Some (message DOWNLOAD_REQUEST (bytes_of_string (bytes_to_hex rnd))) # replicate (length chs + 2) None) (sv1, fresh room') = (sv2, c2)"
    and "run io [Some (message ACK [])] (sv2, c2) = (sv3, c3)"
  shows "cn_sent c1 = [message ACK (bytes_of_string (bytes_to_hex rnd)), message ACK (bytes_of_string ''UPLOAD_COMPLETE'')] \<and>
    cn_sent c2 = message DOWNLOAD_HEADER hb #
      map (\<lambda>ch. message DOWNLOAD_CHUNK (serialize_file_chunk ch)) (sort_key tc_index chs) @ [message DOWNLOAD_DONE []] \<and>
    g_transfers sv3 = g_transfers sv \<and> g_reserved_bytes sv3 = g_reserved_bytes sv"
proof -
  let ?i = "bytes_to_hex rnd" and ?cs = "sort_key tc_index chs"
  let ?t = "\<lparr> tr_header = h, tr_dir = ?i, tr_created = io_now io, tr_reserved_bytes = storage_cost h (length hb), tr_downloading = False \<rparr>"
  let ?t' = "?t \<lparr> tr_downloading := True \<rparr>" and ?f = "foldl keep_chunk [''header.bin'' \<mapsto> hb] chs"
  note up = upload_run [OF assms(1-5, 7-10)]
  have sv1: "g_transfers sv1 = AList.update ?i ?t (g_transfers sv)" "g_reserved_bytes sv1 = g_reserved_bytes sv + storage_cost h (length hb)"
    "g_storage sv1 ?i = Some ?f"
    and c1: "cn_sent c1 = [message ACK (bytes_of_string ?i), message ACK (bytes_of_string ''UPLOAD_COMPLETE'')]"
    using up assms(12) by auto
  let ?sv2 = "sv1 \<lparr> g_transfers := AList.update ?i ?t' (g_transfers sv1) \<rparr>"
  let ?c2 = "\<lparr> cn_phase = Sending ?i ?t' 0, cn_sent = [], cn_room = room' \<rparr>"
  have claim: "turn io (Some (message DOWNLOAD_REQUEST (bytes_of_string ?i))) sv1 (fresh room') = (?sv2, ?c2)"
    using bytes_to_hex_id [of rnd] assms(4) sv1(1)
    by (simp add: turn_def handle_first_def download_request_def message_def fresh_def smooth_def AList.update_conv' Let_def)
  have "map tc_index ?cs = map of_nat [0..<unat (th_total_chunks h)]" by (rule sorted_chunks(1) [OF assms(7, 8)])
  moreover have "\<forall>ch\<in>set ?cs. ?f (chunk_filename (tc_index ch)) = Some (tc_data ch) \<and> wf_TransferChunk ch"
    using foldl_keep_chunk [OF assms(7)] assms(9) right_size_facts(1) [OF assms(2)] by (auto simp: list_all_iff)
  moreover have "?f ''header.bin'' = Some hb" by (subst foldl_keep_chunk_other) auto
  moreover have "length hb \<le> unat MAX_HEADER_MESSAGE"
    using assms(1) serialized_header_length by (fastforce simp: deserialize_file_header_iff)
  ultimately have "download_next io ?t' n ?sv2 = Some (wm_type (download_script hb ?cs ! n), wm_payload (download_script hb ?cs ! n))"
    if "n \<le> length ?cs + 1" for n
    using download_next_script [of io ?sv2 ?t' ?f hb ?cs n] that sv1(3) assms(4) by (simp add: smooth_def)
  from download_run [OF this, of ?c2 ?i] claim assms(11, 13)
  have "sv2 = ?sv2" "cn_phase c2 = Confirming ?i ?t'" "cn_sent c2 = download_script hb ?cs" by auto
  moreover from this have "g_transfers sv3 = AList.delete ?i (g_transfers ?sv2)" "g_reserved_bytes sv3 = g_reserved_bytes sv"
    using assms(14) sv1(1, 2) by (auto simp: turn_def download_confirm_def message_def AList.update_conv')
  moreover have "AList.delete ?i (AList.update ?i x (AList.update ?i y (g_transfers sv))) = g_transfers sv" for x y
    using assms(6) by (simp add: delete_update_same AList.delete_id dom_map_of_conv_image_fst map_of_eq_None_iff)
  ultimately show ?thesis using c1 sv1(1) by (simp add: download_script_def)
qed

theorem transfer_round_trip_witness:
  "let hb = serialize_file_header sample_header;
       up = run sample_io [Some (message UPLOAD_REQUEST hb), None, Some (message UPLOAD_CHUNK (serialize_file_chunk sample_chunk)),
              Some (message UPLOAD_DONE [])] (sample_server, fresh 9);
       down = run sample_io (Some (message DOWNLOAD_REQUEST (bytes_of_string (bytes_to_hex (replicate 16 171)))) # replicate 3 None)
              (fst up, fresh 9) in
   cn_sent (snd down) = [message DOWNLOAD_HEADER hb, message DOWNLOAD_CHUNK (serialize_file_chunk sample_chunk), message DOWNLOAD_DONE []]"
proof -
  have "distinct (map tc_index [sample_chunk])" by simp
  from transfer_round_trip [OF sample_header_valid sample_cost sample_smooth sample_empty this sample_index sample_size _ _
    surjective_pairing surjective_pairing surjective_pairing, of 9 9]
  show ?thesis by (simp add: Let_def numeral_3_eq_3)
qed

section \<open>The accounts of the server\<close>

lemma quota_kept [simp]:
  "g_storage_quota (upload_cleanup io r d sv) = g_storage_quota sv" "g_storage_quota (download_release i sv) = g_storage_quota sv"
  "g_storage_quota (cleanup_once now left sv) = g_storage_quota sv"
  by (simp_all add: upload_cleanup_def download_release_def cleanup_once_def Let_def split: option.splits)

lemma turn_quota: "g_storage_quota (fst (turn io arrived sv c)) = g_storage_quota sv"
proof -
  have "g_storage_quota (fst (upload_request p sv c)) = g_storage_quota sv" for p
    by (simp add: upload_request_def Let_def split: option.splits)
  moreover have "g_storage_quota (fst (download_request p sv c)) = g_storage_quota sv" for p
    by (simp add: download_request_def Let_def split: option.splits)
  moreover have "g_storage_quota (fst (upload_prepare io h hb r sv c)) = g_storage_quota sv" for h hb r
    by (simp add: upload_prepare_def Let_def split: option.splits prod.splits)
  moreover have "g_storage_quota (fst (upload_message io arrived u sv c)) = g_storage_quota sv" for u
    by (simp add: upload_message_def upload_done_def upload_chunk_def upload_failed_def Let_def split: option.splits prod.splits)
  moreover have "g_storage_quota (fst (download_send io i t n sv c)) = g_storage_quota sv" for i t n
    by (simp add: download_send_def Let_def split: option.splits prod.splits)
  moreover have "g_storage_quota (fst (download_confirm io arrived i t sv c)) = g_storage_quota sv" for i t
    by (simp add: download_confirm_def Let_def split: option.splits)
  ultimately show ?thesis by (simp add: turn_def handle_first_def split: phase.splits option.splits)
qed

lemma server_step_quota: "server_step (sv, cs) (sv', cs') \<Longrightarrow> g_storage_quota sv' = g_storage_quota sv"
  by (erule server_stepE) (auto, metis fst_conv turn_quota)

lemma server_reachable_quota: "server_step\<^sup>*\<^sup>* (sv, cs) (sv', cs') \<Longrightarrow> g_storage_quota sv' = g_storage_quota sv"
  by (induction "(sv', cs')" arbitrary: sv' cs' rule: rtranclp_induct) (auto dest: server_step_quota)

section \<open>The restart\<close>

definition restorable :: "time \<Rightarrow> (string \<Rightarrow> time) \<Rightarrow> (string \<Rightarrow> bool) \<Rightarrow> (string \<rightharpoonup> folder) \<Rightarrow> string \<Rightarrow> StoredTransfer option" where
  "restorable now age readable st i =
    do { f \<leftarrow> st i;
         hb \<leftarrow> read_whole_file (readable i) ''header.bin'' (unat MAX_HEADER_MESSAGE) f;
         h \<leftarrow> deserialize_file_header hb;
         if complete_on_disk h f \<and> age i \<le> TRANSFER_TTL
         then Some \<lparr> tr_header = h, tr_dir = i, tr_created = now - age i, tr_reserved_bytes = storage_cost h (length hb), tr_downloading = False \<rparr>
         else None }"

lemma restore_one_cases:
  assumes "g_storage sv i \<noteq> None"
  shows "restore_one now age readable left sv i =
    (case restorable now age readable (g_storage sv) i of
       None \<Rightarrow> sv \<lparr> g_storage := (g_storage sv) (i := left i) \<rparr>
     | Some t \<Rightarrow> sv \<lparr> g_transfers := AList.update i t (g_transfers sv), g_reserved_bytes := g_reserved_bytes sv + tr_reserved_bytes t \<rparr>)"
  using assms by (auto simp: restore_one_def restorable_def open_dir_def Let_def remove_dir_quietly_def split: option.splits)

lemma restorable_cong: "st i = st' i \<Longrightarrow> restorable now age readable st i = restorable now age readable st' i"
  by (simp add: restorable_def)

lemma books_chain:
  fixes a :: "'a :: ab_group_add"
  assumes "a + b = c + d" and "c + e = f + b"
  shows "a + e = f + d"
proof -
  have "a = c + d - b" "c = f + b - e" using assms by (simp_all add: eq_diff_eq)
  then show ?thesis by simp
qed

lemma restore_fold:
  assumes "distinct names" and "\<forall>i\<in>set names. g_storage sv i \<noteq> None \<and> map_of (g_transfers sv) i = None"
    and "sv' = foldl (restore_one now age readable left) sv names"
  shows "map_of (g_transfers sv') i = (if i \<in> set names then restorable now age readable (g_storage sv) i else map_of (g_transfers sv) i) \<and>
    g_storage sv' i = (if i \<in> set names \<and> restorable now age readable (g_storage sv) i = None then left i else g_storage sv i) \<and>
    g_reserved_bytes sv' + sum_list (map (tr_reserved_bytes \<circ> snd) (g_transfers sv)) =
      g_reserved_bytes sv + sum_list (map (tr_reserved_bytes \<circ> snd) (g_transfers sv'))"
  using assms
proof (induction names arbitrary: sv)
  case (Cons n names)
  let ?one = "restore_one now age readable left sv n"
  have new: "map_of (g_transfers sv) n = None" using Cons.prems by simp
  note one = restore_one_cases [of sv n now age readable left]
  have other: "g_storage ?one j = g_storage sv j \<and> map_of (g_transfers ?one) j = map_of (g_transfers sv) j" if "j \<noteq> n" for j
    using that one Cons.prems by (auto simp: AList.update_conv' split: option.splits)
  have here: "map_of (g_transfers ?one) n = restorable now age readable (g_storage sv) n"
    "g_storage ?one n = (if restorable now age readable (g_storage sv) n = None then left n else g_storage sv n)"
    using one Cons.prems by (auto simp: AList.update_conv' split: option.splits)
  have "AList.update n t al = al @ [(n, t)]" if "map_of al n = None" for t and al :: "(string \<times> StoredTransfer) list"
    using that by (induction al) (auto split: if_splits)
  then have sum: "g_reserved_bytes ?one + sum_list (map (tr_reserved_bytes \<circ> snd) (g_transfers sv)) =
      g_reserved_bytes sv + sum_list (map (tr_reserved_bytes \<circ> snd) (g_transfers ?one))"
    using one Cons.prems new by (auto simp: algebra_simps split: option.splits)
  have IH: "map_of (g_transfers sv') i = (if i \<in> set names then restorable now age readable (g_storage ?one) i else map_of (g_transfers ?one) i) \<and>
    g_storage sv' i = (if i \<in> set names \<and> restorable now age readable (g_storage ?one) i = None then left i else g_storage ?one i) \<and>
    g_reserved_bytes sv' + sum_list (map (tr_reserved_bytes \<circ> snd) (g_transfers ?one)) =
      g_reserved_bytes ?one + sum_list (map (tr_reserved_bytes \<circ> snd) (g_transfers sv'))"
  proof (rule Cons.IH)
    show "\<forall>i\<in>set names. g_storage ?one i \<noteq> None \<and> map_of (g_transfers ?one) i = None"
    proof
      fix i assume i: "i \<in> set names"
      then have "i \<noteq> n" using Cons.prems(1) by auto
      from other [OF this] show "g_storage ?one i \<noteq> None \<and> map_of (g_transfers ?one) i = None" using i Cons.prems(2) by simp
    qed
  qed (use Cons.prems in simp_all)
  then have total: "g_reserved_bytes sv' + sum_list (map (tr_reserved_bytes \<circ> snd) (g_transfers sv)) =
      g_reserved_bytes sv + sum_list (map (tr_reserved_bytes \<circ> snd) (g_transfers sv'))"
    using sum by (blast intro: books_chain)
  show ?case
  proof (cases "i = n")
    case True
    then show ?thesis using IH here Cons.prems(1) by (intro conjI total) simp_all
  next
    case False
    then show ?thesis using IH other [OF False] restorable_cong [of "g_storage ?one" i "g_storage sv"] by (intro conjI total) simp_all
  qed
qed simp

lemma stored_restorable:
  assumes "stored_ok st i t" and "readable i" and "age i \<le> TRANSFER_TTL"
  shows "restorable now age readable st i = Some (t \<lparr> tr_created := now - age i, tr_downloading := False \<rparr>)"
proof -
  from assms(1) obtain f hb where f: "tr_dir t = i" "st i = Some f" "f ''header.bin'' = Some hb"
    and h: "deserialize_file_header hb = Some (tr_header t)" "tr_reserved_bytes t = storage_cost (tr_header t) (length hb)"
      "complete_on_disk (tr_header t) f"
    by (auto simp: stored_ok_def header_ok_def)
  have "length hb \<le> unat MAX_HEADER_MESSAGE" using h(1) serialized_header_length by (fastforce simp: deserialize_file_header_iff)
  then show ?thesis using f h assms(2, 3) by (cases t) (simp add: restorable_def read_whole_file_def)
qed

lemma restorable_stored: "restorable now age readable st i = Some t \<Longrightarrow> stored_ok st i t \<and> age i \<le> TRANSFER_TTL \<and> \<not> tr_downloading t"
  by (auto simp: restorable_def stored_ok_def header_ok_def read_whole_file_def bind_eq_Some_conv split: option.splits if_splits)

text \<open>
  The start takes on every complete transfer that it finds, whatever the quota is.  Fewer than \<open>2 ^ 27\<close> directories cannot make the
  books wrap around, since a transfer costs less than \<open>2 ^ 36\<close> bytes.
\<close>

lemma boot_quota: "g_storage_quota (boot quota st now age readable left names) = quota"
proof -
  have one: "g_storage_quota (restore_one now age readable left sv i) = g_storage_quota sv" for sv i
    by (simp add: restore_one_def Let_def split: option.split)
  have "g_storage_quota (foldl (restore_one now age readable left) sv ns) = g_storage_quota sv" for sv ns
    by (induction ns arbitrary: sv) (simp_all add: one)
  then show ?thesis by (simp add: boot_def restore_transfers_def start_server_def)
qed

lemma boot_distinct: "distinct (map fst (g_transfers (boot quota st now age readable left names)))"
proof -
  have one: "distinct (map fst (g_transfers sv)) \<Longrightarrow> distinct (map fst (g_transfers (restore_one now age readable left sv i)))" for sv i
    by (auto simp: restore_one_def Let_def AList.distinct_update split: option.split)
  have "distinct (map fst (g_transfers sv)) \<Longrightarrow> distinct (map fst (g_transfers (foldl (restore_one now age readable left) sv ns)))" for sv ns
    by (induction ns arbitrary: sv) (simp_all add: one)
  then show ?thesis by (simp add: boot_def restore_transfers_def start_server_def)
qed

lemma keys_sum_words: "sum_list (map (g \<circ> snd) al) = of_nat (keys_sum (\<lambda>t. unat (g t :: 'a :: len word)) al)"
  by (induction al) simp_all

lemma keys_sum_bound: "(\<And>k v. (k, v) \<in> set al \<Longrightarrow> g v \<le> b) \<Longrightarrow> keys_sum g al \<le> length al * b"
  by (induction al) (fastforce simp: add_mono)+

lemma boot_restores:
  assumes "distinct names" and "\<forall>i\<in>set names. st i \<noteq> None"
  shows "map_of (g_transfers (boot quota st now age readable left names)) i =
      (if i \<in> set names \<and> is_lower_hex i TRANSFER_ID_HEX_LEN then restorable now age readable st i else None) \<and>
    g_storage (boot quota st now age readable left names) i =
      (if i \<in> set names \<and> is_lower_hex i TRANSFER_ID_HEX_LEN \<and> restorable now age readable st i = None then left i else st i) \<and>
    g_reserved_bytes (boot quota st now age readable left names) =
      sum_list (map (tr_reserved_bytes \<circ> snd) (g_transfers (boot quota st now age readable left names)))"
proof -
  let ?names = "filter (\<lambda>i. is_lower_hex i TRANSFER_ID_HEX_LEN) names"
  have d: "distinct ?names" using assms(1) by simp
  have fresh: "\<forall>i\<in>set ?names. g_storage (start_server quota st) i \<noteq> None \<and> map_of (g_transfers (start_server quota st)) i = None"
    using assms(2) by (simp add: start_server_def)
  show ?thesis
    using restore_fold [OF d fresh, of _ now age readable left i] by (simp add: boot_def restore_transfers_def start_server_def)
qed

lemma boot_ok:
  assumes "unat quota \<le> 2 ^ 63" and "distinct names" and "\<forall>i\<in>set names. st i \<noteq> None" and "length names \<le> 2 ^ 27"
    and sv: "sv = boot quota st now age readable left names"
  shows "server_ok (max (unat quota) (unat (g_reserved_bytes sv))) sv []"
proof -
  note boot = boot_restores [OF assms(2, 3), of quota now age readable left, folded sv]
  have stored: "stored_ok (g_storage sv) i t \<and> \<not> tr_downloading t \<and> i \<in> set names" if "map_of (g_transfers sv) i = Some t" for i t
  proof -
    from that boot [of i] have r: "restorable now age readable st i = Some t" "i \<in> set names" by (simp_all split: if_splits)
    moreover from r(1) boot [of i] have "g_storage sv i = st i" by simp
    ultimately show ?thesis using restorable_stored [OF r(1)] by (simp add: stored_ok_def)
  qed
  have distinct: "distinct (map fst (g_transfers sv))" unfolding sv by (rule boot_distinct)
  have listed: "map_of (g_transfers sv) i = Some t" if "(i, t) \<in> set (g_transfers sv)" for i t using distinct that by simp
  have "unat (tr_reserved_bytes t) \<le> 2 ^ 36" if "(i, t) \<in> set (g_transfers sv)" for i t
    using stored [OF listed [OF that]] storage_cost_nat(2)
    by (fastforce simp: stored_ok_def header_ok_def complete_on_disk_def)
  then have "stored_bytes sv \<le> length (g_transfers sv) * 2 ^ 36" by (rule keys_sum_bound)
  moreover have "length (g_transfers sv) \<le> length names"
  proof -
    have "fst ` set (g_transfers sv) \<subseteq> set names" using stored listed by fastforce
    then have "card (fst ` set (g_transfers sv)) \<le> length names" by (meson card_length card_mono finite_set le_trans)
    then show ?thesis using distinct_card [OF distinct] by simp
  qed
  ultimately have small: "stored_bytes sv \<le> 2 ^ 63" using assms(4) by (simp add: mult_le_mono1 order_trans)
  have "g_reserved_bytes sv = of_nat (stored_bytes sv)" using boot by (simp add: keys_sum_words)
  with small have "unat (g_reserved_bytes sv) = stored_bytes sv" by (simp add: unat_of_nat)
  moreover have "g_storage_quota sv = quota" unfolding sv by (rule boot_quota)
  ultimately show ?thesis using distinct small assms(1) stored by (auto simp: server_ok_def)
qed

text \<open>
  C5: The server's books are exact. Let the server have started with a quota of at most \<open>2 ^ 63\<close> bytes on any folder with at most \<open>2 ^ 27\<close>
  directories. Whatever clients do then, in whatever order their connections are served and with any
  failures of the disk: the space in use is what the listed transfers and the unfinished uploads have reserved, without
  wrap-around, and never above the quota, or above what the transfers found at the start took if that was more; every listed
  transfer is complete on disk; two connections never download the
  same transfer at once; and a transfer marked as being downloaded is being downloaded by some connection.
\<close>
theorem server_accounts_exactly:
  assumes "unat quota \<le> 2 ^ 63" and "distinct names" and "\<forall>i\<in>set names. st i \<noteq> None" and "length names \<le> 2 ^ 27"
    and "server_step\<^sup>*\<^sup>* (boot quota st now age readable left names, []) (sv, cs)"
  shows "unat (g_reserved_bytes sv) = sum_list (map (\<lambda>(i, t). unat (tr_reserved_bytes t)) (g_transfers sv)) +
      sum_list (map (\<lambda>c. phase_held (cn_phase c)) cs) \<and>
    g_reserved_bytes sv \<le> max quota (g_reserved_bytes (boot quota st now age readable left names)) \<and>
    (\<forall>(i, t)\<in>set (g_transfers sv). stored_ok (g_storage sv) i t) \<and>
    (\<forall>j k i. j < k \<and> k < length cs \<and> phase_downloads (cn_phase (cs ! j)) = Some i \<longrightarrow> phase_downloads (cn_phase (cs ! k)) \<noteq> Some i) \<and>
    (\<forall>(i, t)\<in>set (g_transfers sv). tr_downloading t \<longrightarrow> (\<exists>c\<in>set cs. phase_downloads (cn_phase c) = Some i))"
proof -
  let ?b = "boot quota st now age readable left names"
  have ok: "server_ok (max (unat quota) (unat (g_reserved_bytes ?b))) sv cs"
    by (rule server_reachable_ok [OF assms(5) boot_ok [OF assms(1-4) refl]])
  note inv = ok [unfolded server_ok_def]
  have listed: "(i, t) \<in> set (g_transfers sv) \<Longrightarrow> map_of (g_transfers sv) i = Some t" for i t using inv by simp
  have "g_reserved_bytes sv \<le> max quota (g_reserved_bytes ?b)"
    using server_ok_limit [OF ok] by (simp add: le_max_iff_disj, simp add: word_le_nat_alt)
  moreover have "phase_downloads (cn_phase (cs ! k)) \<noteq> Some i"
    if "j < k" "k < length cs" "phase_downloads (cn_phase (cs ! j)) = Some i" for i j k
    using server_ok_others [OF ok _ downloads_uses [OF that(3)], of k] that downloads_uses by fastforce
  moreover have "keys_sum (\<lambda>t. unat (tr_reserved_bytes t)) (g_transfers sv) = sum_list (map (\<lambda>(i, t). unat (tr_reserved_bytes t)) (g_transfers sv))"
    by (simp add: keys_sum_def comp_def split_def)
  ultimately show ?thesis using inv listed by fastforce
qed

theorem server_accounts_exactly_witness:
  "let (sv, c) = turn sample_io (Some (message UPLOAD_REQUEST (serialize_file_header sample_header))) sample_server (fresh 9) in
   unat (g_reserved_bytes sv) = phase_held (cn_phase c) \<and> g_reserved_bytes sv \<le> 1000000 \<and> cn_phase c \<noteq> Closed"
proof -
  let ?a = "turn sample_io (Some (message UPLOAD_REQUEST (serialize_file_header sample_header))) sample_server (fresh 9)"
  have "server_step (sample_server, []) (sample_server, [fresh 9])"
    using server_step.accept [of "[]" sample_server 9] by (simp add: open_connections_def fresh_def)
  moreover have "server_step (sample_server, [fresh 9]) (fst ?a, [snd ?a])"
    using server_step.serve [of 0 "[fresh 9]" sample_io _ sample_server "fst ?a" "snd ?a"] by simp
  ultimately have "server_step\<^sup>*\<^sup>* (boot 1000000 Map.empty 0 (\<lambda>_. 0) (\<lambda>_. True) (\<lambda>_. None) [], []) (fst ?a, [snd ?a])"
    unfolding sample_server_def by (simp add: boot_def restore_transfers_def)
  from server_accounts_exactly [OF _ _ _ _ this]
  have "unat (g_reserved_bytes (fst ?a)) = sum_list (map (\<lambda>(i, t). unat (tr_reserved_bytes t)) (g_transfers (fst ?a))) + phase_held (cn_phase (snd ?a))"
    "g_reserved_bytes (fst ?a) \<le> 1000000" by (simp_all add: boot_def restore_transfers_def start_server_def)
  moreover have "g_transfers (fst ?a) = []" "cn_phase (snd ?a) \<noteq> Closed"
    using sample_header_valid
    by (auto simp: turn_def fresh_def handle_first_def message_def upload_request_def Let_def sample_server_def start_server_def
        sample_header_def storage_cost_def serialize_file_header_def write_public_fields_def write_u32_def write_u64_def write_blob_def write_bytes_def)
  ultimately show ?thesis by (simp add: split_def Let_def)
qed

text \<open>
  C21: A restart finds what was stored. After the server, itself started on any folder, has been stopped in any reachable state and started again on the
  same folder, every transfer that was listed and is not older than a day is listed again, with its age counted from the file
  on disk and free to be downloaded; every listed transfer is complete on disk; the space in use is the sum of what they cost; and
  every other directory with the name of a transfer has been removed.
\<close>
theorem restart_restores:
  assumes "unat quota \<le> 2 ^ 63" and "distinct found" and "\<forall>i\<in>set found. st i \<noteq> None" and "length found \<le> 2 ^ 27"
    and "server_step\<^sup>*\<^sup>* (boot quota st now0 age0 readable0 left0 found, []) (sv, cs)"
    and "distinct names" and "set names = {i. g_storage sv i \<noteq> None}" and "\<forall>i. readable i"
    and "sv' = boot quota' (g_storage sv) now age readable left names"
  shows "(\<forall>(i, t)\<in>set (g_transfers sv). is_lower_hex i TRANSFER_ID_HEX_LEN \<and> age i \<le> TRANSFER_TTL \<longrightarrow>
      map_of (g_transfers sv') i = Some (t \<lparr> tr_created := now - age i, tr_downloading := False \<rparr>)) \<and>
    (\<forall>i t. map_of (g_transfers sv') i = Some t \<longrightarrow> stored_ok (g_storage sv') i t \<and> age i \<le> TRANSFER_TTL \<and> \<not> tr_downloading t) \<and>
    g_reserved_bytes sv' = sum_list (map (tr_reserved_bytes \<circ> snd) (g_transfers sv')) \<and>
    (\<forall>i. is_lower_hex i TRANSFER_ID_HEX_LEN \<and> map_of (g_transfers sv') i = None \<longrightarrow> g_storage sv' i = None \<or> g_storage sv' i = left i)"
proof -
  let ?b = "boot quota st now0 age0 readable0 left0 found"
  have ok: "server_ok (max (unat quota) (unat (g_reserved_bytes ?b))) sv cs"
    by (rule server_reachable_ok [OF assms(5) boot_ok [OF assms(1-4) refl]])
  have "\<forall>i\<in>set names. g_storage sv i \<noteq> None" using assms(7) by simp
  note boot = boot_restores [OF assms(6) this, of quota' now age readable left, folded assms(9)]
  have tr: "map_of (g_transfers sv') i = (if i \<in> set names \<and> is_lower_hex i TRANSFER_ID_HEX_LEN then restorable now age readable (g_storage sv) i else None)"
    and st: "g_storage sv' i = (if i \<in> set names \<and> is_lower_hex i TRANSFER_ID_HEX_LEN \<and> restorable now age readable (g_storage sv) i = None
      then left i else g_storage sv i)"
    and sum: "g_reserved_bytes sv' = sum_list (map (tr_reserved_bytes \<circ> snd) (g_transfers sv'))" for i
    using boot [of i] by blast+
  have "map_of (g_transfers sv') i = Some (t \<lparr> tr_created := now - age i, tr_downloading := False \<rparr>)"
    if "(i, t) \<in> set (g_transfers sv)" "is_lower_hex i TRANSFER_ID_HEX_LEN" "age i \<le> TRANSFER_TTL" for i t
  proof -
    have "stored_ok (g_storage sv) i t" using ok that(1) by (simp add: server_ok_def)
    moreover from this have "i \<in> set names" using assms(7) by (auto simp: stored_ok_def)
    ultimately show ?thesis using tr [of i] stored_restorable [of "g_storage sv" i t readable age now] assms(8) that(2, 3) by simp
  qed
  moreover have "stored_ok (g_storage sv') i t \<and> age i \<le> TRANSFER_TTL \<and> \<not> tr_downloading t"
    if "map_of (g_transfers sv') i = Some t" for i t
  proof -
    from that have r: "restorable now age readable (g_storage sv) i = Some t" using tr [of i] by (simp split: if_splits)
    then have "g_storage sv' i = g_storage sv i" using st [of i] by simp
    then show ?thesis using restorable_stored [OF r] by (simp add: stored_ok_def)
  qed
  moreover have "g_storage sv' i = None \<or> g_storage sv' i = left i"
    if "is_lower_hex i TRANSFER_ID_HEX_LEN" "map_of (g_transfers sv') i = None" for i
    using that tr [of i] st [of i] assms(7) by (auto split: if_splits)
  ultimately show ?thesis using sum by blast
qed

theorem restart_restores_witness:
  "let sv = fst (run sample_io [Some (message UPLOAD_REQUEST (serialize_file_header sample_header)), None,
              Some (message UPLOAD_CHUNK (serialize_file_chunk sample_chunk)), Some (message UPLOAD_DONE [])] (sample_server, fresh 9));
       sv' = boot 1000000 (g_storage sv) 500 (\<lambda>_. 7) (\<lambda>_. True) (\<lambda>_. None) [bytes_to_hex (replicate 16 171)] in
   map_option tr_created (map_of (g_transfers sv') (bytes_to_hex (replicate 16 171))) = Some 493"
proof -
  let ?i = "bytes_to_hex (replicate 16 171)"
  let ?up = "run sample_io [Some (message UPLOAD_REQUEST (serialize_file_header sample_header)), None,
      Some (message UPLOAD_CHUNK (serialize_file_chunk sample_chunk)), Some (message UPLOAD_DONE [])] (sample_server, fresh 9)"
  let ?sv = "boot 1000000 (g_storage (fst ?up)) 500 (\<lambda>_. 7) (\<lambda>_. True) (\<lambda>_. None) [?i]"
  have "server_step (sample_server, []) (sample_server, [fresh 9])"
    using server_step.accept [of "[]" sample_server 9] by (simp add: open_connections_def fresh_def)
  then have reach: "server_step\<^sup>*\<^sup>* (boot 1000000 Map.empty 0 (\<lambda>_. 0) (\<lambda>_. True) (\<lambda>_. None) [], []) (fst ?up, [snd ?up])"
    unfolding boot_def restore_transfers_def filter.simps foldl.simps sample_server_def [symmetric]
    by (rule converse_rtranclp_into_rtranclp) (rule run_steps [OF surjective_pairing])
  note up = upload_run [OF sample_header_valid sample_cost sample_smooth sample_empty(1) _ sample_index sample_size, of 9]
  have names: "distinct [?i]" "set [?i] = {j. g_storage (fst ?up) j \<noteq> None}"
    and listed: "\<exists>t. (?i, t) \<in> set (g_transfers (fst ?up))"
    using up by (auto simp: sample_server_def start_server_def)
  have hex: "is_lower_hex ?i TRANSFER_ID_HEX_LEN" by (rule bytes_to_hex_id) simp
  have "\<forall>(i, t)\<in>set (g_transfers (fst ?up)). is_lower_hex i TRANSFER_ID_HEX_LEN \<and> (7 :: time) \<le> TRANSFER_TTL \<longrightarrow>
      map_of (g_transfers ?sv) i = Some (t \<lparr> tr_created := 500 - 7, tr_downloading := False \<rparr>)"
    using restart_restores [OF _ _ _ _ reach names, of "\<lambda>_. True" ?sv 1000000 500 "\<lambda>_. 7" "\<lambda>_. None"] by simp
  with listed hex show ?thesis unfolding Let_def by fastforce
qed

end
