(* ===== verification/Chat_Archive.thy ===== *)
theory Chat_Archive
  imports Crypto_Engine Relay_Protocol Signing_Inputs
begin

text \<open>
  A chat's archive as the client sees it (\<^verbatim>\<open>src/client/archive.cpp\<close>): how an entry is sealed and opened,
  and how a copy of the hash chain that came from the relay is checked.  The nonce that \<^verbatim>\<open>seal_entry\<close>
  draws is an argument.  The theorems: what was sealed is what is opened, and a chain of entries is
  pinned by its last hash, as long as no two of the inputs that were hashed collide.
\<close>

abbreviation (input) "ENTRY_AAD_LABEL \<equiv> ''pq-suite v3 archive entry content''"
abbreviation (input) "ARCHIVE_KEY_BYTES \<equiv> (32 :: nat)"
abbreviation (input) "ARCHIVE_NONCE_BYTES \<equiv> (12 :: nat)"
abbreviation (input) "ARCHIVE_TAG_BYTES \<equiv> (16 :: nat)"
abbreviation (input) "MAX_RECORD_BYTES \<equiv> MAX_ARCHIVE_ENTRY_BYTES - ARCHIVE_NONCE_BYTES - ARCHIVE_TAG_BYTES"

definition entry_aad :: "bytes \<Rightarrow> u64 \<Rightarrow> bytes" where
  "entry_aad archive_id number =
    (let b = []; b = write_string b ENTRY_AAD_LABEL; b = write_blob b archive_id; b = write_u64 b number in b)"

definition genesis_hash :: "crypto_lib \<Rightarrow> bytes \<Rightarrow> bytes" where
  "genesis_hash L archive_id = sha256 L (archive_genesis_input archive_id)"

definition entry_hash :: "crypto_lib \<Rightarrow> bytes \<Rightarrow> u64 \<Rightarrow> bytes \<Rightarrow> bytes \<Rightarrow> bytes" where
  "entry_hash L archive_id number previous_hash blob = sha256 L (archive_entry_hash_input archive_id number previous_hash blob)"

definition seal_entry :: "crypto_lib \<Rightarrow> bytes \<Rightarrow> bytes \<Rightarrow> bytes \<Rightarrow> u64 \<Rightarrow> bytes \<Rightarrow> bytes thrown" where
  "seal_entry L nonce archive_key archive_id number rec =
    (if length archive_key \<noteq> ARCHIVE_KEY_BYTES then Inl ''The archive key has the wrong size''
     else if rec = [] \<or> length rec > MAX_RECORD_BYTES then Inl ''That record does not fit in an archive entry''
     else and_then (encrypt L archive_key nonce rec (entry_aad archive_id number)) (\<lambda>ciphertext. Inr (nonce @ ciphertext)))"

definition open_entry :: "crypto_lib \<Rightarrow> bytes \<Rightarrow> bytes \<Rightarrow> u64 \<Rightarrow> bytes \<Rightarrow> bytes option" where
  "open_entry L archive_key archive_id number blob =
    (if length archive_key \<noteq> ARCHIVE_KEY_BYTES \<or> length blob < ARCHIVE_NONCE_BYTES + ARCHIVE_TAG_BYTES + 1 then None
     else let nonce = take ARCHIVE_NONCE_BYTES blob; ciphertext = drop ARCHIVE_NONCE_BYTES blob in
       case decrypt L archive_key nonce ciphertext (entry_aad archive_id number) of
         Inr r \<Rightarrow> r
       | Inl _ \<Rightarrow> None)"

record Head = hd_number :: u64 hd_hash :: bytes

fun verify_chain :: "crypto_lib \<Rightarrow> bytes \<Rightarrow> Head \<Rightarrow> ArchiveEntry list \<Rightarrow> Head option" where
  "verify_chain L archive_id head [] = Some head"
| "verify_chain L archive_id head (e # entries) =
    (if ae_number e \<noteq> hd_number head + 1 then None
     else if \<not> ae_tombstone e \<and> ae_hash e \<noteq> entry_hash L archive_id (ae_number e) (hd_hash head) (ae_ciphertext e) then None
     else verify_chain L archive_id \<lparr> hd_number = ae_number e, hd_hash = ae_hash e \<rparr> entries)"

section \<open>Sealing and opening\<close>

lemma seal_entry_Inr:
  "seal_entry L nonce key a n rec = Inr blob \<longleftrightarrow>
   rec \<noteq> [] \<and> length rec \<le> MAX_RECORD_BYTES \<and> (\<exists>c. encrypt L key nonce rec (entry_aad a n) = Inr c \<and> blob = nonce @ c)"
  by (auto simp: seal_entry_def and_then_Inr encrypt_Inr not_less)

text \<open>
  What was archived is what is read. An entry that \<^verbatim>\<open>seal_entry\<close> made is opened, with the key, the archive and
  the number it was made for, to the record it was made of; and it fits the limit that the relay puts
  on an entry.
\<close>
lemma archive_entry_round_trip:
  assumes "gcm_lawful L" and sealed: "seal_entry L nonce key a n rec = Inr blob"
  shows "open_entry L key a n blob = Some rec \<and> length blob \<le> MAX_ARCHIVE_ENTRY_BYTES"
proof -
  from sealed obtain c where r: "rec \<noteq> []" "length rec \<le> MAX_RECORD_BYTES"
    and c: "encrypt L key nonce rec (entry_aad a n) = Inr c" and blob: "blob = nonce @ c"
    unfolding seal_entry_Inr by blast
  from c have len: "length key = 32" "length nonce = 12" by (simp_all add: encrypt_Inr)
  have lc: "length c = length rec + 16" by (rule encrypt_length [OF assms(1) c])
  have "length blob \<le> MAX_ARCHIVE_ENTRY_BYTES" using r lc len by (simp add: blob)
  have "0 < length rec" using r(1) by simp
  then have "open_entry L key a n blob = Some rec"
    using len lc decrypt_encrypt [OF assms(1) c] by (simp add: open_entry_def blob)
  with \<open>length blob \<le> MAX_ARCHIVE_ENTRY_BYTES\<close> show ?thesis by simp
qed

section \<open>Chains\<close>

lemma verify_chain_append:
  "verify_chain L a h (xs @ ys) = Option.bind (verify_chain L a h xs) (\<lambda>h. verify_chain L a h ys)"
  by (induction xs arbitrary: h) auto

lemma verify_chain_snoc:
  "verify_chain L a h (xs @ [e]) = Some h' \<longleftrightarrow>
   (\<exists>m. verify_chain L a h xs = Some m \<and> ae_number e = hd_number m + 1 \<and> hd_number h' = ae_number e \<and> hd_hash h' = ae_hash e \<and>
      (\<not> ae_tombstone e \<longrightarrow> ae_hash e = entry_hash L a (ae_number e) (hd_hash m) (ae_ciphertext e)))"
  by (cases "verify_chain L a h xs"; cases h') (auto simp: verify_chain_append)

lemma verify_chain_Cons:
  "verify_chain L a f (e # es) = Some h \<longleftrightarrow>
   ae_number e = hd_number f + 1 \<and> (\<not> ae_tombstone e \<longrightarrow> ae_hash e = entry_hash L a (ae_number e) (hd_hash f) (ae_ciphertext e)) \<and>
   verify_chain L a \<lparr> hd_number = ae_number e, hd_hash = ae_hash e \<rparr> es = Some h"
  by auto

text \<open>An entry whose content is gone still fits in its place.\<close>

definition tombstone_of :: "ArchiveEntry \<Rightarrow> ArchiveEntry \<Rightarrow> bool" where
  "tombstone_of e t \<longleftrightarrow> t = e \<or> ae_number t = ae_number e \<and> ae_hash t = ae_hash e \<and> ae_tombstone t"

lemma verify_chain_tombstones:
  "list_all2 tombstone_of xs ys \<Longrightarrow> verify_chain L a h xs = Some h' \<Longrightarrow> verify_chain L a h ys = Some h'"
proof (induction arbitrary: h rule: list_all2_induct)
  case (Cons x xs y ys)
  then show ?case by (auto simp: tombstone_of_def split: if_splits)
qed simp

text \<open>The inputs that were hashed for the entries of a chain.\<close>

fun chain_inputs :: "bytes \<Rightarrow> bytes \<Rightarrow> ArchiveEntry list \<Rightarrow> bytes set" where
  "chain_inputs a h [] = {}"
| "chain_inputs a h (e # es) = insert (archive_entry_hash_input a (ae_number e) h (ae_ciphertext e)) (chain_inputs a (ae_hash e) es)"

lemma entry_input_inject:
  assumes "length a = 16" "length p = 32" "length q = 32" "length c \<le> MAX_ARCHIVE_ENTRY_BYTES" "length d \<le> MAX_ARCHIVE_ENTRY_BYTES"
  shows "archive_entry_hash_input a n p c = archive_entry_hash_input a m q d \<longleftrightarrow> n = m \<and> p = q \<and> c = d"
  using statement_inject [of "ArchiveEntryStatement a n p c" "ArchiveEntryStatement a m q d"] assms by simp

text \<open>
  C26: The last hash pins the chain. Two chains of entries of the same length, none of them redacted, that the
  client accepts and that end in the same head are the same entry by entry and started from the same
  head -- unless two different inputs among those that were hashed on the way have the same SHA-256.
\<close>
theorem chain_pinned:
  assumes "length a = ARCHIVE_ID_BYTES"
    and "verify_chain L a f es = Some h" and "verify_chain L a g es' = Some h" and "length es = length es'"
    and "list_all (\<lambda>e. wf_ArchiveEntry e \<and> \<not> ae_tombstone e) (es @ es')"
    and "length (hd_hash f) = HASH_BYTES" and "length (hd_hash g) = HASH_BYTES"
    and "inj_on (sha256 L) (chain_inputs a (hd_hash f) es \<union> chain_inputs a (hd_hash g) es')"
  shows "f = g \<and> es = es'"
  using assms(4, 2, 3, 5-)
proof (induction es es' arbitrary: f g rule: list_induct2)
  case (Cons e es e' es')
  let ?f = "\<lparr> hd_number = ae_number e, hd_hash = ae_hash e \<rparr>" and ?g = "\<lparr> hd_number = ae_number e', hd_hash = ae_hash e' \<rparr>"
  let ?x = "archive_entry_hash_input a (ae_number e) (hd_hash f) (ae_ciphertext e)"
  let ?y = "archive_entry_hash_input a (ae_number e') (hd_hash g) (ae_ciphertext e')"
  from Cons.prems(3) have wf: "wf_ArchiveEntry e" "wf_ArchiveEntry e'" "\<not> ae_tombstone e" "\<not> ae_tombstone e'"
    and wfs: "list_all (\<lambda>e. wf_ArchiveEntry e \<and> \<not> ae_tombstone e) (es @ es')" by simp_all
  from Cons.prems(1) wf(3) have e: "ae_number e = hd_number f + 1" "ae_hash e = sha256 L ?x" "verify_chain L a ?f es = Some h"
    unfolding verify_chain_Cons entry_hash_def by blast+
  from Cons.prems(2) wf(4) have e': "ae_number e' = hd_number g + 1" "ae_hash e' = sha256 L ?y" "verify_chain L a ?g es' = Some h"
    unfolding verify_chain_Cons entry_hash_def by blast+
  have len: "length (ae_hash e) = 32" "length (ae_hash e') = 32" using wf by (simp_all add: wf_ArchiveEntry_def)
  have "?f = ?g \<and> es = es'"
  proof (rule Cons.IH [OF e(3) e'(3) wfs])
    show "inj_on (sha256 L) (chain_inputs a (hd_hash ?f) es \<union> chain_inputs a (hd_hash ?g) es')"
      using Cons.prems(6) by (rule inj_on_subset) auto
  qed (simp_all add: len)
  then have same: "ae_number e = ae_number e'" "ae_hash e = ae_hash e'" "es = es'" by simp_all
  have "?x = ?y"
    by (rule inj_onD [OF Cons.prems(6)]) (simp_all add: same(2) flip: e(2) e'(2))
  then have "hd_hash f = hd_hash g" "ae_ciphertext e = ae_ciphertext e'"
    using entry_input_inject [OF assms(1) Cons.prems(4, 5)] wf by (simp_all add: wf_ArchiveEntry_def)
  moreover have "hd_number f = hd_number g" using same(1) e(1) e'(1) by simp
  ultimately show ?case using wf(3, 4) same by (intro conjI arg_cong2 [where f = Cons] Head.equality ArchiveEntry.equality) simp_all
qed simp

theorem chain_pinned_witness:
  "verify_chain sample_lib (replicate 16 3) \<lparr> hd_number = 0, hd_hash = replicate 32 9 \<rparr>
     [\<lparr> ae_number = 1, ae_hash = entry_hash sample_lib (replicate 16 3) 1 (replicate 32 9) [42], ae_ciphertext = [42], ae_tombstone = False \<rparr>] =
     Some \<lparr> hd_number = 1, hd_hash = entry_hash sample_lib (replicate 16 3) 1 (replicate 32 9) [42] \<rparr> \<and>
   \<lparr> hd_number = 0, hd_hash = replicate 32 9 \<rparr> = \<lparr> hd_number = 0, hd_hash = replicate (4 * 8) (9 :: byte) \<rparr>"
proof -
  let ?a = "replicate 16 3 :: bytes" and ?f = "\<lparr> hd_number = 0, hd_hash = replicate 32 9 \<rparr>"
  let ?e = "\<lparr> ae_number = 1, ae_hash = entry_hash sample_lib ?a 1 (replicate 32 9) [42], ae_ciphertext = [42], ae_tombstone = False \<rparr>"
  have v: "verify_chain sample_lib ?a ?f [?e] = Some \<lparr> hd_number = 1, hd_hash = ae_hash ?e \<rparr>" by simp
  have "length (ae_hash ?e) = 32" by (simp add: entry_hash_def sha256_def sample_lib_def)
  then have "list_all (\<lambda>e. wf_ArchiveEntry e \<and> \<not> ae_tombstone e) ([?e] @ [?e])"
    by (simp add: wf_ArchiveEntry_def)
  from chain_pinned [OF _ v v _ this] v show ?thesis by simp
qed

text \<open>
  A redacted entry's hash is taken as given, so it pins nothing that came before it: the entry in front
  of a tombstone can be exchanged for any other and the chain is still accepted with the same head.
\<close>

lemma tombstone_unpins:
  assumes "verify_chain L a f (e # t # es) = Some h" and "ae_tombstone t"
  shows "verify_chain L a f (e \<lparr> ae_ciphertext := c, ae_hash := entry_hash L a (ae_number e) (hd_hash f) c \<rparr> # t # es) = Some h"
  using assms by (cases t) (simp split: if_splits)

end
