(* ===== verification/Archive_Chain.thy ===== *)
theory Archive_Chain
  imports Chat_Archive Relay_Session_Spec
begin

text \<open>
  The two halves of an archive together: the chain that the relay builds (\<^verbatim>\<open>append_entry\<close>, with the hash that
  its session computes) and the check of the client (\<^verbatim>\<open>verify_chain\<close>).  \<^verbatim>\<open>relay_chain_ok\<close> says that a client that
  fetches a whole archive accepts it and arrives at the head the relay names; every message of
  every session keeps it, and so does the sweep.
\<close>

definition wire_entry :: "StoredEntry \<Rightarrow> ArchiveEntry" where
  "wire_entry e = \<lparr> ae_number = sn_number e, ae_hash = sn_hash e, ae_ciphertext = sn_ciphertext e, ae_tombstone = sn_redacted e \<rparr>"

definition relay_chain_ok :: "crypto_lib \<Rightarrow> relay_db \<Rightarrow> bool" where
  "relay_chain_ok L d \<longleftrightarrow> list_all (\<lambda>a.
     verify_chain L (ar_id a) \<lparr> hd_number = 0, hd_hash = genesis_hash L (ar_id a) \<rparr>
       (map wire_entry (fetch_entries (ar_id a) 1 (nat (ar_head_number a)) d)) =
     Some \<lparr> hd_number = word_of_int (ar_head_number a), hd_hash = ar_head_hash a \<rparr>) (archives d)"

text \<open>The same over the rows: with the invariant of the store, a fetch of everything is the entries in order.\<close>

definition row_entry :: "archive_entry_row \<Rightarrow> ArchiveEntry" where
  "row_entry e = \<lparr> ae_number = word_of_int (an_number e), ae_hash = an_hash e, ae_ciphertext = an_ciphertext e,
     ae_tombstone = (an_redacted e \<noteq> 0) \<rparr>"

definition chain_row :: "crypto_lib \<Rightarrow> archive_entry_row list \<Rightarrow> archive_row \<Rightarrow> bool" where
  "chain_row L es a \<longleftrightarrow>
     verify_chain L (ar_id a) \<lparr> hd_number = 0, hd_hash = genesis_hash L (ar_id a) \<rparr> (map row_entry (entries_of (ar_id a) es)) =
     Some \<lparr> hd_number = word_of_int (ar_head_number a), hd_hash = ar_head_hash a \<rparr>"

lemma fetch_all:
  assumes "map an_number (entries_of i (archive_entries d)) = [1..n]"
  shows "map wire_entry (fetch_entries i 1 (nat n) d) = map row_entry (entries_of i (archive_entries d))"
proof -
  let ?es = "entries_of i (archive_entries d)"
  have "filter (\<lambda>e. an_archive_id e = i \<and> an_number e \<ge> sint (1 :: u64)) (archive_entries d) = filter (\<lambda>e. an_number e \<ge> 1) ?es"
    by (simp add: entries_of_def conj_commute)
  also have "\<dots> = ?es"
  proof -
    have "an_number ` set ?es = {1..n}" using arg_cong [OF assms, of set] by simp
    then show ?thesis by (auto simp: filter_id_conv)
  qed
  finally have f: "filter (\<lambda>e. an_archive_id e = i \<and> an_number e \<ge> sint (1 :: u64)) (archive_entries d) = ?es" .
  have "sorted (map an_number ?es)" unfolding assms by simp
  then have "sort_key an_number ?es = ?es" by (rule sort_key_id_if_sorted)
  moreover have "length ?es = nat n" using arg_cong [OF assms, of length] by simp
  ultimately show ?thesis unfolding fetch_entries_def f by (simp add: wire_entry_def row_entry_def comp_def)
qed

lemma relay_chain_rows: "db_inv d \<Longrightarrow> relay_chain_ok L d \<longleftrightarrow> (\<forall>a\<in>set (archives d). chain_row L (archive_entries d) a)"
  unfolding relay_chain_ok_def list_all_iff chain_row_def
  by (rule ball_cong [OF refl]) (simp add: fetch_all archive_ok_of [unfolded archive_ok_def])

section \<open>What keeps the chain\<close>

lemma chain_row_cong:
  "ar_id a = ar_id b \<Longrightarrow> ar_head_number a = ar_head_number b \<Longrightarrow> ar_head_hash a = ar_head_hash b \<Longrightarrow>
   entries_of (ar_id b) es = entries_of (ar_id b) es' \<Longrightarrow> chain_row L es a = chain_row L es' b"
  by (simp add: chain_row_def)

lemma chain_append:
  assumes "chain_row L es a" and "an_archive_id e = ar_id a" and "0 \<le> ar_head_number a" and "an_redacted e = 0"
    and "an_number e = ar_head_number a + 1"
    and "an_hash e = sha256 L (archive_entry_hash_input (ar_id a) (word_of_int (ar_head_number a) + 1) (ar_head_hash a) (an_ciphertext e))"
    and "ar_id b = ar_id a" and "ar_head_number b = ar_head_number a + 1" and "ar_head_hash b = an_hash e"
  shows "chain_row L (es @ [e]) b"
  using assms(1) unfolding chain_row_def
  by (simp add: assms(2-) entries_of_def verify_chain_snoc row_entry_def entry_hash_def)

lemma chain_redact:
  assumes "chain_row L es a" and "redact_loop i hs freed es = Some (freed', es')"
  shows "chain_row L es' a"
proof -
  have "list_all2 (\<lambda>x y. an_archive_id x = an_archive_id y \<and> tombstone_of (row_entry x) (row_entry y)) es es'"
    using assms(2)
  proof (induction hs arbitrary: freed es)
    case Nil
    then show ?case by (auto simp: tombstone_of_def intro: list_all2_refl)
  next
    case (Cons h hs)
    let ?t = "update_rows (\<lambda>e. an_archive_id e = i \<and> an_hash e = h) (\<lambda>e. e \<lparr> an_ciphertext := [], an_redacted := 1 \<rparr>) es"
    have "list_all2 (\<lambda>x y. an_archive_id x = an_archive_id y \<and> tombstone_of (row_entry x) (row_entry y)) es ?t"
      by (auto simp: update_rows_def list_all2_map2 tombstone_of_def row_entry_def intro: list_all2_refl)
    moreover have "list_all2 (\<lambda>x y. an_archive_id x = an_archive_id y \<and> tombstone_of (row_entry x) (row_entry y)) ?t es'"
      using Cons by (auto split: option.splits)
    ultimately show ?case by (rule list_all2_trans [rotated]) (auto simp: tombstone_of_def)
  qed
  then have "list_all2 tombstone_of (map row_entry (entries_of j es)) (map row_entry (entries_of j es'))" for j
    unfolding entries_of_def by (induction rule: list_all2_induct) auto
  from verify_chain_tombstones [OF this] assms(1) show ?thesis unfolding chain_row_def by blast
qed

lemma archives_pk: "db_inv d \<Longrightarrow> pk ar_id (archives d)"
  using db_invD(9) by (simp add: archives_inv_def)

lemma chain_delete:
  assumes "pk ar_id (archives d)" and "\<forall>a\<in>set (archives d). chain_row L (archive_entries d) a"
  shows "\<forall>a\<in>set (archives (delete_archives P d)). chain_row L (archive_entries (delete_archives P d)) a"
proof
  fix a
  assume "a \<in> set (archives (delete_archives P d))"
  then have a: "a \<in> set (archives d)" "\<not> P a" by (auto simp: delete_archives_def Let_def delete_rows_def)
  have "b = a" if "b \<in> set (archives d)" "ar_id b = ar_id a" for b
    using that a(1) assms(1) pk_unique [of ar_id "archives d" b a] by simp
  with a(2) have "entries_of (ar_id a) (archive_entries (delete_archives P d)) = entries_of (ar_id a) (archive_entries d)"
    unfolding delete_archives_def Let_def by (simp, intro entries_of_delete) auto
  with assms(2) a(1) show "chain_row L (archive_entries (delete_archives P d)) a" by (simp add: chain_row_def)
qed

lemma append_entry_chain:
  assumes "db_inv d" and "\<forall>a\<in>set (archives d). chain_row L (archive_entries d) a"
    and "\<forall>a\<in>set (archives d). ar_head_number a < MAX_ENTRY_NUMBER"
    and "append_entry i n h (sha256 L (archive_entry_hash_input i (n + 1) h c)) c now q d = Some (r, st, d')"
  shows "\<forall>a\<in>set (archives d'). chain_row L (archive_entries d') a"
proof -
  let ?nh = "sha256 L (archive_entry_hash_input i (n + 1) h c)"
  let ?e = "\<lparr> an_archive_id = i, an_number = sint (n + 1), an_hash = ?nh, an_ciphertext = c, an_appended_at = now, an_redacted = 0 \<rparr>"
  consider "d' = d" | a where "a \<in> set (archives d)" "ar_id a = i" "n = word_of_int (ar_head_number a)" "h = ar_head_hash a"
    "d' = d \<lparr> archive_entries := archive_entries d @ [?e],
             archives := update_rows (\<lambda>a. ar_id a = i) (\<lambda>b. b \<lparr> ar_head_number := sint (n + 1), ar_head_hash := ?nh,
                 ar_bytes := int (nat (ar_bytes a) + length c), ar_last_activity := now \<rparr>) (archives d) \<rparr>"
    using append_entry_cases [OF assms(4)] by blast
  then show ?thesis
  proof cases
    case (2 a)
    from archive_ok_of [OF assms(1) 2(1)] have z: "0 \<le> ar_head_number a" by (simp add: archive_ok_def)
    with assms(3) 2(1) have num: "sint (n + 1) = ar_head_number a + 1" by (simp add: 2(3) next_number)
    have one: "b = a" if "b \<in> set (archives d)" "ar_id b = i" for b
      using that 2(1,2) archives_pk [OF assms(1)] pk_unique [of ar_id "archives d" b a] by simp
    have c: "chain_row L (archive_entries d) a" using assms(2) 2(1) by blast
    have new: "chain_row L (archive_entries d @ [?e]) b" if "ar_id b = i" "ar_head_number b = sint (n + 1)" "ar_head_hash b = ?nh" for b
      by (rule chain_append [OF c]) (simp_all add: that 2(2) z num, simp add: 2(3,4))
    have old: "chain_row L (archive_entries d @ [?e]) b" if "b \<in> set (archives d)" "ar_id b \<noteq> i" for b
      using assms(2) that by (simp add: chain_row_def entries_of_def)
    show ?thesis unfolding 2(5) using new old by (auto simp: update_rows_def)
  qed (use assms(2) in simp)
qed

lemma create_archive_chain:
  assumes "db_inv d" and "\<forall>a\<in>set (archives d). chain_row L (archive_entries d) a"
    and "create_archive i hs (sha256 L (archive_genesis_input i)) now x mx d = Some (r, d')"
  shows "\<forall>a\<in>set (archives d'). chain_row L (archive_entries d') a"
  using assms(2, 3) archive_unreferenced(3) [OF db_invD(9) [OF assms(1)], of i]
  by (cases "i \<in> ar_id ` set (archives d)") (auto simp: create_archive_def bind_eq_Some_conv insert_row_def chain_row_def genesis_hash_def split: if_splits)

lemma redact_entries_chain:
  assumes "\<forall>a\<in>set (archives d). chain_row L (archive_entries d) a" and "redact_entries i hs d = (r, d')"
  shows "\<forall>a\<in>set (archives d'). chain_row L (archive_entries d') a"
proof (cases "d' = d")
  case False
  with assms(2) obtain freed es where r: "redact_loop i hs 0 (archive_entries d) = Some (freed, es)" and d': "archive_entries d' = es"
      "archives d' = update_rows (\<lambda>a. ar_id a = i) (\<lambda>a. a \<lparr> ar_bytes := ar_bytes a - freed \<rparr>) (archives d)"
    by (auto simp: redact_entries_def split: if_splits option.splits)
  have "chain_row L es a" if "a \<in> set (archives d)" for a
    using assms(1) that chain_redact [OF _ r] by blast
  then show ?thesis unfolding d' by (auto simp: update_rows_def chain_row_def)
qed (use assms in simp)

lemma permitted_chain:
  assumes "permitted cf ev arr s d d'" and "db_inv d" and "\<forall>a\<in>set (archives d). ar_head_number a < MAX_ENTRY_NUMBER"
    and "\<forall>a\<in>set (archives d). chain_row (cf_lib cf) (archive_entries d) a"
  shows "\<forall>a\<in>set (archives d'). chain_row (cf_lib cf) (archive_entries d') a"
  using assms(1)
proof cases
  case permitted_ack
  then show ?thesis using assms(4) by (auto simp: ack_def dest!: ack_loop_spec)
next
  case permitted_create_archive
  then show ?thesis using create_archive_chain [OF assms(2, 4)] by blast
next
  case permitted_append
  then show ?thesis using append_entry_chain [OF assms(2, 4, 3)] by blast
next
  case permitted_delete_archive
  then show ?thesis using chain_delete [OF archives_pk [OF assms(2)] assms(4)] by (auto simp: delete_archive_def)
next
  case permitted_redact
  then show ?thesis using redact_entries_chain [OF assms(4)] by blast
qed (use assms(4) in \<open>auto simp: store_op_defs Let_def bind_eq_Some_conv insert_row_def split: if_splits option.splits prod.splits\<close>)

lemma sweep_chain:
  assumes "db_inv d" and "\<forall>a\<in>set (archives d). chain_row L (archive_entries d) a"
  shows "\<forall>a\<in>set (archives (snd (sweep now d))). chain_row L (archive_entries (snd (sweep now d))) a"
  unfolding sweep_def Let_def snd_conv by (rule chain_delete) (simp_all add: assms archives_pk)

text \<open>
  C24: What the relay serves, the client accepts. If a client that fetches any archive of the relay in full accepts the
  chain and arrives at the head the relay names, then this is still so after any turn of any session
  -- whatever message arrives, appends, deletions and redactions included -- and after the relay's sweep.
\<close>
theorem relay_chain_kept:
  assumes "db_inv (sv_db (wo_service w))" and "relay_chain_ok (cf_lib cf) (sv_db (wo_service w))"
    and "list_all (\<lambda>a. ar_head_number a < MAX_ENTRY_NUMBER) (archives (sv_db (wo_service w)))"
  shows "relay_chain_ok (cf_lib cf) (sv_db (wo_service (snd (session_turn cf ev x w)))) \<and>
    relay_chain_ok (cf_lib cf) (snd (sweep now (sv_db (wo_service w))))"
proof -
  let ?d' = "db (snd (session_turn cf ev x w))"
  have c: "\<forall>a\<in>set (archives (db w)). chain_row (cf_lib cf) (archive_entries (db w)) a"
    using assms(1, 2) by (simp add: relay_chain_rows)
  have "store_step\<^sup>*\<^sup>* (db w) ?d'" by (rule permitted_steps [OF session_turn_permitted assms(3)])
  then have inv: "db_inv ?d'" using assms(1) by (induction rule: rtranclp_induct) (blast intro: store_step_inv)+
  have "\<forall>a\<in>set (archives ?d'). chain_row (cf_lib cf) (archive_entries ?d') a"
    using permitted_chain [OF session_turn_permitted assms(1) _ c] assms(3) by (simp add: list_all_iff)
  moreover have "db_inv (snd (sweep now (db w)))"
    by (rule store_step_inv [OF step_sweep assms(1)]) (rule surjective_pairing)
  ultimately show ?thesis using inv sweep_chain [OF assms(1) c] by (simp add: relay_chain_rows)
qed

definition fresh_archive_world :: world where
  "fresh_archive_world = sample_world \<lparr> wo_service := (wo_service sample_world) \<lparr> sv_db := sample_relay_db \<lparr>
     archives := [\<lparr> ar_id = chat, ar_member_count = 1, ar_created_at = 5, ar_closes_at = 500, ar_head_number = 0,
          ar_head_hash = genesis_hash sample_lib chat, ar_bytes = 0, ar_last_activity = 7 \<rparr>], archive_entries := [] \<rparr> \<rparr> \<rparr>"

theorem relay_chain_kept_witness:
  "relay_chain_ok sample_lib (sv_db (wo_service (snd (session_turn sample_config sample_env (Arrived sample_deposit) fresh_archive_world))))"
proof -
  have "db_inv (sv_db (wo_service fresh_archive_world))"
    by (simp add: fresh_archive_world_def sample_relay_db_def empty_db_def db_inv_def tokens_inv_def envelopes_inv_def
        prekeys_inv_def takes_inv_def files_inv_def keyrings_inv_def archives_inv_def archive_ok_def entries_of_def pk_def fk_def
        count_rows_def)
  moreover have "relay_chain_ok (cf_lib sample_config) (sv_db (wo_service fresh_archive_world))"
    by (simp add: relay_chain_ok_def fresh_archive_world_def fetch_entries_def sample_config_def)
  moreover have "list_all (\<lambda>a. ar_head_number a < MAX_ENTRY_NUMBER) (archives (sv_db (wo_service fresh_archive_world)))"
    by (simp add: fresh_archive_world_def)
  ultimately have "relay_chain_ok (cf_lib sample_config)
      (sv_db (wo_service (snd (session_turn sample_config sample_env (Arrived sample_deposit) fresh_archive_world))))"
    using relay_chain_kept by blast
  then show ?thesis by (simp add: sample_config_def)
qed

end
