(* ===== verification/Record_Payloads.thy ===== *)
theory Record_Payloads
  imports Crypto_Engine Relay_Protocol
begin

text \<open>
  The payloads of the message records (\<^verbatim>\<open>src/client/message_record.cpp\<close>): group creation, forwards, archive grants,
  checkpoints, attachments, deletion requests and acceptances, receipts; and the check of text that is
  shown as a label.  A payload function throws on what is not valid; a parser returns nothing.  The
  interface \<^verbatim>\<open>checked_codec\<close> states how the two belong together: the parser accepts exactly what the
  payload function makes, of the values that pass one more test where the two differ.
\<close>

locale checked_codec =
  fixes enc :: "'m \<Rightarrow> bytes thrown" and dec :: "bytes \<Rightarrow> 'm option" and ok :: "'m \<Rightarrow> bool"
  assumes dec_iff: "dec p = Some m \<longleftrightarrow> ok m \<and> enc m = Inr p"
begin

lemma round_trip: "enc m = Inr p \<Longrightarrow> ok m \<Longrightarrow> dec p = Some m"
  by (simp add: dec_iff)

lemma canonical: "dec p = Some m \<Longrightarrow> enc m = Inr p"
  by (simp add: dec_iff)

lemma enc_inject: "enc m = Inr p \<Longrightarrow> enc m' = Inr p \<Longrightarrow> ok m \<Longrightarrow> ok m' \<Longrightarrow> m = m'"
  by (metis dec_iff option.inject)

end

section \<open>Labels\<close>

text \<open>The first byte of a character: the bits it contributes and the length of the character.\<close>

definition utf8_lead :: "byte \<Rightarrow> (u32 \<times> nat) option" where
  "utf8_lead c =
    (if c < 0x80 then Some (ucast c, 1)
     else if c AND 0xE0 = 0xC0 then Some (ucast c AND 0x1F, 2)
     else if c AND 0xF0 = 0xE0 then Some (ucast c AND 0x0F, 3)
     else if c AND 0xF8 = 0xF0 then Some (ucast c AND 0x07, 4)
     else None)"

fun utf8_continue :: "u32 \<Rightarrow> bytes \<Rightarrow> u32 option" where
  "utf8_continue cp [] = Some cp"
| "utf8_continue cp (cc # ccs) =
    (if cc AND 0xC0 \<noteq> 0x80 then None else utf8_continue (push_bit 6 cp OR (ucast cc AND 0x3F)) ccs)"

definition MIN_FOR_LENGTH :: "nat \<Rightarrow> u32" where
  "MIN_FOR_LENGTH len = [0, 0, 0x80, 0x800, 0x10000] ! len"

definition label_code_point :: "u32 \<Rightarrow> bool" where
  "label_code_point cp =
    (if cp > 0x10FFFF \<or> (cp \<ge> 0xD800 \<and> cp \<le> 0xDFFF) then False
     else if cp < 0x20 \<or> (cp \<ge> 0x7F \<and> cp \<le> 0x9F) then False
     else if (cp \<ge> 0x202A \<and> cp \<le> 0x202E) \<or> (cp \<ge> 0x2066 \<and> cp \<le> 0x2069) then False
     else True)"

fun valid_label_bytes :: "bytes \<Rightarrow> bool" where
  "valid_label_bytes [] = True"
| "valid_label_bytes (c # s) =
    (case utf8_lead c of
       None \<Rightarrow> False
     | Some (cp, len) \<Rightarrow>
        if len > Suc (length s) then False
        else (case utf8_continue cp (take (len - 1) s) of
            None \<Rightarrow> False
          | Some cp \<Rightarrow>
             if len > 1 \<and> cp < MIN_FOR_LENGTH len then False
             else if \<not> label_code_point cp then False
             else valid_label_bytes (drop (len - 1) s)))"

definition valid_label :: "string \<Rightarrow> bool" where
  "valid_label s = valid_label_bytes (bytes_of_string s)"

definition visible_ascii :: "string \<Rightarrow> bool" where
  "visible_ascii s = list_all (\<lambda>c. \<not> (c < 0x21 \<or> c > 0x7E)) (bytes_of_string s)"

section \<open>Group creation\<close>

abbreviation (input) "ID_BYTES \<equiv> (16 :: nat)"
abbreviation (input) "MAX_GROUP_MEMBERS \<equiv> (16 :: nat)"
abbreviation (input) "MAX_TITLE_BYTES \<equiv> (64 :: nat)"
abbreviation (input) "MAX_CONVERSATION_PAYLOAD \<equiv> (1024 :: nat)"
abbreviation (input) "CONVERSATION_PAYLOAD_VERSION \<equiv> (1 :: u32)"
abbreviation (input) "MODE_SAVED \<equiv> (1 :: u32)"

record ConversationInfo =
  ci_title :: string
  ci_mode :: u32
  ci_timer_seconds :: u64
  ci_previous_id :: bytes
  ci_members :: "bytes list"

definition valid_info :: "ConversationInfo \<Rightarrow> bool" where
  "valid_info c =
    (if length (ci_title c) > MAX_TITLE_BYTES \<or> \<not> valid_label (ci_title c) then False
     else if ci_mode c \<noteq> MODE_SAVED \<or> ci_timer_seconds c \<noteq> 0 then False
     else if ci_previous_id c \<noteq> [] \<and> length (ci_previous_id c) \<noteq> ID_BYTES then False
     else if length (ci_members c) < 2 \<or> length (ci_members c) > MAX_GROUP_MEMBERS then False
     else list_all (\<lambda>m. length m = HASH_BYTES) (ci_members c) \<and> distinct (ci_members c))"

definition conversation_payload :: "ConversationInfo \<Rightarrow> bytes thrown" where
  "conversation_payload info =
    (if \<not> valid_info info then Inl ''The group's details are not valid''
     else let p = []; p = write_u32 p CONVERSATION_PAYLOAD_VERSION; p = write_blob p (bytes_of_string (ci_title info));
              p = write_u32 p (ci_mode info); p = write_u64 p (ci_timer_seconds info); p = write_blob p (ci_previous_id info);
              p = write_u32 p (word_of_nat (length (ci_members info))); p = foldl write_blob p (ci_members info) in Inr p)"

definition parse_conversation_payload :: "bytes \<Rightarrow> ConversationInfo option" where
  "parse_conversation_payload payload =
    (if length payload > MAX_CONVERSATION_PAYLOAD then None
     else do { (version, off) \<leftarrow> read_u32 payload 0;
               (title, off) \<leftarrow> read_blob MAX_TITLE_BYTES payload off;
               (mode, off) \<leftarrow> read_u32 payload off;
               (timer, off) \<leftarrow> read_u64 payload off;
               (previous, off) \<leftarrow> read_blob ID_BYTES payload off;
               (count, off) \<leftarrow> read_u32 payload off;
               if version \<noteq> CONVERSATION_PAYLOAD_VERSION then None
               else if count < 2 \<or> unat count > MAX_GROUP_MEMBERS then None
               else do {
                 (members, off) \<leftarrow> read_loop (read_blob HASH_BYTES) (\<lambda>_ _. True) (unat count) payload off [];
                 let info = \<lparr> ci_title = string_of_bytes title, ci_mode = mode, ci_timer_seconds = timer, ci_previous_id = previous,
                              ci_members = members \<rparr> in
                 if off \<noteq> length payload \<or> \<not> valid_info info then None else Some info } })"

section \<open>Forwards, archive grants, checkpoints\<close>

abbreviation (input) "MAX_FORWARD_ENVELOPE_BYTES \<equiv> (8192 :: nat)"
abbreviation (input) "MAX_RELAY_ADDRESS_BYTES \<equiv> (255 :: nat)"
abbreviation (input) "MAX_ARCHIVE_GRANT_PAYLOAD \<equiv> (512 :: nat)"

record ForwardInfo = fw_target :: bytes fw_envelope :: bytes

definition forward_payload :: "ForwardInfo \<Rightarrow> bytes thrown" where
  "forward_payload f =
    (if length (fw_target f) \<noteq> HASH_BYTES \<or> fw_envelope f = [] \<or> length (fw_envelope f) > MAX_FORWARD_ENVELOPE_BYTES
     then Inl ''The forwarded envelope is not valid''
     else let p = []; p = write_blob p (fw_target f); p = write_blob p (fw_envelope f) in Inr p)"

definition parse_forward_payload :: "bytes \<Rightarrow> ForwardInfo option" where
  "parse_forward_payload payload =
    do { (target, off) \<leftarrow> read_blob HASH_BYTES payload 0;
         (envelope, off) \<leftarrow> read_blob MAX_FORWARD_ENVELOPE_BYTES payload off;
         if off \<noteq> length payload then None
         else if length target \<noteq> HASH_BYTES \<or> envelope = [] then None
         else Some \<lparr> fw_target = target, fw_envelope = envelope \<rparr> }"

record ArchiveGrantInfo =
  ag_relay_address :: string
  ag_relay_id :: bytes
  ag_archive_key :: bytes
  ag_join_token :: bytes

definition archive_grant_payload :: "ArchiveGrantInfo \<Rightarrow> bytes thrown" where
  "archive_grant_payload info =
    (if ag_relay_address info = [] \<or> length (ag_relay_address info) > MAX_RELAY_ADDRESS_BYTES \<or> \<not> visible_ascii (ag_relay_address info) \<or>
        length (ag_relay_id info) \<noteq> HASH_BYTES \<or> length (ag_archive_key info) \<noteq> 32 \<or> length (ag_join_token info) \<noteq> 32
     then Inl ''The archive grant is not valid''
     else let p = []; p = write_blob p (bytes_of_string (ag_relay_address info)); p = write_blob p (ag_relay_id info);
              p = write_blob p (ag_archive_key info); p = write_blob p (ag_join_token info) in Inr p)"

definition parse_archive_grant_payload :: "bytes \<Rightarrow> ArchiveGrantInfo option" where
  "parse_archive_grant_payload payload =
    (if length payload > MAX_ARCHIVE_GRANT_PAYLOAD then None
     else do { (address, off) \<leftarrow> read_blob MAX_RELAY_ADDRESS_BYTES payload 0;
               (relay_id, off) \<leftarrow> read_blob HASH_BYTES payload off;
               (key, off) \<leftarrow> read_blob 32 payload off;
               (token, off) \<leftarrow> read_blob 32 payload off;
               if off \<noteq> length payload then None
               else let info = \<lparr> ag_relay_address = string_of_bytes address, ag_relay_id = relay_id, ag_archive_key = key,
                                 ag_join_token = token \<rparr> in
                 if ag_relay_address info = [] \<or> \<not> visible_ascii (ag_relay_address info) \<or> length (ag_relay_id info) \<noteq> HASH_BYTES \<or>
                    length (ag_archive_key info) \<noteq> 32 \<or> length (ag_join_token info) \<noteq> 32
                 then None else Some info })"

record CheckpointInfo = ck_number :: u64 ck_hash :: bytes

definition checkpoint_payload :: "CheckpointInfo \<Rightarrow> bytes thrown" where
  "checkpoint_payload c =
    (if ck_number c = 0 \<or> length (ck_hash c) \<noteq> HASH_BYTES then Inl ''The checkpoint is not valid''
     else let p = []; p = write_u64 p (ck_number c); p = write_blob p (ck_hash c) in Inr p)"

definition parse_checkpoint_payload :: "bytes \<Rightarrow> CheckpointInfo option" where
  "parse_checkpoint_payload payload =
    do { (number, off) \<leftarrow> read_u64 payload 0;
         (h, off) \<leftarrow> read_blob HASH_BYTES payload off;
         if number = 0 \<or> length h \<noteq> HASH_BYTES \<or> off \<noteq> length payload then None
         else Some \<lparr> ck_number = number, ck_hash = h \<rparr> }"

section \<open>Attachments\<close>

abbreviation (input) "MAX_ATTACHMENT_NAME_BYTES \<equiv> (255 :: nat)"
abbreviation (input) "MAX_ATTACHMENT_CAPTION_BYTES \<equiv> (1024 :: nat)"
abbreviation (input) "MAX_ATTACHMENT_PAYLOAD \<equiv> (2048 :: nat)"
abbreviation (input) "MAX_ATTACHMENT_FILE_BYTES \<equiv> (16106127360 :: u64)"

record AttachmentInfo =
  at_file_id :: bytes
  at_name :: string
  at_size :: u64
  at_sha256 :: bytes
  at_expires_at :: u64
  at_relay_address :: string
  at_relay_id :: bytes
  at_caption :: string

definition valid_attachment :: "AttachmentInfo \<Rightarrow> bool" where
  "valid_attachment a =
    (if length (at_file_id a) \<noteq> 16 \<or> length (at_sha256 a) \<noteq> HASH_BYTES \<or> length (at_relay_id a) \<noteq> HASH_BYTES then False
     else if at_name a = [] \<or> length (at_name a) > MAX_ATTACHMENT_NAME_BYTES \<or> \<not> valid_label (at_name a) then False
     else if length (at_caption a) > MAX_ATTACHMENT_CAPTION_BYTES \<or> \<not> valid_label (at_caption a) then False
     else if at_size a > MAX_ATTACHMENT_FILE_BYTES then False
     else if at_relay_address a = [] \<or> length (at_relay_address a) > MAX_RELAY_ADDRESS_BYTES then False
     else visible_ascii (at_relay_address a))"

definition attachment_payload :: "AttachmentInfo \<Rightarrow> bytes thrown" where
  "attachment_payload a =
    (if \<not> valid_attachment a then Inl ''The attachment details are not valid''
     else let p = []; p = write_blob p (at_file_id a); p = write_blob p (bytes_of_string (at_name a)); p = write_u64 p (at_size a);
              p = write_blob p (at_sha256 a); p = write_u64 p (at_expires_at a); p = write_blob p (bytes_of_string (at_relay_address a));
              p = write_blob p (at_relay_id a); p = write_blob p (bytes_of_string (at_caption a)) in Inr p)"

definition parse_attachment_payload :: "bytes \<Rightarrow> AttachmentInfo option" where
  "parse_attachment_payload payload =
    (if length payload > MAX_ATTACHMENT_PAYLOAD then None
     else do { (file_id, off) \<leftarrow> read_blob 16 payload 0;
               (name, off) \<leftarrow> read_blob MAX_ATTACHMENT_NAME_BYTES payload off;
               (sz, off) \<leftarrow> read_u64 payload off;
               (h, off) \<leftarrow> read_blob HASH_BYTES payload off;
               (expires, off) \<leftarrow> read_u64 payload off;
               (address, off) \<leftarrow> read_blob MAX_RELAY_ADDRESS_BYTES payload off;
               (relay_id, off) \<leftarrow> read_blob HASH_BYTES payload off;
               (caption, off) \<leftarrow> read_blob MAX_ATTACHMENT_CAPTION_BYTES payload off;
               if off \<noteq> length payload then None
               else let a = \<lparr> at_file_id = file_id, at_name = string_of_bytes name, at_size = sz, at_sha256 = h, at_expires_at = expires,
                              at_relay_address = string_of_bytes address, at_relay_id = relay_id, at_caption = string_of_bytes caption \<rparr> in
                 if \<not> valid_attachment a then None else Some a })"

section \<open>Deleting by agreement\<close>

abbreviation (input) "MAX_DELETE_REQUEST_PAYLOAD \<equiv> (4096 :: nat)"
abbreviation (input) "MAX_DELETE_ACCEPT_PAYLOAD \<equiv> (8448 :: nat)"

record DeleteRequestInfo =
  rq_scope :: u32
  rq_op_id :: bytes
  rq_expires_at :: u64
  rq_entries :: "bytes list"

definition delete_request_payload :: "DeleteRequestInfo \<Rightarrow> bytes thrown" where
  "delete_request_payload info =
    (let chat = (rq_scope info = 1) in
     if rq_scope info \<noteq> 1 \<and> rq_scope info \<noteq> 2 \<or> length (rq_op_id info) \<noteq> 16 \<or>
        (if chat then rq_entries info \<noteq> [] else rq_entries info = [] \<or> length (rq_entries info) > 64)
     then Inl ''The deletion request is not valid''
     else if \<not> list_all (\<lambda>h. length h = HASH_BYTES) (rq_entries info) then Inl ''The deletion request is not valid''
     else let p = []; p = write_u32 p (rq_scope info); p = write_blob p (rq_op_id info); p = write_u64 p (rq_expires_at info);
              p = write_u32 p (word_of_nat (length (rq_entries info))); p = foldl write_blob p (rq_entries info) in Inr p)"

definition parse_delete_request_payload :: "bytes \<Rightarrow> DeleteRequestInfo option" where
  "parse_delete_request_payload payload =
    (if length payload > MAX_DELETE_REQUEST_PAYLOAD then None
     else do { (scope, off) \<leftarrow> read_u32 payload 0;
               (op, off) \<leftarrow> read_blob 16 payload off;
               (expires, off) \<leftarrow> read_u64 payload off;
               (n, off) \<leftarrow> read_u32 payload off;
               if length op \<noteq> 16 \<or> scope \<noteq> 1 \<and> scope \<noteq> 2 then None
               else if (if scope = 1 then n \<noteq> 0 else n < 1 \<or> n > 64) then None
               else do {
                 (entries, off) \<leftarrow> read_loop (fixed_blob HASH_BYTES) (\<lambda>acc h. h \<notin> set acc) (unat n) payload off [];
                 if off \<noteq> length payload then None
                 else Some \<lparr> rq_scope = scope, rq_op_id = op, rq_expires_at = expires, rq_entries = entries \<rparr> } })"

record DeleteAcceptInfo = da_op_id :: bytes da_key_hash :: bytes da_signature :: bytes

definition delete_accept_payload :: "DeleteAcceptInfo \<Rightarrow> bytes thrown" where
  "delete_accept_payload info =
    (if length (da_op_id info) \<noteq> 16 \<or> length (da_key_hash info) \<noteq> HASH_BYTES \<or> da_signature info = [] \<or> length (da_signature info) > 8192
     then Inl ''The deletion acceptance is not valid''
     else let p = []; p = write_blob p (da_op_id info); p = write_blob p (da_key_hash info); p = write_blob p (da_signature info) in Inr p)"

definition parse_delete_accept_payload :: "bytes \<Rightarrow> DeleteAcceptInfo option" where
  "parse_delete_accept_payload payload =
    (if length payload > MAX_DELETE_ACCEPT_PAYLOAD then None
     else do { (op, off) \<leftarrow> read_blob 16 payload 0;
               (kh, off) \<leftarrow> read_blob HASH_BYTES payload off;
               (sig, off) \<leftarrow> read_blob 8192 payload off;
               if length op \<noteq> 16 \<or> length kh \<noteq> HASH_BYTES \<or> sig = [] \<or> off \<noteq> length payload then None
               else Some \<lparr> da_op_id = op, da_key_hash = kh, da_signature = sig \<rparr> })"

section \<open>Receipts\<close>

abbreviation (input) "MAX_RECEIPT_IDS \<equiv> (256 :: nat)"

datatype ReceiptKind = Delivered | Read

primrec receipt_code :: "ReceiptKind \<Rightarrow> byte" where
  "receipt_code Delivered = 1"
| "receipt_code Read = 2"

record ReceiptInfo = re_kind :: ReceiptKind re_message_ids :: "bytes list"

definition receipt_payload :: "ReceiptInfo \<Rightarrow> bytes thrown" where
  "receipt_payload r =
    (if length (re_message_ids r) > MAX_RECEIPT_IDS then Inl ''Too many messages in one receipt''
     else let p = []; p = push_back p (receipt_code (re_kind r)); p = write_u32 p (word_of_nat (length (re_message_ids r)));
              p = foldl write_blob p (re_message_ids r) in Inr p)"

definition parse_receipt_payload :: "bytes \<Rightarrow> ReceiptInfo option" where
  "parse_receipt_payload payload =
    do { (kind, off) \<leftarrow> read_byte payload 0;
         if kind \<noteq> receipt_code Delivered \<and> kind \<noteq> receipt_code Read then None
         else do {
           (count, off) \<leftarrow> read_u32 payload off;
           if unat count > MAX_RECEIPT_IDS then None
           else do {
             (ids, off) \<leftarrow> read_loop (fixed_blob ID_BYTES) (\<lambda>_ _. True) (unat count) payload off [];
             if off \<noteq> length payload then None
             else Some \<lparr> re_kind = (if kind = receipt_code Delivered then Delivered else Read), re_message_ids = ids \<rparr> } } }"

section \<open>Every payload comes back\<close>

lemmas payload_simps = codec_simps string_of_bytes_eq_iff

lemma length_foldl_write_blob:
  "list_all (\<lambda>x. length x = n) xs \<Longrightarrow> length (foldl write_blob b xs) = length b + length xs * (4 + n)"
  by (induction xs arbitrary: b) (simp_all add: write_blob_append)

lemmas payload_lengths = write_u32_split write_u64_append write_blob_append

lemma valid_info_iff:
  "valid_info c \<longleftrightarrow> length (ci_title c) \<le> MAX_TITLE_BYTES \<and> valid_label (ci_title c) \<and> ci_mode c = MODE_SAVED \<and> ci_timer_seconds c = 0 \<and>
     (ci_previous_id c = [] \<or> length (ci_previous_id c) = ID_BYTES) \<and> 2 \<le> length (ci_members c) \<and> length (ci_members c) \<le> MAX_GROUP_MEMBERS \<and>
     list_all (\<lambda>m. length m = HASH_BYTES) (ci_members c) \<and> distinct (ci_members c)"
  by (auto simp: valid_info_def)

lemma valid_attachment_iff:
  "valid_attachment a \<longleftrightarrow> length (at_file_id a) = 16 \<and> length (at_sha256 a) = HASH_BYTES \<and> length (at_relay_id a) = HASH_BYTES \<and>
     at_name a \<noteq> [] \<and> length (at_name a) \<le> MAX_ATTACHMENT_NAME_BYTES \<and> valid_label (at_name a) \<and>
     length (at_caption a) \<le> MAX_ATTACHMENT_CAPTION_BYTES \<and> valid_label (at_caption a) \<and> at_size a \<le> MAX_ATTACHMENT_FILE_BYTES \<and>
     at_relay_address a \<noteq> [] \<and> length (at_relay_address a) \<le> MAX_RELAY_ADDRESS_BYTES \<and> visible_ascii (at_relay_address a)"
  by (auto simp: valid_attachment_def)

lemma count_less_2 [simp]: "n < 2 ^ 32 \<Longrightarrow> (word_of_nat n :: u32) < 2 \<longleftrightarrow> n < 2"
  by (simp add: word_less_nat_alt unat_of_nat)

lemma conversation_payload_length: "conversation_payload m = Inr p \<Longrightarrow> length p \<le> MAX_CONVERSATION_PAYLOAD"
  by (auto simp: conversation_payload_def valid_info_iff Let_def length_foldl_write_blob payload_lengths split: if_splits)

interpretation conversation_codec: checked_codec conversation_payload parse_conversation_payload "\<lambda>_. True"
proof
  show "parse_conversation_payload p = Some m \<longleftrightarrow> True \<and> conversation_payload m = Inr p" for p m
  proof (cases "length p > MAX_CONVERSATION_PAYLOAD")
    case True
    then show ?thesis using conversation_payload_length [of m p] by (auto simp: parse_conversation_payload_def)
  next
    case False
    then show ?thesis
      by (cases m) (simp add: parse_conversation_payload_def conversation_payload_def payload_simps blob_item.loop_Nil_iff
          cong: conj_cong, auto simp: prefix_intro valid_info_iff list_all_iff)
  qed
qed

interpretation forward_codec: checked_codec forward_payload parse_forward_payload "\<lambda>_. True"
proof
  show "parse_forward_payload p = Some m \<longleftrightarrow> True \<and> forward_payload m = Inr p" for p m
    by (cases m) (simp add: parse_forward_payload_def forward_payload_def payload_simps cong: conj_cong, auto simp: prefix_intro)
qed

lemma archive_grant_payload_length: "archive_grant_payload m = Inr p \<Longrightarrow> length p \<le> MAX_ARCHIVE_GRANT_PAYLOAD"
  by (auto simp: archive_grant_payload_def Let_def payload_lengths split: if_splits)

interpretation archive_grant_codec: checked_codec archive_grant_payload parse_archive_grant_payload "\<lambda>_. True"
proof
  show "parse_archive_grant_payload p = Some m \<longleftrightarrow> True \<and> archive_grant_payload m = Inr p" for p m
  proof (cases "length p > MAX_ARCHIVE_GRANT_PAYLOAD")
    case True
    then show ?thesis using archive_grant_payload_length [of m p] by (auto simp: parse_archive_grant_payload_def)
  next
    case False
    then show ?thesis
      by (cases m) (simp add: parse_archive_grant_payload_def archive_grant_payload_def payload_simps cong: conj_cong, auto simp: prefix_intro)
  qed
qed

interpretation checkpoint_codec: checked_codec checkpoint_payload parse_checkpoint_payload "\<lambda>_. True"
proof
  show "parse_checkpoint_payload p = Some m \<longleftrightarrow> True \<and> checkpoint_payload m = Inr p" for p m
    by (cases m) (simp add: parse_checkpoint_payload_def checkpoint_payload_def payload_simps cong: conj_cong, auto simp: prefix_intro)
qed

lemma attachment_payload_length: "attachment_payload m = Inr p \<Longrightarrow> length p \<le> MAX_ATTACHMENT_PAYLOAD"
  by (auto simp: attachment_payload_def valid_attachment_iff Let_def payload_lengths split: if_splits)

interpretation attachment_codec: checked_codec attachment_payload parse_attachment_payload "\<lambda>_. True"
proof
  show "parse_attachment_payload p = Some m \<longleftrightarrow> True \<and> attachment_payload m = Inr p" for p m
  proof (cases "length p > MAX_ATTACHMENT_PAYLOAD")
    case True
    then show ?thesis using attachment_payload_length [of m p] by (auto simp: parse_attachment_payload_def)
  next
    case False
    then show ?thesis
      by (cases m) (simp add: parse_attachment_payload_def attachment_payload_def payload_simps cong: conj_cong,
          auto simp: prefix_intro valid_attachment_iff)
  qed
qed

lemma delete_request_payload_length: "delete_request_payload m = Inr p \<Longrightarrow> length p \<le> MAX_DELETE_REQUEST_PAYLOAD"
  by (auto simp: delete_request_payload_def Let_def length_foldl_write_blob payload_lengths split: if_splits)

lemma count_less_64 [simp]: "n < 2 ^ 32 \<Longrightarrow> 64 < (word_of_nat n :: u32) \<longleftrightarrow> 64 < n"
  by (simp add: word_less_nat_alt unat_of_nat)

text \<open>A request that names an entry twice is made but not accepted.\<close>

interpretation delete_request_codec: checked_codec delete_request_payload parse_delete_request_payload "\<lambda>m. distinct (rq_entries m)"
proof
  show "parse_delete_request_payload p = Some m \<longleftrightarrow> distinct (rq_entries m) \<and> delete_request_payload m = Inr p" for p m
  proof (cases "length p > MAX_DELETE_REQUEST_PAYLOAD")
    case True
    then show ?thesis using delete_request_payload_length [of m p] by (auto simp: parse_delete_request_payload_def)
  next
    case False
    then show ?thesis
      by (cases m) (simp add: parse_delete_request_payload_def delete_request_payload_def payload_simps if_None_eq_Some
          split del: if_split cong: conj_cong, auto simp: prefix_intro list_all_iff split: if_splits)
  qed
qed

lemma delete_accept_payload_length: "delete_accept_payload m = Inr p \<Longrightarrow> length p \<le> MAX_DELETE_ACCEPT_PAYLOAD"
  by (auto simp: delete_accept_payload_def Let_def payload_lengths split: if_splits)

interpretation delete_accept_codec: checked_codec delete_accept_payload parse_delete_accept_payload "\<lambda>_. True"
proof
  show "parse_delete_accept_payload p = Some m \<longleftrightarrow> True \<and> delete_accept_payload m = Inr p" for p m
  proof (cases "length p > MAX_DELETE_ACCEPT_PAYLOAD")
    case True
    then show ?thesis using delete_accept_payload_length [of m p] by (auto simp: parse_delete_accept_payload_def)
  next
    case False
    then show ?thesis
      by (cases m) (simp add: parse_delete_accept_payload_def delete_accept_payload_def payload_simps cong: conj_cong, auto simp: prefix_intro)
  qed
qed

lemma receipt_code_inject [simp]: "receipt_code k = receipt_code l \<longleftrightarrow> k = l"
  by (cases k; cases l) simp_all

lemma receipt_kind_of_code:
  "\<not> (c \<noteq> receipt_code Delivered \<and> c \<noteq> receipt_code Read) \<and> (if c = receipt_code Delivered then Delivered else Read) = k \<longleftrightarrow>
   c = receipt_code k"
  by (cases k) auto

interpretation receipt_codec: checked_codec receipt_payload parse_receipt_payload "\<lambda>r. list_all (\<lambda>i. length i = ID_BYTES) (re_message_ids r)"
proof
  show "parse_receipt_payload p = Some m \<longleftrightarrow> list_all (\<lambda>i. length i = ID_BYTES) (re_message_ids m) \<and> receipt_payload m = Inr p" for p m
    by (cases m; cases "re_kind m") (simp_all add: parse_receipt_payload_def receipt_payload_def payload_simps cong: conj_cong,
      auto simp: prefix_intro list_all_iff)
qed

section \<open>The payloads are canonical\<close>

text \<open>
  C34: A payload parses to a value exactly when the payload function makes that payload of the value. So what one client
  makes another reads back, nothing malformed, over-long or with bytes left over is accepted, and no value has two
  payloads.  The exceptions are two: a deletion request may be made, but is not parsed, with an entry named twice, and
  a receipt with an identifier of another length than sixteen bytes.
\<close>
theorem record_payloads_canonical:
  "(parse_conversation_payload p = Some m1 \<longleftrightarrow> conversation_payload m1 = Inr p) \<and>
   (parse_forward_payload p = Some m2 \<longleftrightarrow> forward_payload m2 = Inr p) \<and>
   (parse_archive_grant_payload p = Some m3 \<longleftrightarrow> archive_grant_payload m3 = Inr p) \<and>
   (parse_checkpoint_payload p = Some m4 \<longleftrightarrow> checkpoint_payload m4 = Inr p) \<and>
   (parse_attachment_payload p = Some m5 \<longleftrightarrow> attachment_payload m5 = Inr p) \<and>
   (parse_delete_request_payload p = Some m6 \<longleftrightarrow> distinct (rq_entries m6) \<and> delete_request_payload m6 = Inr p) \<and>
   (parse_delete_accept_payload p = Some m7 \<longleftrightarrow> delete_accept_payload m7 = Inr p) \<and>
   (parse_receipt_payload p = Some m8 \<longleftrightarrow>
      list_all (\<lambda>i. length i = ID_BYTES) (re_message_ids m8) \<and> receipt_payload m8 = Inr p)"
  unfolding conversation_codec.dec_iff forward_codec.dec_iff archive_grant_codec.dec_iff checkpoint_codec.dec_iff
    attachment_codec.dec_iff delete_request_codec.dec_iff delete_accept_codec.dec_iff receipt_codec.dec_iff by simp

end
