(* ===== verification/Message_Record.thy ===== *)
theory Message_Record
  imports Record_Payloads "HOL-Library.List_Lexorder" "HOL-Library.Multiset"
begin

text \<open>
  Signed message records (\<^verbatim>\<open>src/client/message_record.cpp\<close>): the record, what is well-formed of each type, signing, parsing
  both versions of the format and checking the signature; the identifier of a one-to-one conversation, the hash of a
  record's recipients and the check of a group's creation.  The order of \<^verbatim>\<open>std::sort\<close> and of
  \<^verbatim>\<open>std::lexicographical_compare\<close> on byte vectors is the lexicographic order of the library theory.
\<close>

abbreviation (input) "RECORD_MAGIC \<equiv> (0x50514D52 :: u32)"
abbreviation (input) "RECORD_VERSION \<equiv> (2 :: u32)"
abbreviation (input) "MIN_RECORD_VERSION \<equiv> (1 :: u32)"
abbreviation (input) "SIGNATURE_LABEL \<equiv> ''pq-suite v3 message''"
abbreviation (input) "CONVERSATION_LABEL \<equiv> ''pq-suite v3 one-to-one conversation''"
abbreviation (input) "RECIPIENTS_LABEL \<equiv> ''pq-suite v3 recipients''"
abbreviation (input) "MAX_TEXT_BYTES \<equiv> (32768 :: nat)"
abbreviation (input) "MAX_SIGNED_RECORD_BYTES \<equiv> (40960 :: nat)"
abbreviation (input) "MAX_SEEN \<equiv> (15 :: nat)"

datatype RecordType = Text | Receipt | TokenGrant | Conversation | Forward | ArchiveGrant | Checkpoint | DeleteRequest | DeleteAccept | Attachment

primrec type_code :: "RecordType \<Rightarrow> u32" where
  "type_code Text = 1"
| "type_code Receipt = 2"
| "type_code TokenGrant = 3"
| "type_code Conversation = 4"
| "type_code Forward = 5"
| "type_code ArchiveGrant = 6"
| "type_code Checkpoint = 7"
| "type_code DeleteRequest = 8"
| "type_code DeleteAccept = 9"
| "type_code Attachment = 10"

text \<open>\<^verbatim>\<open>static_cast<RecordType>(*type)\<close>, of a number that is one of the enumeration's.\<close>

definition record_types :: "RecordType list" where
  "record_types = [Text, Receipt, TokenGrant, Conversation, Forward, ArchiveGrant, Checkpoint, DeleteRequest, DeleteAccept, Attachment]"

definition type_of_code :: "u32 \<Rightarrow> RecordType option" where
  "type_of_code n = List.find (\<lambda>t. type_code t = n) record_types"

record Record =
  rc_conversation_id :: bytes
  rc_message_id :: bytes
  rc_sender :: bytes
  rc_recipients_hash :: bytes
  rc_sent_at :: u64
  rc_type :: RecordType
  rc_payload :: bytes
  rc_own_prev :: bytes
  rc_seen :: "bytes list"

record SignedRecord =
  sr_record :: Record
  sr_raw :: bytes
  sr_entry_hash :: bytes
  sr_body :: bytes
  sr_signature :: bytes

definition record_signing_input :: "bytes \<Rightarrow> bytes" where
  "record_signing_input body = (let b = []; b = write_string b SIGNATURE_LABEL in write_bytes b body (length body))"

definition empty_or :: "bytes \<Rightarrow> nat \<Rightarrow> bool" where
  "empty_or b n = (b = [] \<or> length b = n)"

definition payload_fits :: "Record \<Rightarrow> bool" where
  "payload_fits r =
    (case rc_type r of
       Text \<Rightarrow> length (rc_payload r) \<le> MAX_TEXT_BYTES
     | Attachment \<Rightarrow> length (rc_payload r) \<le> MAX_ATTACHMENT_PAYLOAD
     | Receipt \<Rightarrow> length (rc_payload r) \<le> 1 + 4 + MAX_RECEIPT_IDS * (4 + ID_BYTES)
     | TokenGrant \<Rightarrow> length (rc_payload r) = 32
     | Conversation \<Rightarrow> length (rc_payload r) \<le> MAX_CONVERSATION_PAYLOAD \<and> rc_own_prev r = [] \<and> rc_seen r = []
     | Forward \<Rightarrow> length (rc_payload r) \<le> 4 + HASH_BYTES + 4 + MAX_FORWARD_ENVELOPE_BYTES \<and> rc_own_prev r = [] \<and> rc_seen r = []
     | ArchiveGrant \<Rightarrow> length (rc_payload r) \<le> MAX_ARCHIVE_GRANT_PAYLOAD \<and> rc_own_prev r = [] \<and> rc_seen r = []
     | Checkpoint \<Rightarrow> length (rc_payload r) \<le> 8 + 4 + HASH_BYTES \<and> rc_own_prev r = [] \<and> rc_seen r = []
     | DeleteRequest \<Rightarrow> length (rc_payload r) \<le> MAX_DELETE_REQUEST_PAYLOAD \<and> rc_own_prev r = [] \<and> rc_seen r = []
     | DeleteAccept \<Rightarrow> length (rc_payload r) \<le> MAX_DELETE_ACCEPT_PAYLOAD \<and> rc_own_prev r = [] \<and> rc_seen r = [])"

definition record_well_formed :: "Record \<Rightarrow> bool" where
  "record_well_formed r =
    (if length (rc_conversation_id r) \<noteq> ID_BYTES \<or> length (rc_message_id r) \<noteq> ID_BYTES then False
     else if length (rc_sender r) \<noteq> HASH_BYTES \<or> length (rc_recipients_hash r) \<noteq> HASH_BYTES then False
     else if \<not> empty_or (rc_own_prev r) HASH_BYTES then False
     else if length (rc_seen r) > MAX_SEEN then False
     else if \<not> (list_all (\<lambda>s. length s = HASH_BYTES) (rc_seen r) \<and> distinct (rc_seen r)) then False
     else payload_fits r)"

definition conversation_id_for :: "crypto_lib \<Rightarrow> bytes \<Rightarrow> bytes \<Rightarrow> bytes" where
  "conversation_id_for L a b =
    (let low = (if a < b then a else b); high = (if a < b then b else a);
         inp = write_string [] CONVERSATION_LABEL; inp = write_blob inp low; inp = write_blob inp high in
     take ID_BYTES (sha256 L inp))"

definition recipients_hash_for :: "crypto_lib \<Rightarrow> bytes list \<Rightarrow> bytes" where
  "recipients_hash_for L fingerprints =
    (let sorted = sort fingerprints; inp = write_string [] RECIPIENTS_LABEL; inp = write_u32 inp (word_of_nat (length sorted));
         inp = foldl write_blob inp sorted in
     sha256 L inp)"

definition record_body :: "Record \<Rightarrow> bytes" where
  "record_body r =
    (let b = []; b = write_u32 b RECORD_MAGIC; b = write_u32 b RECORD_VERSION; b = write_blob b (rc_conversation_id r);
         b = write_blob b (rc_message_id r); b = write_blob b (rc_sender r); b = write_blob b (rc_recipients_hash r);
         b = write_u64 b (rc_sent_at r); b = write_u32 b (type_code (rc_type r)); b = write_blob b (rc_payload r);
         b = write_blob b (rc_own_prev r); b = write_u32 b (word_of_nat (length (rc_seen r))) in
     foldl write_blob b (rc_seen r))"

definition sign_record :: "crypto_lib \<Rightarrow> bytes \<Rightarrow> Record \<Rightarrow> bytes \<Rightarrow> bytes thrown" where
  "sign_record L seed r signing_private_key =
    (if \<not> record_well_formed r then Inl ''The message record is malformed or too large''
     else let body = record_body r in
       and_then (sign L seed (record_signing_input body) signing_private_key) (\<lambda>signature.
         let raw = []; raw = write_blob raw body; raw = write_blob raw signature in Inr raw))"

text \<open>The hashes a record says it has seen: one or none in the first version, a counted list in the second.\<close>

definition read_seen :: "u32 \<Rightarrow> bytes \<Rightarrow> nat \<Rightarrow> (bytes list \<times> nat) option" where
  "read_seen version bd b =
    (if version = 1 then do { (one, b) \<leftarrow> read_blob HASH_BYTES bd b; Some (if one = [] then [] else [one], b) }
     else do { (count, b) \<leftarrow> read_u32 bd b;
               if unat count > MAX_SEEN then None
               else read_loop (read_blob HASH_BYTES) (\<lambda>_ _. True) (unat count) bd b [] })"

definition read_record :: "u32 \<Rightarrow> bytes \<Rightarrow> nat \<Rightarrow> Record option" where
  "read_record version bd b =
    do { (conv, b) \<leftarrow> read_blob ID_BYTES bd b;
         (msg, b) \<leftarrow> read_blob ID_BYTES bd b;
         (sender, b) \<leftarrow> read_blob HASH_BYTES bd b;
         (rh, b) \<leftarrow> read_blob HASH_BYTES bd b;
         (sent, b) \<leftarrow> read_u64 bd b;
         (type, b) \<leftarrow> read_u32 bd b;
         (payload, b) \<leftarrow> read_blob (MAX_TEXT_BYTES + 1) bd b;
         (prev, b) \<leftarrow> read_blob HASH_BYTES bd b;
         (seen, b) \<leftarrow> read_seen version bd b;
         if b \<noteq> length bd then None
         else let newest_type = (if version = 1 then 3 else 10) in
         if type < 1 \<or> type > newest_type then None
         else do {
           t \<leftarrow> type_of_code type;
           let r = \<lparr> rc_conversation_id = conv, rc_message_id = msg, rc_sender = sender, rc_recipients_hash = rh, rc_sent_at = sent,
                     rc_type = t, rc_payload = payload, rc_own_prev = prev, rc_seen = seen \<rparr> in
           if \<not> record_well_formed r then None else Some r } }"

definition parse_record :: "crypto_lib \<Rightarrow> bytes \<Rightarrow> SignedRecord option" where
  "parse_record L raw =
    (if length raw > MAX_SIGNED_RECORD_BYTES then None
     else do { (body, off) \<leftarrow> read_blob MAX_SIGNED_RECORD_BYTES raw 0;
               (signature, off) \<leftarrow> read_blob 8192 raw off;
               if off \<noteq> length raw then None
               else do {
                 (magic, b) \<leftarrow> read_u32 body 0;
                 (version, b) \<leftarrow> read_u32 body b;
                 if magic \<noteq> RECORD_MAGIC \<or> version < MIN_RECORD_VERSION \<or> version > RECORD_VERSION then None
                 else do {
                   r \<leftarrow> read_record version body b;
                   Some \<lparr> sr_record = r, sr_raw = raw, sr_entry_hash = sha256 L raw, sr_body = body, sr_signature = signature \<rparr> } } })"

definition verify_record :: "crypto_lib \<Rightarrow> SignedRecord \<Rightarrow> bytes \<Rightarrow> bool" where
  "verify_record L sr signing_public_key =
    (if fingerprint L signing_public_key \<noteq> bytes_to_hex (rc_sender (sr_record sr)) then False
     else verify L (record_signing_input (sr_body sr)) (sr_signature sr) signing_public_key)"

definition conversation_from_record :: "crypto_lib \<Rightarrow> SignedRecord \<Rightarrow> ConversationInfo option" where
  "conversation_from_record L sr =
    (let r = sr_record sr in
     if rc_type r \<noteq> Conversation then None
     else do {
       info \<leftarrow> parse_conversation_payload (rc_payload r);
       if rc_sender r \<notin> set (ci_members info) then None
       else if rc_recipients_hash r \<noteq> recipients_hash_for L (ci_members info) then None
       else Some info })"

section \<open>Both versions of the format\<close>

lemma type_of_code_iff: "type_of_code n = Some t \<longleftrightarrow> type_code t = n"
proof -
  have "type_of_code (type_code t) = Some t" for t
    by (cases t) (simp_all add: type_of_code_def record_types_def)
  moreover have "type_of_code n = Some t \<Longrightarrow> type_code t = n"
    unfolding type_of_code_def by (rule find_holds)
  ultimately show ?thesis by blast
qed

lemma type_code_range: "\<not> (type_code t < 1 \<or> type_code t > 10)"
  by (cases t) simp_all

definition first_version_type :: "RecordType \<Rightarrow> bool" where
  "first_version_type t \<longleftrightarrow> t = Text \<or> t = Receipt \<or> t = TokenGrant"

lemma type_code_first: "\<not> (type_code t < 1 \<or> type_code t > 3) \<longleftrightarrow> first_version_type t"
  by (cases t) (simp_all add: first_version_type_def)

definition write_seen :: "u32 \<Rightarrow> bytes \<Rightarrow> bytes list \<Rightarrow> bytes" where
  "write_seen version b seen =
    (if version = 1 then write_blob b (if seen = [] then [] else hd seen)
     else foldl write_blob (write_u32 b (word_of_nat (length seen))) seen)"

definition seen_fits :: "u32 \<Rightarrow> bytes list \<Rightarrow> bool" where
  "seen_fits version seen \<longleftrightarrow> (\<forall>h\<in>set seen. length h \<le> HASH_BYTES) \<and>
     (if version = 1 then length seen \<le> 1 \<and> [] \<notin> set seen else length seen \<le> MAX_SEEN)"

lemma single_or_empty:
  "(\<exists>one. length one \<le> n \<and> P one \<and> Q one \<and> s = (if one = [] then [] else [one])) \<longleftrightarrow>
   (\<forall>h\<in>set s. length h \<le> n) \<and> length s \<le> 1 \<and> [] \<notin> set s \<and> P (if s = [] then [] else hd s) \<and> Q (if s = [] then [] else hd s)"
  (is "?l \<longleftrightarrow> ?r")
proof
  assume ?l
  then obtain one where "length one \<le> n" "P one" "Q one" "s = (if one = [] then [] else [one])" by blast
  then show ?r by (cases one) simp_all
next
  assume r: ?r
  then consider "s = []" | x where "s = [x]" by (cases s; cases "tl s") simp_all
  then show ?l
  proof cases
    case 1
    with r show ?l by (intro exI [of _ "[]"]) simp
  next
    case 2
    with r show ?l by (intro exI [of _ x]) auto
  qed
qed

lemma read_seen_first:
  assumes "prefix b inp"
  shows "read_seen 1 inp (length b) = Some (s, off) \<longleftrightarrow>
    (\<exists>one. length one \<le> HASH_BYTES \<and> off = length (write_blob b one) \<and> prefix (write_blob b one) inp \<and> s = (if one = [] then [] else [one]))"
  using assms unfolding read_seen_def by (auto simp: bind_eq_Some_conv read_iff split del: if_split)

lemma read_seen_counted:
  assumes "prefix b inp" and "v \<noteq> 1"
  shows "read_seen v inp (length b) = Some (s, off) \<longleftrightarrow>
    ((\<forall>h\<in>set s. length h \<le> HASH_BYTES) \<and> length s \<le> MAX_SEEN) \<and>
    off = length (foldl write_blob (write_u32 b (word_of_nat (length s))) s) \<and> prefix (foldl write_blob (write_u32 b (word_of_nat (length s))) s) inp"
  using assms by (simp add: read_seen_def codec_simps blob_item.loop_Nil_iff cong: conj_cong,
        auto elim: prefix_order.trans [rotated] simp: prefix_intro)

interpretation seen_item: cursor_item "read_seen v" "write_seen v" "seen_fits v"
proof
  show "prefix b (write_seen v b s)" for b s
    by (simp add: write_seen_def prefix_intro)
  show "prefix b inp \<Longrightarrow> read_seen v inp (length b) = Some (s, off) \<longleftrightarrow>
      seen_fits v s \<and> off = length (write_seen v b s) \<and> prefix (write_seen v b s) inp" for b inp s off
  proof (cases "v = 1")
    case True
    assume "prefix b inp"
    show ?thesis unfolding True read_seen_first [OF \<open>prefix b inp\<close>] single_or_empty seen_fits_def write_seen_def if_P [OF refl] by blast
  next
    case False
    assume "prefix b inp"
    then show ?thesis unfolding seen_fits_def write_seen_def if_not_P [OF False] by (rule read_seen_counted [OF _ False])
  qed
qed

lemma prefix_write_seen [prefix_intro]: "prefix a b \<Longrightarrow> prefix a (write_seen v b s)"
  by (auto intro: prefix_order.trans seen_item.wr_extends)

definition body_bytes :: "u32 \<Rightarrow> Record \<Rightarrow> bytes" where
  "body_bytes version r =
    (let b = []; b = write_u32 b RECORD_MAGIC; b = write_u32 b version; b = write_blob b (rc_conversation_id r);
         b = write_blob b (rc_message_id r); b = write_blob b (rc_sender r); b = write_blob b (rc_recipients_hash r);
         b = write_u64 b (rc_sent_at r); b = write_u32 b (type_code (rc_type r)); b = write_blob b (rc_payload r);
         b = write_blob b (rc_own_prev r) in write_seen version b (rc_seen r))"

lemma record_body_bytes: "record_body r = body_bytes 2 r"
  by (simp add: record_body_def body_bytes_def write_seen_def Let_def)

text \<open>What a version of the format can say of a record.\<close>

definition record_version_fits :: "u32 \<Rightarrow> Record \<Rightarrow> bool" where
  "record_version_fits v r \<longleftrightarrow> v = 1 \<and> first_version_type (rc_type r) \<and> length (rc_seen r) \<le> 1 \<or> v = 2"

lemma record_well_formed_iff:
  "record_well_formed r \<longleftrightarrow> length (rc_conversation_id r) = ID_BYTES \<and> length (rc_message_id r) = ID_BYTES \<and>
     length (rc_sender r) = HASH_BYTES \<and> length (rc_recipients_hash r) = HASH_BYTES \<and>
     (rc_own_prev r = [] \<or> length (rc_own_prev r) = HASH_BYTES) \<and> length (rc_seen r) \<le> MAX_SEEN \<and>
     (\<forall>s\<in>set (rc_seen r). length s = HASH_BYTES) \<and> distinct (rc_seen r) \<and> payload_fits r"
  by (auto simp: record_well_formed_def empty_or_def list_all_iff)

lemma payload_fits_length: "payload_fits r \<Longrightarrow> length (rc_payload r) \<le> MAX_TEXT_BYTES"
  by (auto simp: payload_fits_def split: RecordType.splits)

lemma well_formed_seen_fits:
  "record_well_formed r \<Longrightarrow> seen_fits v (rc_seen r) \<longleftrightarrow> v = 1 \<longrightarrow> length (rc_seen r) \<le> 1"
  by (auto simp: record_well_formed_iff seen_fits_def)

lemma record_versions: "\<not> (v < 1 \<or> v > (2 :: u32)) \<longleftrightarrow> v = 1 \<or> v = 2"
proof
  assume "\<not> (v < 1 \<or> v > 2)"
  then have "unat v = 1 \<or> unat v = 2" by (auto simp: word_less_nat_alt not_less)
  moreover have "unat (1 :: u32) = 1" "unat (2 :: u32) = 2" by simp_all
  ultimately show "v = 1 \<or> v = 2" by (metis word_unat_eq_iff)
qed auto

lemma newest_type_fits:
  assumes "v = 1 \<or> v = 2"
  shows "\<not> (if v = (1 :: u32) then 3 else 10) < type_code t \<longleftrightarrow> (v = 1 \<longrightarrow> first_version_type t)"
  using type_code_range [of t] type_code_first [of t] by auto

lemma type_code_not_0 [simp]: "type_code t \<noteq> 0"
  by (cases t) simp_all

lemma record_lengths:
  assumes "record_well_formed r"
  shows "length (rc_conversation_id r) \<le> ID_BYTES" "length (rc_message_id r) \<le> ID_BYTES" "length (rc_sender r) \<le> HASH_BYTES"
    "length (rc_recipients_hash r) \<le> HASH_BYTES" "length (rc_payload r) \<le> MAX_TEXT_BYTES + 1" "length (rc_own_prev r) \<le> HASH_BYTES"
  using assms by (auto simp: record_well_formed_iff dest: payload_fits_length)

lemma read_record_iff:
  assumes v: "v = 1 \<or> v = 2" and pre: "prefix (write_u32 (write_u32 [] RECORD_MAGIC) v) bd"
  shows "read_record v bd (length (write_u32 (write_u32 [] RECORD_MAGIC) v)) = Some r \<longleftrightarrow>
    record_well_formed r \<and> record_version_fits v r \<and> bd = body_bytes v r"
proof -
  have "read_record v bd (length (write_u32 (write_u32 [] RECORD_MAGIC) v)) = Some r \<longleftrightarrow>
      record_well_formed r \<and> (v = 1 \<longrightarrow> first_version_type (rc_type r)) \<and> seen_fits v (rc_seen r) \<and> bd = body_bytes v r"
    using pre record_lengths [of r] unfolding read_record_def body_bytes_def Let_def
    by (cases r) (simp add: bind_eq_Some_conv read_iff seen_item.rd_iff type_of_code_iff if_None_eq_Some newest_type_fits [OF v]
        split del: if_split cong: conj_cong, rule iffI; elim conjE; simp add: prefix_intro)
  also have "\<dots> \<longleftrightarrow> record_well_formed r \<and> record_version_fits v r \<and> bd = body_bytes v r"
    using v well_formed_seen_fits [of r v] by (auto simp: record_version_fits_def)
  finally show ?thesis .
qed

definition raw_bytes :: "bytes \<Rightarrow> bytes \<Rightarrow> bytes" where
  "raw_bytes body signature = write_blob (write_blob [] body) signature"

lemma prefix_body: "prefix (write_u32 (write_u32 [] RECORD_MAGIC) v) (body_bytes v r)"
  by (simp add: body_bytes_def Let_def prefix_intro)

lemma raw_bytes_length: "length (raw_bytes body sig) = 8 + length body + length sig"
  by (simp add: raw_bytes_def write_blob_append)

lemma parse_body_iff:
  "(\<exists>b v c. read_u32 body 0 = Some (RECORD_MAGIC, b) \<and> read_u32 body b = Some (v, c) \<and> (v = 1 \<or> v = 2) \<and> read_record v body c = Some r) \<longleftrightarrow>
   record_well_formed r \<and> (\<exists>v. record_version_fits v r \<and> body = body_bytes v r)"
  (is "?l \<longleftrightarrow> ?r")
proof
  assume ?l
  then obtain v where v: "v = 1 \<or> v = 2" "prefix (write_u32 (write_u32 [] RECORD_MAGIC) v) body"
    "read_record v body (length (write_u32 (write_u32 [] RECORD_MAGIC) v)) = Some r"
    by (simp add: read_iff cong: conj_cong) blast
  then show ?r using read_record_iff [OF v(1, 2)] by blast
next
  assume ?r
  then obtain v where r: "record_well_formed r" "record_version_fits v r" "body = body_bytes v r" by blast
  then have v: "v = 1 \<or> v = 2" by (auto simp: record_version_fits_def)
  have p: "prefix (write_u32 (write_u32 [] RECORD_MAGIC) v) body" unfolding r(3) by (rule prefix_body)
  then have q: "prefix (write_u32 [] RECORD_MAGIC) body" by (meson prefix_order.trans u32_item.wr_extends)
  have "read_u32 body 0 = Some (RECORD_MAGIC, length (write_u32 [] RECORD_MAGIC))" using q by (simp add: read_iff)
  moreover have "read_u32 body (length (write_u32 [] RECORD_MAGIC)) = Some (v, length (write_u32 (write_u32 [] RECORD_MAGIC) v))"
    using p q by (simp add: read_iff)
  ultimately show ?l using read_record_iff [OF v p, of r] r v by blast
qed

text \<open>What \<^verbatim>\<open>parse_record\<close> accepts: a well-formed record in one of the two versions, within the limit, with nothing after it.\<close>

lemma parse_record_iff:
  "parse_record L raw = Some sr \<longleftrightarrow>
   record_well_formed (sr_record sr) \<and> (\<exists>v. record_version_fits v (sr_record sr) \<and> sr_body sr = body_bytes v (sr_record sr)) \<and>
   length (sr_signature sr) \<le> 8192 \<and> raw = raw_bytes (sr_body sr) (sr_signature sr) \<and> length raw \<le> MAX_SIGNED_RECORD_BYTES \<and>
   sr_raw sr = raw \<and> sr_entry_hash sr = sha256 L raw"
proof -
  have "parse_record L raw = Some sr \<longleftrightarrow>
      (length raw \<le> MAX_SIGNED_RECORD_BYTES \<and> sr_raw sr = raw \<and> sr_entry_hash sr = sha256 L raw) \<and>
      (length (sr_body sr) \<le> MAX_SIGNED_RECORD_BYTES \<and> length (sr_signature sr) \<le> 8192 \<and> raw = raw_bytes (sr_body sr) (sr_signature sr)) \<and>
      (\<exists>b v c. read_u32 (sr_body sr) 0 = Some (RECORD_MAGIC, b) \<and> read_u32 (sr_body sr) b = Some (v, c) \<and> (v = 1 \<or> v = 2) \<and>
         read_record v (sr_body sr) c = Some (sr_record sr))"
    (is "_ \<longleftrightarrow> ?a \<and> ?b \<and> (\<exists>b v c. ?c b v c)")
  proof
    assume "parse_record L raw = Some sr"
    then obtain body off sig off' magic b v c r where raw: "\<not> length raw > MAX_SIGNED_RECORD_BYTES"
        "read_blob MAX_SIGNED_RECORD_BYTES raw 0 = Some (body, off)" "read_blob 8192 raw off = Some (sig, off')" "off' = length raw"
      and body: "read_u32 body 0 = Some (magic, b)" "read_u32 body b = Some (v, c)" "magic = RECORD_MAGIC" "\<not> (v < 1 \<or> v > 2)"
        "read_record v body c = Some r"
      and sr: "sr = \<lparr> sr_record = r, sr_raw = raw, sr_entry_hash = sha256 L raw, sr_body = body, sr_signature = sig \<rparr>"
      by (simp only: parse_record_def bind_eq_Some_conv if_None_eq_Some prod.case split_paired_Ex option.inject de_Morgan_disj not_not) blast
    from raw have "length body \<le> MAX_SIGNED_RECORD_BYTES" "length sig \<le> 8192" "raw = raw_bytes body sig"
      by (auto simp: read_iff raw_bytes_def prefix_def)
    moreover have "v = 1 \<or> v = 2" using body(4) record_versions by blast
    ultimately show "?a \<and> ?b \<and> (\<exists>b v c. ?c b v c)" using raw(1) body by (auto simp: sr)
  next
    assume r: "?a \<and> ?b \<and> (\<exists>b v c. ?c b v c)"
    then obtain b v c where c: "?c b v c" by blast
    then have v: "\<not> (v < 1 \<or> v > 2)" using record_versions by blast
    from r have "read_blob MAX_SIGNED_RECORD_BYTES raw 0 = Some (sr_body sr, length (write_blob [] (sr_body sr)))"
      "read_blob 8192 raw (length (write_blob [] (sr_body sr))) = Some (sr_signature sr, length raw)"
      by (auto simp: read_iff raw_bytes_def prefix_intro)
    moreover have "\<not> length raw > MAX_SIGNED_RECORD_BYTES" unfolding not_less using r by blast
    ultimately show "parse_record L raw = Some sr" using r c v by (cases sr) (simp add: parse_record_def)
  qed
  then show ?thesis unfolding parse_body_iff using raw_bytes_length [of "sr_body sr" "sr_signature sr"] by auto
qed

section \<open>Records that are signed are read and verified\<close>

lemma body_bytes_length:
  assumes "record_well_formed r"
  shows "length (record_body r) \<le> 33484"
proof -
  have "length (foldl write_blob b (rc_seen r)) = length b + length (rc_seen r) * (4 + HASH_BYTES)" for b
    using assms by (intro length_foldl_write_blob) (simp add: record_well_formed_iff list_all_iff)
  moreover have "length (rc_own_prev r) \<le> HASH_BYTES" "length (rc_payload r) \<le> MAX_TEXT_BYTES" "length (rc_seen r) \<le> MAX_SEEN"
    using assms by (auto simp: record_well_formed_iff dest: payload_fits_length)
  ultimately show ?thesis using assms by (simp add: record_body_def Let_def payload_lengths record_well_formed_iff)
qed

lemma sign_record_Inr:
  "sign_record L seed r priv = Inr raw \<longleftrightarrow> record_well_formed r \<and>
   (\<exists>sig. sign L seed (record_signing_input (record_body r)) priv = Inr sig \<and> raw = raw_bytes (record_body r) sig)"
  by (auto simp: sign_record_def and_then_Inr raw_bytes_def Let_def)

text \<open>
  C30: A signed record arrives as it was written and is accepted. Whatever \<^verbatim>\<open>sign_record\<close> returns -- for every type of
  record, at the largest payload and the longest list of seen records -- fits the limit, parses to the same record, and
  verifies under the sender's public key if the record names the key as its sender; and it verifies under no key whose fingerprint
  is not the sender the record names.
\<close>
theorem signed_record_round_trip:
  assumes "sign_record L seed r priv = Inr raw" and "sig_pair L pub priv" and "sig_length_signature L \<le> 7468"
  shows "\<exists>sr. parse_record L raw = Some sr \<and> sr_record sr = r \<and> sr_raw sr = raw \<and>
    (verify_record L sr pub \<longleftrightarrow> rc_sender r = sha256 L pub) \<and>
    (\<forall>other. verify_record L sr other \<longrightarrow> rc_sender r = sha256 L other)"
proof -
  from assms(1) obtain sig where wf: "record_well_formed r" and sig: "sign L seed (record_signing_input (record_body r)) priv = Inr sig"
    and raw: "raw = raw_bytes (record_body r) sig" unfolding sign_record_Inr by blast
  let ?sr = "\<lparr> sr_record = r, sr_raw = raw, sr_entry_hash = sha256 L raw, sr_body = record_body r, sr_signature = sig \<rparr>"
  have v: "verify L (record_signing_input (record_body r)) sig pub" by (rule sign_verify [OF assms(2) sig])
  then have len: "length sig \<le> 7468" using assms(3) by (auto simp: verify_def split: if_splits)
  have "parse_record L raw = Some ?sr"
    using wf len body_bytes_length [OF wf] unfolding parse_record_iff
    by (auto simp: raw raw_bytes_length record_body_bytes record_version_fits_def)
  moreover have "fingerprint L k = bytes_to_hex s \<longleftrightarrow> s = sha256 L k" for k s
    using hex_round_trip [of "sha256 L k" s] by (auto simp: fingerprint_def)
  ultimately show ?thesis using v by (intro exI [of _ ?sr]) (auto simp: verify_record_def)
qed

definition sample_record :: Record where
  "sample_record = \<lparr> rc_conversation_id = replicate 16 1, rc_message_id = replicate 16 2, rc_sender = sha256 sample_pk_lib [9, 9, 9, 9],
     rc_recipients_hash = replicate 32 4, rc_sent_at = 5, rc_type = Text, rc_payload = [72, 105], rc_own_prev = [], rc_seen = [replicate 32 6] \<rparr>"

theorem signed_record_round_trip_witness:
  "\<exists>raw sr. sign_record sample_pk_lib [] sample_record [9, 9, 9, 9] = Inr raw \<and> parse_record sample_pk_lib raw = Some sr \<and>
     sr_record sr = sample_record \<and> verify_record sample_pk_lib sr [9, 9, 9, 9]"
proof -
  have "record_well_formed sample_record"
    by (simp add: record_well_formed_def sample_record_def empty_or_def payload_fits_def sha256_def sample_pk_lib_def sample_lib_def)
  then obtain raw where raw: "sign_record sample_pk_lib [] sample_record [9, 9, 9, 9] = Inr raw"
    unfolding sign_record_Inr by (auto simp: sign_def require_size_def sample_pk_lib_def sample_lib_def)
  have "sig_length_signature sample_pk_lib \<le> 7468" by (simp add: sample_pk_lib_def sample_lib_def)
  from signed_record_round_trip [OF raw sample_pk_lib_laws(3) this] raw show ?thesis by (auto simp: sample_record_def)
qed

section \<open>Who a record is for\<close>

definition recipients_input :: "bytes list \<Rightarrow> bytes" where
  "recipients_input xs = foldl write_blob (write_u32 (write_string [] RECIPIENTS_LABEL) (word_of_nat (length xs))) (sort xs)"

definition conversation_input :: "bytes \<Rightarrow> bytes \<Rightarrow> bytes" where
  "conversation_input a b = write_blob (write_blob (write_string [] CONVERSATION_LABEL) (min a b)) (max a b)"

lemma min_max_less: "(if a < b then a else b) = min a b" "(if a < b then b else a) = max a (b :: 'a :: linorder)"
  by (auto simp: min_def max_def)

lemma recipients_hash_input: "recipients_hash_for L xs = sha256 L (recipients_input xs)"
  by (simp add: recipients_hash_for_def recipients_input_def Let_def)

lemma conversation_id_input: "conversation_id_for L a b = take ID_BYTES (sha256 L (conversation_input a b))"
  by (simp add: conversation_id_for_def conversation_input_def Let_def min_max_less)

lemma foldl_write_blob_inject:
  assumes "list_all (\<lambda>x. length x = n) xs" "list_all (\<lambda>x. length x = n) ys" "length xs = length ys" "length b = length c"
  shows "foldl write_blob b xs = foldl write_blob c ys \<longleftrightarrow> b = c \<and> xs = ys"
  using assms(3, 1, 2, 4)
proof (induction xs ys arbitrary: b c rule: list_induct2)
  case (Cons x xs y ys)
  then have "length (write_blob b x) = length (write_blob c y)" by (simp add: write_blob_append)
  with Cons show ?case by (auto simp: write_blob_append)
qed simp

lemma recipients_input_inject:
  assumes "list_all (\<lambda>x. length x = HASH_BYTES) (xs @ ys)" and "length xs < 2 ^ 32" and "length ys < 2 ^ 32"
  shows "recipients_input xs = recipients_input ys \<longleftrightarrow> mset xs = mset ys"
proof
  assume e: "recipients_input xs = recipients_input ys"
  have all: "list_all (\<lambda>x. length x = HASH_BYTES) (sort xs)" "list_all (\<lambda>x. length x = HASH_BYTES) (sort ys)"
    using assms(1) by (simp_all add: list_all_iff)
  have len: "length (recipients_input zs) = length (write_string [] RECIPIENTS_LABEL) + 4 + length zs * 36"
    if "list_all (\<lambda>x. length x = HASH_BYTES) (sort zs)" for zs
    using length_foldl_write_blob [OF that] by (simp add: recipients_input_def write_u32_split)
  have "length xs = length ys" using len [OF all(1)] len [OF all(2)] unfolding e by linarith
  then have "sort xs = sort ys" using e all unfolding recipients_input_def by (simp add: foldl_write_blob_inject)
  then have "mset (sort xs) = mset (sort ys)" by (rule arg_cong)
  then show "mset xs = mset ys" unfolding mset_sort .
next
  assume "mset xs = mset ys"
  then have "sort xs = sort ys" by (intro properties_for_sort) simp_all
  moreover have "length xs = length ys" using \<open>mset xs = mset ys\<close> by (rule mset_eq_length)
  ultimately show "recipients_input xs = recipients_input ys" by (simp add: recipients_input_def)
qed

text \<open>
  C31: The identifiers name people, in any order. Both sides of a one-to-one chat work out the same conversation identifier; the
  recipients' hash does not depend on the order of the list, and binds exactly the people on it: two lists of
  fingerprints have the same hash only if they are the same up to order -- unless the two inputs that are hashed collide.
\<close>
theorem recipients_bound:
  assumes "list_all (\<lambda>x. length x = HASH_BYTES) (xs @ ys)" and "length xs < 2 ^ 32" and "length ys < 2 ^ 32"
    and "inj_on (sha256 L) {recipients_input xs, recipients_input ys}"
  shows "conversation_id_for L a b = conversation_id_for L b a \<and>
    (recipients_hash_for L xs = recipients_hash_for L ys \<longleftrightarrow> mset xs = mset ys)"
proof
  show "conversation_id_for L a b = conversation_id_for L b a"
    unfolding conversation_id_input conversation_input_def min.commute [of a b] max.commute [of a b] ..
  have "sha256 L (recipients_input xs) = sha256 L (recipients_input ys) \<longleftrightarrow> recipients_input xs = recipients_input ys"
    by (rule inj_on_eq_iff [OF assms(4)]) simp_all
  then show "recipients_hash_for L xs = recipients_hash_for L ys \<longleftrightarrow> mset xs = mset ys"
    unfolding recipients_hash_input recipients_input_inject [OF assms(1-3)] .
qed

theorem recipients_bound_witness:
  "recipients_hash_for (sample_lib \<lparr> evp_sha256 := (\<lambda>m. m) \<rparr>) [replicate 32 1, replicate 32 2] =
   recipients_hash_for (sample_lib \<lparr> evp_sha256 := (\<lambda>m. m) \<rparr>) [replicate 32 2, replicate 32 1]"
  by (rule recipients_bound [THEN conjunct2, THEN iffD2]) (simp_all add: sha256_def add_mset_commute)

end
