(* ===== verification/Prekey.thy ===== *)
theory Prekey
  imports Crypto_Engine
begin

text \<open>
  One-time prekeys (\<^verbatim>\<open>src/client/prekey.cpp\<close>): the public half a relay hands out, signed by its owner, and
  the private half that stays with the owner.  The draws of \<^verbatim>\<open>generate\<close> are arguments.  A prekey travels as
  its signing input followed by the signature; the decoder accepts exactly the encodings of the
  well-formed prekeys.
\<close>

abbreviation (input) "PREKEY_LABEL \<equiv> ''pq-suite v3 prekey''"
abbreviation (input) "PREKEY_ID_SIZE \<equiv> (16 :: nat)"
abbreviation (input) "X25519_BYTES \<equiv> (32 :: nat)"
abbreviation (input) "MAX_PREKEY_SIGNATURE \<equiv> (8192 :: nat)"

record Prekey =
  pr_id :: bytes
  pr_kem_public :: bytes
  pr_x25519_public :: bytes
  pr_last_resort :: bool
  pr_created_at :: u64
  pr_signature :: bytes

record Secret = sc_kem_private :: bytes sc_x25519_private :: bytes

definition prekey_signing_input :: "Prekey \<Rightarrow> bytes" where
  "prekey_signing_input p =
    (let b = []; b = write_string b PREKEY_LABEL; b = write_blob b (pr_id p); b = write_blob b (pr_kem_public p);
         b = write_blob b (pr_x25519_public p); b = push_back b (if pr_last_resort p then 1 else 0);
         b = write_u64 b (pr_created_at p) in b)"

definition prekey_well_formed :: "crypto_lib \<Rightarrow> Prekey \<Rightarrow> bool" where
  "prekey_well_formed L p \<longleftrightarrow> length (pr_id p) = PREKEY_ID_SIZE \<and> length (pr_kem_public p) = kem_length_public_key L \<and>
     length (pr_x25519_public p) = X25519_BYTES \<and> pr_signature p \<noteq> [] \<and> length (pr_signature p) \<le> MAX_PREKEY_SIGNATURE"

definition generate_prekey ::
    "crypto_lib \<Rightarrow> bytes \<Rightarrow> bytes \<Rightarrow> bytes \<Rightarrow> bytes \<Rightarrow> bytes \<Rightarrow> bool \<Rightarrow> u64 \<Rightarrow> (Prekey \<times> Secret) thrown" where
  "generate_prekey L kem_seed x_rnd key_id sig_seed identity_private_key last_resort now =
    and_then (generate_kem_keypair L kem_seed) (\<lambda>kem.
    and_then (generate_x25519 L x_rnd) (\<lambda>x.
      let p = \<lparr> pr_id = key_id, pr_kem_public = kp_kem_public kem, pr_x25519_public = kp_x_public x, pr_last_resort = last_resort,
                pr_created_at = now, pr_signature = [] \<rparr> in
      and_then (sign L sig_seed (prekey_signing_input p) identity_private_key) (\<lambda>s.
        Inr (p \<lparr> pr_signature := s \<rparr>, \<lparr> sc_kem_private = kp_kem_private kem, sc_x25519_private = kp_x_private x \<rparr>))))"

definition verify_prekey :: "crypto_lib \<Rightarrow> Prekey \<Rightarrow> bytes \<Rightarrow> bool" where
  "verify_prekey L p identity_public_key =
    (if \<not> prekey_well_formed L p then False else verify L (prekey_signing_input p) (pr_signature p) identity_public_key)"

definition encode_prekey :: "crypto_lib \<Rightarrow> Prekey \<Rightarrow> bytes thrown" where
  "encode_prekey L p =
    (if \<not> prekey_well_formed L p then Inl ''That prekey is not valid''
     else let b = prekey_signing_input p; b = write_blob b (pr_signature p) in Inr b)"

definition decode_prekey :: "crypto_lib \<Rightarrow> bytes \<Rightarrow> Prekey option" where
  "decode_prekey L data =
    do { (label, off) \<leftarrow> read_string 64 data 0;
         (key_id, off) \<leftarrow> read_blob PREKEY_ID_SIZE data off;
         (kem, off) \<leftarrow> read_blob 4096 data off;
         (x, off) \<leftarrow> read_blob X25519_BYTES data off;
         if label \<noteq> PREKEY_LABEL then None
         else do {
           (flag, off) \<leftarrow> read_byte data off;
           (created, off) \<leftarrow> read_u64 data off;
           (sig, off) \<leftarrow> read_blob MAX_PREKEY_SIGNATURE data off;
           if flag > 1 \<or> off \<noteq> length data then None
           else let p = \<lparr> pr_id = key_id, pr_kem_public = kem, pr_x25519_public = x, pr_last_resort = (flag = 1),
                          pr_created_at = created, pr_signature = sig \<rparr> in
             if \<not> prekey_well_formed L p then None else Some p } }"

definition encode_secret :: "crypto_lib \<Rightarrow> Secret \<Rightarrow> bytes thrown" where
  "encode_secret L s =
    (if length (sc_kem_private s) \<noteq> kem_length_secret_key L \<or> length (sc_x25519_private s) \<noteq> X25519_BYTES
     then Inl ''That prekey secret is not valid''
     else let b = []; b = write_blob b (sc_kem_private s); b = write_blob b (sc_x25519_private s) in Inr b)"

definition decode_secret :: "crypto_lib \<Rightarrow> bytes \<Rightarrow> Secret option" where
  "decode_secret L data =
    do { (kem, off) \<leftarrow> read_blob 8192 data 0;
         (x, off) \<leftarrow> read_blob X25519_BYTES data off;
         if off \<noteq> length data \<or> length kem \<noteq> kem_length_secret_key L \<or> length x \<noteq> X25519_BYTES then None
         else Some \<lparr> sc_kem_private = kem, sc_x25519_private = x \<rparr> }"

section \<open>The formats\<close>

lemma flag_cases: "f \<le> (1 :: byte) \<longleftrightarrow> f = 0 \<or> f = 1"
proof
  assume "f \<le> 1"
  then have "unat f \<le> 1" by (simp add: word_le_nat_alt)
  then have "unat f = 0 \<or> unat f = 1" by linarith
  then show "f = 0 \<or> f = 1" by (metis unat_0 unat_1 word_unat_eq_iff)
qed auto

lemma decode_prekey_iff:
  "decode_prekey L data = Some p \<longleftrightarrow>
   length (pr_kem_public p) \<le> 4096 \<and> encode_prekey L p = Inr data"
  by (cases p)
    (simp add: decode_prekey_def encode_prekey_def prekey_signing_input_def prekey_well_formed_def bind_eq_Some_conv read_iff
        Let_def conj_ac cong: conj_cong,
      auto simp: prefix_intro flag_cases not_less intro!: exI [of _ "0 :: byte"])

lemma decode_secret_iff:
  "decode_secret L data = Some s \<longleftrightarrow> length (sc_kem_private s) \<le> 8192 \<and> encode_secret L s = Inr data"
  by (cases s) (simp add: decode_secret_def encode_secret_def bind_eq_Some_conv read_iff Let_def cong: conj_cong,
      auto simp: prefix_intro)

lemma prekey_signing_input_unsigned [simp]: "prekey_signing_input (p \<lparr> pr_signature := s \<rparr>) = prekey_signing_input p"
  by (simp add: prekey_signing_input_def)

lemma generate_prekey_Inr:
  "generate_prekey L kem_seed x_rnd key_id sig_seed priv lr now = Inr (p, s) \<longleftrightarrow>
   oqs_kem_keypair L kem_seed = Some (pr_kem_public p, sc_kem_private s) \<and>
   evp_x25519_public L x_rnd = Some (pr_x25519_public p) \<and> length (pr_x25519_public p) = X25519_BYTES \<and> sc_x25519_private s = x_rnd \<and>
   sign L sig_seed (prekey_signing_input p) priv = Inr (pr_signature p) \<and>
   pr_id p = key_id \<and> pr_last_resort p = lr \<and> pr_created_at p = now"
  by (cases p; cases s)
    (auto simp: generate_prekey_def generate_kem_keypair_def generate_x25519_def and_then_Inr Let_def prekey_signing_input_def
      split: option.splits)

text \<open>
  A prekey reaches whoever takes it. What \<^verbatim>\<open>generate\<close> makes with the private key of an identity -- given a fresh ID
  and libraries that keep to their documented sizes -- is encoded, decoded to the same prekey and
  verified under the identity's public key; and its private half survives its own encoding.
\<close>
lemma prekey_round_trip:
  assumes "generate_prekey L kem_seed x_rnd key_id sig_seed priv lr now = Inr (p, s)"
    and "sig_pair L pub priv" and "sig_length_signature L \<le> MAX_PREKEY_SIGNATURE"
    and "length (pr_kem_public p) = kem_length_public_key L" and "kem_length_public_key L \<le> 4096"
    and "length (sc_kem_private s) = kem_length_secret_key L" and "kem_length_secret_key L \<le> 8192"
    and "length key_id = PREKEY_ID_SIZE" and "length x_rnd = X25519_BYTES"
  shows "(\<exists>data. encode_prekey L p = Inr data \<and> decode_prekey L data = Some p) \<and> verify_prekey L p pub \<and>
    (\<exists>data. encode_secret L s = Inr data \<and> decode_secret L data = Some s)"
proof -
  from assms(1) have g: "length (pr_x25519_public p) = X25519_BYTES" "sc_x25519_private s = x_rnd" "pr_id p = key_id"
    and sg: "sign L sig_seed (prekey_signing_input p) priv = Inr (pr_signature p)"
    unfolding generate_prekey_Inr by blast+
  have v: "verify L (prekey_signing_input p) (pr_signature p) pub" by (rule sign_verify [OF assms(2) sg])
  then have "pr_signature p \<noteq> []" "length (pr_signature p) \<le> MAX_PREKEY_SIGNATURE"
    using assms(3) by (auto simp: verify_def split: if_splits)
  then have wf: "prekey_well_formed L p" using g assms(4, 8) by (simp add: prekey_well_formed_def)
  show ?thesis
    using wf v g(2) assms(4-7, 9) by (simp add: decode_prekey_iff decode_secret_iff verify_prekey_def encode_prekey_def encode_secret_def)
qed

end
