(* ===== verification/Envelope.thy ===== *)
theory Envelope
  imports Prekey Relay_Protocol
begin

text \<open>
  The sealed envelope (\<^verbatim>\<open>src/client/envelope.cpp\<close>): what one client leaves in another's mailbox.  The contents
  are encoded, padded to one of four sizes and encrypted to the recipient's long-term key (version 1)
  or to that key and a one-time prekey together (version 2).  The random draws of \<^verbatim>\<open>seal_envelope\<close> are
  arguments; the lookup of a prekey's private half is a function; \<^verbatim>\<open>open_envelope\<close> returns, next to the
  contents, what it stores through \<^verbatim>\<open>used_prekey_id\<close>.  Wiping secrets from memory is not modelled.
\<close>

abbreviation (input) "MAX_RECORDS_PER_ENVELOPE \<equiv> (16 :: nat)"
abbreviation (input) "MAX_BUNDLE_BYTES \<equiv> (16384 :: nat)"
abbreviation (input) "MAX_INTRODUCED_PER_ENVELOPE \<equiv> (15 :: nat)"
abbreviation (input) "MAX_GRANTS_PER_ENVELOPE \<equiv> (4 :: nat)"
abbreviation (input) "ENVELOPE_VERSION \<equiv> (1 :: u32)"
abbreviation (input) "ENVELOPE_VERSION_2 \<equiv> (2 :: u32)"
abbreviation (input) "INNER_VERSION \<equiv> (3 :: u32)"
abbreviation (input) "MIN_INNER_VERSION \<equiv> (1 :: u32)"
abbreviation (input) "ENVELOPE_AAD_LABEL \<equiv> ''pq-suite v3 envelope''"
abbreviation (input) "ENVELOPE_KEY_INFO \<equiv> ''pq-suite v3 envelope key''"
abbreviation (input) "ENVELOPE_KEY_INFO_2 \<equiv> ''pq-suite v3 envelope key v2''"
abbreviation (input) "BUCKETS \<equiv> [1024, 4096, 16384, 65536 :: nat]"

record AttachmentGrant = gr_file_id :: bytes gr_key :: bytes gr_token :: bytes

record Inner =
  in_sender_bundle :: bytes
  in_records :: "bytes list"
  in_introduced :: "bytes list"
  in_grants :: "AttachmentGrant list"

definition header_bytes :: "bytes \<Rightarrow> bytes \<Rightarrow> bytes" where
  "header_bytes kem_ciphertext nonce =
    (let h = []; h = write_u32 h ENVELOPE_VERSION; h = write_blob h kem_ciphertext; h = write_blob h nonce in h)"

definition aad_for :: "bytes \<Rightarrow> bytes" where
  "aad_for header = (let a = []; a = write_string a ENVELOPE_AAD_LABEL; a = write_bytes a header (length header) in a)"

definition header_bytes_2 :: "bytes \<Rightarrow> bytes \<Rightarrow> bytes \<Rightarrow> bytes \<Rightarrow> bytes \<Rightarrow> bytes" where
  "header_bytes_2 kem_ciphertext prekey_id prekey_ciphertext ephemeral_public nonce =
    (let h = []; h = write_u32 h ENVELOPE_VERSION_2; h = write_blob h kem_ciphertext; h = write_blob h prekey_id;
         h = write_blob h prekey_ciphertext; h = write_blob h ephemeral_public; h = write_blob h nonce in h)"

definition derive_key_2 :: "crypto_lib \<Rightarrow> bytes \<Rightarrow> bytes \<Rightarrow> bytes \<Rightarrow> bytes \<Rightarrow> bytes thrown" where
  "derive_key_2 L long_term prekey_secret x25519_secret header =
    (let ikm = long_term @ prekey_secret @ x25519_secret in hkdf_sha256 L ikm (sha256 L header) ENVELOPE_KEY_INFO_2 32)"

definition derive_key :: "crypto_lib \<Rightarrow> bytes \<Rightarrow> bytes \<Rightarrow> bytes thrown" where
  "derive_key L shared_secret header = hkdf_sha256 L shared_secret (sha256 L header) ENVELOPE_KEY_INFO 32"

section \<open>The inner content\<close>

fun check_grants :: "AttachmentGrant list \<Rightarrow> AttachmentGrant list \<Rightarrow> unit thrown" where
  "check_grants seen [] = Inr ()"
| "check_grants seen (g # gs) =
    (if length (gr_file_id g) \<noteq> 16 \<or> length (gr_key g) \<noteq> 32 \<or> length (gr_token g) \<noteq> 32 then Inl ''An attachment grant is not valid''
     else if gr_file_id g \<in> gr_file_id ` set seen then Inl ''Two attachment grants name the same file''
     else check_grants (seen @ [g]) gs)"

definition write_grant :: "bytes \<Rightarrow> AttachmentGrant \<Rightarrow> bytes" where
  "write_grant b g = (let b = write_blob b (gr_file_id g); b = write_blob b (gr_key g); b = write_blob b (gr_token g) in b)"

definition encode_inner :: "Inner \<Rightarrow> bytes thrown" where
  "encode_inner inner =
    (if length (in_sender_bundle inner) > MAX_BUNDLE_BYTES then Inl ''The sender bundle is too large''
     else if length (in_introduced inner) > MAX_INTRODUCED_PER_ENVELOPE then Inl ''Too many introduced bundles in one envelope''
     else if \<exists>bundle\<in>set (in_introduced inner). length bundle > MAX_BUNDLE_BYTES then Inl ''An introduced bundle is too large''
     else if length (in_records inner) > MAX_RECORDS_PER_ENVELOPE then Inl ''Too many records in one envelope''
     else if length (in_grants inner) > MAX_GRANTS_PER_ENVELOPE then Inl ''Too many attachment grants in one envelope''
     else and_then (check_grants [] (in_grants inner)) (\<lambda>_.
       let b = [];
           b = write_u32 b (if in_grants inner = [] then 2 else 3);
           b = write_blob b (in_sender_bundle inner);
           b = write_u32 b (word_of_nat (length (in_introduced inner)));
           b = foldl write_blob b (in_introduced inner);
           b = (if in_grants inner = [] then b
                else foldl write_grant (write_u32 b (word_of_nat (length (in_grants inner)))) (in_grants inner));
           b = write_u32 b (word_of_nat (length (in_records inner)));
           b = foldl write_blob b (in_records inner) in Inr b))"

definition read_grant :: "bytes \<Rightarrow> nat \<Rightarrow> (AttachmentGrant \<times> nat) option" where
  "read_grant b off =
    do { (file_id, off) \<leftarrow> read_blob 16 b off;
         (key, off) \<leftarrow> read_blob 32 b off;
         (token, off) \<leftarrow> read_blob 32 b off;
         if length file_id \<noteq> 16 \<or> length key \<noteq> 32 \<or> length token \<noteq> 32 then None
         else Some (\<lparr> gr_file_id = file_id, gr_key = key, gr_token = token \<rparr>, off) }"

definition read_introduced :: "bytes \<Rightarrow> nat \<Rightarrow> (bytes list \<times> nat) option" where
  "read_introduced b off =
    do { (introduced, off) \<leftarrow> read_u32 b off;
         if unat introduced > MAX_INTRODUCED_PER_ENVELOPE then None
         else read_loop (read_blob MAX_BUNDLE_BYTES) (\<lambda>_ _. True) (unat introduced) b off [] }"

definition read_grants :: "bytes \<Rightarrow> nat \<Rightarrow> (AttachmentGrant list \<times> nat) option" where
  "read_grants b off =
    do { (grants, off) \<leftarrow> read_u32 b off;
         if grants < 1 \<or> unat grants > MAX_GRANTS_PER_ENVELOPE then None
         else read_loop read_grant (\<lambda>acc g. gr_file_id g \<notin> gr_file_id ` set acc) (unat grants) b off [] }"

definition decode_fields :: "u32 \<Rightarrow> bytes \<Rightarrow> nat \<Rightarrow> Inner option" where
  "decode_fields version b off =
    do { (bundle, off) \<leftarrow> read_blob MAX_BUNDLE_BYTES b off;
         (introduced, off) \<leftarrow> (if version \<ge> 2 then read_introduced b off else Some ([], off));
         (grants, off) \<leftarrow> (if version \<ge> 3 then read_grants b off else Some ([], off));
         (count, off) \<leftarrow> read_u32 b off;
         if unat count > MAX_RECORDS_PER_ENVELOPE then None
         else do {
           (records, off) \<leftarrow> read_loop (read_blob (64 * 1024)) (\<lambda>_ _. True) (unat count) b off [];
           if off \<noteq> length b then None
           else Some \<lparr> in_sender_bundle = bundle, in_records = records, in_introduced = introduced, in_grants = grants \<rparr> } }"

definition decode_inner :: "bytes \<Rightarrow> Inner option" where
  "decode_inner b =
    do { (version, off) \<leftarrow> read_u32 b 0;
         if version < MIN_INNER_VERSION \<or> version > INNER_VERSION then None else decode_fields version b off }"

section \<open>Sealing and opening\<close>

record seal_draws = dr_kem_seed :: bytes dr_nonce :: bytes dr_one_time_seed :: bytes dr_ephemeral :: bytes

definition envelope_header_and_key ::
    "crypto_lib \<Rightarrow> seal_draws \<Rightarrow> EncapResult \<Rightarrow> Prekey option \<Rightarrow> (bytes \<times> bytes) thrown" where
  "envelope_header_and_key L dr encap pk =
    (case pk of
       Some p \<Rightarrow>
         if length (pr_id p) \<noteq> PREKEY_ID_SIZE \<or> length (pr_kem_public p) \<noteq> kem_length_public_key L \<or>
            length (pr_x25519_public p) \<noteq> X25519_BYTES
         then Inl ''That prekey is not valid''
         else and_then (encapsulate L (dr_one_time_seed dr) (pr_kem_public p)) (\<lambda>one_time.
              and_then (generate_x25519 L (dr_ephemeral dr)) (\<lambda>ephemeral.
              and_then (x25519_shared L (kp_x_private ephemeral) (pr_x25519_public p)) (\<lambda>x.
                let header = header_bytes_2 (er_ciphertext encap) (pr_id p) (er_ciphertext one_time) (kp_x_public ephemeral) (dr_nonce dr) in
                and_then (derive_key_2 L (er_shared_secret encap) (er_shared_secret one_time) x header) (\<lambda>key. Inr (header, key)))))
     | None \<Rightarrow>
         let header = header_bytes (er_ciphertext encap) (dr_nonce dr) in
         and_then (derive_key L (er_shared_secret encap) header) (\<lambda>key. Inr (header, key)))"

definition padded_plaintext :: "nat \<Rightarrow> bytes \<Rightarrow> bytes" where
  "padded_plaintext bucket encoded =
    (let p = []; p = write_u32 p (word_of_nat (length encoded)); p = write_bytes p encoded (length encoded) in
     take bucket p @ replicate (bucket - length p) 0)"

definition seal_envelope :: "crypto_lib \<Rightarrow> seal_draws \<Rightarrow> Inner \<Rightarrow> bytes \<Rightarrow> Prekey option \<Rightarrow> bytes thrown" where
  "seal_envelope L dr inner recipient_public_key pk =
    and_then (encode_inner inner) (\<lambda>encoded.
      case List.find (\<lambda>size. 4 + length encoded \<le> size) BUCKETS of
        None \<Rightarrow> Inl ''That message is too large to send''
      | Some bucket \<Rightarrow>
          let plaintext = padded_plaintext bucket encoded in
          and_then (encapsulate L (dr_kem_seed dr) recipient_public_key) (\<lambda>encap.
          and_then (envelope_header_and_key L dr encap pk) (\<lambda>(header, key).
          and_then (encrypt L key (dr_nonce dr) plaintext (aad_for header)) (\<lambda>ciphertext.
            let envelope = write_blob header ciphertext in
            if length envelope > MAX_ENVELOPE_BYTES then Inl ''That message is too large to send'' else Inr envelope))))"

definition envelope_prekey_id :: "bytes \<Rightarrow> bytes option" where
  "envelope_prekey_id envelope =
    do { (version, off) \<leftarrow> read_u32 envelope 0;
         if version \<noteq> ENVELOPE_VERSION_2 then None
         else do {
           (kem_ct, off) \<leftarrow> read_blob 4096 envelope off;
           (key_id, off) \<leftarrow> read_blob PREKEY_ID_SIZE envelope off;
           if length key_id \<noteq> PREKEY_ID_SIZE then None else Some key_id } }"

text \<open>What \<^verbatim>\<open>open_envelope\<close> reads before it decrypts: the fields of the header, the header as it stands, and the ciphertext.\<close>

record envelope_parts =
  ep_kem_ct :: bytes
  ep_one_time :: "(bytes \<times> bytes \<times> bytes) option"
  ep_nonce :: bytes
  ep_header :: bytes
  ep_ciphertext :: bytes

definition read_one_time :: "crypto_lib \<Rightarrow> bytes \<Rightarrow> nat \<Rightarrow> ((bytes \<times> bytes \<times> bytes) \<times> nat) option" where
  "read_one_time L envelope off =
    do { (prekey_id, off) \<leftarrow> read_blob PREKEY_ID_SIZE envelope off;
         (prekey_ct, off) \<leftarrow> read_blob 4096 envelope off;
         (ephemeral, off) \<leftarrow> read_blob X25519_BYTES envelope off;
         if length prekey_id \<noteq> PREKEY_ID_SIZE \<or> length prekey_ct \<noteq> kem_length_ciphertext L \<or> length ephemeral \<noteq> X25519_BYTES then None
         else Some ((prekey_id, prekey_ct, ephemeral), off) }"

definition read_sealed :: "bytes \<Rightarrow> bytes \<Rightarrow> (bytes \<times> bytes \<times> bytes) option \<Rightarrow> nat \<Rightarrow> envelope_parts option" where
  "read_sealed envelope kem_ct one_time off =
    do { (nonce, off) \<leftarrow> read_blob 12 envelope off;
         if length nonce \<noteq> 12 then None
         else let header = take off envelope in
           do { (ciphertext, off) \<leftarrow> read_blob MAX_ENVELOPE_BYTES envelope off;
                if off \<noteq> length envelope then None
                else Some \<lparr> ep_kem_ct = kem_ct, ep_one_time = one_time, ep_nonce = nonce, ep_header = header,
                            ep_ciphertext = ciphertext \<rparr> } }"

definition read_envelope :: "crypto_lib \<Rightarrow> bytes \<Rightarrow> envelope_parts option" where
  "read_envelope L envelope =
    do { (version, off) \<leftarrow> read_u32 envelope 0;
         if version \<noteq> ENVELOPE_VERSION \<and> version \<noteq> ENVELOPE_VERSION_2 then None
         else do {
           (kem_ct, off) \<leftarrow> read_blob 4096 envelope off;
           if length kem_ct \<noteq> kem_length_ciphertext L then None
           else if version = ENVELOPE_VERSION_2
             then do { (t, off) \<leftarrow> read_one_time L envelope off; read_sealed envelope kem_ct (Some t) off }
             else read_sealed envelope kem_ct None off } }"

text \<open>The key, or nothing: when the prekey is unknown, and when one of the calls throws.\<close>

definition envelope_key :: "crypto_lib \<Rightarrow> bytes \<Rightarrow> (bytes \<Rightarrow> Secret option) \<Rightarrow> envelope_parts \<Rightarrow> bytes option" where
  "envelope_key L my_private_key lookup ep =
    (case decapsulate L (ep_kem_ct ep) my_private_key of
       Inl _ \<Rightarrow> None
     | Inr shared \<Rightarrow>
        (case ep_one_time ep of
           Some (prekey_id, prekey_ct, ephemeral) \<Rightarrow>
            (case lookup prekey_id of
               None \<Rightarrow> None
             | Some secret \<Rightarrow>
                (case and_then (decapsulate L prekey_ct (sc_kem_private secret)) (\<lambda>one_time.
                      and_then (x25519_shared L (sc_x25519_private secret) ephemeral) (\<lambda>x.
                        derive_key_2 L shared one_time x (ep_header ep))) of
                   Inl _ \<Rightarrow> None | Inr key \<Rightarrow> Some key))
         | None \<Rightarrow> (case derive_key L shared (ep_header ep) of Inl _ \<Rightarrow> None | Inr key \<Rightarrow> Some key)))"

definition unpad :: "bytes \<Rightarrow> Inner option" where
  "unpad p =
    (if length p \<notin> set BUCKETS then None
     else do { (len, po) \<leftarrow> read_u32 p 0;
               if unat len > length p - po then None
               else if \<exists>x\<in>set (drop (po + unat len) p). x \<noteq> 0 then None
               else decode_inner (take (unat len) (drop po p)) })"

definition open_envelope ::
    "crypto_lib \<Rightarrow> bytes \<Rightarrow> bytes \<Rightarrow> (bytes \<Rightarrow> Secret option) \<Rightarrow> Inner option \<times> bytes option" where
  "open_envelope L envelope my_private_key lookup =
    (case read_envelope L envelope of
       None \<Rightarrow> (None, None)
     | Some ep \<Rightarrow>
        (case envelope_key L my_private_key lookup ep of
           None \<Rightarrow> (None, None)
         | Some key \<Rightarrow>
            (case decrypt L key (ep_nonce ep) (ep_ciphertext ep) (aad_for (ep_header ep)) of
               Inr (Some p) \<Rightarrow> (unpad p, map_option fst (ep_one_time ep))
             | _ \<Rightarrow> (None, None))))"

section \<open>The inner content comes back\<close>

definition grant_ok :: "AttachmentGrant \<Rightarrow> bool" where
  "grant_ok g \<longleftrightarrow> length (gr_file_id g) = 16 \<and> length (gr_key g) = 32 \<and> length (gr_token g) = 32"

interpretation grant_item: cursor_item read_grant write_grant grant_ok
proof
  show "prefix b (write_grant b v)" for b v
    by (simp add: write_grant_def prefix_intro)
  show "prefix b inp \<Longrightarrow> read_grant inp (length b) = Some (v, off) \<longleftrightarrow>
      grant_ok v \<and> off = length (write_grant b v) \<and> prefix (write_grant b v) inp" for b inp v off
    by (cases v) (simp add: read_grant_def write_grant_def grant_ok_def codec_simps cong: conj_cong,
      auto elim: prefix_order.trans [rotated] simp: prefix_intro)
qed

lemma prefix_foldl_grants [prefix_intro]: "prefix a b \<Longrightarrow> prefix a (foldl write_grant b gs)"
  by (auto intro: prefix_foldl_write grant_item.wr_extends)

definition write_introduced :: "bytes \<Rightarrow> bytes list \<Rightarrow> bytes" where
  "write_introduced b xs = foldl write_blob (write_u32 b (word_of_nat (length xs))) xs"

definition write_grants :: "bytes \<Rightarrow> AttachmentGrant list \<Rightarrow> bytes" where
  "write_grants b gs = foldl write_grant (write_u32 b (word_of_nat (length gs))) gs"

interpretation introduced_item: cursor_item read_introduced write_introduced
  "\<lambda>xs. length xs \<le> MAX_INTRODUCED_PER_ENVELOPE \<and> (\<forall>x\<in>set xs. length x \<le> MAX_BUNDLE_BYTES)"
proof
  show "prefix b (write_introduced b v)" for b v
    by (simp add: write_introduced_def prefix_intro)
  show "prefix b inp \<Longrightarrow> read_introduced inp (length b) = Some (v, off) \<longleftrightarrow>
      (length v \<le> MAX_INTRODUCED_PER_ENVELOPE \<and> (\<forall>x\<in>set v. length x \<le> MAX_BUNDLE_BYTES)) \<and>
      off = length (write_introduced b v) \<and> prefix (write_introduced b v) inp" for b inp v off
    by (simp add: read_introduced_def write_introduced_def codec_simps blob_item.loop_Nil_iff cong: conj_cong,
      auto elim: prefix_order.trans [rotated] simp: prefix_intro)
qed

interpretation grants_item: cursor_item read_grants write_grants
  "\<lambda>gs. gs \<noteq> [] \<and> length gs \<le> MAX_GRANTS_PER_ENVELOPE \<and> (\<forall>g\<in>set gs. grant_ok g) \<and> distinct (map gr_file_id gs)"
proof
  show "prefix b (write_grants b v)" for b v
    by (simp add: write_grants_def prefix_intro)
  show "prefix b inp \<Longrightarrow> read_grants inp (length b) = Some (v, off) \<longleftrightarrow>
      (v \<noteq> [] \<and> length v \<le> MAX_GRANTS_PER_ENVELOPE \<and> (\<forall>g\<in>set v. grant_ok g) \<and> distinct (map gr_file_id v)) \<and>
      off = length (write_grants b v) \<and> prefix (write_grants b v) inp" for b inp v off
    by (simp add: read_grants_def write_grants_def codec_simps grant_item.loop_Nil_iff cong: conj_cong,
      auto elim: prefix_order.trans [rotated] simp: prefix_intro)
qed

lemma prefix_write_lists [prefix_intro]:
  "prefix a b \<Longrightarrow> prefix a (write_introduced b xs)" "prefix a b \<Longrightarrow> prefix a (write_grants b gs)"
  by (auto intro: prefix_order.trans introduced_item.wr_extends grants_item.wr_extends)

definition inner_ok :: "Inner \<Rightarrow> bool" where
  "inner_ok m \<longleftrightarrow> length (in_sender_bundle m) \<le> MAX_BUNDLE_BYTES \<and>
     length (in_introduced m) \<le> MAX_INTRODUCED_PER_ENVELOPE \<and> (\<forall>x\<in>set (in_introduced m). length x \<le> MAX_BUNDLE_BYTES) \<and>
     length (in_records m) \<le> MAX_RECORDS_PER_ENVELOPE \<and> (\<forall>x\<in>set (in_records m). length x \<le> 64 * 1024) \<and>
     length (in_grants m) \<le> MAX_GRANTS_PER_ENVELOPE \<and> (\<forall>g\<in>set (in_grants m). grant_ok g) \<and> distinct (map gr_file_id (in_grants m))"

definition inner_bytes :: "u32 \<Rightarrow> Inner \<Rightarrow> bytes" where
  "inner_bytes version m =
    (let b = write_u32 [] version; b = write_blob b (in_sender_bundle m);
         b = (if version \<ge> 2 then write_introduced b (in_introduced m) else b);
         b = (if version \<ge> 3 then write_grants b (in_grants m) else b);
         b = write_u32 b (word_of_nat (length (in_records m))) in foldl write_blob b (in_records m))"

definition version_fits :: "u32 \<Rightarrow> Inner \<Rightarrow> bool" where
  "version_fits version m \<longleftrightarrow>
     version = 1 \<and> in_introduced m = [] \<and> in_grants m = [] \<or> version = 2 \<and> in_grants m = [] \<or> version = 3 \<and> in_grants m \<noteq> []"

lemma version_cases: "\<not> (v < 1 \<or> v > (3 :: u32)) \<longleftrightarrow> v = 1 \<or> v = 2 \<or> v = 3"
proof
  assume "\<not> (v < 1 \<or> v > 3)"
  then have "unat v = 1 \<or> unat v = 2 \<or> unat v = 3" by (auto simp: word_less_nat_alt not_less)
  moreover have "unat (1 :: u32) = 1" "unat (2 :: u32) = 2" "unat (3 :: u32) = 3" by simp_all
  ultimately show "v = 1 \<or> v = 2 \<or> v = 3" by (metis word_unat_eq_iff)
qed auto

lemma version_order [simp]: "\<not> (2 :: u32) \<le> 1" "\<not> (3 :: u32) \<le> 1" "\<not> (3 :: u32) \<le> 2"
  by (simp_all add: word_le_nat_alt)

lemma decode_fields_iff:
  assumes "v = 1 \<or> v = 2 \<or> v = 3" and "prefix (write_u32 [] v) b"
  shows "decode_fields v b (length (write_u32 [] v)) = Some m \<longleftrightarrow> inner_ok m \<and> version_fits v m \<and> b = inner_bytes v m"
  using assms
  by (cases m) (elim disjE; simp add: decode_fields_def inner_bytes_def inner_ok_def version_fits_def codec_simps
      introduced_item.rd_iff grants_item.rd_iff blob_item.loop_Nil_iff cong: conj_cong; auto simp: prefix_intro)

lemma decode_inner_iff: "decode_inner b = Some m \<longleftrightarrow> inner_ok m \<and> (\<exists>v. version_fits v m \<and> b = inner_bytes v m)"
proof -
  have pre: "prefix (write_u32 [] v) (inner_bytes v m)" for v
    by (simp add: inner_bytes_def Let_def prefix_intro)
  have fits: "version_fits v m \<Longrightarrow> v = 1 \<or> v = 2 \<or> v = 3" for v
    by (auto simp: version_fits_def)
  have "decode_inner b = Some m \<longleftrightarrow>
      (\<exists>v. (v = 1 \<or> v = 2 \<or> v = 3) \<and> prefix (write_u32 [] v) b \<and> decode_fields v b (length (write_u32 [] v)) = Some m)"
    unfolding decode_inner_def by (simp add: bind_eq_Some_conv read_iff if_None_eq_Some) (use version_cases in auto)
  also have "\<dots> \<longleftrightarrow> (\<exists>v. (v = 1 \<or> v = 2 \<or> v = 3) \<and> prefix (write_u32 [] v) b \<and> inner_ok m \<and> version_fits v m \<and> b = inner_bytes v m)"
    by (rule ex_cong1) (auto simp: decode_fields_iff)
  also have "\<dots> \<longleftrightarrow> inner_ok m \<and> (\<exists>v. version_fits v m \<and> b = inner_bytes v m)"
    using pre fits by blast
  finally show ?thesis .
qed

lemma check_grants_Inr:
  "check_grants seen gs = Inr u \<longleftrightarrow> (\<forall>g\<in>set gs. grant_ok g) \<and> checked_from (\<lambda>acc g. gr_file_id g \<notin> gr_file_id ` set acc) seen gs"
  by (induction gs arbitrary: seen) (auto simp: grant_ok_def)

lemma encode_inner_Inr:
  "encode_inner m = Inr b \<longleftrightarrow>
   length (in_sender_bundle m) \<le> MAX_BUNDLE_BYTES \<and> length (in_introduced m) \<le> MAX_INTRODUCED_PER_ENVELOPE \<and>
   (\<forall>x\<in>set (in_introduced m). length x \<le> MAX_BUNDLE_BYTES) \<and> length (in_records m) \<le> MAX_RECORDS_PER_ENVELOPE \<and>
   length (in_grants m) \<le> MAX_GRANTS_PER_ENVELOPE \<and> (\<forall>g\<in>set (in_grants m). grant_ok g) \<and> distinct (map gr_file_id (in_grants m)) \<and>
   b = inner_bytes (if in_grants m = [] then 2 else 3) m"
  by (auto simp: encode_inner_def and_then_Inr check_grants_Inr inner_bytes_def write_introduced_def write_grants_def Let_def not_less
      dest: leD)

lemma decode_encode_inner:
  assumes "encode_inner m = Inr b" and "length b \<le> 64 * 1024"
  shows "decode_inner b = Some m"
proof -
  from assms(1) have b: "b = inner_bytes (if in_grants m = [] then 2 else 3) m" by (simp add: encode_inner_Inr)
  have "length x \<le> length b" if "x \<in> set (in_records m)" for x
  proof -
    have "length x \<le> length (concat (map blob_field (in_records m)))"
      using that by (induction "in_records m") (auto simp: blob_field_def length_concat dest: split_list)
    then show ?thesis unfolding b by (simp add: inner_bytes_def Let_def foldl_write_blob_field)
  qed
  then have "inner_ok m" using assms by (fastforce simp: encode_inner_Inr inner_ok_def)
  moreover have "version_fits (if in_grants m = [] then 2 else 3) m" by (simp add: version_fits_def)
  ultimately show ?thesis unfolding decode_inner_iff using b by blast
qed

lemma unpad_padded:
  assumes "bucket \<in> set BUCKETS" and "4 + length encoded \<le> bucket"
  shows "unpad (padded_plaintext bucket encoded) = decode_inner encoded" and "length (padded_plaintext bucket encoded) = bucket"
proof -
  let ?p = "split32 (word_of_nat (length encoded)) @ encoded @ replicate (bucket - (4 + length encoded)) 0"
  have p: "padded_plaintext bucket encoded = ?p"
    using assms(2) by (simp add: padded_plaintext_def Let_def write_u32_split write_bytes_def)
  show len: "length (padded_plaintext bucket encoded) = bucket" unfolding p using assms(2) by simp
  have "length encoded < 2 ^ 32" using assms by auto
  moreover have "read_u32 ?p 0 = Some (word_of_nat (length encoded), 4)"
    using u32_item.wr_then_rd [of "[]" "word_of_nat (length encoded)"] by (simp add: write_u32_split)
  ultimately show "unpad (padded_plaintext bucket encoded) = decode_inner encoded"
    using assms len unfolding unpad_def p by (auto simp: unat_of_nat)
qed

lemma take_prefix: "prefix b inp \<Longrightarrow> take (length b) inp = b"
  by (auto simp: prefix_def)

lemma read_sealed_iff:
  "prefix b env \<Longrightarrow> read_sealed env kem one_time (length b) = Some ep \<longleftrightarrow>
   ep_kem_ct ep = kem \<and> ep_one_time ep = one_time \<and> length (ep_nonce ep) = 12 \<and> length (ep_ciphertext ep) \<le> MAX_ENVELOPE_BYTES \<and>
   ep_header ep = write_blob b (ep_nonce ep) \<and> env = write_blob (ep_header ep) (ep_ciphertext ep)"
  by (cases ep) (simp add: read_sealed_def codec_simps take_prefix cong: conj_cong, auto simp: prefix_intro)

definition write_one_time :: "bytes \<Rightarrow> bytes \<times> bytes \<times> bytes \<Rightarrow> bytes" where
  "write_one_time b t = (case t of (i, c, e) \<Rightarrow> write_blob (write_blob (write_blob b i) c) e)"

interpretation one_time_item: cursor_item "read_one_time L" write_one_time
  "\<lambda>(i, c, e). length i = 16 \<and> length c \<le> 4096 \<and> length c = kem_length_ciphertext L \<and> length e = 32" for L
proof
  show "prefix b (write_one_time b v)" for b v
    by (cases v) (simp add: write_one_time_def prefix_intro)
  show "prefix b inp \<Longrightarrow> read_one_time L inp (length b) = Some (v, off) \<longleftrightarrow>
      (case v of (i, c, e) \<Rightarrow> length i = 16 \<and> length c \<le> 4096 \<and> length c = kem_length_ciphertext L \<and> length e = 32) \<and>
      off = length (write_one_time b v) \<and> prefix (write_one_time b v) inp" for b inp v off
    by (cases v) (simp add: read_one_time_def write_one_time_def codec_simps cong: conj_cong,
      auto elim: prefix_order.trans [rotated] simp: prefix_intro)
qed

lemma prefix_write_one_time [prefix_intro]: "prefix a b \<Longrightarrow> prefix a (write_one_time b t)"
  by (auto intro: prefix_order.trans one_time_item.wr_extends)

lemma read_envelope_1:
  assumes "length k = kem_length_ciphertext L" and "kem_length_ciphertext L \<le> 4096" and "length n = 12" and "length c \<le> MAX_ENVELOPE_BYTES"
  shows "read_envelope L (write_blob (header_bytes k n) c) =
    Some \<lparr> ep_kem_ct = k, ep_one_time = None, ep_nonce = n, ep_header = header_bytes k n, ep_ciphertext = c \<rparr>"
proof -
  let ?env = "write_blob (header_bytes k n) c"
  have pre: "prefix (write_blob (write_u32 [] 1) k) ?env" by (simp add: header_bytes_def Let_def prefix_intro)
  have "read_u32 ?env 0 = Some (1, length (write_u32 [] 1))"
    "read_blob 4096 ?env (length (write_u32 [] 1)) = Some (k, length (write_blob (write_u32 [] 1) k))"
    using assms(1, 2) by (simp_all add: header_bytes_def Let_def read_iff prefix_intro)
  moreover have "read_sealed ?env k None (length (write_blob (write_u32 [] 1) k)) =
      Some \<lparr> ep_kem_ct = k, ep_one_time = None, ep_nonce = n, ep_header = header_bytes k n, ep_ciphertext = c \<rparr>"
    using assms unfolding read_sealed_iff [OF pre] by (simp add: header_bytes_def)
  ultimately show ?thesis using assms by (simp add: read_envelope_def)
qed

lemma read_envelope_2:
  assumes "length k = kem_length_ciphertext L" and "kem_length_ciphertext L \<le> 4096" and "length n = 12" and "length c \<le> MAX_ENVELOPE_BYTES"
    and "length i = 16" and "length o1 = kem_length_ciphertext L" and "length e = 32"
  shows "read_envelope L (write_blob (header_bytes_2 k i o1 e n) c) =
    Some \<lparr> ep_kem_ct = k, ep_one_time = Some (i, o1, e), ep_nonce = n, ep_header = header_bytes_2 k i o1 e n, ep_ciphertext = c \<rparr>"
proof -
  let ?env = "write_blob (header_bytes_2 k i o1 e n) c" and ?b = "write_blob (write_u32 [] 2) k"
  have pre: "prefix (write_one_time ?b (i, o1, e)) ?env" by (simp add: header_bytes_2_def write_one_time_def Let_def prefix_intro)
  have "read_u32 ?env 0 = Some (2, length (write_u32 [] 2))" "read_blob 4096 ?env (length (write_u32 [] 2)) = Some (k, length ?b)"
    using assms(1, 2) by (simp_all add: header_bytes_2_def Let_def read_iff prefix_intro)
  moreover have "read_one_time L ?env (length ?b) = Some ((i, o1, e), length (write_one_time ?b (i, o1, e)))"
    using assms by (subst one_time_item.rd_iff) (simp_all add: pre, simp add: header_bytes_2_def Let_def prefix_intro)
  moreover have "read_sealed ?env k (Some (i, o1, e)) (length (write_one_time ?b (i, o1, e))) =
      Some \<lparr> ep_kem_ct = k, ep_one_time = Some (i, o1, e), ep_nonce = n, ep_header = header_bytes_2 k i o1 e n, ep_ciphertext = c \<rparr>"
    using assms unfolding read_sealed_iff [OF pre] by (simp add: header_bytes_2_def write_one_time_def)
  ultimately show ?thesis using assms by (simp add: read_envelope_def)
qed

lemma read_sealed_one_time: "read_sealed env k t off = Some ep \<Longrightarrow> ep_one_time ep = t"
  by (auto simp: read_sealed_def Let_def bind_eq_Some_conv split: if_splits)

lemma read_envelope_prekey:
  assumes "read_envelope L env = Some ep"
  shows "envelope_prekey_id env = map_option fst (ep_one_time ep)"
  using assms
  by (auto simp: read_envelope_def envelope_prekey_id_def read_one_time_def bind_eq_Some_conv dest!: read_sealed_one_time
      split: if_splits)

section \<open>What was sealed is what is opened\<close>

text \<open>The private halves that fit: the recipient's, and the prekey's if there is one.\<close>

definition can_open :: "crypto_lib \<Rightarrow> bytes \<Rightarrow> bytes \<Rightarrow> Prekey option \<Rightarrow> (bytes \<Rightarrow> Secret option) \<Rightarrow> bool" where
  "can_open L pub priv pk lookup \<longleftrightarrow> kem_pair L pub priv \<and>
    (case pk of
       None \<Rightarrow> True
     | Some p \<Rightarrow> \<exists>s. lookup (pr_id p) = Some s \<and> kem_pair L (pr_kem_public p) (sc_kem_private s) \<and>
         evp_x25519_public L (sc_x25519_private s) = Some (pr_x25519_public p) \<and> length (sc_x25519_private s) = X25519_BYTES)"

lemma envelope_key_agrees:
  assumes "x25519_agrees L" and "can_open L pub priv pk lookup" and enc: "encapsulate L (dr_kem_seed dr) pub = Inr encap"
    and hk: "envelope_header_and_key L dr encap pk = Inr (header, key)"
    and "kem_length_ciphertext L \<le> 4096" and "length (dr_nonce dr) = 12" and "length c \<le> MAX_ENVELOPE_BYTES"
  shows "\<exists>ep. read_envelope L (write_blob header c) = Some ep \<and> ep_header ep = header \<and> ep_nonce ep = dr_nonce dr \<and>
    ep_ciphertext ep = c \<and> map_option fst (ep_one_time ep) = map_option pr_id pk \<and> envelope_key L priv lookup ep = Some key \<and>
    length header = (if pk = None then 24 + kem_length_ciphertext L else 84 + 2 * kem_length_ciphertext L)"
proof (cases pk)
  case None
  have kp: "kem_pair L pub priv" using assms(2) by (simp add: can_open_def)
  note d = decapsulate_encapsulate [OF kp enc]
  from hk have h: "header = header_bytes (er_ciphertext encap) (dr_nonce dr)" "derive_key L (er_shared_secret encap) header = Inr key"
    by (auto simp: envelope_header_and_key_def None Let_def and_then_Inr)
  have "read_envelope L (write_blob header c) = Some \<lparr> ep_kem_ct = er_ciphertext encap, ep_one_time = None, ep_nonce = dr_nonce dr,
      ep_header = header, ep_ciphertext = c \<rparr>"
    unfolding h(1) using d assms(5-) by (intro read_envelope_1) simp_all
  moreover have "length header = 24 + kem_length_ciphertext L"
    unfolding h(1) using d assms(6) by (simp add: header_bytes_def Let_def write_blob_append write_u32_split)
  ultimately show ?thesis using d h(2) by (simp add: envelope_key_def None)
next
  case (Some p)
  from assms(2) obtain s where kp: "kem_pair L pub priv" and s: "lookup (pr_id p) = Some s"
      "kem_pair L (pr_kem_public p) (sc_kem_private s)"
      "evp_x25519_public L (sc_x25519_private s) = Some (pr_x25519_public p)" "length (sc_x25519_private s) = 32"
    by (auto simp: can_open_def Some)
  from hk obtain one_time eph x where len: "length (pr_id p) = 16" "length (pr_x25519_public p) = 32"
      and ot: "encapsulate L (dr_one_time_seed dr) (pr_kem_public p) = Inr one_time"
      and eph: "generate_x25519 L (dr_ephemeral dr) = Inr eph" and x: "x25519_shared L (kp_x_private eph) (pr_x25519_public p) = Inr x"
      and h: "header = header_bytes_2 (er_ciphertext encap) (pr_id p) (er_ciphertext one_time) (kp_x_public eph) (dr_nonce dr)"
      and key: "derive_key_2 L (er_shared_secret encap) (er_shared_secret one_time) x header = Inr key"
    by (auto simp: envelope_header_and_key_def Some Let_def and_then_Inr split: if_splits)
  note d = decapsulate_encapsulate [OF kp enc] and d' = decapsulate_encapsulate [OF s(2) ot]
  from eph have e: "evp_x25519_public L (kp_x_private eph) = Some (kp_x_public eph)" "length (kp_x_public eph) = 32"
    by (auto simp: generate_x25519_def split: option.splits if_splits)
  from x25519_shared_agree [OF assms(1) s(3) e(1) s(4) len(2) x] e(2)
  have sh: "x25519_shared L (sc_x25519_private s) (kp_x_public eph) = Inr x" by simp
  have "read_envelope L (write_blob header c) = Some \<lparr> ep_kem_ct = er_ciphertext encap,
      ep_one_time = Some (pr_id p, er_ciphertext one_time, kp_x_public eph), ep_nonce = dr_nonce dr, ep_header = header, ep_ciphertext = c \<rparr>"
    unfolding h using d d' e(2) len assms(5-) by (intro read_envelope_2) simp_all
  moreover have "length header = 84 + 2 * kem_length_ciphertext L"
    unfolding h using d d' e(2) len assms(6) by (simp add: header_bytes_2_def Let_def write_blob_append write_u32_split)
  ultimately show ?thesis using d d' s(1) sh key by (simp add: envelope_key_def Some)
qed

lemma sealed_opens:
  assumes "gcm_lawful L" and "x25519_agrees L" and "can_open L pub priv pk lookup" and "kem_length_ciphertext L \<le> 4096"
    and sealed: "seal_envelope L dr inner pub pk = Inr env"
  shows "open_envelope L env priv lookup = (Some inner, map_option pr_id pk)" and "envelope_prekey_id env = map_option pr_id pk"
    and "\<exists>header c. env = write_blob header c \<and> length c - 16 \<in> set BUCKETS \<and>
      length header = (if pk = None then 24 + kem_length_ciphertext L else 84 + 2 * kem_length_ciphertext L)"
proof -
  from sealed obtain encoded bucket encap header key c where enc: "encode_inner inner = Inr encoded"
    and b: "List.find (\<lambda>size. 4 + length encoded \<le> size) BUCKETS = Some bucket"
    and cap: "encapsulate L (dr_kem_seed dr) pub = Inr encap" and hk: "envelope_header_and_key L dr encap pk = Inr (header, key)"
    and c: "encrypt L key (dr_nonce dr) (padded_plaintext bucket encoded) (aad_for header) = Inr c"
    and env: "env = write_blob header c" "length env \<le> MAX_ENVELOPE_BYTES"
    unfolding seal_envelope_def by (auto simp: and_then_Inr Let_def not_less split: option.splits if_splits)
  from b have bk: "bucket \<in> set BUCKETS" "4 + length encoded \<le> bucket" by (auto simp: find_Some_iff nth_Cons split: if_splits nat.splits)
  then have small: "length encoded \<le> 64 * 1024" by auto
  have nonce: "length (dr_nonce dr) = 12" using c by (simp add: encrypt_Inr)
  have "length c \<le> MAX_ENVELOPE_BYTES" using env by (simp add: write_blob_append)
  from envelope_key_agrees [OF assms(2, 3) cap hk assms(4) nonce this] obtain ep where ep: "read_envelope L env = Some ep" "ep_header ep = header"
      "ep_nonce ep = dr_nonce dr" "ep_ciphertext ep = c" "map_option fst (ep_one_time ep) = map_option pr_id pk" "envelope_key L priv lookup ep = Some key"
      "length header = (if pk = None then 24 + kem_length_ciphertext L else 84 + 2 * kem_length_ciphertext L)"
    unfolding env(1) by blast
  show "open_envelope L env priv lookup = (Some inner, map_option pr_id pk)"
    using ep decrypt_encrypt [OF assms(1) c] unpad_padded(1) [OF bk] decode_encode_inner [OF enc small]
    by (simp add: open_envelope_def)
  show "envelope_prekey_id env = map_option pr_id pk" using read_envelope_prekey [OF ep(1)] ep(5) by simp
  have "length c - 16 = bucket" using encrypt_length [OF assms(1) c] unpad_padded(2) [OF bk] by simp
  then show "\<exists>header c. env = write_blob header c \<and> length c - 16 \<in> set BUCKETS \<and>
      length header = (if pk = None then 24 + kem_length_ciphertext L else 84 + 2 * kem_length_ciphertext L)"
    using env(1) ep(7) bk(1) by blast
qed

text \<open>
  C25: The recipient reads what was sent. Whatever \<^verbatim>\<open>seal_envelope\<close> made for a public key -- with or without a prekey -- the
  holder of the matching private key (and of the prekey's private half) opens to exactly the contents
  that were sealed and learns which prekey was used; and the size of the envelope shows no more
  of them than which of four sizes they were padded to.
\<close>
theorem envelope_round_trip:
  assumes "gcm_lawful L" and "x25519_agrees L" and "can_open L pub priv pk lookup" and "kem_length_ciphertext L \<le> 4096"
    and sealed: "seal_envelope L dr inner pub pk = Inr env"
  shows "open_envelope L env priv lookup = (Some inner, map_option pr_id pk) \<and>
    envelope_prekey_id env = map_option pr_id pk \<and>
    length env - (if pk = None then 44 + kem_length_ciphertext L else 104 + 2 * kem_length_ciphertext L) \<in> {1024, 4096, 16384, 65536}"
proof -
  from sealed_opens(3) [OF assms] obtain header c where "env = write_blob header c" "length c - 16 \<in> set BUCKETS"
    "length header = (if pk = None then 24 + kem_length_ciphertext L else 84 + 2 * kem_length_ciphertext L)" by blast
  then show ?thesis using sealed_opens(1, 2) [OF assms] by (auto simp: write_blob_append)
qed

theorem envelope_round_trip_witness:
  "\<exists>env. seal_envelope sample_pk_lib \<lparr> dr_kem_seed = [1], dr_nonce = replicate 12 2, dr_one_time_seed = [3], dr_ephemeral = replicate 32 4 \<rparr>
       \<lparr> in_sender_bundle = [], in_records = [[42]], in_introduced = [], in_grants = [] \<rparr> [5, 5, 5, 5]
       (Some \<lparr> pr_id = replicate 16 6, pr_kem_public = [7, 7, 7, 7], pr_x25519_public = replicate 32 8, pr_last_resort = False,
          pr_created_at = 9, pr_signature = [1] \<rparr>) = Inr env \<and>
     fst (open_envelope sample_pk_lib env [5, 5, 5, 5]
       (\<lambda>i. Some \<lparr> sc_kem_private = [7, 7, 7, 7], sc_x25519_private = replicate 32 8 \<rparr>)) =
     Some \<lparr> in_sender_bundle = [], in_records = [[42]], in_introduced = [], in_grants = [] \<rparr>"
  (is "\<exists>env. seal_envelope _ ?dr ?inner ?pub (Some ?p) = _ \<and> fst (open_envelope _ _ _ ?lookup) = _")
proof -
  have co: "can_open sample_pk_lib ?pub ?pub (Some ?p) ?lookup"
    by (simp add: can_open_def sample_pk_lib_laws) (simp add: sample_pk_lib_def sample_lib_def)
  have "foldl (OR) x (replicate n (3 :: byte)) = (if n = 0 then x else x OR 3)" for x n
    by (induction n arbitrary: x) (auto simp: or.assoc)
  then have nz: "foldl (OR) 0 (replicate 32 (3 :: byte)) \<noteq> 0" by simp
  have "\<exists>env. seal_envelope sample_pk_lib ?dr ?inner ?pub (Some ?p) = Inr env"
    using nz by (simp add: seal_envelope_def encode_inner_def encapsulate_def require_size_def envelope_header_and_key_def
        generate_x25519_def x25519_shared_def derive_key_2_def hkdf_sha256_def encrypt_def check_aead_inputs_def
        padded_plaintext_def aad_for_def header_bytes_2_def Let_def write_blob_append write_u32_split write_bytes_def write_string_blob
        sample_pk_lib_def sample_lib_def)
  then obtain env where env: "seal_envelope sample_pk_lib ?dr ?inner ?pub (Some ?p) = Inr env" by blast
  have "kem_length_ciphertext sample_pk_lib \<le> 4096" by (simp add: sample_pk_lib_def sample_lib_def)
  from envelope_round_trip [OF sample_pk_lib_laws(1, 2) co this env] env show ?thesis by auto
qed

text \<open>
  Without the prekey there is no way in. An envelope that names a prekey whose private half has been deleted is
  not opened, whatever the long-term key and whatever the envelope holds.
\<close>
lemma deleted_prekey_closes:
  assumes "envelope_prekey_id env = Some i" and "lookup i = None"
  shows "open_envelope L env priv lookup = (None, None)"
proof (cases "read_envelope L env")
  case (Some ep)
  from read_envelope_prekey [OF this] assms(1) obtain c e where "ep_one_time ep = Some (i, c, e)"
    by (cases "ep_one_time ep") auto
  then have "envelope_key L priv lookup ep = None" using assms(2) by (simp add: envelope_key_def split: sum.splits)
  then show ?thesis by (simp add: open_envelope_def Some)
qed (simp add: open_envelope_def)

end
