(* ===== verification/Prekey_Vault.thy ===== *)
theory Prekey_Vault
  imports Envelope Relay_Db
begin

text \<open>
  Where a device keeps the private halves of its prekeys (\<^verbatim>\<open>src/client/prekey_vault.cpp\<close>): a table of sealed secrets and
  every operation on it.  The rows are in the order of \<^verbatim>\<open>rowid\<close>; the nonce of a seal is an argument.  An
  erasure overwrites the rows it concerns and then deletes them.  Opening the database file, the mutex
  (each method is one atomic step) and failing queries are not modelled.
\<close>

abbreviation (input) "VAULT_LABEL \<equiv> ''pq-suite v3 prekey vault''"

record vault_row =
  vr_id :: bytes
  vr_sealed :: bytes
  vr_public_blob :: "bytes option"
  vr_last_resort :: bool
  vr_created_at :: int
  vr_uploaded :: bool
  vr_retired_at :: "int option"

record PrekeyVault =
  va_key :: bytes
  va_generation :: "bytes option"
  va_rows :: "vault_row list"

record Counts = co_one_time :: nat co_last_resort :: nat co_retired :: nat co_pending :: nat

definition vault_aad :: "bytes \<Rightarrow> bytes" where
  "vault_aad key_id = (let aad = []; aad = write_string aad VAULT_LABEL in write_blob aad key_id)"

definition vault_seal :: "crypto_lib \<Rightarrow> bytes \<Rightarrow> PrekeyVault \<Rightarrow> bytes \<Rightarrow> bytes \<Rightarrow> bytes thrown" where
  "vault_seal L nonce v plain key_id = and_then (encrypt L (va_key v) nonce plain (vault_aad key_id)) (\<lambda>ct. Inr (nonce @ ct))"

definition vault_unseal :: "crypto_lib \<Rightarrow> PrekeyVault \<Rightarrow> bytes \<Rightarrow> bytes \<Rightarrow> bytes option" where
  "vault_unseal L v sealed key_id =
    (if length sealed < 12 + 16 then None
     else case decrypt L (va_key v) (take 12 sealed) (drop 12 sealed) (vault_aad key_id) of Inl _ \<Rightarrow> None | Inr r \<Rightarrow> r)"

definition generation :: "PrekeyVault \<Rightarrow> bytes" where
  "generation v = (case va_generation v of Some g \<Rightarrow> g | None \<Rightarrow> [])"

definition secure_erase_where :: "(vault_row \<Rightarrow> bool) \<Rightarrow> PrekeyVault \<Rightarrow> nat \<times> PrekeyVault" where
  "secure_erase_where P v =
    (let t = update_rows P (\<lambda>r. r \<lparr> vr_sealed := replicate (length (vr_sealed r)) 0, vr_public_blob := None \<rparr>) (va_rows v) in
     (count_rows P t, v \<lparr> va_rows := delete_rows P t \<rparr>))"

text \<open>
  An empty vector is bound as \<^verbatim>\<open>NULL\<close>, which the column of the generation refuses and which differs from no identifier.  The
  exception of \<^verbatim>\<open>start_generation\<close> leaves its transaction open, with the erasure in it; the client never starts an empty generation,
  and the model has only the exception.
\<close>

definition start_generation :: "bytes \<Rightarrow> PrekeyVault \<Rightarrow> PrekeyVault thrown" where
  "start_generation g v =
    (if g = [] then Inl ''Prekey store: a query failed''
     else Inr ((snd (secure_erase_where (\<lambda>_. True) v)) \<lparr> va_generation := Some g \<rparr>))"

definition vault_add :: "crypto_lib \<Rightarrow> bytes \<Rightarrow> Prekey \<times> Secret \<Rightarrow> int \<Rightarrow> PrekeyVault \<Rightarrow> PrekeyVault thrown" where
  "vault_add L nonce g now v =
    (case g of (p, s) \<Rightarrow>
      and_then (encode_secret L s) (\<lambda>secret.
      and_then (vault_seal L nonce v secret (pr_id p)) (\<lambda>sealed.
      and_then (encode_prekey L p) (\<lambda>public.
        Inr (v \<lparr> va_rows := delete_rows (\<lambda>r. vr_id r = pr_id p) (va_rows v) @
          [\<lparr> vr_id = pr_id p, vr_sealed = sealed, vr_public_blob = Some public, vr_last_resort = pr_last_resort p,
             vr_created_at = now, vr_uploaded = False, vr_retired_at = None \<rparr>] \<rparr>)))))"

definition not_uploaded :: "crypto_lib \<Rightarrow> PrekeyVault \<Rightarrow> Prekey list" where
  "not_uploaded L v =
    List.map_filter (decode_prekey L)
      (List.map_filter vr_public_blob
        (sort_key (\<lambda>r. (vr_last_resort r, vr_created_at r)) (filter (\<lambda>r. \<not> vr_uploaded r \<and> vr_public_blob r \<noteq> None) (va_rows v))))"

definition mark_uploaded :: "bytes \<Rightarrow> PrekeyVault \<Rightarrow> PrekeyVault" where
  "mark_uploaded key_id v =
    v \<lparr> va_rows := update_rows (\<lambda>r. vr_id r = key_id) (\<lambda>r. r \<lparr> vr_uploaded := True, vr_public_blob := None \<rparr>) (va_rows v) \<rparr>"

definition vault_find :: "crypto_lib \<Rightarrow> PrekeyVault \<Rightarrow> bytes \<Rightarrow> Secret option" where
  "vault_find L v key_id =
    do { r \<leftarrow> first_row (\<lambda>r. vr_id r = key_id) (va_rows v);
         plain \<leftarrow> vault_unseal L v (vr_sealed r) key_id;
         decode_secret L plain }"

definition erase :: "bytes \<Rightarrow> PrekeyVault \<Rightarrow> bool \<times> PrekeyVault" where
  "erase key_id v = (case secure_erase_where (\<lambda>r. vr_id r = key_id) v of (n, v) \<Rightarrow> (n > 0, v))"

definition erase_one_time :: "bytes \<Rightarrow> PrekeyVault \<Rightarrow> bool \<times> PrekeyVault" where
  "erase_one_time key_id v = (case secure_erase_where (\<lambda>r. vr_id r = key_id \<and> \<not> vr_last_resort r) v of (n, v) \<Rightarrow> (n > 0, v))"

definition current_last_resort_created :: "PrekeyVault \<Rightarrow> int option" where
  "current_last_resort_created v =
    (case map vr_created_at (filter (\<lambda>r. vr_last_resort r \<and> vr_retired_at r = None \<and> vr_uploaded r) (va_rows v)) of
       [] \<Rightarrow> None
     | c # cs \<Rightarrow> if fold max cs c < 0 then None else Some (fold max cs c))"

definition retire_last_resort_except :: "bytes \<Rightarrow> int \<Rightarrow> PrekeyVault \<Rightarrow> PrekeyVault" where
  "retire_last_resort_except keep_id now v =
    v \<lparr> va_rows := update_rows (\<lambda>r. vr_last_resort r \<and> vr_retired_at r = None \<and> keep_id \<noteq> [] \<and> vr_id r \<noteq> keep_id)
          (\<lambda>r. r \<lparr> vr_retired_at := Some now \<rparr>) (va_rows v) \<rparr>"

definition old_prekey :: "int \<Rightarrow> int \<Rightarrow> vault_row \<Rightarrow> bool" where
  "old_prekey retired_before unused_before r \<longleftrightarrow>
     vr_last_resort r \<and> (case vr_retired_at r of Some t \<Rightarrow> t < retired_before | None \<Rightarrow> False) \<or>
     \<not> vr_last_resort r \<and> vr_uploaded r \<and> vr_created_at r < unused_before"

definition forget_old :: "int \<Rightarrow> int \<Rightarrow> PrekeyVault \<Rightarrow> nat \<times> PrekeyVault" where
  "forget_old retired_before unused_before v = secure_erase_where (old_prekey retired_before unused_before) v"

definition counts :: "PrekeyVault \<Rightarrow> Counts" where
  "counts v =
    \<lparr> co_one_time = count_rows (\<lambda>r. \<not> vr_last_resort r) (va_rows v),
      co_last_resort = count_rows (\<lambda>r. vr_last_resort r \<and> vr_retired_at r = None) (va_rows v),
      co_retired = count_rows (\<lambda>r. vr_retired_at r \<noteq> None) (va_rows v),
      co_pending = count_rows (\<lambda>r. \<not> vr_uploaded r) (va_rows v) \<rparr>"

section \<open>What is found\<close>

definition vault_ids :: "PrekeyVault \<Rightarrow> bytes set" where
  "vault_ids v = vr_id ` set (va_rows v)"

lemma vault_find_unknown: "i \<notin> vault_ids v \<Longrightarrow> vault_find L v i = None"
  by (cases "first_row (\<lambda>r. vr_id r = i) (va_rows v)")
    (auto simp: vault_find_def vault_ids_def dest: first_row_Some)

lemma secure_erase_where_rows:
  assumes "\<And>r s. P (r \<lparr> vr_sealed := s, vr_public_blob := None \<rparr>) = P r"
  shows "secure_erase_where P v = (count_rows P (va_rows v), v \<lparr> va_rows := delete_rows P (va_rows v) \<rparr>)"
proof -
  let ?f = "\<lambda>r. r \<lparr> vr_sealed := replicate (length (vr_sealed r)) 0, vr_public_blob := None \<rparr>"
  have "delete_rows P (update_rows P ?f t) = delete_rows P t \<and> count_rows P (update_rows P ?f t) = count_rows P t" for t
    by (induction t) (simp_all add: sql_defs assms)
  then show ?thesis by (simp add: secure_erase_where_def)
qed

lemma erase_rows:
  "erase i v = (i \<in> vault_ids v, v \<lparr> va_rows := delete_rows (\<lambda>r. vr_id r = i) (va_rows v) \<rparr>)"
  "erase_one_time i v = (\<exists>r\<in>set (va_rows v). vr_id r = i \<and> \<not> vr_last_resort r,
     v \<lparr> va_rows := delete_rows (\<lambda>r. vr_id r = i \<and> \<not> vr_last_resort r) (va_rows v) \<rparr>)"
  by (simp_all add: erase_def erase_one_time_def secure_erase_where_rows vault_ids_def count_rows_def)
     (auto simp: filter_empty_conv)

lemma forget_old_rows:
  "forget_old a b v = (count_rows (old_prekey a b) (va_rows v), v \<lparr> va_rows := delete_rows (old_prekey a b) (va_rows v) \<rparr>)"
  unfolding forget_old_def by (rule secure_erase_where_rows) (simp add: old_prekey_def)

text \<open>Everything the client does with its vault, except making a prekey with the identifier \<open>i\<close> again.\<close>

inductive vault_step :: "crypto_lib \<Rightarrow> bytes \<Rightarrow> PrekeyVault \<Rightarrow> PrekeyVault \<Rightarrow> bool" for L i where
  step_generation: "start_generation g v = Inr v' \<Longrightarrow> vault_step L i v v'"
| step_add: "vault_add L nonce (p, s) now v = Inr v' \<Longrightarrow> pr_id p \<noteq> i \<Longrightarrow> vault_step L i v v'"
| step_uploaded: "vault_step L i v (mark_uploaded j v)"
| step_erase: "vault_step L i v (snd (erase j v))"
| step_erase_one_time: "vault_step L i v (snd (erase_one_time j v))"
| step_retire: "vault_step L i v (retire_last_resort_except j now v)"
| step_forget: "vault_step L i v (snd (forget_old a b v))"

lemma vault_add_Inr:
  "vault_add L nonce (p, s) now v = Inr v' \<longleftrightarrow>
   (\<exists>secret sealed public. encode_secret L s = Inr secret \<and> vault_seal L nonce v secret (pr_id p) = Inr sealed \<and> encode_prekey L p = Inr public \<and>
      v' = v \<lparr> va_rows := delete_rows (\<lambda>r. vr_id r = pr_id p) (va_rows v) @
          [\<lparr> vr_id = pr_id p, vr_sealed = sealed, vr_public_blob = Some public, vr_last_resort = pr_last_resort p,
             vr_created_at = now, vr_uploaded = False, vr_retired_at = None \<rparr>] \<rparr>)"
  by (auto simp: vault_add_def and_then_Inr)

lemma vault_step_ids:
  assumes "vault_step L i v v'" and "i \<notin> vault_ids v"
  shows "i \<notin> vault_ids v'"
  using assms
proof cases
  case (step_generation g)
  then show ?thesis by (auto simp: start_generation_def secure_erase_where_rows vault_ids_def split: if_splits)
next
  case (step_add nonce p s now)
  then show ?thesis using assms(2) by (auto simp: vault_add_Inr vault_ids_def)
qed (use assms(2) in \<open>auto simp: vault_ids_def mark_uploaded_def retire_last_resort_except_def erase_rows forget_old_rows set_update_rows\<close>)

lemma vault_steps_ids: "(vault_step L i)\<^sup>*\<^sup>* v v' \<Longrightarrow> i \<notin> vault_ids v \<Longrightarrow> i \<notin> vault_ids v'"
  by (induction rule: rtranclp_induct) (auto dest: vault_step_ids)

lemma mark_uploaded_ids: "vault_ids (mark_uploaded i v) = vault_ids v"
proof -
  have "vr_id ` set (update_rows P (\<lambda>r. r \<lparr> vr_uploaded := True, vr_public_blob := None \<rparr>) t) = vr_id ` set t" for P t
    by (induction t) (simp_all add: update_rows_def)
  then show ?thesis by (simp add: vault_ids_def mark_uploaded_def)
qed

lemma vault_unseal_seal:
  assumes "gcm_lawful L" and "vault_seal L nonce v plain i = Inr sealed"
  shows "vault_unseal L v sealed i = Some plain"
proof -
  from assms(2) obtain ct where ct: "encrypt L (va_key v) nonce plain (vault_aad i) = Inr ct" "sealed = nonce @ ct"
    by (auto simp: vault_seal_def and_then_Inr)
  then have "length nonce = 12" by (simp add: encrypt_Inr)
  then show ?thesis using ct decrypt_encrypt [OF assms(1) ct(1)] encrypt_length [OF assms(1) ct(1)] by (simp add: vault_unseal_def)
qed

text \<open>As long as a prekey stays in the vault, so does its sealed secret.\<close>

definition sealed_as :: "bytes \<Rightarrow> bytes \<Rightarrow> PrekeyVault \<Rightarrow> bool" where
  "sealed_as i sealed v \<longleftrightarrow> (\<forall>r\<in>set (va_rows v). vr_id r = i \<longrightarrow> vr_sealed r = sealed)"

lemma vault_step_sealed:
  assumes "vault_step L i v v'" and "sealed_as i sealed v"
  shows "sealed_as i sealed v' \<and> va_key v' = va_key v"
  using assms(1)
proof cases
  case (step_generation g)
  then show ?thesis by (auto simp: start_generation_def secure_erase_where_rows sealed_as_def split: if_splits)
next
  case (step_add nonce p s now)
  then show ?thesis using assms(2) by (auto simp: vault_add_Inr sealed_as_def)
qed (use assms(2) in \<open>auto simp: sealed_as_def mark_uploaded_def retire_last_resort_except_def erase_rows forget_old_rows update_rows_def\<close>)

lemma vault_steps_sealed:
  "(vault_step L i)\<^sup>*\<^sup>* v v' \<Longrightarrow> sealed_as i sealed v \<Longrightarrow> sealed_as i sealed v' \<and> va_key v' = va_key v"
  by (induction rule: rtranclp_induct) (auto dest: vault_step_sealed)

lemma vault_find_kept:
  assumes "gcm_lawful L" and "vault_add L nonce (p, s) now v = Inr v1" and "kem_length_secret_key L \<le> 8192"
    and "(vault_step L (pr_id p))\<^sup>*\<^sup>* v1 u" and "pr_id p \<in> vault_ids u"
  shows "vault_find L u (pr_id p) = Some s"
proof -
  from assms(2) obtain secret sealed public where a: "encode_secret L s = Inr secret" "vault_seal L nonce v secret (pr_id p) = Inr sealed"
    and v1: "v1 = v \<lparr> va_rows := delete_rows (\<lambda>r. vr_id r = pr_id p) (va_rows v) @
          [\<lparr> vr_id = pr_id p, vr_sealed = sealed, vr_public_blob = Some public, vr_last_resort = pr_last_resort p,
             vr_created_at = now, vr_uploaded = False, vr_retired_at = None \<rparr>] \<rparr>" unfolding vault_add_Inr by blast
  have "sealed_as (pr_id p) sealed v1" by (auto simp: v1 sealed_as_def)
  with vault_steps_sealed [OF assms(4)] have u: "sealed_as (pr_id p) sealed u" "va_key u = va_key v" by (simp_all add: v1)
  obtain r where r: "first_row (\<lambda>r. vr_id r = pr_id p) (va_rows u) = Some r"
    using assms(5) by (cases "first_row (\<lambda>r. vr_id r = pr_id p) (va_rows u)") (auto simp: first_row_None vault_ids_def)
  with u(1) first_row_Some [OF r] have "vr_sealed r = sealed" by (simp add: sealed_as_def)
  moreover have "vault_unseal L u sealed (pr_id p) = Some secret"
    by (rule vault_unseal_seal [OF assms(1)]) (use a(2) u(2) in \<open>simp add: vault_seal_def\<close>)
  moreover have "decode_secret L secret = Some s"
    unfolding decode_secret_iff using a(1) assms(3) by (auto simp: encode_secret_def split: if_splits)
  ultimately show ?thesis by (simp add: vault_find_def r)
qed

text \<open>
  C27: Forward secrecy of a message. Let a prekey have been stored in the vault. As long as it is there -- whatever has been done to the vault
  meanwhile, except storing another prekey of the same identifier -- an envelope sealed with it opens to what was sealed. Once the
  prekey has been erased, no sequence of such operations on the vault lets that
  envelope be opened again, although the
  long-term key is still there.  The erasure reports that it found the prekey.
\<close>
theorem erased_prekey_closes_envelope:
  assumes "gcm_lawful L" and "x25519_agrees L" and "kem_length_ciphertext L \<le> 4096" and "kem_length_secret_key L \<le> 8192"
    and "vault_add L nonce (p, s) now v = Inr v1"
    and "kem_pair L (pr_kem_public p) (sc_kem_private s)" and "evp_x25519_public L (sc_x25519_private s) = Some (pr_x25519_public p)"
    and "kem_pair L pub priv" and "seal_envelope L dr inner pub (Some p) = Inr env"
    and "(vault_step L (pr_id p))\<^sup>*\<^sup>* v1 u" and "pr_id p \<in> vault_ids u"
    and "erase (pr_id p) u = (found, v2)" and "(vault_step L (pr_id p))\<^sup>*\<^sup>* v2 v3"
  shows "open_envelope L env priv (vault_find L u) = (Some inner, Some (pr_id p)) \<and> found \<and>
    open_envelope L env priv (vault_find L v3) = (None, None)"
proof -
  have f: "vault_find L u (pr_id p) = Some s" by (rule vault_find_kept [OF assms(1, 5, 4, 10, 11)])
  have "length (sc_x25519_private s) = X25519_BYTES"
    using assms(5) by (auto simp: vault_add_Inr encode_secret_def split: if_splits)
  then have co: "can_open L pub priv (Some p) (vault_find L u)" using f assms(6-8) by (simp add: can_open_def)
  note o = sealed_opens [OF assms(1, 2) co assms(3) assms(9)]
  from assms(12) have "pr_id p \<notin> vault_ids v2" and found: "found = (pr_id p \<in> vault_ids u)" by (auto simp: erase_rows vault_ids_def)
  then have "vault_find L v3 (pr_id p) = None" using vault_steps_ids [OF assms(13)] by (blast intro: vault_find_unknown)
  then have "open_envelope L env priv (vault_find L v3) = (None, None)" using o(2) by (intro deleted_prekey_closes) simp_all
  with o(1) found assms(11) show ?thesis by simp
qed

definition sample_prekey :: Prekey where
  "sample_prekey = \<lparr> pr_id = replicate 16 6, pr_kem_public = [7, 7, 7, 7], pr_x25519_public = replicate 32 8, pr_last_resort = False,
     pr_created_at = 9, pr_signature = [1] \<rparr>"

definition sample_secret :: Secret where
  "sample_secret = \<lparr> sc_kem_private = [7, 7, 7, 7], sc_x25519_private = replicate 32 8 \<rparr>"

theorem erased_prekey_closes_envelope_witness:
  "\<exists>env v1. vault_add sample_pk_lib (replicate 12 1) (sample_prekey, sample_secret) 5
        \<lparr> va_key = replicate 32 2, va_generation = None, va_rows = [] \<rparr> = Inr v1 \<and>
     open_envelope sample_pk_lib env [5, 5, 5, 5] (vault_find sample_pk_lib (mark_uploaded (replicate 16 6) v1)) =
       (Some \<lparr> in_sender_bundle = [], in_records = [[42]], in_introduced = [], in_grants = [] \<rparr>, Some (replicate 16 6)) \<and>
     open_envelope sample_pk_lib env [5, 5, 5, 5] (vault_find sample_pk_lib (snd (erase (replicate 16 6) (mark_uploaded (replicate 16 6) v1)))) = (None, None)"
proof -
  let ?dr = "\<lparr> dr_kem_seed = [1], dr_nonce = replicate 12 2, dr_one_time_seed = [3], dr_ephemeral = replicate 32 4 \<rparr>"
  let ?inner = "\<lparr> in_sender_bundle = [], in_records = [[42]], in_introduced = [], in_grants = [] \<rparr>"
  let ?v = "\<lparr> va_key = replicate 32 2, va_generation = None, va_rows = [] \<rparr>"
  have "foldl (OR) x (replicate n (3 :: byte)) = (if n = 0 then x else x OR 3)" for x n
    by (induction n arbitrary: x) (auto simp: or.assoc)
  then have nz: "foldl (OR) 0 (replicate 32 (3 :: byte)) \<noteq> 0" by simp
  have "\<exists>env. seal_envelope sample_pk_lib ?dr ?inner [5, 5, 5, 5] (Some sample_prekey) = Inr env"
    using nz by (simp add: seal_envelope_def encode_inner_def encapsulate_def require_size_def envelope_header_and_key_def
        generate_x25519_def x25519_shared_def derive_key_2_def hkdf_sha256_def encrypt_def check_aead_inputs_def
        padded_plaintext_def aad_for_def header_bytes_2_def Let_def write_blob_append write_u32_split write_bytes_def write_string_blob
        sample_pk_lib_def sample_lib_def sample_prekey_def)
  then obtain env where env: "seal_envelope sample_pk_lib ?dr ?inner [5, 5, 5, 5] (Some sample_prekey) = Inr env" by blast
  have "\<exists>v1. vault_add sample_pk_lib (replicate 12 1) (sample_prekey, sample_secret) 5 ?v = Inr v1"
    by (simp add: vault_add_def encode_secret_def encode_prekey_def prekey_well_formed_def vault_seal_def encrypt_def check_aead_inputs_def
        vault_aad_def Let_def write_blob_append write_string_blob sample_pk_lib_def sample_lib_def sample_prekey_def sample_secret_def)
  then obtain v1 where v1: "vault_add sample_pk_lib (replicate 12 1) (sample_prekey, sample_secret) 5 ?v = Inr v1" by blast
  have sizes: "kem_length_ciphertext sample_pk_lib \<le> 4096" "kem_length_secret_key sample_pk_lib \<le> 8192"
    by (simp_all add: sample_pk_lib_def sample_lib_def)
  have kem: "kem_pair sample_pk_lib (pr_kem_public sample_prekey) (sc_kem_private sample_secret)" "kem_pair sample_pk_lib [5, 5, 5, 5] [5, 5, 5, 5]"
    by (simp_all add: sample_prekey_def sample_secret_def sample_pk_lib_laws)
  have x: "evp_x25519_public sample_pk_lib (sc_x25519_private sample_secret) = Some (pr_x25519_public sample_prekey)"
    by (simp add: sample_prekey_def sample_secret_def sample_pk_lib_def sample_lib_def)
  let ?u = "mark_uploaded (pr_id sample_prekey) v1"
  have "pr_id sample_prekey \<in> vault_ids v1" using v1 by (auto simp: vault_add_Inr vault_ids_def)
  then have there: "pr_id sample_prekey \<in> vault_ids ?u" by (simp add: mark_uploaded_ids)
  have steps: "(vault_step sample_pk_lib (pr_id sample_prekey))\<^sup>*\<^sup>* v1 ?u" by (intro r_into_rtranclp step_uploaded)
  from erased_prekey_closes_envelope [OF sample_pk_lib_laws(1, 2) sizes v1 kem(1) x kem(2) env steps there surjective_pairing rtranclp.rtrancl_refl] v1
  show ?thesis by (auto simp: sample_prekey_def)
qed

end
