(* ===== verification/Utf8_Labels.thy ===== *)
theory Utf8_Labels
  imports Record_Payloads
begin

text \<open>
  The check of text that is shown as a label (\<^verbatim>\<open>valid_label\<close> in \<^verbatim>\<open>src/client/message_record.cpp\<close>) against a reference
  definition: the UTF-8 encoding of a code point written as division and remainder on natural numbers.
\<close>

section \<open>The decoder's masks and shifts as arithmetic\<close>

lemma high_bits:
  assumes "n \<le> 8"
  shows "unat ((c :: byte) AND NOT (mask n)) = unat c div 2 ^ n * 2 ^ n"
proof -
  have "c AND NOT (mask n) = push_bit n (drop_bit n c)"
    by (rule bit_word_eqI) (auto simp: bit_simps)
  moreover have "unat c div 2 ^ n * 2 ^ n < 2 ^ 8"
  proof -
    have "unat c div 2 ^ n * 2 ^ n \<le> unat c" by (rule div_times_less_eq_dividend)
    also have "unat c < 2 ^ LENGTH(8)" by (rule unsigned_less)
    finally show ?thesis by simp
  qed
  moreover have "unat (push_bit n (drop_bit n c)) = take_bit 8 (push_bit n (drop_bit n (unat c)))"
  proof -
    have "unat c < 2 ^ LENGTH(8)" by (rule unsigned_less)
    then have "take_bit 8 (unat c) = unat c" by (simp add: take_bit_nat_eq_self)
    then show ?thesis by (simp only: unsigned_push_bit_eq unsigned_drop_bit_eq) simp
  qed
  ultimately show ?thesis by (simp only: drop_bit_eq_div push_bit_eq_mult take_bit_nat_eq_self)
qed

lemma byte_class:
  "(c :: byte) AND 0xE0 = 0xC0 \<longleftrightarrow> unat c div 32 = 6" "c AND 0xF0 = 0xE0 \<longleftrightarrow> unat c div 16 = 14"
  "c AND 0xF8 = 0xF0 \<longleftrightarrow> unat c div 8 = 30" "c AND 0xC0 = 0x80 \<longleftrightarrow> unat c div 64 = 2"
proof -
  have m: "(0xE0 :: byte) = NOT (mask 5)" "(0xF0 :: byte) = NOT (mask 4)" "(0xF8 :: byte) = NOT (mask 3)" "(0xC0 :: byte) = NOT (mask 6)"
    by (simp_all add: mask_eq_exp_minus_1)
  have h: "c AND NOT (mask n) = w \<longleftrightarrow> unat c div 2 ^ n * 2 ^ n = unat w" if "n \<le> 8" for n w
    using high_bits [OF that, of c] by (simp add: word_unat_eq_iff)
  show "c AND 0xE0 = 0xC0 \<longleftrightarrow> unat c div 32 = 6" using h [of 5 "0xC0"] by (subst m(1)) simp
  show "c AND 0xF0 = 0xE0 \<longleftrightarrow> unat c div 16 = 14" using h [of 4 "0xE0"] by (subst m(2)) simp
  show "c AND 0xF8 = 0xF0 \<longleftrightarrow> unat c div 8 = 30" using h [of 3 "0xF0"] by (subst m(3)) simp
  show "c AND 0xC0 = 0x80 \<longleftrightarrow> unat c div 64 = 2" using h [of 6 "0x80"] by (subst m(4)) simp
qed

lemma low_bits:
  "unat (ucast (c :: byte) AND 0x1F :: u32) = unat c mod 32" "unat (ucast c AND 0x0F :: u32) = unat c mod 16"
  "unat (ucast c AND 0x07 :: u32) = unat c mod 8" "unat (ucast c AND 0x3F :: u32) = unat c mod 64"
proof -
  have m: "unat (ucast c AND mask n :: u32) = unat c mod 2 ^ n" for n
  proof -
    have "ucast c AND mask n = (take_bit n (ucast c) :: u32)" by (simp add: take_bit_eq_mask)
    moreover have "unat (ucast c :: u32) = unat c" by (simp add: unsigned_ucast_eq take_bit_nat_eq_self unsigned_less [THEN less_le_trans])
    moreover have "unat (take_bit n (ucast c) :: u32) = take_bit n (unat (ucast c :: u32))" by (simp only: unsigned_take_bit_eq)
    ultimately show ?thesis by (simp only: take_bit_eq_mod)
  qed
  show "unat (ucast (c :: byte) AND 0x1F :: u32) = unat c mod 32" "unat (ucast c AND 0x0F :: u32) = unat c mod 16"
  "unat (ucast c AND 0x07 :: u32) = unat c mod 8" "unat (ucast c AND 0x3F :: u32) = unat c mod 64"
    using m [of 5] m [of 4] m [of 3] m [of 6] by (simp_all add: mask_eq_exp_minus_1)
qed

lemma next_six:
  assumes "unat (cp :: u32) < 2 ^ 26"
  shows "unat (push_bit 6 cp OR (ucast (cc :: byte) AND 0x3F)) = unat cp * 64 + unat cc mod 64"
proof -
  have "push_bit 6 cp AND (ucast cc AND 0x3F) = 0"
  proof (rule bit_word_eqI)
    fix n
    have "(0x3F :: u32) = mask 6" by (simp add: mask_eq_exp_minus_1)
    then have "bit (0x3F :: u32) n \<Longrightarrow> n < 6" by (simp add: bit_simps)
    then show "bit (push_bit 6 cp AND (ucast cc AND 0x3F)) n = bit (0 :: u32) n" by (auto simp: bit_simps)
  qed
  then have "push_bit 6 cp OR (ucast cc AND 0x3F) = push_bit 6 cp + (ucast cc AND 0x3F)" by (simp add: disjunctive_add_eq_or)
  moreover have "unat (push_bit 6 cp) = unat cp * 64"
  proof -
    have "unat (push_bit 6 cp) = take_bit 32 (push_bit 6 (unat cp))" by (simp only: unsigned_push_bit_eq) simp
    moreover have "take_bit 32 (push_bit 6 (unat cp)) = push_bit 6 (unat cp)"
      by (rule take_bit_nat_eq_self) (use assms in \<open>simp add: push_bit_eq_mult\<close>)
    ultimately show ?thesis by (simp only: push_bit_eq_mult) simp
  qed
  moreover have "unat cc mod 64 < 64" by simp
  ultimately show ?thesis using assms by (simp add: unat_word_ariths low_bits)
qed

section \<open>The reference encoder\<close>

definition utf8 :: "nat \<Rightarrow> bytes" where
  "utf8 n = map word_of_nat
    (if n < 0x80 then [n]
     else if n < 0x800 then [0xC0 + n div 64, 0x80 + n mod 64]
     else if n < 0x10000 then [0xE0 + n div 4096, 0x80 + n div 64 mod 64, 0x80 + n mod 64]
     else [0xF0 + n div 262144, 0x80 + n div 4096 mod 64, 0x80 + n div 64 mod 64, 0x80 + n mod 64])"

text \<open>The characters a label may have.\<close>

definition label_char :: "nat \<Rightarrow> bool" where
  "label_char n \<longleftrightarrow> 0x20 \<le> n \<and> n \<le> 0x10FFFF \<and> n \<notin> {0x7F..0x9F} \<and> n \<notin> {0xD800..0xDFFF} \<and> n \<notin> {0x202A..0x202E} \<and> n \<notin> {0x2066..0x2069}"

lemma label_char_code_point: "label_code_point cp \<longleftrightarrow> label_char (unat cp)"
  by (auto simp: label_code_point_def label_char_def word_le_nat_alt word_less_nat_alt)

section \<open>One character off the front\<close>

definition decode_char :: "byte \<Rightarrow> bytes \<Rightarrow> (u32 \<times> bytes) option" where
  "decode_char c s = do { (cp, len) \<leftarrow> utf8_lead c;
     if len > Suc (length s) then None
     else do { cp \<leftarrow> utf8_continue cp (take (len - 1) s);
               if len > 1 \<and> cp < MIN_FOR_LENGTH len then None else Some (cp, drop (len - 1) s) } }"

lemma valid_label_step: "valid_label_bytes (c # s) \<longleftrightarrow>
  (\<exists>cp t. decode_char c s = Some (cp, t) \<and> label_char (unat cp) \<and> valid_label_bytes t)"
proof (cases "utf8_lead c")
  case (Some p)
  obtain cp len where p: "p = (cp, len)" by force
  show ?thesis
    by (cases "utf8_continue cp (take (len - 1) s)") (simp_all add: decode_char_def Some p label_char_code_point)
qed (simp add: decode_char_def)

lemma byte_eq: "n < 256 \<Longrightarrow> (word_of_nat n :: byte) = c \<longleftrightarrow> unat c = n"
  by (auto simp: unat_of_nat)

lemma unat_byte: "unat (c :: byte) < 256"
proof -
  have "unat c < 2 ^ LENGTH(8)" by (rule unsigned_less)
  then show ?thesis by simp
qed

lemma unat_ucast_byte: "unat (ucast (c :: byte) :: u32) = unat c"
  by (simp add: unsigned_ucast_eq take_bit_nat_eq_self unsigned_less [THEN less_le_trans])

lemma lead_cases:
  "utf8_lead c = Some (cp, len) \<longleftrightarrow>
    len = 1 \<and> unat c < 128 \<and> unat cp = unat c \<or> len = 2 \<and> unat c div 32 = 6 \<and> unat cp = unat c mod 32 \<or>
    len = 3 \<and> unat c div 16 = 14 \<and> unat cp = unat c mod 16 \<or> len = 4 \<and> unat c div 8 = 30 \<and> unat cp = unat c mod 8"
proof -
  have c: "c < 0x80 \<longleftrightarrow> unat c < 128" by (simp add: word_less_nat_alt)
  have eq: "(ucast c AND m = cp) \<longleftrightarrow> unat cp = unat (ucast c AND m :: u32)" "(ucast c = cp) \<longleftrightarrow> unat cp = unat (ucast c :: u32)" for m
    by (auto simp only: word_unat_eq_iff)
  consider "unat c < 128" | "unat c div 32 = 6" | "unat c div 16 = 14" | "unat c div 8 = 30"
    | "\<not> unat c < 128" "unat c div 32 \<noteq> 6" "unat c div 16 \<noteq> 14" "unat c div 8 \<noteq> 30" by blast
  then show ?thesis
  proof cases
    case 1
    then have "unat c div 32 \<noteq> 6" "unat c div 16 \<noteq> 14" "unat c div 8 \<noteq> 30" by linarith+
    with 1 show ?thesis unfolding utf8_lead_def byte_class c by (auto simp: eq unat_ucast_byte)
  next
    case 2
    then have "\<not> unat c < 128" "unat c div 16 \<noteq> 14" "unat c div 8 \<noteq> 30" by linarith+
    with 2 show ?thesis unfolding utf8_lead_def byte_class c by (auto simp: eq low_bits)
  next
    case 3
    then have "\<not> unat c < 128" "unat c div 32 \<noteq> 6" "unat c div 8 \<noteq> 30" by linarith+
    with 3 show ?thesis unfolding utf8_lead_def byte_class c by (auto simp: eq low_bits)
  next
    case 4
    then have "\<not> unat c < 128" "unat c div 32 \<noteq> 6" "unat c div 16 \<noteq> 14" by linarith+
    with 4 show ?thesis unfolding utf8_lead_def byte_class c by (auto simp: eq low_bits)
  next
    case 5
    then show ?thesis unfolding utf8_lead_def byte_class c by simp
  qed
qed

lemma continue_cases:
  assumes "unat cp < 2 ^ 26"
  shows "utf8_continue cp (cc # ccs) = Some cp' \<longleftrightarrow>
    unat cc div 64 = 2 \<and> (\<exists>cp1. unat cp1 = unat cp * 64 + unat cc mod 64 \<and> utf8_continue cp1 ccs = Some cp')"
proof -
  have "unat cp1 = unat cp * 64 + unat cc mod 64 \<longleftrightarrow> cp1 = push_bit 6 cp OR (ucast cc AND 0x3F)" for cp1
    unfolding word_unat_eq_iff next_six [OF assms] ..
  then show ?thesis unfolding utf8_continue.simps byte_class(4) by simp
qed


lemma continue_value:
  "(unat cp + 1) * 64 ^ length bs \<le> 2 ^ 32 \<Longrightarrow>
   utf8_continue cp bs = Some cp' \<longleftrightarrow>
     list_all (\<lambda>b. unat b div 64 = 2) bs \<and> unat cp' = foldl (\<lambda>n b. n * 64 + unat b mod 64) (unat cp) bs"
proof (induction bs arbitrary: cp)
  case Nil
  show ?case by (auto simp: word_unat_eq_iff)
next
  case (Cons b bs)
  let ?x = "push_bit 6 cp OR (ucast b AND 0x3F)"
  have le: "(unat cp + 1) * 64 * 64 ^ length bs \<le> 2 ^ 32" using Cons.prems by (simp add: algebra_simps)
  then have "(unat cp + 1) * 64 * 1 \<le> 2 ^ 32" using order_trans [OF mult_le_mono2 le, of 1] by simp
  then have x: "unat ?x = unat cp * 64 + unat b mod 64" by (intro next_six) simp
  have "unat b mod 64 + 1 \<le> 64" using mod_less_divisor [of 64 "unat b"] by linarith
  then have "unat ?x + 1 \<le> (unat cp + 1) * 64" unfolding x by (simp add: algebra_simps)
  then have "(unat ?x + 1) * 64 ^ length bs \<le> 2 ^ 32" using le by (meson mult_le_mono1 order_trans)
  from Cons.IH [OF this] show ?case unfolding utf8_continue.simps byte_class(4) x by auto
qed

lemma off: "m < k \<Longrightarrow> (q * k + m) mod k = (m :: nat) \<and> (q * k + m) div k = q"
  by simp

lemmas lead_off = off [of _ 32 6, simplified] off [of _ 16 14, simplified] off [of _ 8 30, simplified] off [of _ 64 2, simplified]

lemma last_digit: "w < 64 \<Longrightarrow> (u * 64 + w) div 64 = u \<and> (u * 64 + w) mod 64 = (w :: nat)"
  by simp

lemma lead_digit: "(a :: nat) div k = q \<Longrightarrow> 0 < k \<Longrightarrow> \<exists>x<k. a = q * k + x \<and> a mod k = x"
  using div_mult_mod_eq [of a k] by (intro exI [of _ "a mod k"]) simp

lemma more_digits: "n div 4096 = n div 64 div 64" "n div 262144 = n div 64 div 64 div (64 :: nat)"
  by (simp_all add: div_mult2_eq [symmetric])

lemma two_bytes:
  "(a :: nat) div 32 = 6 \<and> b div 64 = 2 \<and> n = (a mod 32) * 64 + b mod 64 \<and> 128 \<le> n \<longleftrightarrow>
   128 \<le> n \<and> n < 2048 \<and> a = 192 + n div 64 \<and> b = 128 + n mod 64"
  (is "?l \<longleftrightarrow> ?r")
proof
  assume l: ?l
  then have d: "a div 32 = 6" "b div 64 = 2" by blast+
  obtain x where x: "x < 32" "a = 6 * 32 + x" "a mod 32 = x" using lead_digit [OF d(1) zero_less_numeral] by blast
  obtain y where y: "y < 64" "b = 2 * 64 + y" "b mod 64 = y" using lead_digit [OF d(2) zero_less_numeral] by blast
  from l have n: "n = x * 64 + y" "128 \<le> n" unfolding x(3) y(3) by blast+
  have "n < 2048" using n(1) x(1) y(1) by linarith
  then show ?r using n last_digit [OF y(1), of x] x(2) y(2) by simp
next
  assume r: ?r
  then have "n div 64 < 32" by (simp add: less_mult_imp_div_less)
  from r show ?l using div_mult_mod_eq [of n 64] lead_off(1) [OF \<open>n div 64 < 32\<close>] lead_off(4) [of "n mod 64"] by simp
qed

lemma three_bytes:
  "(a :: nat) div 16 = 14 \<and> b div 64 = 2 \<and> c div 64 = 2 \<and> n = (a mod 16 * 64 + b mod 64) * 64 + c mod 64 \<and> 2048 \<le> n \<longleftrightarrow>
   2048 \<le> n \<and> n < 65536 \<and> a = 224 + n div 4096 \<and> b = 128 + n div 64 mod 64 \<and> c = 128 + n mod 64"
  (is "?l \<longleftrightarrow> ?r")
proof
  assume l: ?l
  then have d: "a div 16 = 14" "b div 64 = 2" "c div 64 = 2" by blast+
  obtain x where x: "x < 16" "a = 14 * 16 + x" "a mod 16 = x" using lead_digit [OF d(1) zero_less_numeral] by blast
  obtain y where y: "y < 64" "b = 2 * 64 + y" "b mod 64 = y" using lead_digit [OF d(2) zero_less_numeral] by blast
  obtain z where z: "z < 64" "c = 2 * 64 + z" "c mod 64 = z" using lead_digit [OF d(3) zero_less_numeral] by blast
  from l have n: "n = (x * 64 + y) * 64 + z" "2048 \<le> n" unfolding x(3) y(3) z(3) by blast+
  have "x * 64 + y < 1024" using x(1) y(1) by linarith
  then have "n < 65536" using n(1) z(1) by (simp add: algebra_simps)
  moreover have "n div 64 = x * 64 + y" "n mod 64 = z" using last_digit [OF z(1), of "x * 64 + y"] unfolding n(1) by blast+
  ultimately show ?r unfolding more_digits using n(2) last_digit [OF y(1), of x] x(2) y(2) z(2) by simp
next
  assume r: ?r
  then have "n div 4096 < 16" by (simp add: less_mult_imp_div_less)
  then show ?l using r div_mult_mod_eq [of n 64] div_mult_mod_eq [of "n div 64" 64] lead_off(2) [OF \<open>n div 4096 < 16\<close>]
      lead_off(4) [of "n mod 64"] lead_off(4) [of "n div 64 mod 64"] unfolding more_digits by simp
qed

lemma four_bytes:
  "(a :: nat) div 8 = 30 \<and> b div 64 = 2 \<and> c div 64 = 2 \<and> d div 64 = 2 \<and>
     n = ((a mod 8 * 64 + b mod 64) * 64 + c mod 64) * 64 + d mod 64 \<and> 65536 \<le> n \<longleftrightarrow>
   65536 \<le> n \<and> n < 2097152 \<and> a = 240 + n div 262144 \<and> b = 128 + n div 4096 mod 64 \<and> c = 128 + n div 64 mod 64 \<and> d = 128 + n mod 64"
  (is "?l \<longleftrightarrow> ?r")
proof
  assume l: ?l
  then have e: "a div 8 = 30" "b div 64 = 2" "c div 64 = 2" "d div 64 = 2" by blast+
  obtain x where x: "x < 8" "a = 30 * 8 + x" "a mod 8 = x" using lead_digit [OF e(1) zero_less_numeral] by blast
  obtain y where y: "y < 64" "b = 2 * 64 + y" "b mod 64 = y" using lead_digit [OF e(2) zero_less_numeral] by blast
  obtain z where z: "z < 64" "c = 2 * 64 + z" "c mod 64 = z" using lead_digit [OF e(3) zero_less_numeral] by blast
  obtain w where w: "w < 64" "d = 2 * 64 + w" "d mod 64 = w" using lead_digit [OF e(4) zero_less_numeral] by blast
  from l have n: "n = ((x * 64 + y) * 64 + z) * 64 + w" "65536 \<le> n" unfolding x(3) y(3) z(3) w(3) by blast+
  have "x * 64 + y < 512" using x(1) y(1) by linarith
  then have "(x * 64 + y) * 64 + z < 32768" using z(1) by (simp add: algebra_simps)
  then have "n < 2097152" using n(1) w(1) by (simp add: algebra_simps)
  moreover have "n div 64 = (x * 64 + y) * 64 + z" "n mod 64 = w"
    using last_digit [OF w(1), of "(x * 64 + y) * 64 + z"] unfolding n(1) by blast+
  ultimately show ?r unfolding more_digits
    using n(2) last_digit [OF y(1), of x] last_digit [OF z(1), of "x * 64 + y"] x(2) y(2) z(2) w(2) by simp
next
  assume r: ?r
  then have "n div 262144 < 8" by (simp add: less_mult_imp_div_less)
  then show ?l using r div_mult_mod_eq [of n 64] div_mult_mod_eq [of "n div 64" 64] div_mult_mod_eq [of "n div 64 div 64" 64]
      lead_off(3) [OF \<open>n div 262144 < 8\<close>] lead_off(4) [of "n mod 64"] lead_off(4) [of "n div 64 mod 64"] lead_off(4) [of "n div 4096 mod 64"]
    unfolding more_digits by simp
qed

lemma byte_is: "m < 256 \<Longrightarrow> c = (word_of_nat m :: byte) \<longleftrightarrow> unat c = m"
  by (auto simp: unat_of_nat)

lemma utf8_front:
  assumes "n < 2097152"
  shows "c # s = utf8 n @ t \<longleftrightarrow>
    n < 128 \<and> unat c = n \<and> s = t \<or>
    128 \<le> n \<and> n < 2048 \<and> (\<exists>b1. s = b1 # t \<and> unat c = 192 + n div 64 \<and> unat b1 = 128 + n mod 64) \<or>
    2048 \<le> n \<and> n < 65536 \<and> (\<exists>b1 b2. s = b1 # b2 # t \<and> unat c = 224 + n div 4096 \<and> unat b1 = 128 + n div 64 mod 64 \<and> unat b2 = 128 + n mod 64) \<or>
    65536 \<le> n \<and> (\<exists>b1 b2 b3. s = b1 # b2 # b3 # t \<and> unat c = 240 + n div 262144 \<and> unat b1 = 128 + n div 4096 mod 64 \<and>
      unat b2 = 128 + n div 64 mod 64 \<and> unat b3 = 128 + n mod 64)"
proof -
  have m: "128 + k mod 64 < 256" for k :: nat by (simp add: mod_less_divisor [THEN less_trans])
  have bm: "unat (word_of_nat (128 + k mod 64) :: byte) = 128 + k mod 64" for k using byte_is [OF m] by blast
  consider "n < 128" | "128 \<le> n" "n < 2048" | "2048 \<le> n" "n < 65536" | "65536 \<le> n" by linarith
  then show ?thesis
  proof cases
    case 1
    then show ?thesis by (auto simp: utf8_def byte_is bm simp del: of_nat_add)
  next
    case 2
    then have "n div 64 < 32" by (simp add: less_mult_imp_div_less)
    then have "192 + n div 64 < 256" by linarith
    with 2 m show ?thesis by (auto simp: utf8_def byte_is bm simp del: of_nat_add)
  next
    case 3
    then have "n div 4096 < 16" by (simp add: less_mult_imp_div_less)
    then have "224 + n div 4096 < 256" by linarith
    with 3 m show ?thesis by (auto simp: utf8_def byte_is bm simp del: of_nat_add)
  next
    case 4
    have "n div 262144 < 8" using assms by (simp add: less_mult_imp_div_less)
    then have "240 + n div 262144 < 256" by linarith
    with 4 m show ?thesis by (auto simp: utf8_def byte_is bm simp del: of_nat_add)
  qed
qed

text \<open>The rest of a character of each length, after the bits of its first byte.\<close>

definition decode_rest :: "u32 \<Rightarrow> nat \<Rightarrow> bytes \<Rightarrow> u32 \<Rightarrow> bytes \<Rightarrow> bool" where
  "decode_rest cp0 len s cp t \<longleftrightarrow> \<not> len > Suc (length s) \<and> utf8_continue cp0 (take (len - 1) s) = Some cp \<and>
     \<not> (len > 1 \<and> cp < MIN_FOR_LENGTH len) \<and> t = drop (len - 1) s"

lemma decode_char_rest: "decode_char c s = Some (cp, t) \<longleftrightarrow> (\<exists>cp0 len. utf8_lead c = Some (cp0, len) \<and> decode_rest cp0 len s cp t)"
  unfolding decode_char_def decode_rest_def by (auto simp: bind_eq_Some_conv simp del: utf8_continue.simps split: if_splits)

lemma decode_rest_1: "decode_rest cp0 1 s cp t \<longleftrightarrow> cp = cp0 \<and> t = s"
  by (auto simp: decode_rest_def)

lemma min_for: "cp < MIN_FOR_LENGTH 2 \<longleftrightarrow> unat cp < 128" "cp < MIN_FOR_LENGTH 3 \<longleftrightarrow> unat cp < 2048" "cp < MIN_FOR_LENGTH 4 \<longleftrightarrow> unat cp < 65536"
  by (simp_all add: MIN_FOR_LENGTH_def word_less_nat_alt)

lemma decode_rest_len:
  "s = bs @ s' \<Longrightarrow> length bs = len - 1 \<Longrightarrow> 1 < len \<Longrightarrow>
   decode_rest cp0 len s cp t \<longleftrightarrow> utf8_continue cp0 bs = Some cp \<and> \<not> cp < MIN_FOR_LENGTH len \<and> t = s'"
  by (simp add: decode_rest_def)

lemma decode_rest_2:
  assumes "unat cp0 < 32"
  shows "decode_rest cp0 2 s cp t \<longleftrightarrow>
   (\<exists>b1. s = b1 # t \<and> unat b1 div 64 = 2 \<and> unat cp = unat cp0 * 64 + unat b1 mod 64 \<and> 128 \<le> unat cp)"
proof (cases "\<exists>b1 s'. s = b1 # s'")
  case True
  then obtain b1 s' where s: "s = b1 # s'" by blast
  have le: "(unat cp0 + 1) * 64 ^ length [b1] \<le> 2 ^ 32" using assms by simp
  have "decode_rest cp0 2 s cp t \<longleftrightarrow> utf8_continue cp0 [b1] = Some cp \<and> \<not> unat cp < 128 \<and> t = s'"
    unfolding min_for [symmetric] by (rule decode_rest_len) (simp_all add: s)
  also have "\<dots> \<longleftrightarrow> (unat b1 div 64 = 2 \<and> unat cp = unat cp0 * 64 + unat b1 mod 64) \<and> 128 \<le> unat cp \<and> t = s'"
    unfolding continue_value [OF le] by (simp only: list.pred_inject foldl.simps conj_assoc simp_thms not_less)
  finally show ?thesis unfolding s list.inject by blast
next
  case False
  then have "length s < 1" by (cases s) auto
  then have "\<not> decode_rest cp0 2 s cp t" by (simp add: decode_rest_def)
  with False show ?thesis by blast
qed

lemma decode_rest_3:
  assumes "unat cp0 < 16"
  shows "decode_rest cp0 3 s cp t \<longleftrightarrow>
   (\<exists>b1 b2. s = b1 # b2 # t \<and> unat b1 div 64 = 2 \<and> unat b2 div 64 = 2 \<and> unat cp = (unat cp0 * 64 + unat b1 mod 64) * 64 + unat b2 mod 64 \<and> 2048 \<le> unat cp)"
proof (cases "\<exists>b1 b2 s'. s = b1 # b2 # s'")
  case True
  then obtain b1 b2 s' where s: "s = b1 # b2 # s'" by blast
  have le: "(unat cp0 + 1) * 64 ^ length [b1, b2] \<le> 2 ^ 32" using assms by simp
  have "decode_rest cp0 3 s cp t \<longleftrightarrow> utf8_continue cp0 [b1, b2] = Some cp \<and> \<not> unat cp < 2048 \<and> t = s'"
    unfolding min_for [symmetric] by (rule decode_rest_len) (simp_all add: s)
  also have "\<dots> \<longleftrightarrow> (unat b1 div 64 = 2 \<and> unat b2 div 64 = 2 \<and> unat cp = (unat cp0 * 64 + unat b1 mod 64) * 64 + unat b2 mod 64) \<and> 2048 \<le> unat cp \<and> t = s'"
    unfolding continue_value [OF le] by (simp only: list.pred_inject foldl.simps conj_assoc simp_thms not_less)
  finally show ?thesis unfolding s list.inject by blast
next
  case False
  then have "length s < 2" by (cases s; cases "tl s") auto
  then have "\<not> decode_rest cp0 3 s cp t" by (simp add: decode_rest_def)
  with False show ?thesis by blast
qed

lemma decode_rest_4:
  assumes "unat cp0 < 8"
  shows "decode_rest cp0 4 s cp t \<longleftrightarrow>
   (\<exists>b1 b2 b3. s = b1 # b2 # b3 # t \<and> unat b1 div 64 = 2 \<and> unat b2 div 64 = 2 \<and> unat b3 div 64 = 2 \<and> unat cp = ((unat cp0 * 64 + unat b1 mod 64) * 64 + unat b2 mod 64) * 64 + unat b3 mod 64 \<and> 65536 \<le> unat cp)"
proof (cases "\<exists>b1 b2 b3 s'. s = b1 # b2 # b3 # s'")
  case True
  then obtain b1 b2 b3 s' where s: "s = b1 # b2 # b3 # s'" by blast
  have le: "(unat cp0 + 1) * 64 ^ length [b1, b2, b3] \<le> 2 ^ 32" using assms by simp
  have "decode_rest cp0 4 s cp t \<longleftrightarrow> utf8_continue cp0 [b1, b2, b3] = Some cp \<and> \<not> unat cp < 65536 \<and> t = s'"
    unfolding min_for [symmetric] by (rule decode_rest_len) (simp_all add: s)
  also have "\<dots> \<longleftrightarrow> (unat b1 div 64 = 2 \<and> unat b2 div 64 = 2 \<and> unat b3 div 64 = 2 \<and> unat cp = ((unat cp0 * 64 + unat b1 mod 64) * 64 + unat b2 mod 64) * 64 + unat b3 mod 64) \<and> 65536 \<le> unat cp \<and> t = s'"
    unfolding continue_value [OF le] by (simp only: list.pred_inject foldl.simps conj_assoc simp_thms not_less)
  finally show ?thesis unfolding s list.inject by blast
next
  case False
  then have "length s < 3" by (cases s; cases "tl s"; cases "tl (tl s)") auto
  then have "\<not> decode_rest cp0 4 s cp t" by (simp add: decode_rest_def)
  with False show ?thesis by blast
qed


lemma lead_rest:
  assumes "m < 256" and "\<And>cp0 :: u32. unat cp0 = m \<Longrightarrow> P cp0 \<longleftrightarrow> Q"
  shows "(\<exists>cp0. unat cp0 = m \<and> P cp0) \<longleftrightarrow> Q"
proof
  assume Q
  have "unat (word_of_nat m :: u32) = m" using assms(1) by (simp add: unat_of_nat)
  with assms(2) [OF this] \<open>Q\<close> show "\<exists>cp0. unat cp0 = m \<and> P cp0" by blast
qed (use assms(2) in blast)

lemma decode_char_iff:
  "decode_char c s = Some (cp, t) \<longleftrightarrow> unat cp < 2097152 \<and> c # s = utf8 (unat cp) @ t"
proof -
  let ?n = "unat cp"
  have m: "unat c mod 32 < 32" "unat c mod 16 < 16" "unat c mod 8 < 8" by simp_all
  then have b: "unat c mod 32 < 256" "unat c mod 16 < 256" "unat c mod 8 < 256" by linarith+
  have "(\<exists>cp0. unat cp0 = unat c \<and> decode_rest cp0 1 s cp t) \<longleftrightarrow> unat c = ?n \<and> s = t"
    by (rule lead_rest [OF unat_byte]) (simp only: decode_rest_1 word_unat_eq_iff, auto)
  then have r1: "unat c < 128 \<and> (\<exists>cp0. unat cp0 = unat c \<and> decode_rest cp0 1 s cp t) \<longleftrightarrow> ?n < 128 \<and> unat c = ?n \<and> s = t"
    by metis
  have r2: "(\<exists>cp0. unat cp0 = unat c mod 32 \<and> decode_rest cp0 2 s cp t) \<longleftrightarrow>
      (\<exists>b1. s = b1 # t \<and> unat b1 div 64 = 2 \<and> ?n = unat c mod 32 * 64 + unat b1 mod 64 \<and> 128 \<le> ?n)"
    by (rule lead_rest [OF b(1)]) (metis decode_rest_2 m(1))
  have r3: "(\<exists>cp0. unat cp0 = unat c mod 16 \<and> decode_rest cp0 3 s cp t) \<longleftrightarrow>
      (\<exists>b1 b2. s = b1 # b2 # t \<and> unat b1 div 64 = 2 \<and> unat b2 div 64 = 2 \<and>
        ?n = (unat c mod 16 * 64 + unat b1 mod 64) * 64 + unat b2 mod 64 \<and> 2048 \<le> ?n)"
    by (rule lead_rest [OF b(2)]) (metis decode_rest_3 m(2))
  have r4: "(\<exists>cp0. unat cp0 = unat c mod 8 \<and> decode_rest cp0 4 s cp t) \<longleftrightarrow>
      (\<exists>b1 b2 b3. s = b1 # b2 # b3 # t \<and> unat b1 div 64 = 2 \<and> unat b2 div 64 = 2 \<and> unat b3 div 64 = 2 \<and>
        ?n = ((unat c mod 8 * 64 + unat b1 mod 64) * 64 + unat b2 mod 64) * 64 + unat b3 mod 64 \<and> 65536 \<le> ?n)"
    by (rule lead_rest [OF b(3)]) (metis decode_rest_4 m(3))
  have "decode_char c s = Some (cp, t) \<longleftrightarrow>
      unat c < 128 \<and> (\<exists>cp0. unat cp0 = unat c \<and> decode_rest cp0 1 s cp t) \<or>
      unat c div 32 = 6 \<and> (\<exists>cp0. unat cp0 = unat c mod 32 \<and> decode_rest cp0 2 s cp t) \<or>
      unat c div 16 = 14 \<and> (\<exists>cp0. unat cp0 = unat c mod 16 \<and> decode_rest cp0 3 s cp t) \<or>
      unat c div 8 = 30 \<and> (\<exists>cp0. unat cp0 = unat c mod 8 \<and> decode_rest cp0 4 s cp t)"
    unfolding decode_char_rest lead_cases by blast
  also have "\<dots> \<longleftrightarrow>
      ?n < 128 \<and> unat c = ?n \<and> s = t \<or>
      (\<exists>b1. s = b1 # t \<and> (128 \<le> ?n \<and> ?n < 2048 \<and> unat c = 192 + ?n div 64 \<and> unat b1 = 128 + ?n mod 64)) \<or>
      (\<exists>b1 b2. s = b1 # b2 # t \<and> (2048 \<le> ?n \<and> ?n < 65536 \<and> unat c = 224 + ?n div 4096 \<and> unat b1 = 128 + ?n div 64 mod 64 \<and> unat b2 = 128 + ?n mod 64)) \<or>
      (\<exists>b1 b2 b3. s = b1 # b2 # b3 # t \<and> (65536 \<le> ?n \<and> ?n < 2097152 \<and> unat c = 240 + ?n div 262144 \<and> unat b1 = 128 + ?n div 4096 mod 64 \<and>
        unat b2 = 128 + ?n div 64 mod 64 \<and> unat b3 = 128 + ?n mod 64))"
    unfolding r1 r2 r3 r4 two_bytes [symmetric] three_bytes [symmetric] four_bytes [symmetric] by blast
  also have "\<dots> \<longleftrightarrow> ?n < 2097152 \<and> c # s = utf8 ?n @ t"
  proof (cases "?n < 2097152")
    case True
    then show ?thesis unfolding utf8_front [OF True] by blast
  qed auto
  finally show ?thesis .
qed


lemma utf8_not_Nil: "utf8 n \<noteq> []"
  by (simp add: utf8_def)

lemma label_char_bound: "label_char n \<Longrightarrow> n < 2097152"
  by (simp add: label_char_def)

text \<open>
  C33: The check of a label decides exactly what its comment says. A string passes \<^verbatim>\<open>valid_label\<close> if and only if it is the
  UTF-8 encoding -- the shortest one -- of some sequence of code points, each of them at most \<open>10FFFF\<close>, no surrogate, no
  control character and none of the characters that embed, override or isolate a text direction; the
  decoder's shifts and masks at 32 bits are compared with an encoder written over the natural numbers.
\<close>
theorem valid_label_is_utf8:
  "valid_label s \<longleftrightarrow> (\<exists>ns. list_all label_char ns \<and> bytes_of_string s = concat (map utf8 ns))"
proof -
  have "valid_label_bytes b \<longleftrightarrow> (\<exists>ns. list_all label_char ns \<and> b = concat (map utf8 ns))" (is "_ \<longleftrightarrow> ?u b") for b
  proof (induction "length b" arbitrary: b rule: less_induct)
    case less
    show ?case
    proof (cases b)
      case Nil
      have "?u []" by (intro exI [of _ "[]"]) simp
      then show ?thesis by (simp add: Nil)
    next
      case (Cons c s)
      have "valid_label_bytes b \<longleftrightarrow> (\<exists>cp :: u32. \<exists>t. (unat cp < 2097152 \<and> c # s = utf8 (unat cp) @ t) \<and> label_char (unat cp) \<and> valid_label_bytes t)"
        unfolding Cons valid_label_step decode_char_iff ..
      also have "\<dots> \<longleftrightarrow> (\<exists>cp :: u32. \<exists>t. c # s = utf8 (unat cp) @ t \<and> label_char (unat cp) \<and> ?u t)"
      proof -
        have "valid_label_bytes t \<longleftrightarrow> ?u t" if "c # s = utf8 n @ t" for n t
        proof (rule less)
          show "length t < length b" using arg_cong [OF that, of length] utf8_not_Nil [of n] by (simp add: Cons flip: length_greater_0_conv)
        qed
        then show ?thesis using label_char_bound by blast
      qed
      also have "\<dots> \<longleftrightarrow> ?u b"
      proof
        assume "\<exists>cp :: u32. \<exists>t. c # s = utf8 (unat cp) @ t \<and> label_char (unat cp) \<and> ?u t"
        then obtain cp :: u32 and t ns where t: "c # s = utf8 (unat cp) @ t" "label_char (unat cp)" "list_all label_char ns" "t = concat (map utf8 ns)" by blast
        then show "?u b" by (intro exI [of _ "unat cp # ns"]) (simp add: Cons)
      next
        assume "?u b"
        then obtain ns where ns: "list_all label_char ns" "b = concat (map utf8 ns)" by blast
        then obtain n ns' where n: "ns = n # ns'" by (cases ns) (auto simp: Cons)
        have "unat (word_of_nat n :: u32) = n" using ns(1) label_char_bound [of n] by (simp add: n unat_of_nat)
        with ns show "\<exists>cp :: u32. \<exists>t. c # s = utf8 (unat cp) @ t \<and> label_char (unat cp) \<and> ?u t"
          by (intro exI [of _ "word_of_nat n"]) (auto simp: n Cons)
      qed
      finally show ?thesis .
    qed
  qed
  then show ?thesis by (simp add: valid_label_def)
qed

end
