(* ===== verification/File_Names.thy ===== *)
theory File_Names
  imports Utf8_Labels
begin

text \<open>
  File names that someone else chose (\<^verbatim>\<open>decode_utf8\<close>, \<^verbatim>\<open>append_utf8\<close>, \<^verbatim>\<open>sanitize_filename\<close>, \<^verbatim>\<open>unique_path\<close> of
  \<^verbatim>\<open>src/client/attachment.cpp\<close>).  A \<^verbatim>\<open>std::string\<close> is worked on as its bytes.  A folder is seen through the predicate that
  says which names are taken in it.
\<close>

section \<open>The code\<close>

fun decode_utf8 :: "bytes \<Rightarrow> u32 list option" where
  "decode_utf8 [] = Some []"
| "decode_utf8 (c # s) =
    (case utf8_lead c of
       None \<Rightarrow> None
     | Some (cp, len) \<Rightarrow>
        if len > Suc (length s) then None
        else (case utf8_continue cp (take (len - 1) s) of
            None \<Rightarrow> None
          | Some cp \<Rightarrow>
             if len > 1 \<and> cp < MIN_FOR_LENGTH len then None
             else if cp > 0x10FFFF \<or> (cp \<ge> 0xD800 \<and> cp \<le> 0xDFFF) then None
             else map_option (\<lambda>out. cp # out) (decode_utf8 (drop (len - 1) s))))"

definition append_utf8 :: "bytes \<Rightarrow> u32 \<Rightarrow> bytes" where
  "append_utf8 out cp =
    (if cp < 0x80 then out @ [ucast cp]
     else if cp < 0x800 then out @ [ucast (0xC0 OR drop_bit 6 cp), ucast (0x80 OR (cp AND 0x3F))]
     else if cp < 0x10000 then out @ [ucast (0xE0 OR drop_bit 12 cp), ucast (0x80 OR (drop_bit 6 cp AND 0x3F)), ucast (0x80 OR (cp AND 0x3F))]
     else out @ [ucast (0xF0 OR drop_bit 18 cp), ucast (0x80 OR (drop_bit 12 cp AND 0x3F)), ucast (0x80 OR (drop_bit 6 cp AND 0x3F)),
                 ucast (0x80 OR (cp AND 0x3F))])"

definition unsafe_in_name :: "u32 \<Rightarrow> bool" where
  "unsafe_in_name cp =
    (if cp < 0x20 \<or> (cp \<ge> 0x7F \<and> cp \<le> 0x9F) then True
     else if (cp \<ge> 0x202A \<and> cp \<le> 0x202E) \<or> (cp \<ge> 0x2066 \<and> cp \<le> 0x2069) then True
     else if cp = 0x200E \<or> cp = 0x200F \<or> cp = 0x061C \<or> cp = 0xFEFF then True
     else cp \<in> set [0x2F, 0x5C, 0x3A, 0x2A, 0x3F, 0x22, 0x3C, 0x3E, 0x7C])"

text \<open>\<^verbatim>\<open>std::toupper\<close> in the C locale, and \<^verbatim>\<open>std::string::rfind\<close> of one character.\<close>

definition toupper :: "byte \<Rightarrow> byte" where
  "toupper c = (if 0x61 \<le> c \<and> c \<le> 0x7A then c - 0x20 else c)"

definition rfind :: "byte \<Rightarrow> bytes \<Rightarrow> nat option" where
  "rfind c s = (if c \<in> set s then Some (length s - 1 - length (takeWhile (\<lambda>x. x \<noteq> c) (rev s))) else None)"

definition drop_back :: "('a \<Rightarrow> bool) \<Rightarrow> 'a list \<Rightarrow> 'a list" where
  "drop_back P s = rev (dropWhile P (rev s))"

definition reserved_windows_name :: "bytes \<Rightarrow> bool" where
  "reserved_windows_name name =
    (let base = takeWhile (\<lambda>c. c \<noteq> 0x2E) name; base = drop_back (\<lambda>c. c = 0x20) base; upper = map toupper base in
     if upper \<in> set [bytes_of_string ''CON'', bytes_of_string ''PRN'', bytes_of_string ''AUX'', bytes_of_string ''NUL''] then True
     else length upper = 4 \<and> (take 3 upper = bytes_of_string ''COM'' \<or> take 3 upper = bytes_of_string ''LPT'') \<and>
          upper ! 3 \<ge> 0x31 \<and> upper ! 3 \<le> 0x39)"

definition name_edge :: "byte \<Rightarrow> bool" where
  "name_edge c = (c = 0x20 \<or> c = 0x2E)"

text \<open>\<^verbatim>\<open>while (keep > 0 && (out[keep] & 0xC0) == 0x80) keep--\<close>.\<close>

fun cut_at :: "bytes \<Rightarrow> nat \<Rightarrow> nat" where
  "cut_at out 0 = 0"
| "cut_at out (Suc keep) = (if out ! Suc keep AND 0xC0 = 0x80 then cut_at out keep else Suc keep)"

definition shorten_name :: "bytes \<Rightarrow> bytes" where
  "shorten_name out =
    (let ext = (case rfind 0x2E out of Some dot \<Rightarrow> if dot > 0 \<and> length out - dot \<le> 20 then drop dot out else [] | None \<Rightarrow> []);
         keep = cut_at out (200 - length ext) in
     take keep out @ ext)"

definition sanitize_bytes :: "bytes \<Rightarrow> bytes" where
  "sanitize_bytes name =
    (case decode_utf8 name of
       None \<Rightarrow> bytes_of_string ''attachment''
     | Some cps \<Rightarrow>
        let out = foldl (\<lambda>out cp. append_utf8 out (if unsafe_in_name cp then 0x5F else cp)) [] cps;
            out = drop_back name_edge (dropWhile name_edge out) in
        if out = [] then bytes_of_string ''attachment''
        else let out = (if length out > 200 then shorten_name out else out) in
          if reserved_windows_name out then 0x5F # out else out)"

definition sanitize_filename :: "string \<Rightarrow> string" where
  "sanitize_filename name = string_of_bytes (sanitize_bytes (bytes_of_string name))"

text \<open>The names \<^verbatim>\<open>unique_path\<close> tries after the name itself, and the first that is free.\<close>

definition numbered_name :: "string \<Rightarrow> nat \<Rightarrow> string" where
  "numbered_name name n =
    (case rfind 0x2E (bytes_of_string name) of
       Some dot \<Rightarrow> if dot > 0 then take dot name @ '' ('' @ to_string n @ '')'' @ drop dot name else name @ '' ('' @ to_string n @ '')''
     | None \<Rightarrow> name @ '' ('' @ to_string n @ '')'')"

definition unique_path :: "(string \<Rightarrow> bool) \<Rightarrow> string \<Rightarrow> string option" where
  "unique_path taken name =
    (if \<not> taken name then Some name
     else map_option (numbered_name name) (List.find (\<lambda>n. \<not> taken (numbered_name name n)) [2..<10000]))"

section \<open>Decoding and encoding\<close>

definition scalar :: "u32 \<Rightarrow> bool" where
  "scalar cp \<longleftrightarrow> \<not> (cp > 0x10FFFF \<or> (cp \<ge> 0xD800 \<and> cp \<le> 0xDFFF))"

definition utf8_of :: "u32 \<Rightarrow> bytes" where
  "utf8_of cp = utf8 (unat cp)"

lemma scalar_bound: "scalar cp \<Longrightarrow> unat cp < 2097152"
  by (simp add: scalar_def word_less_nat_alt)

lemma decode_utf8_step:
  "decode_utf8 (c # s) = Some cps \<longleftrightarrow>
   (\<exists>cp t out. decode_char c s = Some (cp, t) \<and> scalar cp \<and> decode_utf8 t = Some out \<and> cps = cp # out)"
proof (cases "utf8_lead c")
  case (Some p)
  obtain cp len where p: "p = (cp, len)" by force
  show ?thesis
    by (cases "utf8_continue cp (take (len - 1) s)") (auto simp: decode_char_def Some p scalar_def)
qed (simp add: decode_char_def)

lemma decode_utf8_iff:
  "decode_utf8 b = Some cps \<longleftrightarrow> list_all scalar cps \<and> b = concat (map utf8_of cps)"
proof (induction "length b" arbitrary: b cps rule: less_induct)
  case less
  show ?case
  proof (cases b)
    case Nil
    then show ?thesis by (cases cps) (auto simp: utf8_of_def utf8_not_Nil)
  next
    case (Cons c s)
    have "decode_utf8 b = Some cps \<longleftrightarrow> (\<exists>cp t out. c # s = utf8_of cp @ t \<and> scalar cp \<and> decode_utf8 t = Some out \<and> cps = cp # out)"
      unfolding Cons decode_utf8_step decode_char_iff utf8_of_def using scalar_bound by blast
    also have "\<dots> \<longleftrightarrow> (\<exists>cp t out. c # s = utf8_of cp @ t \<and> scalar cp \<and> (list_all scalar out \<and> t = concat (map utf8_of out)) \<and> cps = cp # out)"
    proof -
      have "decode_utf8 t = Some out \<longleftrightarrow> list_all scalar out \<and> t = concat (map utf8_of out)" if "c # s = utf8_of cp @ t" for cp t out
      proof (rule less)
        show "length t < length b"
          using arg_cong [OF that, of length] utf8_not_Nil [of "unat cp"] by (simp add: Cons utf8_of_def flip: length_greater_0_conv)
      qed
      then show ?thesis by blast
    qed
    also have "\<dots> \<longleftrightarrow> list_all scalar cps \<and> b = concat (map utf8_of cps)"
      by (cases cps) (auto simp: Cons)
    finally show ?thesis .
  qed
qed

lemma or_low:
  fixes c x :: "u32"
  assumes "unat x < 2 ^ k" and "take_bit k c = 0"
  shows "c OR x = c + x"
proof -
  have "take_bit k x = x"
    using take_bit_nat_eq_self [OF assms(1)] by (simp only: word_unat_eq_iff unsigned_take_bit_eq)
  then have "bit x n \<Longrightarrow> n < k" for n by (metis bit_take_bit_iff)
  moreover have "bit c n \<Longrightarrow> \<not> n < k" for n using assms(2) by (metis bit_0_eq bit_take_bit_iff bot_apply bot_bool_def)
  ultimately have "c AND x = 0" by (intro bit_word_eqI) (auto simp: bit_simps)
  then show ?thesis by (simp add: disjunctive_add_eq_or)
qed

lemma byte_of_or:
  fixes c x :: u32
  assumes "unat x < 2 ^ k" and "take_bit k c = 0" and "unat c + unat x < 256"
  shows "(ucast (c OR x) :: byte) = word_of_nat (unat c + unat x)"
proof -
  have "unat (c OR x) = unat c + unat x"
    unfolding or_low [OF assms(1, 2)] using assms(3) by (simp add: unat_word_ariths)
  then have "unat (ucast (c OR x) :: byte) = unat c + unat x"
    using assms(3) by (simp add: unsigned_ucast_eq take_bit_nat_eq_self)
  then show ?thesis using byte_is [OF assms(3)] by blast
qed

lemma unat_drop: "unat (drop_bit n (cp :: u32)) = unat cp div 2 ^ n"
proof -
  have "unat (drop_bit n cp) = drop_bit n (take_bit LENGTH(32) (unat cp))" by (simp only: unsigned_drop_bit_eq)
  also have "take_bit LENGTH(32) (unat cp) = unat cp" by (rule take_bit_nat_eq_self) (rule unsigned_less)
  finally show ?thesis by (simp only: drop_bit_eq_div [of n "unat cp"])
qed

lemma unat_low6: "unat (w AND 0x3F :: u32) = unat w mod 64"
proof -
  have "(0x3F :: u32) = mask 6" by (simp add: mask_eq_exp_minus_1)
  then have "unat (w AND 0x3F) = unat (take_bit 6 w)" by (simp only: take_bit_eq_mask)
  also have "\<dots> = take_bit 6 (unat w)" by (simp only: unsigned_take_bit_eq)
  finally show ?thesis by (simp add: take_bit_eq_mod)
qed

lemma continuation_byte: "(ucast (0x80 OR (w AND 0x3F) :: u32) :: byte) = word_of_nat (128 + unat w mod 64)"
proof -
  have "unat w mod 64 < 64" by simp
  then have "(ucast (0x80 OR (w AND 0x3F) :: u32) :: byte) = word_of_nat (unat (0x80 :: u32) + unat (w AND 0x3F))"
    by (intro byte_of_or [where k = 6]) (simp_all add: unat_low6)
  then show ?thesis by (simp add: unat_low6)
qed

lemma ucast_ascii: "unat (cp :: u32) < 128 \<Longrightarrow> (ucast cp :: byte) = word_of_nat (unat cp)"
  by (simp add: byte_is unsigned_ucast_eq take_bit_nat_eq_self)

lemma append_utf8_eq:
  assumes "unat cp < 2097152"
  shows "append_utf8 out cp = out @ utf8_of cp"
proof -
  let ?n = "unat cp"
  have lt: "cp < 0x80 \<longleftrightarrow> ?n < 128" "cp < 0x800 \<longleftrightarrow> ?n < 2048" "cp < 0x10000 \<longleftrightarrow> ?n < 65536"
    by (simp_all add: word_less_nat_alt)
  have b1: "?n < 128 \<Longrightarrow> (ucast cp :: byte) = word_of_nat ?n" by (rule ucast_ascii)
  have b2: "(ucast (0xC0 OR drop_bit 6 cp) :: byte) = word_of_nat (192 + ?n div 64)" if "?n < 2048"
  proof -
    from that have "?n div 64 < 32" by (simp add: less_mult_imp_div_less)
    then have "(ucast (0xC0 OR drop_bit 6 cp) :: byte) = word_of_nat (unat (0xC0 :: u32) + unat (drop_bit 6 cp))"
      by (intro byte_of_or [where k = 5]) (simp_all add: unat_drop)
    then show ?thesis by (simp add: unat_drop)
  qed
  have b3: "(ucast (0xE0 OR drop_bit 12 cp) :: byte) = word_of_nat (224 + ?n div 4096)" if "?n < 65536"
  proof -
    from that have "?n div 4096 < 16" by (simp add: less_mult_imp_div_less)
    then have "(ucast (0xE0 OR drop_bit 12 cp) :: byte) = word_of_nat (unat (0xE0 :: u32) + unat (drop_bit 12 cp))"
      by (intro byte_of_or [where k = 4]) (simp_all add: unat_drop)
    then show ?thesis by (simp add: unat_drop)
  qed
  have b4: "(ucast (0xF0 OR drop_bit 18 cp) :: byte) = word_of_nat (240 + ?n div 262144)"
  proof -
    from assms have "?n div 262144 < 8" by (simp add: less_mult_imp_div_less)
    then have "(ucast (0xF0 OR drop_bit 18 cp) :: byte) = word_of_nat (unat (0xF0 :: u32) + unat (drop_bit 18 cp))"
      by (intro byte_of_or [where k = 3]) (simp_all add: unat_drop)
    then show ?thesis by (simp add: unat_drop)
  qed
  show ?thesis unfolding append_utf8_def utf8_of_def utf8_def lt continuation_byte unat_drop
    using b1 b2 b3 b4 by simp
qed

section \<open>Cutting encoded text between characters\<close>

lemma utf8_of_ascii: "unat cp < 128 \<Longrightarrow> utf8_of cp = [ucast cp]"
  by (simp only: utf8_of_def utf8_def if_True list.map ucast_ascii)

definition continues :: "byte \<Rightarrow> bool" where
  "continues b \<longleftrightarrow> b AND 0xC0 = 0x80"

lemma continues_iff: "continues b \<longleftrightarrow> unat b div 64 = 2"
  unfolding continues_def by (rule byte_class(4))

lemma utf8_of_high:
  assumes "128 \<le> unat cp" and "unat cp < 2097152"
  shows "\<exists>l rest. utf8_of cp = l # rest \<and> 192 \<le> unat l \<and> list_all continues rest \<and> rest \<noteq> [] \<and> length rest \<le> 3"
proof -
  let ?n = "unat cp"
  have c: "continues (word_of_nat (128 + k mod 64))" for k
  proof -
    have "k mod 64 < 64" by simp
    then have "128 + k mod 64 < 256" by linarith
    then have "unat (word_of_nat (128 + k mod 64) :: byte) = 128 + k mod 64" using byte_is by blast
    then show ?thesis unfolding continues_iff using lead_off(4) [OF \<open>k mod 64 < 64\<close>] by simp
  qed
  have l: "\<exists>l rest. word_of_nat m # bs = l # rest \<and> 192 \<le> unat l \<and> list_all continues rest \<and> rest \<noteq> [] \<and> length rest \<le> 3"
    if "192 \<le> m" "m < 256" "list_all continues bs" "bs \<noteq> []" "length bs \<le> 3" for m and bs :: bytes
  proof -
    have "unat (word_of_nat m :: byte) = m" using byte_is [OF that(2)] by blast
    then show ?thesis using that by auto
  qed
  consider "?n < 2048" | "2048 \<le> ?n" "?n < 65536" | "65536 \<le> ?n" by linarith
  then show ?thesis
  proof cases
    case 1
    then have "?n div 64 < 32" by (simp add: less_mult_imp_div_less)
    moreover have "utf8_of cp = word_of_nat (192 + ?n div 64) # [word_of_nat (128 + ?n mod 64)]"
      using 1 assms by (simp add: utf8_of_def utf8_def del: of_nat_add)
    ultimately show ?thesis by (simp only:) (rule l; use c in \<open>simp del: of_nat_add\<close>)
  next
    case 2
    then have "?n div 4096 < 16" by (simp add: less_mult_imp_div_less)
    moreover have "utf8_of cp = word_of_nat (224 + ?n div 4096) # [word_of_nat (128 + ?n div 64 mod 64), word_of_nat (128 + ?n mod 64)]"
      using 2 assms by (simp add: utf8_of_def utf8_def del: of_nat_add)
    ultimately show ?thesis by (simp only:) (rule l; use c in \<open>simp del: of_nat_add\<close>)
  next
    case 3
    have "?n div 262144 < 8" using assms by (simp add: less_mult_imp_div_less)
    moreover have "utf8_of cp = word_of_nat (240 + ?n div 262144) #
        [word_of_nat (128 + ?n div 4096 mod 64), word_of_nat (128 + ?n div 64 mod 64), word_of_nat (128 + ?n mod 64)]"
      using 3 assms by (simp add: utf8_of_def utf8_def del: of_nat_add)
    ultimately show ?thesis by (simp only:) (rule l; use c in \<open>simp del: of_nat_add\<close>)
  qed
qed

text \<open>A character is one byte that does not continue another, and up to three that do.\<close>

lemma utf8_of_shape:
  assumes "scalar cp"
  shows "\<exists>l rest. utf8_of cp = l # rest \<and> \<not> continues l \<and> list_all continues rest \<and> length rest \<le> 3 \<and>
    (unat cp < 128 \<longrightarrow> rest = [] \<and> l = ucast cp) \<and> (128 \<le> unat cp \<longrightarrow> rest \<noteq> [] \<and> 192 \<le> unat l)"
proof (cases "unat cp < 128")
  case True
  then have "unat (ucast cp :: byte) = unat cp" by (simp add: unsigned_ucast_eq take_bit_nat_eq_self)
  then have "\<not> continues (ucast cp)" unfolding continues_iff using True by simp
  then show ?thesis using True by (simp add: utf8_of_ascii)
next
  case False
  then obtain l rest where l: "utf8_of cp = l # rest" "192 \<le> unat l" "list_all continues rest" "rest \<noteq> []" "length rest \<le> 3"
    using utf8_of_high [of cp] scalar_bound [OF assms] by auto
  from l(2) have "\<not> continues l" unfolding continues_iff by linarith
  with l False show ?thesis by simp
qed

lemma cut_between:
  assumes "list_all scalar cps" and "k \<le> length (concat (map utf8_of cps))"
    and "k < length (concat (map utf8_of cps)) \<Longrightarrow> \<not> continues (concat (map utf8_of cps) ! k)"
  shows "\<exists>j. take k (concat (map utf8_of cps)) = concat (map utf8_of (take j cps)) \<and>
    drop k (concat (map utf8_of cps)) = concat (map utf8_of (drop j cps))"
  using assms
proof (induction cps arbitrary: k)
  case (Cons cp cps)
  define r where "r = concat (map utf8_of cps)"
  have all: "concat (map utf8_of (cp # cps)) = utf8_of cp @ r" by (simp add: r_def)
  from Cons.prems(1) have "scalar cp" and sc: "list_all scalar cps" by simp_all
  then obtain l rest where u: "utf8_of cp = l # rest" "list_all continues rest" using utf8_of_shape [of cp] by blast
  consider "k = 0" | "0 < k" "k < length (utf8_of cp)" | "length (utf8_of cp) \<le> k" by linarith
  then show ?case
  proof cases
    case 1
    then show ?thesis by (intro exI [of _ 0]) simp
  next
    case 2
    then obtain m where m: "k = Suc m" "m < length rest" unfolding u(1) by (cases k) simp_all
    then have "continues ((utf8_of cp @ r) ! k)" using u(2) by (simp add: u(1) nth_append list_all_length)
    moreover have "k < length (utf8_of cp @ r)" using m by (simp add: u(1))
    ultimately show ?thesis using Cons.prems(3) unfolding all by blast
  next
    case 3
    let ?k = "k - length (utf8_of cp)"
    have "?k \<le> length r" using Cons.prems(2) unfolding all by simp
    moreover have "\<not> continues (r ! ?k)" if "?k < length r"
      using Cons.prems(3) that 3 unfolding all by (simp add: nth_append)
    ultimately obtain j where j: "take ?k r = concat (map utf8_of (take j cps))" "drop ?k r = concat (map utf8_of (drop j cps))"
      using Cons.IH [OF sc, of ?k] unfolding r_def by blast
    have "take k (utf8_of cp @ r) = concat (map utf8_of (take (Suc j) (cp # cps)))"
      "drop k (utf8_of cp @ r) = concat (map utf8_of (drop (Suc j) (cp # cps)))" using 3 j by simp_all
    then show ?thesis unfolding all by blast
  qed
qed simp

lemma cut_at_le: "cut_at out k \<le> k"
  by (induction k) auto

lemma cut_at_boundary: "cut_at out k = 0 \<or> \<not> continues (out ! cut_at out k)"
  by (induction k) (auto simp: continues_def)

lemma cut_at_ge: "p \<le> k \<Longrightarrow> \<not> continues (out ! p) \<Longrightarrow> p \<le> cut_at out k"
proof (induction k)
  case (Suc k)
  then show ?case by (cases "p = Suc k") (simp_all add: continues_def)
qed simp

lemma first_index: "c \<in> set t \<Longrightarrow> length (takeWhile (\<lambda>x. x \<noteq> c) t) < length t \<and> t ! length (takeWhile (\<lambda>x. x \<noteq> c) t) = c"
  by (induction t) auto

lemma rfind_Some: "rfind c s = Some i \<Longrightarrow> i < length s \<and> s ! i = c"
  using first_index [of c "rev s"] by (auto simp: rfind_def rev_nth split: if_splits)

text \<open>Dropping what is at an edge, byte by byte or character by character.\<close>

lemma dropWhile_concat:
  assumes "\<And>x. x \<in> set xs \<Longrightarrow> (Q x \<longrightarrow> (\<exists>b. f x = [b] \<and> P b)) \<and> (\<not> Q x \<longrightarrow> f x \<noteq> [] \<and> \<not> P (hd (f x)))"
  shows "dropWhile P (concat (map f xs)) = concat (map f (dropWhile Q xs))"
  using assms
proof (induction xs)
  case (Cons x xs)
  show ?case
  proof (cases "Q x")
    case True
    then obtain b where "f x = [b]" "P b" using Cons.prems [of x] by auto
    then show ?thesis using True Cons by simp
  next
    case False
    then have "f x \<noteq> []" "\<not> P (hd (f x))" using Cons.prems [of x] by auto
    then show ?thesis using False by (cases "f x") auto
  qed
qed simp

definition edge_char :: "u32 \<Rightarrow> bool" where
  "edge_char cp = (cp = 0x20 \<or> cp = 0x2E)"

lemma name_edge_bytes:
  assumes "scalar cp"
  shows "(edge_char cp \<longrightarrow> (\<exists>b. utf8_of cp = [b] \<and> name_edge b)) \<and>
    (\<not> edge_char cp \<longrightarrow> utf8_of cp \<noteq> [] \<and> \<not> name_edge (hd (utf8_of cp)) \<and> \<not> name_edge (last (utf8_of cp)))"
proof -
  have edge: "name_edge b \<longleftrightarrow> unat b = 32 \<or> unat b = 46" for b by (simp add: name_edge_def word_unat_eq_iff)
  have char: "edge_char cp \<longleftrightarrow> unat cp = 32 \<or> unat cp = 46" by (simp add: edge_char_def word_unat_eq_iff)
  obtain l rest where u: "utf8_of cp = l # rest" "list_all continues rest"
      "unat cp < 128 \<Longrightarrow> rest = [] \<and> l = ucast cp" "128 \<le> unat cp \<Longrightarrow> rest \<noteq> [] \<and> 192 \<le> unat l"
    using utf8_of_shape [OF assms] by blast
  show ?thesis
  proof (cases "unat cp < 128")
    case True
    then have "unat (ucast cp :: byte) = unat cp" by (simp add: unsigned_ucast_eq take_bit_nat_eq_self)
    then show ?thesis using u(1) u(3) [OF True] unfolding edge char by simp
  next
    case False
    then have "rest \<noteq> []" "192 \<le> unat l" using u(4) by auto
    then have "continues (last rest)" using u(2) by (simp add: list_all_iff)
    then have "128 \<le> unat (last rest)" unfolding continues_iff by linarith
    then show ?thesis using False u(1) \<open>rest \<noteq> []\<close> \<open>192 \<le> unat l\<close> unfolding edge char by simp
  qed
qed

lemma trim_front:
  "list_all scalar cps \<Longrightarrow> dropWhile name_edge (concat (map utf8_of cps)) = concat (map utf8_of (dropWhile edge_char cps))"
  by (rule dropWhile_concat) (use name_edge_bytes in \<open>auto simp: list_all_iff\<close>)

lemma trim_back:
  assumes "list_all scalar cps"
  shows "drop_back name_edge (concat (map utf8_of cps)) = concat (map utf8_of (drop_back edge_char cps))"
proof -
  have "dropWhile name_edge (concat (map (\<lambda>cp. rev (utf8_of cp)) (rev cps))) = concat (map (\<lambda>cp. rev (utf8_of cp)) (dropWhile edge_char (rev cps)))"
  proof (rule dropWhile_concat)
    fix cp assume "cp \<in> set (rev cps)"
    then have "scalar cp" using assms by (simp add: list_all_iff)
    from name_edge_bytes [OF this] show "(edge_char cp \<longrightarrow> (\<exists>b. rev (utf8_of cp) = [b] \<and> name_edge b)) \<and>
        (\<not> edge_char cp \<longrightarrow> rev (utf8_of cp) \<noteq> [] \<and> \<not> name_edge (hd (rev (utf8_of cp))))"
      by (auto simp: hd_rev)
  qed
  then show ?thesis by (simp add: drop_back_def rev_concat rev_map comp_def)
qed

lemma drop_back_prefix: "\<exists>t. xs = drop_back P xs @ t"
  by (intro exI [of _ "rev (takeWhile P (rev xs))"]) (simp add: drop_back_def flip: rev_append)

lemma hd_drop_back: "drop_back P xs \<noteq> [] \<Longrightarrow> hd (drop_back P xs) = hd xs"
  using drop_back_prefix [of xs P] by (metis hd_append2)

lemma list_all_drop_back: "list_all Q xs \<Longrightarrow> list_all Q (drop_back P xs)"
  using drop_back_prefix [of xs P] by (metis list_all_append)

lemma list_all_dropWhile: "list_all Q xs \<Longrightarrow> list_all Q (dropWhile P xs)"
  by (induction xs) auto

lemma foldl_append_utf8:
  "list_all (\<lambda>cp. scalar (f cp)) cps \<Longrightarrow> foldl (\<lambda>out cp. append_utf8 out (f cp)) out cps = out @ concat (map utf8_of (map f cps))"
  by (induction cps arbitrary: out) (simp_all add: append_utf8_eq scalar_bound)

lemma shorten_name_chars:
  assumes sc: "list_all scalar cps" and big: "length (concat (map utf8_of cps)) > 200"
  shows "\<exists>j i. 0 < j \<and> shorten_name (concat (map utf8_of cps)) = concat (map utf8_of (take j cps @ drop i cps)) \<and>
    length (shorten_name (concat (map utf8_of cps))) \<le> 200"
proof -
  define out where "out = concat (map utf8_of cps)"
  define ext where "ext = (case rfind 0x2E out of Some dot \<Rightarrow> if dot > 0 \<and> length out - dot \<le> 20 then drop dot out else [] | None \<Rightarrow> [])"
  let ?k = "cut_at out (200 - length ext)"
  have short: "shorten_name out = take ?k out @ ext" by (simp add: shorten_name_def ext_def Let_def)
  have ext: "length ext \<le> 20 \<and> (\<exists>i. ext = concat (map utf8_of (drop i cps)))"
  proof (cases "ext = []")
    case True
    then show ?thesis by (intro conjI exI [of _ "length cps"]) simp_all
  next
    case False
    then obtain dot where dot: "rfind 0x2E out = Some dot" "length out - dot \<le> 20" "ext = drop dot out"
      by (auto simp: ext_def split: option.splits if_splits)
    have "\<not> continues 0x2E" by (simp add: continues_def)
    then have "\<exists>j. take dot out = concat (map utf8_of (take j cps)) \<and> drop dot out = concat (map utf8_of (drop j cps))"
      using rfind_Some [OF dot(1)] unfolding out_def by (intro cut_between [OF sc]) auto
    then show ?thesis using dot by auto
  qed
  have le: "?k \<le> 200 - length ext" by (rule cut_at_le)
  from big obtain cp cps' where c: "cps = cp # cps'" by (cases cps) auto
  then obtain l rest where u: "utf8_of cp = l # rest" "length rest \<le> 3" using sc utf8_of_shape [of cp] by auto
  have "cps' \<noteq> []" using big u by (auto simp: c)
  then obtain cp2 cps2 where c2: "cps' = cp2 # cps2" by (cases cps') auto
  then obtain l2 rest2 where u2: "utf8_of cp2 = l2 # rest2" "\<not> continues l2" using sc utf8_of_shape [of cp2] by (auto simp: c)
  have "out ! Suc (length rest) = l2" by (simp add: out_def c c2 u(1) u2(1) nth_append)
  moreover have "Suc (length rest) \<le> 200 - length ext" using u(2) ext by linarith
  ultimately have pos: "Suc (length rest) \<le> ?k" using u2(2) by (intro cut_at_ge) simp_all
  then have b: "\<not> continues (out ! ?k)" using cut_at_boundary [of out "200 - length ext"] by linarith
  have kl: "?k < length out" using le big unfolding out_def by linarith
  from cut_between [OF sc, folded out_def, of ?k] b kl obtain j where j: "take ?k out = concat (map utf8_of (take j cps))" by auto
  have "0 < j" using j pos kl by (cases j) (auto simp: take_eq_Nil)
  moreover have "length (shorten_name out) \<le> 200"
    using le ext min.cobounded2 [of "length out" ?k] unfolding short length_append length_take by linarith
  ultimately show ?thesis using ext j unfolding out_def [symmetric] short by auto
qed

section \<open>What a name becomes\<close>

lemma reserved_underscore: "\<not> reserved_windows_name (0x5F # name)"
proof -
  have "\<exists>t. drop_back (\<lambda>c. c = 0x20) (0x5F # x) = 0x5F # t" for x :: bytes
    by (intro exI [of _ "drop_back (\<lambda>c. c = 0x20) x"]) (simp add: drop_back_def dropWhile_append)
  then obtain t where "drop_back (\<lambda>c. c = 0x20) (takeWhile (\<lambda>c. c \<noteq> 0x2E) (0x5F # name)) = 0x5F # t" by auto
  moreover have "toupper 0x5F = 0x5F" by (simp add: toupper_def)
  ultimately show ?thesis by (simp add: reserved_windows_name_def Let_def bytes_of_string_def byte_of_char_def)
qed

definition attachment_chars :: "u32 list" where
  "attachment_chars = [0x61, 0x74, 0x74, 0x61, 0x63, 0x68, 0x6D, 0x65, 0x6E, 0x74]"

definition name_char :: "u32 \<Rightarrow> bool" where
  "name_char cp \<longleftrightarrow> scalar cp \<and> \<not> unsafe_in_name cp"

lemma attachment_name:
  "bytes_of_string ''attachment'' = concat (map utf8_of attachment_chars)" "list_all name_char attachment_chars"
  "\<not> edge_char (hd attachment_chars)" "attachment_chars \<noteq> []" "\<not> reserved_windows_name (bytes_of_string ''attachment'')"
  by (simp_all add: attachment_chars_def utf8_of_def utf8_def bytes_of_string_def byte_of_char_def name_char_def scalar_def unsafe_in_name_def
      edge_char_def reserved_windows_name_def drop_back_def toupper_def)

definition trimmed_chars :: "u32 list \<Rightarrow> u32 list" where
  "trimmed_chars cps = drop_back edge_char (dropWhile edge_char (map (\<lambda>cp. if unsafe_in_name cp then 0x5F else cp) cps))"

lemma trimmed_chars_ok:
  assumes "list_all scalar cps"
  shows "list_all name_char (trimmed_chars cps)" and "trimmed_chars cps \<noteq> [] \<Longrightarrow> \<not> edge_char (hd (trimmed_chars cps))"
proof -
  have "name_char 0x5F" by (simp add: name_char_def scalar_def unsafe_in_name_def)
  then have "list_all name_char (map (\<lambda>cp. if unsafe_in_name cp then 0x5F else cp) cps)"
    using assms by (auto simp: list_all_iff name_char_def)
  then show "list_all name_char (trimmed_chars cps)"
    unfolding trimmed_chars_def by (intro list_all_drop_back list_all_dropWhile)
  let ?d = "dropWhile edge_char (map (\<lambda>cp. if unsafe_in_name cp then 0x5F else cp) cps)"
  assume ne: "trimmed_chars cps \<noteq> []"
  then have hd: "hd (trimmed_chars cps) = hd ?d" unfolding trimmed_chars_def by (rule hd_drop_back)
  have "?d \<noteq> []" using ne unfolding trimmed_chars_def drop_back_def by (rule contrapos_nn) (simp only: dropWhile.simps rev.simps)
  then show "\<not> edge_char (hd (trimmed_chars cps))" unfolding hd by (rule hd_dropWhile)
qed

lemma sanitize_bytes_chars:
  "sanitize_bytes name =
    (case decode_utf8 name of
       None \<Rightarrow> bytes_of_string ''attachment''
     | Some cps \<Rightarrow>
        let out = concat (map utf8_of (trimmed_chars cps)) in
        if trimmed_chars cps = [] then bytes_of_string ''attachment''
        else let out = (if length out > 200 then shorten_name out else out) in
          if reserved_windows_name out then 0x5F # out else out)"
proof (cases "decode_utf8 name")
  case (Some cps)
  let ?f = "\<lambda>cp. if unsafe_in_name cp then 0x5F else cp"
  have sc: "list_all scalar cps" using Some by (simp add: decode_utf8_iff)
  then have f: "list_all scalar (map ?f cps)" by (auto simp: list_all_iff scalar_def)
  then have "foldl (\<lambda>out cp. append_utf8 out (?f cp)) [] cps = concat (map utf8_of (map ?f cps))"
    by (subst foldl_append_utf8) (auto simp: list_all_iff)
  then have "drop_back name_edge (dropWhile name_edge (foldl (\<lambda>out cp. append_utf8 out (?f cp)) [] cps)) = concat (map utf8_of (trimmed_chars cps))"
    using f by (simp only: trimmed_chars_def trim_front trim_back list_all_dropWhile)
  moreover have "concat (map utf8_of cs) = [] \<longleftrightarrow> cs = []" for cs by (cases cs) (auto simp: utf8_of_def utf8_not_Nil)
  ultimately show ?thesis by (simp add: sanitize_bytes_def Some Let_def)
qed (simp add: sanitize_bytes_def)

lemma sanitized_chars:
  "\<exists>cps. cps \<noteq> [] \<and> list_all (\<lambda>cp. scalar cp \<and> \<not> unsafe_in_name cp) cps \<and>
     bytes_of_string (sanitize_filename name) = concat (map utf8_of cps) \<and> \<not> edge_char (hd cps)"
  "\<not> reserved_windows_name (bytes_of_string (sanitize_filename name))" "length (sanitize_filename name) \<le> 201"
proof -
  let ?ok = "\<lambda>out. \<exists>cps. cps \<noteq> [] \<and> list_all name_char cps \<and> out = concat (map utf8_of cps) \<and> \<not> edge_char (hd cps)"
  have ok: "?ok out' \<and> \<not> reserved_windows_name out' \<and> length out' \<le> 201"
    if "?ok out" "length out \<le> 200" "out' = (if reserved_windows_name out then 0x5F # out else out)" for out out'
  proof (cases "reserved_windows_name out")
    case True
    from that(1) obtain cps where c: "list_all name_char cps" "out = concat (map utf8_of cps)" by blast
    have "name_char 0x5F" "\<not> edge_char 0x5F" "utf8_of 0x5F = [0x5F]"
      by (simp_all add: name_char_def scalar_def unsafe_in_name_def edge_char_def utf8_of_def utf8_def)
    then have "?ok out'" using c that(3) True by (intro exI [of _ "0x5F # cps"]) simp
    then show ?thesis using that(2, 3) True reserved_underscore by simp
  qed (use that in auto)
  have "?ok (sanitize_bytes b) \<and> \<not> reserved_windows_name (sanitize_bytes b) \<and> length (sanitize_bytes b) \<le> 201" for b
  proof (cases "decode_utf8 b = None \<or> trimmed_chars (the (decode_utf8 b)) = []")
    case True
    then have "sanitize_bytes b = bytes_of_string ''attachment''" by (cases "decode_utf8 b") (simp_all add: sanitize_bytes_chars)
    moreover have "length (bytes_of_string ''attachment'') \<le> 201" by simp
    ultimately show ?thesis using attachment_name by metis
  next
    case False
    then obtain cps where d: "decode_utf8 b = Some cps" and ne: "trimmed_chars cps \<noteq> []" by auto
    let ?t = "trimmed_chars cps" and ?out = "concat (map utf8_of (trimmed_chars cps))"
    have sc: "list_all scalar cps" using d by (simp add: decode_utf8_iff)
    note t = trimmed_chars_ok [OF sc]
    have st: "list_all scalar ?t" using t(1) by (simp add: list_all_iff name_char_def)
    have "?ok (if length ?out > 200 then shorten_name ?out else ?out) \<and> length (if length ?out > 200 then shorten_name ?out else ?out) \<le> 200"
    proof (cases "length ?out > 200")
      case True
      from shorten_name_chars [OF st True] obtain j i where j: "0 < j" "shorten_name ?out = concat (map utf8_of (take j ?t @ drop i ?t))"
        "length (shorten_name ?out) \<le> 200" by blast
      have "list_all name_char (take j ?t @ drop i ?t)" using t(1) by (auto simp: list_all_iff dest: in_set_takeD in_set_dropD)
      moreover have "take j ?t \<noteq> []" "hd (take j ?t @ drop i ?t) = hd ?t" using j(1) ne by (auto simp: hd_append)
      ultimately show ?thesis using True j t(2) [OF ne] by (intro conjI exI [of _ "take j ?t @ drop i ?t"]) simp_all
    qed (use t ne in auto)
    then show ?thesis by (intro ok) (auto simp: sanitize_bytes_chars d ne Let_def)
  qed
  from this [of "bytes_of_string name"] show "\<exists>cps. cps \<noteq> [] \<and> list_all (\<lambda>cp. scalar cp \<and> \<not> unsafe_in_name cp) cps \<and>
     bytes_of_string (sanitize_filename name) = concat (map utf8_of cps) \<and> \<not> edge_char (hd cps)"
    "\<not> reserved_windows_name (bytes_of_string (sanitize_filename name))" "length (sanitize_filename name) \<le> 201"
    by (auto simp: sanitize_filename_def name_char_def [abs_def])
qed

text \<open>
  C32: A name someone else chose is made safe. Whatever bytes arrive as a file name, what \<^verbatim>\<open>sanitize_filename\<close> returns is not
  empty, is well-formed UTF-8 of characters none of which is a control character, a path separator, a character Windows
  forbids or one that changes the direction of text, does not begin with a dot or a space, is no reserved device name of
  Windows, and has at most 201 bytes -- cutting a long name never splits a character.
\<close>
theorem sanitize_filename_safe:
  "\<exists>cps. cps \<noteq> [] \<and> list_all (\<lambda>cp. scalar cp \<and> \<not> unsafe_in_name cp) cps \<and>
     bytes_of_string (sanitize_filename name) = concat (map utf8_of cps) \<and> \<not> edge_char (hd cps) \<and>
     \<not> reserved_windows_name (bytes_of_string (sanitize_filename name)) \<and> length (sanitize_filename name) \<le> 201"
  using sanitized_chars [of name] by blast

text \<open>
  Two things the description of \<^verbatim>\<open>sanitize_filename\<close> in the header promises are not kept: a long name that is cut may end in a
  space or a dot, and the underscore before a reserved name comes after the limit of 200 bytes has been applied.
\<close>

lemma utf8_of_replicate_ascii: "unat cp < 128 \<Longrightarrow> concat (map utf8_of (replicate n cp)) = replicate n (ucast cp)"
  by (induction n) (simp_all add: utf8_of_ascii)

lemma sanitize_bytes_kept:
  assumes "list_all scalar cps" and "trimmed_chars cps = cps" and "cps \<noteq> []" and "concat (map utf8_of cps) = out"
  shows "sanitize_bytes out = (let out = (if length out > 200 then shorten_name out else out) in if reserved_windows_name out then 0x5F # out else out)"
proof -
  have "decode_utf8 out = Some cps" unfolding decode_utf8_iff using assms(1, 4) by blast
  then show ?thesis unfolding sanitize_bytes_chars using assms(2-4) by simp
qed

lemma sanitized_name_ends_in_space:
  "sanitize_filename (replicate 199 CHR ''a'' @ '' '' @ replicate 30 CHR ''b'') = replicate 199 CHR ''a'' @ '' ''"
proof -
  let ?cps = "replicate 199 (0x61 :: u32) @ [0x20] @ replicate 30 0x62"
  let ?out = "replicate 199 (0x61 :: byte) @ [0x20] @ replicate 30 0x62"
  have "concat (map utf8_of ?cps) = ?out" by (simp add: utf8_of_replicate_ascii utf8_of_ascii)
  moreover have "list_all scalar ?cps" by (simp add: scalar_def list_all_iff)
  moreover have "trimmed_chars ?cps = ?cps"
    by (simp add: trimmed_chars_def unsafe_in_name_def drop_back_def edge_char_def dropWhile_append)
  ultimately have out: "sanitize_bytes ?out = (let out = (if length ?out > 200 then shorten_name ?out else ?out) in if reserved_windows_name out then 0x5F # out else out)"
    by (intro sanitize_bytes_kept [of ?cps]) simp_all
  have "?out ! Suc 199 = 0x62" by (simp add: nth_append)
  then have "cut_at ?out (Suc 199) = Suc 199" unfolding cut_at.simps by (simp only:) simp
  moreover have "Suc 199 = 200" by simp
  ultimately have "cut_at ?out 200 = 200" by metis
  moreover have "rfind 0x2E ?out = None" by (simp add: rfind_def)
  ultimately have "shorten_name ?out = replicate 199 (0x61 :: byte) @ [0x20]" by (simp add: shorten_name_def)
  moreover have "\<not> reserved_windows_name (replicate 199 (0x61 :: byte) @ [0x20])"
  proof -
    have "drop_back (\<lambda>c. c = 0x20) (takeWhile (\<lambda>c. c \<noteq> 0x2E) (replicate 199 (0x61 :: byte) @ [0x20])) = replicate 199 0x61"
      by (simp add: drop_back_def takeWhile_append)
    then show ?thesis by (auto simp: reserved_windows_name_def Let_def dest!: arg_cong [of _ _ length])
  qed
  ultimately have "sanitize_bytes ?out = replicate 199 (0x61 :: byte) @ [0x20]" unfolding out by simp
  moreover have "bytes_of_string (replicate 199 CHR ''a'' @ '' '' @ replicate 30 CHR ''b'') = ?out"
    "bytes_of_string (replicate 199 CHR ''a'' @ '' '') = replicate 199 (0x61 :: byte) @ [0x20]"
    by (simp_all add: bytes_of_string_def byte_of_char_def)
  ultimately show ?thesis unfolding sanitize_filename_def by (simp add: string_of_bytes_eq_iff)
qed

lemma sanitized_name_too_long: "length (sanitize_filename (''CON.'' @ replicate 196 CHR ''a'')) = 201"
proof -
  let ?cps = "[0x43, 0x4F, 0x4E, 0x2E] @ replicate 196 (0x61 :: u32)"
  let ?out = "[0x43, 0x4F, 0x4E, 0x2E] @ replicate 196 (0x61 :: byte)"
  have "concat (map utf8_of ?cps) = ?out" by (simp add: utf8_of_replicate_ascii utf8_of_ascii)
  moreover have "list_all scalar ?cps" by (simp add: scalar_def list_all_iff)
  moreover have "trimmed_chars ?cps = ?cps"
    by (simp add: trimmed_chars_def unsafe_in_name_def drop_back_def edge_char_def dropWhile_append)
  ultimately have out: "sanitize_bytes ?out = (let out = (if length ?out > 200 then shorten_name ?out else ?out) in if reserved_windows_name out then 0x5F # out else out)"
    by (intro sanitize_bytes_kept [of ?cps]) simp_all
  have "reserved_windows_name ?out"
    by (simp add: reserved_windows_name_def drop_back_def toupper_def bytes_of_string_def byte_of_char_def)
  moreover have "\<not> length ?out > 200" by simp
  ultimately have "sanitize_bytes ?out = 0x5F # ?out" unfolding out by (simp only: if_False if_True Let_def)
  moreover have "bytes_of_string (''CON.'' @ replicate 196 CHR ''a'') = ?out" by (simp add: bytes_of_string_def byte_of_char_def)
  ultimately have "sanitize_filename (''CON.'' @ replicate 196 CHR ''a'') = string_of_bytes (0x5F # ?out)" unfolding sanitize_filename_def by (simp only:)
  then show ?thesis by (simp only: length_string_of_bytes) simp
qed

section \<open>Unused names\<close>

lemma unique_path_free:
  assumes "unique_path taken name = Some p"
  shows "\<not> taken p"
proof (cases "taken name")
  case True
  with assms obtain n where "List.find (\<lambda>n. \<not> taken (numbered_name name n)) [2..<10000] = Some n" "p = numbered_name name n"
    by (simp only: unique_path_def if_False not_True_eq_False map_option_eq_Some) blast
  then show ?thesis using find_holds by metis
qed (use assms in \<open>simp only: unique_path_def if_True not_False_eq_True option.inject\<close>)

text \<open>A free name among the ten thousand is found.\<close>

lemma unique_path_found:
  assumes "\<not> taken name \<or> (\<exists>n\<in>{2..<10000}. \<not> taken (numbered_name name n))"
  shows "\<exists>p. unique_path taken name = Some p"
proof (cases "taken name")
  case True
  with assms have "List.find (\<lambda>n. \<not> taken (numbered_name name n)) [2..<10000] \<noteq> None"
    unfolding find_None_iff set_upt by blast
  then show ?thesis using True by (simp only: unique_path_def if_False not_True_eq_False map_option_eq_Some) blast
qed (simp only: unique_path_def if_True not_False_eq_True, blast)

end
