(* ===== verification/Attachment.thy ===== *)
theory Attachment
  imports File_Names Crypto_Engine
begin

text \<open>
  Attachments, the client's half (\<^verbatim>\<open>src/client/attachment.cpp\<close>): how a file is cut into chunks, sealed, put together again in a
  partial file, checked and saved.  A folder is a map from names to contents; a stream's state is open, closed or
  failed; what the running hash has taken in is kept as the bytes themselves.  What the operating system
  decides -- whether a folder exists, a file opens, a write or a rename succeeds, how much a failing call
  leaves behind -- are arguments of the operations.
\<close>

abbreviation (input) "CHUNK_AAD_LABEL \<equiv> ''pq-suite v3 attachment chunk''"
abbreviation (input) "CHUNK_PLAINTEXT_BYTES \<equiv> (49152 :: nat)"
abbreviation (input) "CHUNK_TAG_BYTES \<equiv> (16 :: nat)"
abbreviation (input) "MAX_PLAINTEXT_BYTES \<equiv> (16106127360 :: u64)"

section \<open>Chunks\<close>

record Plan = pl_chunk_count :: u32 pl_chunk_size :: u32 pl_ciphertext_size :: u64

definition chunk_aad :: "bytes \<Rightarrow> u32 \<Rightarrow> u32 \<Rightarrow> bytes" where
  "chunk_aad file_id index count =
    (let b = []; b = write_string b CHUNK_AAD_LABEL; b = write_blob b file_id; b = write_u32 b index; b = write_u32 b count in b)"

definition chunk_nonce :: "u32 \<Rightarrow> bytes" where
  "chunk_nonce index = foldl (\<lambda>n i. n[11 - i := ucast (drop_bit (8 * i) index)]) (replicate 12 0) [0, 1, 2, 3]"

definition plain_size_of_chunk :: "Plan \<Rightarrow> u64 \<Rightarrow> u32 \<Rightarrow> u64" where
  "plain_size_of_chunk plan sz index =
    (if index + 1 < pl_chunk_count plan then of_nat CHUNK_PLAINTEXT_BYTES
     else sz - of_nat CHUNK_PLAINTEXT_BYTES * ucast (pl_chunk_count plan - 1))"

definition plan_for :: "u64 \<Rightarrow> Plan thrown" where
  "plan_for plaintext_size =
    (if plaintext_size > MAX_PLAINTEXT_BYTES then Inl ''That file is too large to send''
     else let count = (if plaintext_size = 0 then 1 else ucast ((plaintext_size + of_nat CHUNK_PLAINTEXT_BYTES - 1) div of_nat CHUNK_PLAINTEXT_BYTES)) in
       Inr \<lparr> pl_chunk_count = count, pl_chunk_size = of_nat (CHUNK_PLAINTEXT_BYTES + CHUNK_TAG_BYTES),
             pl_ciphertext_size = plaintext_size + ucast count * of_nat CHUNK_TAG_BYTES \<rparr>)"

definition seal_chunk :: "crypto_lib \<Rightarrow> bytes \<Rightarrow> bytes \<Rightarrow> u32 \<Rightarrow> u32 \<Rightarrow> bytes \<Rightarrow> bytes thrown" where
  "seal_chunk L key file_id index count plaintext =
    (if length key \<noteq> 32 then Inl ''The file key has the wrong size''
     else if length file_id \<noteq> FILE_ID_BYTES \<or> length plaintext > CHUNK_PLAINTEXT_BYTES \<or> count = 0 \<or> index \<ge> count
     then Inl ''That chunk is not valid''
     else encrypt L key (chunk_nonce index) plaintext (chunk_aad file_id index count))"

definition open_chunk :: "crypto_lib \<Rightarrow> bytes \<Rightarrow> bytes \<Rightarrow> u32 \<Rightarrow> u32 \<Rightarrow> bytes \<Rightarrow> bytes option" where
  "open_chunk L key file_id index count sealed =
    (if length key \<noteq> 32 \<or> length file_id \<noteq> FILE_ID_BYTES \<or> count = 0 \<or> index \<ge> count \<or> length sealed < CHUNK_TAG_BYTES \<or>
        length sealed > CHUNK_PLAINTEXT_BYTES + CHUNK_TAG_BYTES then None
     else case decrypt L key (chunk_nonce index) sealed (chunk_aad file_id index count) of Inl _ \<Rightarrow> None | Inr r \<Rightarrow> r)"

section \<open>Fingerprints\<close>

record Fingerprint = fp_size :: u64 fp_sha256 :: bytes

text \<open>The loop of \<^verbatim>\<open>fingerprint_file\<close>: pieces of a megabyte, the size so far and what has been hashed.\<close>

function fingerprint_loop :: "bytes \<Rightarrow> u64 \<Rightarrow> bytes \<Rightarrow> (u64 \<times> bytes) thrown" where
  "fingerprint_loop rest sz hashed =
    (let got = take (1024 * 1024) rest in
     if got = [] then Inr (sz, hashed)
     else let sz = sz + of_nat (length got) in
       if sz > MAX_PLAINTEXT_BYTES then Inl ''That file is too large to send''
       else fingerprint_loop (drop (1024 * 1024) rest) sz (hashed @ got))"
  by pat_completeness auto
termination by (relation "measure (\<lambda>(rest, _). length rest)") auto

definition fingerprint_file :: "crypto_lib \<Rightarrow> bytes option \<Rightarrow> bool \<Rightarrow> Fingerprint thrown" where
  "fingerprint_file L contents bad =
    (case contents of
       None \<Rightarrow> Inl ''That file could not be opened''
     | Some file \<Rightarrow> and_then (fingerprint_loop file 0 []) (\<lambda>(sz, hashed).
         if bad then Inl ''That file could not be read'' else Inr \<lparr> fp_size = sz, fp_sha256 = sha256 L hashed \<rparr>))"

section \<open>Sending\<close>

record Encryptor = ec_key :: bytes ec_file_id :: bytes ec_size :: u64 ec_plan :: Plan

definition new_encryptor :: "bytes \<Rightarrow> bytes \<Rightarrow> u64 \<Rightarrow> Encryptor thrown" where
  "new_encryptor key file_id plaintext_size =
    and_then (plan_for plaintext_size) (\<lambda>plan.
      Inr \<lparr> ec_key = key, ec_file_id = file_id, ec_size = plaintext_size, ec_plan = plan \<rparr>)"

definition encryptor_chunk :: "crypto_lib \<Rightarrow> bytes option \<Rightarrow> Encryptor \<Rightarrow> u32 \<Rightarrow> bytes thrown" where
  "encryptor_chunk L contents ec index =
    (case contents of
       None \<Rightarrow> Inl ''That file could not be opened''
     | Some file \<Rightarrow>
        if index \<ge> pl_chunk_count (ec_plan ec) then Inl ''That chunk is past the end of the file''
        else let want = plain_size_of_chunk (ec_plan ec) (ec_size ec) index;
                 plain = take (unat want) (drop (unat (ucast index * of_nat CHUNK_PLAINTEXT_BYTES :: u64)) file) in
          if length plain \<noteq> unat want then Inl ''The file changed while it was being sent''
          else seal_chunk L (ec_key ec) (ec_file_id ec) index (pl_chunk_count (ec_plan ec)) plain)"

section \<open>Receiving\<close>

datatype stream_state = Opened | Closed | Failed

text \<open>The running hash: none yet, what it has taken in, or finished (a hash can be finished once).\<close>

datatype hash_state = No_Hash | Running bytes | Finished

type_synonym folder = "string \<Rightarrow> bytes option"

record Decryptor =
  dc_name :: string
  dc_key :: bytes
  dc_file_id :: bytes
  dc_expected_hash :: bytes
  dc_size :: u64
  dc_plan :: Plan
  dc_next :: u32
  dc_written :: u64
  dc_out :: stream_state
  dc_hash :: hash_state

definition part_name :: "bytes \<Rightarrow> string" where
  "part_name file_id = ''.pqft-'' @ take 16 (bytes_to_hex file_id) @ ''.part''"

definition new_decryptor :: "string \<Rightarrow> bytes \<Rightarrow> bytes \<Rightarrow> u64 \<Rightarrow> bytes \<Rightarrow> Decryptor thrown" where
  "new_decryptor name key file_id plaintext_size sha =
    and_then (plan_for plaintext_size) (\<lambda>plan.
      Inr \<lparr> dc_name = name, dc_key = key, dc_file_id = file_id, dc_expected_hash = sha, dc_size = plaintext_size, dc_plan = plan,
            dc_next = 0, dc_written = 0, dc_out = Closed, dc_hash = No_Hash \<rparr>)"

definition close_stream :: "stream_state \<Rightarrow> stream_state" where
  "close_stream s = (case s of Opened \<Rightarrow> Closed | _ \<Rightarrow> Failed)"

record begin_env =
  be_directory :: bool
  be_size_known :: bool
  be_resizes :: bool
  be_readable :: nat
  be_opens :: bool

definition resize_file :: "bool \<Rightarrow> nat \<Rightarrow> bytes \<Rightarrow> bytes" where
  "resize_file ok n contents = (if ok then take n contents @ replicate (n - length contents) 0 else contents)"

text \<open>What \<^verbatim>\<open>begin\<close> keeps of an earlier attempt: how many bytes, the partial file and what the hash has taken in.\<close>

definition resume_keep :: "begin_env \<Rightarrow> u64 \<Rightarrow> bytes \<Rightarrow> u64" where
  "resume_keep ev sz part =
    (let held = (if be_size_known ev then of_nat (length part) else 0) in
     if held \<ge> sz then sz else held - held mod of_nat CHUNK_PLAINTEXT_BYTES)"

definition read_back :: "begin_env \<Rightarrow> u64 \<Rightarrow> bytes \<Rightarrow> u64 \<times> bytes \<times> bytes" where
  "read_back ev keep part =
    (if keep > 0
     then let part = resize_file (be_resizes ev) (unat keep) part; got = take (unat keep) (take (be_readable ev) part) in
       if length got < unat keep then (0, part, []) else (keep, part, got)
     else (keep, part, []))"

definition resume_part :: "begin_env \<Rightarrow> u64 \<Rightarrow> bytes \<Rightarrow> u64 \<times> bytes \<times> bytes" where
  "resume_part ev sz part =
    (case read_back ev (resume_keep ev sz part) part of
       (keep, part, hashed) \<Rightarrow> (keep, if keep = 0 then resize_file (be_resizes ev) 0 part else part, hashed))"

definition begin_download :: "begin_env \<Rightarrow> bool \<Rightarrow> Decryptor \<Rightarrow> folder \<Rightarrow> unit thrown \<times> Decryptor \<times> folder" where
  "begin_download ev resume d dir =
    (if \<not> be_directory ev then (Inl ''The folder to save in doesn't exist'', d, dir)
     else let part = part_name (dc_file_id d);
              d = d \<lparr> dc_hash := Running [], dc_next := 0, dc_written := 0 \<rparr>;
              (d, dir) =
                (case (resume, dir part) of
                   (True, Some contents) \<Rightarrow>
                     (case resume_part ev (dc_size d) contents of
                        (keep, contents, hashed) \<Rightarrow>
                          (d \<lparr> dc_hash := Running hashed, dc_written := keep,
                               dc_next := (if keep \<ge> dc_size d \<and> dc_size d > 0 then pl_chunk_count (dc_plan d)
                                           else ucast (keep div of_nat CHUNK_PLAINTEXT_BYTES)) \<rparr>,
                           dir(part \<mapsto> contents)))
                 | _ \<Rightarrow> (d, if be_opens ev then dir(part \<mapsto> []) else dir)) in
       if be_opens ev then (Inr (), d \<lparr> dc_out := Opened \<rparr>, dir)
       else (Inl ''The file could not be saved here'', d \<lparr> dc_out := Failed \<rparr>, dir))"

text \<open>The argument \<open>short\<close> is \<open>None\<close> where the write succeeds, and otherwise how many of the bytes reached the file.\<close>

definition accept :: "crypto_lib \<Rightarrow> nat option \<Rightarrow> u32 \<Rightarrow> bytes \<Rightarrow> Decryptor \<Rightarrow> folder \<Rightarrow> unit thrown \<times> Decryptor \<times> folder" where
  "accept L short index sealed d dir =
    (if dc_out d = Failed \<or> dc_hash d = No_Hash then (Inl ''The download was not started'', d, dir)
     else if index \<noteq> dc_next d \<or> index \<ge> pl_chunk_count (dc_plan d) then (Inl ''A chunk arrived out of order'', d, dir)
     else case open_chunk L (dc_key d) (dc_file_id d) index (pl_chunk_count (dc_plan d)) sealed of
         None \<Rightarrow> (Inl ''A chunk of the file could not be opened: it is damaged, or not from this file'', d, dir)
       | Some plain \<Rightarrow>
          if length plain \<noteq> unat (plain_size_of_chunk (dc_plan d) (dc_size d) index)
          then (Inl ''A chunk of the file is the wrong size'', d, dir)
          else let part = part_name (dc_file_id d); contents = (case dir part of Some c \<Rightarrow> c | None \<Rightarrow> []) in
            (case (dc_out d, short) of
               (Opened, None) \<Rightarrow>
                 (Inr (), d \<lparr> dc_hash := (case dc_hash d of Running h \<Rightarrow> Running (h @ plain) | s \<Rightarrow> s), dc_written := dc_written d + of_nat (length plain), dc_next := dc_next d + 1 \<rparr>,
                  dir(part \<mapsto> contents @ plain))
             | (Opened, Some n) \<Rightarrow>
                 (Inl ''The file could not be saved here (is the disk full?)'', d \<lparr> dc_out := Failed \<rparr>, dir(part \<mapsto> contents @ take n plain))
             | _ \<Rightarrow> (Inl ''The file could not be saved here (is the disk full?)'', d \<lparr> dc_out := Failed \<rparr>, dir)))"

definition abort_download :: "Decryptor \<Rightarrow> folder \<Rightarrow> Decryptor \<times> folder" where
  "abort_download d dir =
    (d \<lparr> dc_out := close_stream (dc_out d), dc_next := 0, dc_written := 0 \<rparr>, dir(part_name (dc_file_id d) := None))"

text \<open>\<^verbatim>\<open>lost\<close>: how many bytes at the end of the file flushing and closing the stream failed to write.\<close>

definition finish_download :: "crypto_lib \<Rightarrow> nat \<Rightarrow> bool \<Rightarrow> Decryptor \<Rightarrow> folder \<Rightarrow> string thrown \<times> Decryptor \<times> folder" where
  "finish_download L lost renames d dir =
    (if dc_out d = Failed \<or> dc_hash d = No_Hash \<or> dc_next d \<noteq> pl_chunk_count (dc_plan d) \<or> dc_written d \<noteq> dc_size d
     then (Inl ''The file is not complete'', d, dir)
     else let part = part_name (dc_file_id d);
              contents = (case dir part of Some c \<Rightarrow> take (length c - lost) c | None \<Rightarrow> []);
              dir = (if dc_out d = Opened then dir(part \<mapsto> contents) else dir);
              d = d \<lparr> dc_out := close_stream (dc_out d) \<rparr> in
       (case dc_hash d of
          Running h \<Rightarrow>
            let d = d \<lparr> dc_hash := Finished \<rparr> in
            if sha256 L h \<noteq> dc_expected_hash d
            then (case abort_download d dir of (d, dir) \<Rightarrow>
                    (Inl ''The file does not match the fingerprint the sender signed: it was altered, so it was not saved'', d, dir))
            else (case unique_path (\<lambda>n. dir n \<noteq> None) (sanitize_filename (dc_name d)) of
                None \<Rightarrow> (Inl ''No free file name was found in that folder'', d, dir)
              | Some target \<Rightarrow>
                 if \<not> renames then (Inl ''The file could not be saved: '', d, dir)
                 else (Inr target, d, dir(part := None, target \<mapsto> contents)))
        | _ \<Rightarrow> (Inl ''Hashing failed'', d, dir)))"

section \<open>The plan tiles the file\<close>

definition chunk_of :: "bytes \<Rightarrow> nat \<Rightarrow> bytes" where
  "chunk_of file i = take CHUNK_PLAINTEXT_BYTES (drop (i * CHUNK_PLAINTEXT_BYTES) file)"

lemma plan_for_count:
  assumes "plan_for sz = Inr p"
  defines "n \<equiv> unat sz" and "m \<equiv> unat (pl_chunk_count p)"
  shows "n \<le> 16106127360" "0 < m" "m \<le> 327680" "(m - 1) * CHUNK_PLAINTEXT_BYTES \<le> n" "n \<le> m * CHUNK_PLAINTEXT_BYTES"
    "n = 0 \<and> m = 1 \<or> (m - 1) * CHUNK_PLAINTEXT_BYTES < n"
proof -
  from assms(1) have le: "sz \<le> MAX_PLAINTEXT_BYTES"
    and c: "pl_chunk_count p = (if sz = 0 then 1 else ucast ((sz + of_nat CHUNK_PLAINTEXT_BYTES - 1) div of_nat CHUNK_PLAINTEXT_BYTES))"
    by (auto simp: plan_for_def Let_def not_less split: if_splits)
  show n: "n \<le> 16106127360" using le unfolding n_def by (simp add: word_le_nat_alt)
  have "(0 < m \<and> m \<le> 327680 \<and> (m - 1) * CHUNK_PLAINTEXT_BYTES < n \<and> n \<le> m * CHUNK_PLAINTEXT_BYTES) \<or> (n = 0 \<and> m = 1)"
  proof (cases "sz = 0")
    case True
    then show ?thesis by (simp add: n_def m_def c)
  next
    case False
    then have pos: "0 < n" unfolding n_def by (simp add: unat_gt_0)
    let ?k = "(n + CHUNK_PLAINTEXT_BYTES - 1) div CHUNK_PLAINTEXT_BYTES"
    have "?k \<le> (16106127360 + 49151) div CHUNK_PLAINTEXT_BYTES" using n by (intro div_le_mono) simp
    then have k: "?k \<le> 327680" by simp
    have "unat (sz + of_nat CHUNK_PLAINTEXT_BYTES - 1) = n + CHUNK_PLAINTEXT_BYTES - 1"
      using n pos unfolding n_def by (simp add: unat_word_ariths unat_sub_if')
    then have "unat ((sz + of_nat CHUNK_PLAINTEXT_BYTES - 1) div of_nat CHUNK_PLAINTEXT_BYTES) = ?k" by (simp add: unat_div)
    then have "m = ?k" using k False unfolding m_def c by (simp add: unsigned_ucast_eq take_bit_nat_eq_self)
    then show ?thesis using ceil_div_bounds [of CHUNK_PLAINTEXT_BYTES n m] pos k by simp
  qed
  then show "0 < m" "m \<le> 327680" "(m - 1) * CHUNK_PLAINTEXT_BYTES \<le> n" "n \<le> m * CHUNK_PLAINTEXT_BYTES"
    "n = 0 \<and> m = 1 \<or> (m - 1) * CHUNK_PLAINTEXT_BYTES < n" by auto
qed

lemma plain_size_of_chunk_nat:
  assumes "plan_for sz = Inr p" and "i < pl_chunk_count p"
  shows "unat (plain_size_of_chunk p sz i) = min CHUNK_PLAINTEXT_BYTES (unat sz - unat i * CHUNK_PLAINTEXT_BYTES)"
proof -
  note c = plan_for_count [OF assms(1)]
  have i: "unat i < unat (pl_chunk_count p)" using assms(2) by (simp add: word_less_nat_alt)
  have i1: "unat (i + 1) = unat i + 1" using i c(3) by (simp add: unat_word_ariths)
  have last: "unat (pl_chunk_count p - 1) = unat (pl_chunk_count p) - 1" using c(2) by (subst unat_sub) (simp_all add: word_le_nat_alt)
  have mult: "unat (of_nat CHUNK_PLAINTEXT_BYTES * ucast (pl_chunk_count p - 1) :: u64) = (unat (pl_chunk_count p) - 1) * CHUNK_PLAINTEXT_BYTES"
    using c(3) by (simp add: unat_word_ariths last)
  show ?thesis
  proof (cases "i + 1 < pl_chunk_count p")
    case True
    then have "unat i + 1 < unat (pl_chunk_count p)" using i1 by (simp add: word_less_nat_alt)
    then have "(unat i + 1) * CHUNK_PLAINTEXT_BYTES \<le> (unat (pl_chunk_count p) - 1) * CHUNK_PLAINTEXT_BYTES" by (intro mult_le_mono1) linarith
    then have "(unat i + 1) * CHUNK_PLAINTEXT_BYTES \<le> unat sz" using c(4) by (rule order_trans)
    then show ?thesis using True by (simp add: plain_size_of_chunk_def)
  next
    case False
    then have eq: "unat i = unat (pl_chunk_count p) - 1" using i i1 by (simp add: word_less_nat_alt)
    have le: "of_nat CHUNK_PLAINTEXT_BYTES * ucast (pl_chunk_count p - 1) \<le> sz" using c(4) mult by (simp add: word_le_nat_alt)
    have "unat (plain_size_of_chunk p sz i) = unat sz - unat i * CHUNK_PLAINTEXT_BYTES"
      using False unat_sub [OF le] mult by (simp add: plain_size_of_chunk_def eq)
    moreover have "unat sz - unat i * CHUNK_PLAINTEXT_BYTES \<le> CHUNK_PLAINTEXT_BYTES"
      using c(2, 5) unfolding eq by (cases "unat (pl_chunk_count p)") simp_all
    ultimately show ?thesis by simp
  qed
qed

lemma length_chunk_of: "length (chunk_of file i) = min CHUNK_PLAINTEXT_BYTES (length file - i * CHUNK_PLAINTEXT_BYTES)"
  by (simp add: chunk_of_def min.commute)

lemma take_chunk_of: "take (i * CHUNK_PLAINTEXT_BYTES) file @ chunk_of file i = take (Suc i * CHUNK_PLAINTEXT_BYTES) file"
proof -
  have "take (i * CHUNK_PLAINTEXT_BYTES + CHUNK_PLAINTEXT_BYTES) file = take (i * CHUNK_PLAINTEXT_BYTES) file @ chunk_of file i"
    unfolding chunk_of_def by (rule take_add)
  then show ?thesis by (simp only: mult_Suc add.commute)
qed

lemma length_chunk_nonce [simp]: "length (chunk_nonce i) = 12"
  by (simp add: chunk_nonce_def)

lemma chunk_nonce_split: "chunk_nonce i = replicate 8 0 @ split32 i"
  by (simp add: chunk_nonce_def split32_def numeral_eq_Suc)

lemma open_seal_chunk:
  assumes "gcm_lawful L" and "seal_chunk L key fid i count plain = Inr c"
  shows "open_chunk L key fid i count c = Some plain"
proof -
  from assms(2) have ok: "length key = 32" "length fid = FILE_ID_BYTES" "length plain \<le> CHUNK_PLAINTEXT_BYTES" "count \<noteq> 0" "\<not> i \<ge> count"
    and e: "encrypt L key (chunk_nonce i) plain (chunk_aad fid i count) = Inr c" by (auto simp: seal_chunk_def split: if_splits)
  show ?thesis using ok decrypt_encrypt [OF assms(1) e] encrypt_length [OF assms(1) e] by (simp add: open_chunk_def)
qed

lemma encryptor_chunk_seals:
  assumes "new_encryptor key fid (of_nat (length file)) = Inr ec" and "length file < 2 ^ 64" and "i < pl_chunk_count (ec_plan ec)"
    and "length key = 32" and "length fid = FILE_ID_BYTES"
  shows "\<exists>c. encryptor_chunk L (Some file) ec i = Inr c \<and> seal_chunk L key fid i (pl_chunk_count (ec_plan ec)) (chunk_of file (unat i)) = Inr c"
proof -
  from assms(1) have p: "plan_for (of_nat (length file)) = Inr (ec_plan ec)" and ec: "ec_key ec = key" "ec_file_id ec = fid" "ec_size ec = of_nat (length file)"
    by (auto simp: new_encryptor_def and_then_Inr)
  have n: "unat (of_nat (length file) :: u64) = length file" using assms(2) by (simp add: unat_of_nat)
  note c = plan_for_count [OF p]
  have i: "unat i < unat (pl_chunk_count (ec_plan ec))" using assms(3) by (simp add: word_less_nat_alt)
  have pos: "unat (ucast i * of_nat CHUNK_PLAINTEXT_BYTES :: u64) = unat i * CHUNK_PLAINTEXT_BYTES" using i c(3) by (simp add: unat_word_ariths)
  have w: "unat (plain_size_of_chunk (ec_plan ec) (ec_size ec) i) = length (chunk_of file (unat i))"
    unfolding ec plain_size_of_chunk_nat [OF p assms(3)] length_chunk_of n ..
  have pl: "take (length (chunk_of file (unat i))) (drop (unat i * CHUNK_PLAINTEXT_BYTES) file) = chunk_of file (unat i)"
    by (simp add: chunk_of_def min_def)
  have "\<not> pl_chunk_count (ec_plan ec) \<le> i" using assms(3) by simp
  then have "encryptor_chunk L (Some file) ec i = seal_chunk L key fid i (pl_chunk_count (ec_plan ec)) (chunk_of file (unat i))"
    unfolding encryptor_chunk_def option.case Let_def w pos pl by (simp only: if_False not_True_eq_False ec simp_thms)
  moreover have "\<exists>c. seal_chunk L key fid i (pl_chunk_count (ec_plan ec)) (chunk_of file (unat i)) = Inr c"
  proof -
    have "length (chunk_of file (unat i)) \<le> CHUNK_PLAINTEXT_BYTES" by (simp add: length_chunk_of)
    moreover have "length (chunk_aad fid i (pl_chunk_count (ec_plan ec))) \<le> INT_MAX"
      using assms(5) by (simp add: chunk_aad_def Let_def write_u32_split write_blob_append write_string_blob)
    ultimately show ?thesis using assms(3-5) by (auto simp: seal_chunk_def encrypt_Inr)
  qed
  ultimately show ?thesis by auto
qed

section \<open>What is saved\<close>

definition download_ok :: "Decryptor \<Rightarrow> folder \<Rightarrow> bool" where
  "download_ok d dir \<longleftrightarrow> plan_for (dc_size d) = Inr (dc_plan d) \<and>
     (dc_out d = Opened \<longrightarrow> (\<exists>h. dc_hash d = Running h \<and> dir (part_name (dc_file_id d)) = Some h \<and> unat (dc_written d) = length h \<and>
        dc_next d \<le> pl_chunk_count (dc_plan d) \<and> length h = min (unat (dc_next d) * CHUNK_PLAINTEXT_BYTES) (unat (dc_size d)))) \<and>
     (dc_out d = Closed \<longrightarrow> dc_next d = 0 \<or> dc_hash d = Finished)"

lemma resize_file_length: "length (resize_file True n c) = n"
  by (simp add: resize_file_def)

lemma resume_keep_aligned:
  "resume_keep ev sz part = sz \<or> unat (resume_keep ev sz part) < unat sz \<and> unat (resume_keep ev sz part) mod CHUNK_PLAINTEXT_BYTES = 0"
proof -
  have "unat (x - x mod of_nat CHUNK_PLAINTEXT_BYTES) = unat x - unat x mod CHUNK_PLAINTEXT_BYTES" for x :: u64
    by (subst unat_sub) (simp_all add: unat_mod word_le_nat_alt)
  then have "unat (x - x mod of_nat CHUNK_PLAINTEXT_BYTES) < unat sz \<and> unat (x - x mod of_nat CHUNK_PLAINTEXT_BYTES) mod CHUNK_PLAINTEXT_BYTES = 0"
    if "\<not> sz \<le> x" for x using that by (simp add: word_le_nat_alt minus_mod_eq_mult_div)
  then show ?thesis unfolding resume_keep_def Let_def by simp
qed

lemma resume_part_kept:
  assumes "resume_part ev sz part = (keep, part', hashed)" and "be_resizes ev"
  shows "part' = hashed" and "length hashed = unat keep" and "keep = sz \<or> unat keep < unat sz \<and> unat keep mod CHUNK_PLAINTEXT_BYTES = 0"
proof -
  define k where "k = resume_keep ev sz part"
  have "part' = hashed \<and> length hashed = unat keep \<and> (keep = k \<or> keep = 0)"
    using assms unfolding resume_part_def k_def [symmetric]
    by (auto simp: read_back_def Let_def resize_file_def not_less split: if_splits)
  then show "part' = hashed" "length hashed = unat keep" "keep = sz \<or> unat keep < unat sz \<and> unat keep mod CHUNK_PLAINTEXT_BYTES = 0"
    using resume_keep_aligned [of ev sz part] unfolding k_def [symmetric] by (auto simp: unat_gt_0)
qed

text \<open>What the operations never change of a download.\<close>

definition same_download :: "Decryptor \<Rightarrow> Decryptor \<Rightarrow> bool" where
  "same_download d d' \<longleftrightarrow> dc_name d' = dc_name d \<and> dc_key d' = dc_key d \<and> dc_file_id d' = dc_file_id d \<and>
     dc_expected_hash d' = dc_expected_hash d \<and> dc_size d' = dc_size d \<and> dc_plan d' = dc_plan d"

definition only_part :: "Decryptor \<Rightarrow> folder \<Rightarrow> folder \<Rightarrow> bool" where
  "only_part d dir dir' \<longleftrightarrow> (\<forall>n. n \<noteq> part_name (dc_file_id d) \<longrightarrow> dir' n = dir n)"

lemma begin_download_frame:
  "begin_download ev resume d dir = (r, d', dir') \<Longrightarrow> same_download d d' \<and> only_part d dir dir'"
  by (auto simp: begin_download_def Let_def same_download_def only_part_def split: if_splits option.splits prod.splits bool.splits)

lemma begin_download_ok:
  assumes "begin_download ev resume d dir = (r, d', dir')" and "be_resizes ev" and "download_ok d dir"
  shows "download_ok d' dir'"
proof (cases "be_directory ev \<and> be_opens ev")
  case False
  then show ?thesis using assms(1, 3)
    by (auto simp: begin_download_def Let_def download_ok_def split: if_splits option.splits prod.splits bool.splits)
next
  case True
  have p: "plan_for (dc_size d) = Inr (dc_plan d)" using assms(3) by (simp add: download_ok_def)
  note c = plan_for_count [OF p]
  show ?thesis
  proof (cases "resume \<and> dir (part_name (dc_file_id d)) \<noteq> None")
    case False
    then show ?thesis using assms(1) True p by (auto simp: begin_download_def Let_def download_ok_def split: option.splits bool.splits)
  next
    case rs: True
    then obtain part where part: "dir (part_name (dc_file_id d)) = Some part" by blast
    obtain keep part' hashed where k: "resume_part ev (dc_size d) part = (keep, part', hashed)" by (metis prod_cases3)
    note kept = resume_part_kept [OF k assms(2)]
    let ?next = "if keep \<ge> dc_size d \<and> dc_size d > 0 then pl_chunk_count (dc_plan d) else ucast (keep div of_nat CHUNK_PLAINTEXT_BYTES)"
    have d': "d' = d \<lparr> dc_hash := Running hashed, dc_next := ?next, dc_written := keep, dc_out := Opened \<rparr>"
      and dir': "dir' = dir(part_name (dc_file_id d) \<mapsto> part')"
      using assms(1) True rs part k by (auto simp: begin_download_def Let_def)
    have "?next \<le> pl_chunk_count (dc_plan d) \<and> unat keep = min (unat ?next * CHUNK_PLAINTEXT_BYTES) (unat (dc_size d))"
    proof (cases "keep \<ge> dc_size d \<and> dc_size d > 0")
      case True
      then have "keep = dc_size d" using kept(3) by (auto simp: word_le_nat_alt)
      then show ?thesis using True c(5) by simp
    next
      case False
      then have al: "unat keep mod CHUNK_PLAINTEXT_BYTES = 0" "unat keep \<le> unat (dc_size d)"
        using kept(3) by (auto simp: word_le_nat_alt word_less_nat_alt)
      then have "unat keep div CHUNK_PLAINTEXT_BYTES \<le> unat (pl_chunk_count (dc_plan d))"
        using c(5) by (simp add: div_le_mono less_mult_imp_div_less le_div_geq div_le_dividend)
      moreover have "unat (ucast (keep div of_nat CHUNK_PLAINTEXT_BYTES) :: u32) = unat keep div CHUNK_PLAINTEXT_BYTES"
        using calculation c(3) by (simp add: unsigned_ucast_eq unat_div take_bit_nat_eq_self)
      moreover have "unat keep div CHUNK_PLAINTEXT_BYTES * CHUNK_PLAINTEXT_BYTES = unat keep" using al(1) by (simp add: mod_eq_0_iff_dvd)
      ultimately show ?thesis using False al(2) by (simp add: word_le_nat_alt)
    qed
    then show ?thesis using p kept(1, 2) by (simp add: download_ok_def d' dir')
  qed
qed

lemma accept_cases:
  assumes "accept L short i sealed d dir = (r, d', dir')"
  obtains (refused) m where "r = Inl m" "d' = d" "dir' = dir"
  | (unwritten) m c where "r = Inl m" "d' = d \<lparr> dc_out := Failed \<rparr>" "dir' = dir \<or> dir' = dir(part_name (dc_file_id d) \<mapsto> c)"
  | (taken) plain where "r = Inr ()" "dc_out d = Opened" "dc_hash d \<noteq> No_Hash" "i = dc_next d" "i < pl_chunk_count (dc_plan d)"
      "open_chunk L (dc_key d) (dc_file_id d) i (pl_chunk_count (dc_plan d)) sealed = Some plain"
      "length plain = unat (plain_size_of_chunk (dc_plan d) (dc_size d) i)"
      "d' = d \<lparr> dc_hash := (case dc_hash d of Running h \<Rightarrow> Running (h @ plain) | s \<Rightarrow> s),
        dc_written := dc_written d + of_nat (length plain), dc_next := dc_next d + 1 \<rparr>"
      "dir' = dir(part_name (dc_file_id d) \<mapsto> (case dir (part_name (dc_file_id d)) of Some c \<Rightarrow> c | None \<Rightarrow> []) @ plain)"
proof (cases "dc_out d = Failed \<or> dc_hash d = No_Hash \<or> i \<noteq> dc_next d \<or> i \<ge> pl_chunk_count (dc_plan d)")
  case True
  then show ?thesis using assms refused by (auto simp: accept_def split: if_splits)
next
  case run: False
  show ?thesis
  proof (cases "open_chunk L (dc_key d) (dc_file_id d) i (pl_chunk_count (dc_plan d)) sealed")
    case None
    then show ?thesis using assms run refused by (auto simp: accept_def)
  next
    case (Some plain)
    show ?thesis
    proof (cases "length plain = unat (plain_size_of_chunk (dc_plan d) (dc_size d) i)")
      case False
      then show ?thesis using assms run Some refused by (auto simp: accept_def)
    next
      case True
      note a = assms run Some True
      show ?thesis
      proof (cases "dc_out d = Opened")
        case False
        then have "dc_out d = Closed" using run by (cases "dc_out d") simp_all
        then show ?thesis using a unwritten by (auto simp: accept_def Let_def)
      next
        case o: True
        show ?thesis
        proof (cases short)
          case None
          then have "accept L short i sealed d dir = (Inr (), d \<lparr> dc_hash := (case dc_hash d of Running h \<Rightarrow> Running (h @ plain) | s \<Rightarrow> s),
              dc_written := dc_written d + of_nat (length plain), dc_next := dc_next d + 1 \<rparr>,
              dir(part_name (dc_file_id d) \<mapsto> (case dir (part_name (dc_file_id d)) of Some c \<Rightarrow> c | None \<Rightarrow> []) @ plain))"
            using a(2-) o by (simp add: accept_def Let_def)
          then show ?thesis using a o by (intro taken [of plain]) (simp_all add: not_le)
        next
          case (Some n)
          then show ?thesis using a o unwritten by (auto simp: accept_def Let_def)
        qed
      qed
    qed
  qed
qed

lemma accept_frame: "accept L short i sealed d dir = (r, d', dir') \<Longrightarrow> same_download d d' \<and> only_part d dir dir'"
  by (erule accept_cases) (auto simp: same_download_def only_part_def)

lemma accept_ok:
  assumes "accept L short i sealed d dir = (r, d', dir')" and "download_ok d dir"
  shows "download_ok d' dir'"
  using assms(1)
proof (cases rule: accept_cases)
  case refused
  then show ?thesis using assms(2) by simp
next
  case unwritten
  then show ?thesis using assms(2) by (simp add: download_ok_def)
next
  case (taken plain)
  note o = taken(2, 3) and i = taken(4, 5) and len = taken(7) and d' = taken(8) and dir' = taken(9)
  have p: "plan_for (dc_size d) = Inr (dc_plan d)" using assms(2) by (simp add: download_ok_def)
  note c = plan_for_count [OF p]
  from assms(2) o(1) obtain h where h: "dc_hash d = Running h" "dir (part_name (dc_file_id d)) = Some h" "unat (dc_written d) = length h"
    "length h = min (unat (dc_next d) * CHUNK_PLAINTEXT_BYTES) (unat (dc_size d))" by (auto simp: download_ok_def)
  have lt: "unat (dc_next d) < unat (pl_chunk_count (dc_plan d))" using i by (simp add: word_less_nat_alt)
  then have "unat (dc_next d) * CHUNK_PLAINTEXT_BYTES \<le> (unat (pl_chunk_count (dc_plan d)) - 1) * CHUNK_PLAINTEXT_BYTES"
    by (intro mult_le_mono1) linarith
  then have le: "unat (dc_next d) * CHUNK_PLAINTEXT_BYTES \<le> unat (dc_size d)" using c(4) by (rule order_trans)
  have n1: "unat (dc_next d + 1) = Suc (unat (dc_next d))" using lt c(3) by (simp add: unat_word_ariths)
  have pl: "length plain = min CHUNK_PLAINTEXT_BYTES (unat (dc_size d) - unat (dc_next d) * CHUNK_PLAINTEXT_BYTES)"
    using len plain_size_of_chunk_nat [OF p i(2)] by (simp add: i(1))
  have total: "length (h @ plain) = min (Suc (unat (dc_next d)) * CHUNK_PLAINTEXT_BYTES) (unat (dc_size d))"
    using h(4) pl le by (simp add: min_def) linarith
  moreover have "unat (dc_written d + of_nat (length plain)) = length (h @ plain)"
    using h(3) total c(1) by (simp add: unat_word_ariths unat_of_nat)
  moreover have "dc_next d + 1 \<le> pl_chunk_count (dc_plan d)" using lt n1 by (simp add: word_le_nat_alt)
  ultimately show ?thesis using p h(1, 2) o(1) n1 by (simp add: download_ok_def d' dir')
qed

lemma abort_download_ok: "download_ok d dir \<Longrightarrow> abort_download d dir = (d', dir') \<Longrightarrow> download_ok d' dir'"
  by (auto simp: abort_download_def download_ok_def close_stream_def split: stream_state.splits)

lemma abort_download_frame: "abort_download d dir = (d', dir') \<Longrightarrow> same_download d d' \<and> only_part d dir dir'"
  by (auto simp: abort_download_def same_download_def only_part_def)

definition closed_part :: "nat \<Rightarrow> Decryptor \<Rightarrow> folder \<Rightarrow> bytes" where
  "closed_part lost d dir = (case dir (part_name (dc_file_id d)) of Some c \<Rightarrow> take (length c - lost) c | None \<Rightarrow> [])"

definition closed_folder :: "nat \<Rightarrow> Decryptor \<Rightarrow> folder \<Rightarrow> folder" where
  "closed_folder lost d dir = (if dc_out d = Opened then dir(part_name (dc_file_id d) \<mapsto> closed_part lost d dir) else dir)"

lemma finish_cases:
  assumes "finish_download L lost renames d dir = (r, d', dir')"
  obtains (refused) "\<forall>t. r \<noteq> Inr t" "d' = d" "dir' = dir"
  | (over) "\<forall>t. r \<noteq> Inr t" "dc_hash d = Finished" "d' = d \<lparr> dc_out := close_stream (dc_out d) \<rparr>" "dir' = closed_folder lost d dir"
  | (altered) h where "\<forall>t. r \<noteq> Inr t" "dc_hash d = Running h"
      "d' = d \<lparr> dc_hash := Finished, dc_out := Failed, dc_next := 0, dc_written := 0 \<rparr>"
      "dir' = (closed_folder lost d dir)(part_name (dc_file_id d) := None)"
  | (unsaved) h where "\<forall>t. r \<noteq> Inr t" "dc_hash d = Running h" "d' = d \<lparr> dc_hash := Finished, dc_out := close_stream (dc_out d) \<rparr>"
      "dir' = closed_folder lost d dir"
  | (saved) h target where "r = Inr target" "dc_hash d = Running h" "d' = d \<lparr> dc_hash := Finished, dc_out := close_stream (dc_out d) \<rparr>"
      "dc_out d \<noteq> Failed" "dc_next d = pl_chunk_count (dc_plan d)" "dc_written d = dc_size d" "sha256 L h = dc_expected_hash d"
      "unique_path (\<lambda>n. closed_folder lost d dir n \<noteq> None) (sanitize_filename (dc_name d)) = Some target"
      "dir' = (closed_folder lost d dir)(part_name (dc_file_id d) := None, target \<mapsto> closed_part lost d dir)"
proof (cases "dc_out d = Failed \<or> dc_hash d = No_Hash \<or> dc_next d \<noteq> pl_chunk_count (dc_plan d) \<or> dc_written d \<noteq> dc_size d")
  case True
  then have "r = Inl ''The file is not complete'' \<and> d' = d \<and> dir' = dir" using assms by (auto simp: finish_download_def)
  then show ?thesis using refused by blast
next
  case run: False
  note folds = closed_part_def [symmetric] closed_folder_def [symmetric]
  note u = assms [unfolded finish_download_def if_not_P [OF run] Let_def folds]
  show ?thesis
  proof (cases "dc_hash d")
    case No_Hash
    then show ?thesis using run by simp
  next
    case Finished
    then show ?thesis using u by (intro over) auto
  next
    case h: (Running h)
    show ?thesis
    proof (cases "sha256 L h = dc_expected_hash d")
      case False
      have "close_stream (close_stream (dc_out d)) = Failed" by (cases "dc_out d") (simp_all add: close_stream_def)
      then show ?thesis using u h False by (intro altered [OF _ h]) (auto simp: abort_download_def)
    next
      case hash: True
      show ?thesis
      proof (cases "unique_path (\<lambda>n. closed_folder lost d dir n \<noteq> None) (sanitize_filename (dc_name d))")
        case None
        then show ?thesis using u h hash by (intro unsaved [OF _ h]) auto
      next
        case (Some target)
        show ?thesis
        proof (cases renames)
          case True
          then show ?thesis using u h hash Some run by (intro saved [OF _ h _ _ _ _ hash Some]) auto
        next
          case False
          then show ?thesis using u h hash Some by (intro unsaved [OF _ h]) auto
        qed
      qed
    qed
  qed
qed

lemma finish_download_ok:
  assumes "finish_download L lost renames d dir = (r, d', dir')" and "download_ok d dir"
  shows "download_ok d' dir' \<and> same_download d d'"
  using assms(1)
proof (cases rule: finish_cases)
  case refused
  then show ?thesis using assms(2) by (simp add: same_download_def)
qed (use assms(2) in \<open>auto simp: download_ok_def same_download_def close_stream_def split: stream_state.splits\<close>)

lemma finish_download_saved:
  assumes "finish_download L lost renames d dir = (Inr target, d', dir')" and "download_ok d dir"
  shows "\<exists>h. dir (part_name (dc_file_id d)) = Some h \<and> length h = unat (dc_size d) \<and> sha256 L h = dc_expected_hash d \<and>
    unique_path (\<lambda>n. dir n \<noteq> None) (sanitize_filename (dc_name d)) = Some target \<and>
    dir target = None \<and> target \<noteq> part_name (dc_file_id d) \<and>
    dir' = dir(part_name (dc_file_id d) := None, target \<mapsto> take (length h - lost) h)"
  using assms(1)
proof (cases rule: finish_cases)
  case (saved h t)
  have p: "plan_for (dc_size d) = Inr (dc_plan d)" using assms(2) by (simp add: download_ok_def)
  have "dc_next d \<noteq> 0" using saved(5) plan_for_count(2) [OF p] by auto
  then have o: "dc_out d = Opened" using saved(2, 4) assms(2) by (cases "dc_out d") (auto simp: download_ok_def)
  with assms(2) obtain h' where "dc_hash d = Running h'" "dir (part_name (dc_file_id d)) = Some h'" "unat (dc_written d) = length h'"
    unfolding download_ok_def by blast
  then have k: "dir (part_name (dc_file_id d)) = Some h" "length h = unat (dc_size d)" using saved(2, 6) by simp_all
  have part: "closed_part lost d dir = take (length h - lost) h" using k(1) by (simp add: closed_part_def)
  have folder: "closed_folder lost d dir = dir(part_name (dc_file_id d) \<mapsto> take (length h - lost) h)" using o by (simp add: closed_folder_def part)
  then have same: "(\<lambda>n. closed_folder lost d dir n \<noteq> None) = (\<lambda>n. dir n \<noteq> None)" using k(1) by auto
  then have name: "unique_path (\<lambda>n. dir n \<noteq> None) (sanitize_filename (dc_name d)) = Some target" using saved(1, 8) by simp
  then have "dir target = None" using unique_path_free by blast
  then have "target \<noteq> part_name (dc_file_id d)" using k(1) by auto
  then show ?thesis using k saved \<open>dir target = None\<close> name by (simp add: part folder)
qed simp_all

lemma unat_add_in_limit: "unat sz + n \<le> 16106127360 \<Longrightarrow> unat ((sz :: u64) + of_nat n) = unat sz + n"
  by (simp add: unat_word_ariths unat_of_nat)

lemma fingerprint_loop_all:
  "unat sz + length rest \<le> unat MAX_PLAINTEXT_BYTES \<Longrightarrow> fingerprint_loop rest sz hashed = Inr (sz + of_nat (length rest), hashed @ rest)"
proof (induction rest sz hashed rule: fingerprint_loop.induct)
  case (1 rest sz hashed)
  define got where "got = take (1024 * 1024) rest"
  define rest' where "rest' = drop (1024 * 1024) rest"
  note step = fingerprint_loop.simps [of rest sz hashed, folded got_def rest'_def, unfolded Let_def]
  have all: "got @ rest' = rest" unfolding got_def rest'_def by (rule append_take_drop_id)
  show ?case
  proof (cases "got = []")
    case True
    then have "rest = []" by (simp add: got_def)
    then show ?thesis using step True by simp
  next
    case False
    have "unat sz + length got + length rest' \<le> 16106127360" using 1(2) arg_cong [OF all, of length] by simp
    then have u: "unat (sz + of_nat (length got)) = unat sz + length got" "unat (sz + of_nat (length got)) + length rest' \<le> 16106127360"
      using unat_add_in_limit [of sz "length got"] by simp_all
    then have le: "\<not> sz + of_nat (length got) > MAX_PLAINTEXT_BYTES" by (simp add: word_less_nat_alt)
    have "fingerprint_loop rest' (sz + of_nat (length got)) (hashed @ got) =
        Inr (sz + of_nat (length got) + of_nat (length rest'), (hashed @ got) @ rest')"
      unfolding rest'_def by (rule 1(1) [OF got_def False refl le, folded rest'_def, unfolded rest'_def]) (use u(2) in \<open>simp add: rest'_def\<close>)
    then show ?thesis using step False le by (simp add: add.assoc flip: all)
  qed
qed

lemma fingerprint_file_whole:
  "length file \<le> unat MAX_PLAINTEXT_BYTES \<Longrightarrow>
   fingerprint_file L (Some file) False = Inr \<lparr> fp_size = of_nat (length file), fp_sha256 = sha256 L file \<rparr>"
  using fingerprint_loop_all [of 0 "file" "[]"] by (simp add: fingerprint_file_def and_then_def)

text \<open>A small file and the download that expects it.\<close>

definition sample_file :: bytes where
  "sample_file = [1, 2, 3]"

definition sample_download :: Decryptor where
  "sample_download = \<lparr> dc_name = ''notes'', dc_key = replicate 32 0, dc_file_id = replicate 16 0,
     dc_expected_hash = sha256 sample_lib sample_file, dc_size = 3,
     dc_plan = \<lparr> pl_chunk_count = 1, pl_chunk_size = 49168, pl_ciphertext_size = 19 \<rparr>,
     dc_next = 0, dc_written = 0, dc_out = Closed, dc_hash = No_Hash \<rparr>"

definition sample_env :: begin_env where
  "sample_env = \<lparr> be_directory = True, be_size_known = True, be_resizes = True, be_readable = 3, be_opens = True \<rparr>"

lemma sample_download_new:
  "new_decryptor ''notes'' (replicate 32 0) (replicate 16 0) 3 (sha256 sample_lib sample_file) = Inr sample_download"
  by (simp add: new_decryptor_def plan_for_def sample_download_def and_then_def)

lemma sample_begin:
  "begin_download sample_env True sample_download Map.empty =
    (Inr (), sample_download \<lparr> dc_out := Opened, dc_hash := Running [] \<rparr>, [part_name (replicate 16 0) \<mapsto> []])"
  by (simp add: begin_download_def sample_env_def sample_download_def)

lemma sample_target: "unique_path (\<lambda>n. n = part_name (replicate 16 0)) (sanitize_filename ''notes'') = Some ''notes''"
  by code_simp

text \<open>
  A failing flush goes unnoticed. A download that received a file of three bytes is finished on a disk that does not take the last
  byte when the stream is closed: \<^verbatim>\<open>finish\<close> reports success, and a file of two bytes is saved under the file's name.
\<close>
lemma flush_failure_unnoticed:
  "\<exists>d dir. finish_download sample_lib 1 True
      (sample_download \<lparr> dc_out := Opened, dc_hash := Running sample_file, dc_next := 1, dc_written := 3 \<rparr>)
      [part_name (replicate 16 0) \<mapsto> sample_file] = (Inr ''notes'', d, dir) \<and> dir ''notes'' = Some [1, 2]"
proof -
  have dir: "(\<lambda>n. ([part_name (replicate 16 0) \<mapsto> c] :: folder) n \<noteq> None) = (\<lambda>n. n = part_name (replicate 16 0))" for c by auto
  show ?thesis using sample_target unfolding finish_download_def Let_def
    by (auto simp: dir sample_download_def sample_file_def)
qed

section \<open>A file arrives\<close>

text \<open>The sealed chunks of the numbers given, handed to the download one after the other.\<close>

fun accept_all :: "crypto_lib \<Rightarrow> (u32 \<Rightarrow> bytes) \<Rightarrow> u32 list \<Rightarrow> Decryptor \<Rightarrow> folder \<Rightarrow> unit thrown \<times> Decryptor \<times> folder" where
  "accept_all L c [] d dir = (Inr (), d, dir)"
| "accept_all L c (i # ns) d dir =
    (case accept L None i (c i) d dir of
       (Inr _, d, dir) \<Rightarrow> accept_all L c ns d dir
     | (Inl e, d, dir) \<Rightarrow> (Inl e, d, dir))"

definition holds_prefix :: "bytes \<Rightarrow> Decryptor \<Rightarrow> folder \<Rightarrow> bool" where
  "holds_prefix file d dir \<longleftrightarrow> download_ok d dir \<and> dc_out d = Opened \<and> unat (dc_size d) = length file \<and>
     dc_hash d = Running (take (unat (dc_next d) * CHUNK_PLAINTEXT_BYTES) file)"

lemma accept_next:
  assumes "holds_prefix file d dir" and "dc_next d < pl_chunk_count (dc_plan d)"
    and "open_chunk L (dc_key d) (dc_file_id d) (dc_next d) (pl_chunk_count (dc_plan d)) sealed = Some (chunk_of file (unat (dc_next d)))"
  obtains d' dir' where "accept L None (dc_next d) sealed d dir = (Inr (), d', dir')" "holds_prefix file d' dir'"
    "same_download d d'" "dc_next d' = dc_next d + 1" "only_part d dir dir'"
proof -
  have p: "plan_for (dc_size d) = Inr (dc_plan d)" using assms(1) by (simp add: holds_prefix_def download_ok_def)
  note c = plan_for_count [OF p]
  obtain r d' dir' where a: "accept L None (dc_next d) sealed d dir = (r, d', dir')" by (metis prod_cases3)
  have len: "length (chunk_of file (unat (dc_next d))) = unat (plain_size_of_chunk (dc_plan d) (dc_size d) (dc_next d))"
    using assms(1) plain_size_of_chunk_nat [OF p assms(2)] by (simp add: holds_prefix_def length_chunk_of)
  have r: "r = Inr ()" "d' = d \<lparr> dc_hash := Running (take (unat (dc_next d) * CHUNK_PLAINTEXT_BYTES) file @ chunk_of file (unat (dc_next d))),
      dc_written := dc_written d + of_nat (length (chunk_of file (unat (dc_next d)))), dc_next := dc_next d + 1 \<rparr>"
    using a assms(1,3) len linorder_not_le [THEN iffD2, OF assms(2)] by (simp_all add: accept_def holds_prefix_def Let_def)
  have "unat (dc_next d + 1) = Suc (unat (dc_next d))" using assms(2) c(3) by (simp add: unat_word_ariths word_less_nat_alt)
  then have "holds_prefix file d' dir'"
    using accept_ok [OF a] assms(1) take_chunk_of [of "unat (dc_next d)" "file"] by (simp add: holds_prefix_def r(2))
  then show thesis using that a accept_frame [OF a] by (simp add: r)
qed

lemma accept_all_rest:
  assumes "holds_prefix file d dir" and "dc_next d \<le> pl_chunk_count (dc_plan d)"
    and "\<And>i. i < pl_chunk_count (dc_plan d) \<Longrightarrow>
      open_chunk L (dc_key d) (dc_file_id d) i (pl_chunk_count (dc_plan d)) (c i) = Some (chunk_of file (unat i))"
  shows "\<exists>d' dir'. accept_all L c (map of_nat [unat (dc_next d)..<unat (pl_chunk_count (dc_plan d))]) d dir = (Inr (), d', dir') \<and>
    holds_prefix file d' dir' \<and> dc_next d' = pl_chunk_count (dc_plan d') \<and> same_download d d' \<and> only_part d dir dir'"
  using assms
proof (induction "unat (pl_chunk_count (dc_plan d)) - unat (dc_next d)" arbitrary: d dir)
  case 0
  then have "dc_next d = pl_chunk_count (dc_plan d)" by (simp add: word_le_nat_alt word_unat_eq_iff)
  then show ?case using 0 by (simp add: same_download_def only_part_def)
next
  case (Suc k)
  then have lt: "dc_next d < pl_chunk_count (dc_plan d)" by (simp add: word_less_nat_alt)
  from accept_next [OF Suc.prems(1) lt Suc.prems(3) [OF lt]] obtain d1 dir1 where a: "accept L None (dc_next d) (c (dc_next d)) d dir = (Inr (), d1, dir1)"
    and d1: "holds_prefix file d1 dir1" "same_download d d1" "dc_next d1 = dc_next d + 1" "only_part d dir dir1" by blast
  have "unat (pl_chunk_count (dc_plan d)) \<le> 327680"
    using Suc.prems(1) plan_for_count(3) [of "dc_size d" "dc_plan d"] by (simp add: holds_prefix_def download_ok_def)
  then have n1: "unat (dc_next d1) = Suc (unat (dc_next d))" using lt d1(3) by (simp add: unat_word_ariths word_less_nat_alt)
  have "\<exists>d' dir'. accept_all L c (map of_nat [unat (dc_next d1)..<unat (pl_chunk_count (dc_plan d1))]) d1 dir1 = (Inr (), d', dir') \<and>
      holds_prefix file d' dir' \<and> dc_next d' = pl_chunk_count (dc_plan d') \<and> same_download d1 d' \<and> only_part d1 dir1 dir'"
    by (rule Suc.hyps(1)) (use Suc.hyps(2) Suc.prems(3) d1 n1 lt in \<open>auto simp: same_download_def word_le_nat_alt word_less_nat_alt\<close>)
  then obtain d' dir' where r: "accept_all L c (map of_nat [unat (dc_next d1)..<unat (pl_chunk_count (dc_plan d1))]) d1 dir1 = (Inr (), d', dir')"
    "holds_prefix file d' dir'" "dc_next d' = pl_chunk_count (dc_plan d')" "same_download d1 d'" "only_part d1 dir1 dir'" by blast
  have "map of_nat [unat (dc_next d)..<unat (pl_chunk_count (dc_plan d))] = dc_next d # map of_nat [unat (dc_next d1)..<unat (pl_chunk_count (dc_plan d1))]"
    using lt n1 d1(2) by (simp add: upt_rec [of "unat (dc_next d)"] word_less_nat_alt same_download_def)
  then show ?case using a r d1 by (auto simp: same_download_def only_part_def)
qed

lemma resume_part_prefix:
  assumes "resume_part ev sz part = (keep, part', hashed)" and "be_resizes ev" and "part = take k file" and "unat sz = length file"
  shows "hashed = take (length hashed) file"
proof -
  have "unat (resume_keep ev sz part) \<le> length part"
  proof -
    have len: "unat (of_nat (length part) :: u64) = length part"
      by (rule le_unat_uoi [of _ sz]) (simp add: assms(3, 4))
    have "unat (x - x mod of_nat CHUNK_PLAINTEXT_BYTES) \<le> unat x" for x :: u64
      by (subst unat_sub) (simp_all add: unat_mod word_le_nat_alt)
    then have "unat (if sz \<le> x then sz else x - x mod of_nat CHUNK_PLAINTEXT_BYTES) \<le> unat x" for x by (simp add: word_le_nat_alt)
    moreover have "unat (if be_size_known ev then of_nat (length part) else 0 :: u64) \<le> length part" using len by simp
    ultimately show ?thesis unfolding resume_keep_def Let_def by (rule order_trans)
  qed
  then have "hashed = [] \<or> hashed = take (unat (resume_keep ev sz part)) part"
    using assms(1, 2) by (auto simp: resume_part_def read_back_def Let_def resize_file_def split: if_splits)
  then show ?thesis using assms(3) by (auto simp: min_def)
qed

lemma finish_complete:
  assumes "holds_prefix file d dir" and "dc_next d = pl_chunk_count (dc_plan d)" and "sha256 L file = dc_expected_hash d"
    and "only_part d dir0 dir"
    and "unique_path (\<lambda>n. dir0 n \<noteq> None \<or> n = part_name (dc_file_id d)) (sanitize_filename (dc_name d)) = Some target"
  shows "\<exists>d'. finish_download L 0 True d dir = (Inr target, d', dir0(part_name (dc_file_id d) := None, target \<mapsto> file))"
proof -
  have p: "plan_for (dc_size d) = Inr (dc_plan d)" using assms(1) by (simp add: holds_prefix_def download_ok_def)
  have all: "take (unat (dc_next d) * CHUNK_PLAINTEXT_BYTES) file = file"
    using plan_for_count(5) [OF p] assms(1, 2) by (simp add: holds_prefix_def)
  then have h: "dc_out d = Opened" "dc_hash d = Running file" "dir (part_name (dc_file_id d)) = Some file" "unat (dc_written d) = length file"
    "unat (dc_size d) = length file"
    using assms(1) by (auto simp: holds_prefix_def download_ok_def)
  have part: "closed_part 0 d dir = file" using h(3) by (simp add: closed_part_def)
  then have dir: "closed_folder 0 d dir = dir" using fun_upd_idem [of dir, OF h(3)] by (simp add: closed_folder_def)
  have "dir n \<noteq> None \<longleftrightarrow> dir0 n \<noteq> None \<or> n = part_name (dc_file_id d)" for n
    using assms(4) h(3) by (cases "n = part_name (dc_file_id d)") (simp_all add: only_part_def)
  then have u: "unique_path (\<lambda>n. dir n \<noteq> None) (sanitize_filename (dc_name d)) = Some target" using assms(5) by simp
  obtain r d' dir' where f: "finish_download L 0 True d dir = (r, d', dir')" by (metis prod_cases3)
  have w: "dc_written d = dc_size d" using h(4, 5) by (simp add: word_unat_eq_iff)
  have "r = Inr target \<and> dir' = dir(part_name (dc_file_id d) := None, target \<mapsto> file)"
    using f h(1, 2) w assms(2, 3) u unfolding finish_download_def Let_def closed_part_def [symmetric] closed_folder_def [symmetric]
    by (auto simp: part dir)
  moreover have "dir(part_name (dc_file_id d) := None) = dir0(part_name (dc_file_id d) := None)"
    using assms(4) by (auto simp: only_part_def fun_eq_iff)
  ultimately show ?thesis using f by simp
qed

lemma begin_holds_prefix:
  assumes "begin_download ev resume d dir = (Inr (), d', dir')" and "be_resizes ev" and "download_ok d dir"
    and "unat (dc_size d) = length file" and "\<And>c. dir (part_name (dc_file_id d)) = Some c \<Longrightarrow> \<exists>k. c = take k file"
  shows "holds_prefix file d' dir' \<and> dc_next d' \<le> pl_chunk_count (dc_plan d')"
proof -
  have ok: "download_ok d' dir'" by (rule begin_download_ok [OF assms(1-3)])
  have o: "dc_out d' = Opened" using assms(1) by (auto simp: begin_download_def Let_def split: if_splits prod.splits)
  then obtain h where h: "dc_hash d' = Running h" "dc_next d' \<le> pl_chunk_count (dc_plan d')"
    "length h = min (unat (dc_next d') * CHUNK_PLAINTEXT_BYTES) (unat (dc_size d'))" using ok unfolding download_ok_def by blast
  have same: "dc_size d' = dc_size d" using begin_download_frame [OF assms(1)] by (simp add: same_download_def)
  have "h = take (length h) file"
  proof (cases "resume \<and> dir (part_name (dc_file_id d)) \<noteq> None")
    case False
    then have "h = []" using assms(1) h(1) by (auto simp: begin_download_def Let_def split: option.splits bool.splits if_splits)
    then show ?thesis by simp
  next
    case True
    then obtain part k where part: "dir (part_name (dc_file_id d)) = Some part" "part = take k file" using assms(5) by blast
    obtain keep part' hashed where r: "resume_part ev (dc_size d) part = (keep, part', hashed)" by (metis prod_cases3)
    have "h = hashed" using assms(1) h(1) True part(1) r by (auto simp: begin_download_def Let_def split: if_splits)
    then show ?thesis using resume_part_prefix [OF r assms(2) part(2) assms(4)] by simp
  qed
  moreover have "take (min m (length file)) file = take m file" for m by (cases "m \<le> length file") simp_all
  ultimately have "h = take (unat (dc_next d') * CHUNK_PLAINTEXT_BYTES) file" unfolding h(3) same assms(4) by simp
  then show ?thesis using ok o h(1, 2) same assms(4) by (simp add: holds_prefix_def)
qed

text \<open>
  C29: A file arrives whole, also after an interruption. With the size and hash that \<^verbatim>\<open>fingerprint_file\<close> reports, the sender's encryptor makes every chunk of the plan; whatever prefix of the file
  an earlier attempt left behind, handing the download the chunks from the number it asks for up to the last is accepted
  chunk by chunk, and \<^verbatim>\<open>finish\<close> puts exactly the sender's bytes under a free name and removes the partial file.
\<close>
theorem attachment_round_trip:
  assumes "gcm_lawful L" and "length key = 32" and "length fid = FILE_ID_BYTES" and "length file \<le> unat MAX_PLAINTEXT_BYTES"
    and "fingerprint_file L (Some file) False = Inr fp" and "new_decryptor name key fid (fp_size fp) (fp_sha256 fp) = Inr d0"
    and "dir (part_name fid) = None \<or> (\<exists>k. dir (part_name fid) = Some (take k file))"
    and "begin_download ev resume d0 dir = (Inr (), d1, dir1)" and "be_resizes ev"
    and "unique_path (\<lambda>n. dir n \<noteq> None \<or> n = part_name fid) (sanitize_filename name) = Some target"
  shows "\<exists>ec c d2 dir2 d3. new_encryptor key fid (fp_size fp) = Inr ec \<and>
    (\<forall>i < pl_chunk_count (ec_plan ec). encryptor_chunk L (Some file) ec i = Inr (c i)) \<and>
    accept_all L c (map of_nat [unat (dc_next d1)..<unat (pl_chunk_count (ec_plan ec))]) d1 dir1 = (Inr (), d2, dir2) \<and>
    finish_download L 0 True d2 dir2 = (Inr target, d3, dir(part_name fid := None, target \<mapsto> file))"
proof -
  have n: "unat (of_nat (length file) :: u64) = length file" using assms(4) by (simp add: unat_of_nat)
  have fp: "fp = \<lparr> fp_size = of_nat (length file), fp_sha256 = sha256 L file \<rparr>"
    using assms(5) fingerprint_file_whole [OF assms(4)] by simp
  from assms(6) have d0: "plan_for (of_nat (length file)) = Inr (dc_plan d0)" "dc_size d0 = of_nat (length file)" "dc_key d0 = key"
    "dc_file_id d0 = fid" "dc_expected_hash d0 = sha256 L file" "dc_name d0 = name" "dc_out d0 = Closed" "dc_next d0 = 0"
    by (auto simp: new_decryptor_def and_then_Inr fp)
  then obtain ec where ec: "new_encryptor key fid (of_nat (length file)) = Inr ec" "ec_plan ec = dc_plan d0"
    by (auto simp: new_encryptor_def and_then_Inr)
  have "\<exists>c. \<forall>i < pl_chunk_count (ec_plan ec). encryptor_chunk L (Some file) ec i = Inr (c i) \<and>
      open_chunk L key fid i (pl_chunk_count (ec_plan ec)) (c i) = Some (chunk_of file (unat i))"
    using encryptor_chunk_seals [OF ec(1) _ _ assms(2, 3)] open_seal_chunk [OF assms(1)] assms(4) by (intro choice) fastforce
  then obtain c where c: "\<And>i. i < pl_chunk_count (ec_plan ec) \<Longrightarrow> encryptor_chunk L (Some file) ec i = Inr (c i) \<and>
      open_chunk L key fid i (pl_chunk_count (ec_plan ec)) (c i) = Some (chunk_of file (unat i))" by blast
  have ok0: "download_ok d0 dir" using d0 by (simp add: download_ok_def)
  have pre: "\<And>c. dir (part_name (dc_file_id d0)) = Some c \<Longrightarrow> \<exists>k. c = take k file" using assms(7) d0(4) by fastforce
  have b: "holds_prefix file d1 dir1" "dc_next d1 \<le> pl_chunk_count (dc_plan d1)"
    using begin_holds_prefix [OF assms(8, 9) ok0 _ pre] d0 n by simp_all
  have s1: "same_download d0 d1" "only_part d0 dir dir1" using begin_download_frame [OF assms(8)] by simp_all
  from accept_all_rest [OF b, of L c] c obtain d2 dir2 where
    a: "accept_all L c (map of_nat [unat (dc_next d1)..<unat (pl_chunk_count (ec_plan ec))]) d1 dir1 = (Inr (), d2, dir2)"
    "holds_prefix file d2 dir2" "dc_next d2 = pl_chunk_count (dc_plan d2)" "same_download d1 d2" "only_part d1 dir1 dir2"
    using s1(1) ec(2) d0 by (auto simp: same_download_def)
  obtain d3 where "finish_download L 0 True d2 dir2 = (Inr target, d3, dir(part_name fid := None, target \<mapsto> file))"
    using finish_complete [OF a(2, 3), of L dir target] s1 a(4, 5) d0 assms(10) by (auto simp: same_download_def only_part_def)
  then show ?thesis using ec(1) c a(1) unfolding fp by simp blast
qed

theorem attachment_round_trip_witness:
  "\<exists>ec c d2 dir2 d3. new_encryptor (replicate 32 0) (replicate 16 0) (of_nat (length sample_file)) = Inr ec \<and>
    encryptor_chunk sample_lib (Some sample_file) ec 0 = Inr (c 0) \<and>
    accept_all sample_lib c (map of_nat [0..<unat (pl_chunk_count (ec_plan ec))]) (sample_download \<lparr> dc_out := Opened, dc_hash := Running [] \<rparr>)
      [part_name (replicate 16 0) \<mapsto> []] = (Inr (), d2, dir2) \<and>
    finish_download sample_lib 0 True d2 dir2 = (Inr ''notes'', d3, [''notes'' \<mapsto> sample_file])"
  (is "\<exists>ec c d2 dir2 d3. _ \<and> _ \<and> accept_all _ _ _ ?d1 ?dir1 = _ \<and> _")
proof -
  have d: "begin_download sample_env True sample_download Map.empty = (Inr (), ?d1, ?dir1)" by (rule sample_begin)
  have p: "length (replicate 32 (0 :: byte)) = 32" "length (replicate 16 (0 :: byte)) = FILE_ID_BYTES" "length sample_file \<le> unat MAX_PLAINTEXT_BYTES"
    "new_decryptor ''notes'' (replicate 32 0) (replicate 16 0) (fp_size \<lparr> fp_size = of_nat (length sample_file), fp_sha256 = sha256 sample_lib sample_file \<rparr>)
      (fp_sha256 \<lparr> fp_size = of_nat (length sample_file), fp_sha256 = sha256 sample_lib sample_file \<rparr>) = Inr sample_download"
    "(Map.empty :: folder) (part_name (replicate 16 0)) = None \<or> (\<exists>k. (Map.empty :: folder) (part_name (replicate 16 0)) = Some (take k sample_file))"
    "be_resizes sample_env"
    "unique_path (\<lambda>n. (Map.empty :: folder) n \<noteq> None \<or> n = part_name (replicate 16 0)) (sanitize_filename ''notes'') = Some ''notes''"
    using sample_download_new sample_target by (simp_all add: sample_file_def sample_env_def)
  obtain ec c d2 dir2 d3 where r: "new_encryptor (replicate 32 0) (replicate 16 0) (of_nat (length sample_file)) = Inr ec"
    "\<forall>i < pl_chunk_count (ec_plan ec). encryptor_chunk sample_lib (Some sample_file) ec i = Inr (c i)"
    "accept_all sample_lib c (map of_nat [unat (dc_next ?d1)..<unat (pl_chunk_count (ec_plan ec))]) ?d1 ?dir1 = (Inr (), d2, dir2)"
    "finish_download sample_lib 0 True d2 dir2 = (Inr ''notes'', d3, Map.empty(part_name (replicate 16 0) := None, ''notes'' \<mapsto> sample_file))"
    using attachment_round_trip [OF sample_lib_lawful p(1-3) fingerprint_file_whole [OF p(3)] p(4, 5) d p(6, 7)] by (simp only: Fingerprint.select_convs) blast
  then have "pl_chunk_count (ec_plan ec) = 1" by (auto simp: sample_file_def new_encryptor_def plan_for_def and_then_def)
  with r show ?thesis by (intro exI [of _ ec] exI [of _ c] exI [of _ d2] exI [of _ dir2] exI [of _ d3]) (simp add: sample_download_def)
qed

section \<open>What is saved, whatever happened\<close>

text \<open>Everything that happens to a download, whatever arrives; the one assumption is that truncating the partial file succeeds.\<close>

inductive download_step :: "crypto_lib \<Rightarrow> Decryptor \<times> folder \<Rightarrow> Decryptor \<times> folder \<Rightarrow> bool" for L where
  step_begin: "begin_download ev resume d dir = (r, d', dir') \<Longrightarrow> be_resizes ev \<Longrightarrow> download_step L (d, dir) (d', dir')"
| step_accept: "accept L short i sealed d dir = (r, d', dir') \<Longrightarrow> download_step L (d, dir) (d', dir')"
| step_abort: "abort_download d dir = (d', dir') \<Longrightarrow> download_step L (d, dir) (d', dir')"

lemma download_step_ok:
  "download_step L s s' \<Longrightarrow> download_ok (fst s) (snd s) \<Longrightarrow>
   download_ok (fst s') (snd s') \<and> same_download (fst s) (fst s') \<and> only_part (fst s) (snd s) (snd s')"
  by (induction rule: download_step.induct)
    (auto dest: begin_download_ok begin_download_frame accept_ok accept_frame abort_download_ok abort_download_frame)

lemma download_steps_ok:
  assumes "(download_step L)\<^sup>*\<^sup>* s s'" and "download_ok (fst s) (snd s)"
  shows "download_ok (fst s') (snd s') \<and> same_download (fst s) (fst s') \<and> only_part (fst s) (snd s) (snd s')"
  using assms
proof (induction rule: rtranclp_induct)
  case base
  then show ?case by (simp add: same_download_def only_part_def)
next
  case (step t u)
  then show ?case using download_step_ok [OF step.hyps(2)] by (auto simp: same_download_def only_part_def)
qed

text \<open>
  C28: Only the signed file is saved, and nothing is overwritten. However a download went -- started, resumed after an interruption,
  aborted, with chunks that are damaged, out of order or from other files, with writes that failed -- as long as truncating the partial
  file did not fail: if \<^verbatim>\<open>finish\<close> saves a file, then what was downloaded has the size and the SHA-256 the sender signed; the file saved is that,
  without the bytes that flushing and closing the stream failed to write, which is nothing unless the disk fails at that moment; its name is the one
  \<^verbatim>\<open>unique_path\<close> made of the sanitized name, and was free; the partial file is gone; and no other file of the folder has changed since the start.
\<close>
theorem saved_file_is_signed:
  assumes "new_decryptor name key fid sz sha = Inr d0" and "(download_step L)\<^sup>*\<^sup>* (d0, dir0) (d, dir)"
    and "finish_download L lost renames d dir = (Inr target, d', dir')"
  shows "\<exists>contents. length contents = unat sz \<and> sha256 L contents = sha \<and>
    dir' target = Some (take (length contents - lost) contents) \<and>
    unique_path (\<lambda>n. dir n \<noteq> None) (sanitize_filename name) = Some target \<and>
    dir target = None \<and> dir' (part_name fid) = None \<and> (\<forall>n. n \<notin> {target, part_name fid} \<longrightarrow> dir' n = dir0 n)"
proof -
  from assms(1) have d0: "plan_for sz = Inr (dc_plan d0)" "dc_size d0 = sz" "dc_expected_hash d0 = sha" "dc_file_id d0 = fid"
    "dc_name d0 = name" "dc_out d0 = Closed" "dc_next d0 = 0" by (auto simp: new_decryptor_def and_then_Inr)
  then have "download_ok d0 dir0" by (simp add: download_ok_def)
  from download_steps_ok [OF assms(2)] this have ok: "download_ok d dir" "same_download d0 d" "only_part d0 dir0 dir" by simp_all
  from finish_download_saved [OF assms(3) ok(1)] obtain h where h: "dir (part_name (dc_file_id d)) = Some h" "length h = unat (dc_size d)"
    "sha256 L h = dc_expected_hash d" "unique_path (\<lambda>n. dir n \<noteq> None) (sanitize_filename (dc_name d)) = Some target" "dir target = None"
    "target \<noteq> part_name (dc_file_id d)" "dir' = dir(part_name (dc_file_id d) := None, target \<mapsto> take (length h - lost) h)"
    by blast
  then show ?thesis using ok(2, 3) d0 by (intro exI [of _ h]) (auto simp: same_download_def only_part_def)
qed

theorem saved_file_is_signed_witness:
  "\<exists>d d' dir dir' contents. new_decryptor ''notes'' (replicate 32 0) (replicate 16 0) 3 (sha256 sample_lib sample_file) = Inr sample_download \<and>
    (download_step sample_lib)\<^sup>*\<^sup>* (sample_download, Map.empty) (d, dir) \<and>
    finish_download sample_lib 0 True d dir = (Inr ''notes'', d', dir') \<and>
    dir' ''notes'' = Some contents \<and> length contents = 3 \<and> sha256 sample_lib contents = sha256 sample_lib sample_file"
proof -
  let ?d1 = "sample_download \<lparr> dc_out := Opened, dc_hash := Running [] \<rparr>" and ?dir1 = "[part_name (replicate 16 0) \<mapsto> []]"
  have s1: "download_step sample_lib (sample_download, Map.empty) (?d1, ?dir1)"
    by (rule step_begin [OF sample_begin]) (simp add: sample_env_def)
  have h1: "holds_prefix sample_file ?d1 ?dir1"
    by (simp add: holds_prefix_def download_ok_def sample_download_def sample_file_def plan_for_def)
  have "\<exists>c. seal_chunk sample_lib (replicate 32 0) (replicate 16 0) 0 1 (chunk_of sample_file 0) = Inr c"
    by (simp add: seal_chunk_def encrypt_Inr chunk_of_def sample_file_def chunk_aad_def write_u32_split write_blob_append write_string_blob)
  then obtain c where "open_chunk sample_lib (replicate 32 0) (replicate 16 0) 0 1 c = Some (chunk_of sample_file 0)"
    using open_seal_chunk [OF sample_lib_lawful] by blast
  with accept_next [OF h1, of sample_lib c] obtain d dir where a: "accept sample_lib None 0 c ?d1 ?dir1 = (Inr (), d, dir)"
    "holds_prefix sample_file d dir" "same_download ?d1 d" "dc_next d = 1" "only_part ?d1 ?dir1 dir" by (auto simp: sample_download_def)
  have s: "(download_step sample_lib)\<^sup>*\<^sup>* (sample_download, Map.empty) (d, dir)"
    using s1 step_accept [OF a(1)] by (meson converse_rtranclp_into_rtranclp r_into_rtranclp)
  obtain d' dir' where f: "finish_download sample_lib 0 True d dir = (Inr ''notes'', d', dir')"
    using finish_complete [OF a(2), of sample_lib Map.empty "''notes''"] a(3-5) sample_target
    by (auto simp: same_download_def only_part_def sample_download_def)
  from saved_file_is_signed [OF sample_download_new s f] obtain contents where
    "dir' ''notes'' = Some (take (length contents - 0) contents)" "length contents = unat (3 :: u64)"
    "sha256 sample_lib contents = sha256 sample_lib sample_file" by blast
  then show ?thesis using sample_download_new s f
    by (intro exI [of _ d] exI [of _ d'] exI [of _ dir] exI [of _ dir'] exI [of _ contents]) simp
qed

end
