(* ===== verification/Keyring.thy ===== *)
theory Keyring
  imports Record_Payloads Crypto_Engine
begin

text \<open>
  The keyring (\<^verbatim>\<open>src/client/keyring.cpp\<close>): what a device needs to come back to its chats, written into one sealed blob
  that is kept at the relay.  The reader of the source keeps a flag that the first failure clears and returns nothing at
  the end; it is written here with early exit.  An \<^verbatim>\<open>int\<close> and an \<^verbatim>\<open>int64_t\<close> are integers, cast to and from words where
  the source casts them.
\<close>

section \<open>The code\<close>

abbreviation (input) "KEYRING_VERSION \<equiv> (1 :: u32)"
abbreviation (input) "KEYRING_MAGIC_LABEL \<equiv> ''pq-suite v3 keyring''"
abbreviation (input) "KEYRING_AAD_LABEL \<equiv> ''pq-suite v3 archive keyring seal''"
abbreviation (input) "KEYRING_MAX_ARCHIVES \<equiv> (4096 :: nat)"
abbreviation (input) "MAX_ENTRIES \<equiv> (100000 :: nat)"
abbreviation (input) "MAX_TEXT \<equiv> (4096 :: nat)"
abbreviation (input) "MAX_BUNDLE \<equiv> (16384 :: nat)"
abbreviation (input) "KEYRING_MAX_KEY_BLOB \<equiv> (8192 :: nat)"

record ArchiveItem =
  ka_conversation_id :: bytes
  ka_relay_address :: string
  ka_relay_id :: bytes
  ka_role :: int
  ka_state :: int
  ka_archive_key :: bytes
  ka_chat_public_key :: bytes
  ka_chat_private_key :: bytes
  ka_join_token :: bytes

record MemberToken =
  kt_conversation_id :: bytes
  kt_member_fp :: string
  kt_token :: bytes

record Introduced =
  kn_fp :: string
  kn_bundle :: bytes
  kn_issued_at :: int
  kn_introduced_by :: string
  kn_first_seen :: int

record IssuedToken =
  ks_hash :: bytes
  ks_label :: string
  ks_created_at :: int
  ks_bound_fp :: string
  ks_revoked :: bool

record Receipts =
  kr_conversation_id :: bytes
  kr_delivery :: bool
  kr_read :: bool

record Contents =
  kc_archives :: "ArchiveItem list"
  kc_verified :: "string list"
  kc_member_tokens :: "MemberToken list"
  kc_introduced :: "Introduced list"
  kc_issued_tokens :: "IssuedToken list"
  kc_receipts :: "Receipts list"

definition put_text :: "bytes \<Rightarrow> string \<Rightarrow> bytes thrown" where
  "put_text b s = (if length s > MAX_TEXT then Inl ''A keyring entry is too long'' else Inr (write_blob b (bytes_of_string s)))"

text \<open>A loop that appends the items of a list, and stops where appending one throws.\<close>

definition put_each :: "(bytes \<Rightarrow> 'a \<Rightarrow> bytes thrown) \<Rightarrow> bytes \<Rightarrow> 'a list \<Rightarrow> bytes thrown" where
  "put_each put b xs = foldl (\<lambda>t x. and_then t (\<lambda>b. put b x)) (Inr (write_u32 b (word_of_nat (length xs)))) xs"

definition put_archive :: "bytes \<Rightarrow> ArchiveItem \<Rightarrow> bytes thrown" where
  "put_archive b a =
    and_then (put_text (write_blob b (ka_conversation_id a)) (ka_relay_address a)) (\<lambda>b.
      let b = write_blob b (ka_relay_id a); b = write_u32 b (word_of_int (ka_role a)); b = write_u32 b (word_of_int (ka_state a));
          b = write_blob b (ka_archive_key a); b = write_blob b (ka_chat_public_key a); b = write_blob b (ka_chat_private_key a);
          b = write_blob b (ka_join_token a) in Inr b)"

definition put_member_token :: "bytes \<Rightarrow> MemberToken \<Rightarrow> bytes thrown" where
  "put_member_token b t =
    and_then (put_text (write_blob b (kt_conversation_id t)) (kt_member_fp t)) (\<lambda>b. Inr (write_blob b (kt_token t)))"

definition put_introduced :: "bytes \<Rightarrow> Introduced \<Rightarrow> bytes thrown" where
  "put_introduced b i =
    and_then (put_text b (kn_fp i)) (\<lambda>b.
    and_then (put_text (write_u64 (write_blob b (kn_bundle i)) (word_of_int (kn_issued_at i))) (kn_introduced_by i)) (\<lambda>b.
      Inr (write_u64 b (word_of_int (kn_first_seen i)))))"

definition put_issued_token :: "bytes \<Rightarrow> IssuedToken \<Rightarrow> bytes thrown" where
  "put_issued_token b t =
    and_then (put_text (write_blob b (ks_hash t)) (ks_label t)) (\<lambda>b.
    and_then (put_text (write_u64 b (word_of_int (ks_created_at t))) (ks_bound_fp t)) (\<lambda>b.
      Inr (write_u32 b (if ks_revoked t then 1 else 0))))"

definition put_receipts :: "bytes \<Rightarrow> Receipts \<Rightarrow> bytes thrown" where
  "put_receipts b r =
    Inr (write_u32 (write_blob b (kr_conversation_id r)) ((if kr_delivery r then 1 else 0) OR (if kr_read r then 2 else 0)))"

definition serialize_keyring :: "Contents \<Rightarrow> bytes thrown" where
  "serialize_keyring c =
    (let b = []; b = write_string b KEYRING_MAGIC_LABEL; b = write_u32 b KEYRING_VERSION in
     and_then (put_each put_archive b (kc_archives c)) (\<lambda>b.
     and_then (put_each put_text b (kc_verified c)) (\<lambda>b.
     and_then (put_each put_member_token b (kc_member_tokens c)) (\<lambda>b.
     and_then (put_each put_introduced b (kc_introduced c)) (\<lambda>b.
     and_then (put_each put_issued_token b (kc_issued_tokens c)) (\<lambda>b.
       put_each put_receipts b (kc_receipts c)))))))"

definition reader_blob :: "nat \<Rightarrow> nat \<Rightarrow> bool \<Rightarrow> bytes \<Rightarrow> nat \<Rightarrow> (bytes \<times> nat) option" where
  "reader_blob mx exact allow_empty d off =
    do { (v, off) \<leftarrow> read_blob mx d off;
         if exact \<noteq> 0 \<and> \<not> (length v = exact \<or> allow_empty \<and> v = []) then None else Some (v, off) }"

definition reader_count :: "nat \<Rightarrow> bytes \<Rightarrow> nat \<Rightarrow> (u32 \<times> nat) option" where
  "reader_count mx d off =
    do { (n, off) \<leftarrow> read_u32 d off;
         if unat n > mx \<or> unat n * 4 > length d - min off (length d) then None else Some (n, off) }"

definition read_each :: "(bytes \<Rightarrow> nat \<Rightarrow> ('a \<times> nat) option) \<Rightarrow> nat \<Rightarrow> bytes \<Rightarrow> nat \<Rightarrow> ('a list \<times> nat) option" where
  "read_each rd mx d off = do { (n, off) \<leftarrow> reader_count mx d off; read_loop rd (\<lambda>_ _. True) (unat n) d off [] }"

definition read_archive_item :: "bytes \<Rightarrow> nat \<Rightarrow> (ArchiveItem \<times> nat) option" where
  "read_archive_item d off =
    do { (conv, off) \<leftarrow> reader_blob 32 16 False d off;
         (address, off) \<leftarrow> read_string 255 d off;
         (relay, off) \<leftarrow> reader_blob 32 32 False d off;
         (role, off) \<leftarrow> read_u32 d off;
         (state, off) \<leftarrow> read_u32 d off;
         (key, off) \<leftarrow> reader_blob 32 32 False d off;
         (public, off) \<leftarrow> read_blob KEYRING_MAX_KEY_BLOB d off;
         (private, off) \<leftarrow> read_blob KEYRING_MAX_KEY_BLOB d off;
         (join, off) \<leftarrow> reader_blob 32 32 True d off;
         if address = [] \<or> public = [] \<or> private = [] \<or> role \<noteq> 1 \<and> role \<noteq> 2 \<or> state > 2 then None
         else Some (\<lparr> ka_conversation_id = conv, ka_relay_address = address, ka_relay_id = relay, ka_role = sint role, ka_state = sint state,
                      ka_archive_key = key, ka_chat_public_key = public, ka_chat_private_key = private, ka_join_token = join \<rparr>, off) }"

definition read_member_token :: "bytes \<Rightarrow> nat \<Rightarrow> (MemberToken \<times> nat) option" where
  "read_member_token d off =
    do { (conv, off) \<leftarrow> reader_blob 32 16 False d off;
         (fp, off) \<leftarrow> read_string 64 d off;
         (token, off) \<leftarrow> reader_blob 32 32 False d off;
         Some (\<lparr> kt_conversation_id = conv, kt_member_fp = fp, kt_token = token \<rparr>, off) }"

definition read_introduced_item :: "bytes \<Rightarrow> nat \<Rightarrow> (Introduced \<times> nat) option" where
  "read_introduced_item d off =
    do { (fp, off) \<leftarrow> read_string 64 d off;
         (bundle, off) \<leftarrow> read_blob MAX_BUNDLE d off;
         (issued, off) \<leftarrow> read_u64 d off;
         (introducer, off) \<leftarrow> read_string 64 d off;
         (first, off) \<leftarrow> read_u64 d off;
         if bundle = [] then None
         else Some (\<lparr> kn_fp = fp, kn_bundle = bundle, kn_issued_at = sint issued, kn_introduced_by = introducer, kn_first_seen = sint first \<rparr>, off) }"

definition read_issued_token :: "bytes \<Rightarrow> nat \<Rightarrow> (IssuedToken \<times> nat) option" where
  "read_issued_token d off =
    do { (hash, off) \<leftarrow> reader_blob 32 32 False d off;
         (label, off) \<leftarrow> read_string MAX_TEXT d off;
         (created, off) \<leftarrow> read_u64 d off;
         (bound, off) \<leftarrow> read_string 64 d off;
         (revoked, off) \<leftarrow> read_u32 d off;
         if revoked > 1 then None
         else Some (\<lparr> ks_hash = hash, ks_label = label, ks_created_at = sint created, ks_bound_fp = bound, ks_revoked = (revoked = 1) \<rparr>, off) }"

definition read_receipts :: "bytes \<Rightarrow> nat \<Rightarrow> (Receipts \<times> nat) option" where
  "read_receipts d off =
    do { (conv, off) \<leftarrow> reader_blob 32 16 False d off;
         (flags, off) \<leftarrow> read_u32 d off;
         if flags > 3 then None
         else Some (\<lparr> kr_conversation_id = conv, kr_delivery = (flags AND 1 \<noteq> 0), kr_read = (flags AND 2 \<noteq> 0) \<rparr>, off) }"

definition parse_keyring :: "bytes \<Rightarrow> Contents option" where
  "parse_keyring d =
    do { (label, off) \<leftarrow> read_string 64 d 0;
         if label \<noteq> KEYRING_MAGIC_LABEL then None
         else do {
           (version, off) \<leftarrow> read_u32 d off;
           if version \<noteq> KEYRING_VERSION then None
           else do {
             (archives, off) \<leftarrow> read_each read_archive_item KEYRING_MAX_ARCHIVES d off;
             (verified, off) \<leftarrow> read_each (read_string 64) MAX_ENTRIES d off;
             (tokens, off) \<leftarrow> read_each read_member_token MAX_ENTRIES d off;
             (introduced, off) \<leftarrow> read_each read_introduced_item MAX_ENTRIES d off;
             (issued, off) \<leftarrow> read_each read_issued_token MAX_ENTRIES d off;
             (receipts, off) \<leftarrow> read_each read_receipts MAX_ENTRIES d off;
             if off \<noteq> length d then None
             else Some \<lparr> kc_archives = archives, kc_verified = verified, kc_member_tokens = tokens, kc_introduced = introduced,
                         kc_issued_tokens = issued, kc_receipts = receipts \<rparr> } } }"

definition keyring_aad :: "bytes \<Rightarrow> bytes" where
  "keyring_aad mailbox_id = write_blob (write_string [] KEYRING_AAD_LABEL) mailbox_id"

definition seal_keyring :: "crypto_lib \<Rightarrow> bytes \<Rightarrow> bytes \<Rightarrow> bytes \<Rightarrow> bytes \<Rightarrow> bytes thrown" where
  "seal_keyring L nonce key mailbox_id plaintext =
    and_then (encrypt L key nonce plaintext (keyring_aad mailbox_id)) (\<lambda>ct. Inr (nonce @ ct))"

definition open_keyring :: "crypto_lib \<Rightarrow> bytes \<Rightarrow> bytes \<Rightarrow> bytes \<Rightarrow> bytes option" where
  "open_keyring L key mailbox_id sealed =
    (if length key \<noteq> 32 \<or> length sealed < 12 + 16 then None
     else case decrypt L key (take 12 sealed) (drop 12 sealed) (keyring_aad mailbox_id) of Inl _ \<Rightarrow> None | Inr r \<Rightarrow> r)"

section \<open>Counted lists of items\<close>

definition write_each :: "(bytes \<Rightarrow> 'a \<Rightarrow> bytes) \<Rightarrow> bytes \<Rightarrow> 'a list \<Rightarrow> bytes" where
  "write_each wr b xs = foldl wr (write_u32 b (word_of_nat (length xs))) xs"

text \<open>
  An item that takes at least four bytes: then the reader's bound on a count never refuses what was written.
\<close>

locale sized_item = cursor_item rd wr ok for rd :: "bytes \<Rightarrow> nat \<Rightarrow> ('a \<times> nat) option" and wr ok +
  assumes wr_size: "length b + 4 \<le> length (wr b v)"
begin

lemma foldl_wr_size: "length b + 4 * length xs \<le> length (foldl wr b xs)"
proof (induction xs arbitrary: b)
  case (Cons x xs)
  have "length b + 4 + 4 * length xs \<le> length (wr b x) + 4 * length xs" using wr_size [of b x] by simp
  also have "\<dots> \<le> length (foldl wr (wr b x) xs)" by (rule Cons.IH)
  finally show ?case by simp
qed simp

lemma read_each_iff:
  assumes "prefix b inp" and "mx < 2 ^ 32"
  shows "read_each rd mx inp (length b) = Some (xs, off) \<longleftrightarrow>
    (length xs \<le> mx \<and> (\<forall>x\<in>set xs. ok x)) \<and> off = length (write_each wr b xs) \<and> prefix (write_each wr b xs) inp" (is "?l \<longleftrightarrow> ?r")
proof
  assume ?l
  then obtain n where n: "unat n \<le> mx" "prefix (write_u32 b n) inp" "read_loop rd (\<lambda>_ _. True) (unat n) inp (length (write_u32 b n)) [] = Some (xs, off)"
    using assms(1) by (auto simp: read_each_def reader_count_def bind_eq_Some_conv read_u32_iff not_less split: if_splits)
  from n(3) loop_Nil_iff [OF n(2)] have "length xs = unat n" "\<forall>x\<in>set xs. ok x" "off = length (foldl wr (write_u32 b n) xs)"
    "prefix (foldl wr (write_u32 b n) xs) inp" by auto
  moreover from this have "word_of_nat (length xs) = n" by simp
  ultimately show ?r using n(1) by (simp add: write_each_def)
next
  assume r: ?r
  let ?n = "word_of_nat (length xs) :: u32"
  have n: "unat ?n = length xs" using r assms(2) by (simp add: unat_of_nat)
  have pre: "prefix (write_u32 b ?n) inp"
    using r foldl_wr_extends unfolding write_each_def by (meson prefix_order.trans)
  have "length (write_u32 b ?n) + 4 * length xs \<le> length inp"
    using foldl_wr_size [of "write_u32 b ?n" xs] r prefix_length_le [of "write_each wr b xs" inp] unfolding write_each_def by simp
  then have "reader_count mx inp (length b) = Some (?n, length (write_u32 b ?n))"
    using r n pre read_u32_iff [OF assms(1), of ?n "length (write_u32 b ?n)"] by (auto simp: reader_count_def)
  moreover have "read_loop rd (\<lambda>_ _. True) (length xs) inp (length (write_u32 b ?n)) [] = Some (xs, off)"
    unfolding loop_Nil_iff [OF pre] using r by (simp add: write_each_def)
  ultimately show ?l by (simp add: read_each_def n)
qed

lemma prefix_write_each: "prefix b (write_each wr b xs)"
  unfolding write_each_def by (meson foldl_wr_extends prefix_order.trans prefix_write_u32)

lemma put_each_wr:
  assumes "\<And>b x. x \<in> set xs \<Longrightarrow> put b x = Inr (wr b x)"
  shows "put_each put b xs = Inr (write_each wr b xs)"
proof -
  have "foldl (\<lambda>t x. and_then t (\<lambda>b. put b x)) (Inr b) xs = Inr (foldl wr b xs)" for b
    using assms by (induction xs arbitrary: b) (simp_all add: and_then_def)
  then show ?thesis by (simp add: put_each_def write_each_def)
qed

end

section \<open>The items\<close>

definition write_archive_item :: "bytes \<Rightarrow> ArchiveItem \<Rightarrow> bytes" where
  "write_archive_item b a =
    (let b = write_blob b (ka_conversation_id a); b = write_string b (ka_relay_address a); b = write_blob b (ka_relay_id a);
         b = write_u32 b (word_of_int (ka_role a)); b = write_u32 b (word_of_int (ka_state a)); b = write_blob b (ka_archive_key a);
         b = write_blob b (ka_chat_public_key a); b = write_blob b (ka_chat_private_key a) in write_blob b (ka_join_token a))"

definition archive_item_ok :: "ArchiveItem \<Rightarrow> bool" where
  "archive_item_ok a \<longleftrightarrow> length (ka_conversation_id a) = 16 \<and> ka_relay_address a \<noteq> [] \<and> length (ka_relay_address a) \<le> 255 \<and>
     length (ka_relay_id a) = 32 \<and> ka_role a \<in> {1, 2} \<and> ka_state a \<in> {0, 1, 2} \<and> length (ka_archive_key a) = 32 \<and>
     ka_chat_public_key a \<noteq> [] \<and> length (ka_chat_public_key a) \<le> KEYRING_MAX_KEY_BLOB \<and>
     ka_chat_private_key a \<noteq> [] \<and> length (ka_chat_private_key a) \<le> KEYRING_MAX_KEY_BLOB \<and> (length (ka_join_token a) = 32 \<or> ka_join_token a = [])"

definition write_member_token :: "bytes \<Rightarrow> MemberToken \<Rightarrow> bytes" where
  "write_member_token b t = write_blob (write_string (write_blob b (kt_conversation_id t)) (kt_member_fp t)) (kt_token t)"

definition member_token_ok :: "MemberToken \<Rightarrow> bool" where
  "member_token_ok t \<longleftrightarrow> length (kt_conversation_id t) = 16 \<and> length (kt_member_fp t) \<le> 64 \<and> length (kt_token t) = 32"

definition fits_int64 :: "int \<Rightarrow> bool" where
  "fits_int64 i \<longleftrightarrow> - (2 ^ 63) \<le> i \<and> i < 2 ^ 63"

definition write_introduced :: "bytes \<Rightarrow> Introduced \<Rightarrow> bytes" where
  "write_introduced b i =
    (let b = write_string b (kn_fp i); b = write_blob b (kn_bundle i); b = write_u64 b (word_of_int (kn_issued_at i));
         b = write_string b (kn_introduced_by i) in write_u64 b (word_of_int (kn_first_seen i)))"

definition introduced_ok :: "Introduced \<Rightarrow> bool" where
  "introduced_ok i \<longleftrightarrow> length (kn_fp i) \<le> 64 \<and> kn_bundle i \<noteq> [] \<and> length (kn_bundle i) \<le> MAX_BUNDLE \<and>
     fits_int64 (kn_issued_at i) \<and> length (kn_introduced_by i) \<le> 64 \<and> fits_int64 (kn_first_seen i)"

definition write_issued_token :: "bytes \<Rightarrow> IssuedToken \<Rightarrow> bytes" where
  "write_issued_token b t =
    (let b = write_blob b (ks_hash t); b = write_string b (ks_label t); b = write_u64 b (word_of_int (ks_created_at t));
         b = write_string b (ks_bound_fp t) in write_u32 b (if ks_revoked t then 1 else 0))"

definition issued_token_ok :: "IssuedToken \<Rightarrow> bool" where
  "issued_token_ok t \<longleftrightarrow> length (ks_hash t) = 32 \<and> length (ks_label t) \<le> MAX_TEXT \<and> fits_int64 (ks_created_at t) \<and> length (ks_bound_fp t) \<le> 64"

definition write_receipts :: "bytes \<Rightarrow> Receipts \<Rightarrow> bytes" where
  "write_receipts b r = write_u32 (write_blob b (kr_conversation_id r)) ((if kr_delivery r then 1 else 0) OR (if kr_read r then 2 else 0))"

definition receipts_ok :: "Receipts \<Rightarrow> bool" where
  "receipts_ok r \<longleftrightarrow> length (kr_conversation_id r) = 16"

lemma reader_blob_iff:
  assumes "prefix b inp" and "mx < 2 ^ 32"
  shows "reader_blob mx exact ae inp (length b) = Some (v, off) \<longleftrightarrow>
    (length v \<le> mx \<and> (exact = 0 \<or> length v = exact \<or> ae \<and> v = [])) \<and> off = length (write_blob b v) \<and> prefix (write_blob b v) inp"
proof -
  have "reader_blob mx exact ae inp (length b) = Some (v, off) \<longleftrightarrow>
      read_blob mx inp (length b) = Some (v, off) \<and> (exact = 0 \<or> length v = exact \<or> ae \<and> v = [])"
    by (cases "read_blob mx inp (length b)") (auto simp: reader_blob_def split: if_splits)
  then show ?thesis using assms read_blob_iff [OF assms(1), of mx v off] by auto
qed

lemma sint_eq_iff64: "sint (w :: u64) = i \<longleftrightarrow> w = word_of_int i \<and> fits_int64 i"
proof
  assume "sint w = i"
  then show "w = word_of_int i \<and> fits_int64 i" using sint_ge [of w] sint_lt [of w] by (auto simp: fits_int64_def)
next
  assume "w = word_of_int i \<and> fits_int64 i"
  then show "sint w = i" by (simp add: fits_int64_def sint_sbintrunc' signed_take_bit_int_eq_self)
qed

definition fits_int32 :: "int \<Rightarrow> bool" where
  "fits_int32 i \<longleftrightarrow> - (2 ^ 31) \<le> i \<and> i < 2 ^ 31"

lemma sint_eq_iff32: "sint (w :: u32) = i \<longleftrightarrow> w = word_of_int i \<and> fits_int32 i"
proof
  assume "sint w = i"
  then show "w = word_of_int i \<and> fits_int32 i" using sint_ge [of w] sint_lt [of w] by (auto simp: fits_int32_def)
next
  assume "w = word_of_int i \<and> fits_int32 i"
  then show "sint w = i" by (simp add: fits_int32_def sint_sbintrunc' signed_take_bit_int_eq_self)
qed

lemma word32_small: "fits_int32 i \<Longrightarrow> (word_of_int i :: u32) = word_of_int k \<longleftrightarrow> i = k" if "fits_int32 k"
  using that sint_eq_iff32 by metis

lemma not_above_2: "\<not> w > (2 :: u32) \<longleftrightarrow> w = 0 \<or> w = 1 \<or> w = 2"
proof
  assume "\<not> w > 2"
  then have "unat w \<le> 2" by (simp add: word_less_nat_alt)
  then have "unat w = unat (0 :: u32) \<or> unat w = unat (1 :: u32) \<or> unat w = unat (2 :: u32)" by simp linarith
  then show "w = 0 \<or> w = 1 \<or> w = 2" by (simp only: word_unat_eq_iff)
qed auto

lemma role_and_state:
  assumes "fits_int32 i"
  shows "(word_of_int i :: u32) = 1 \<longleftrightarrow> i = 1" "(word_of_int i :: u32) = 2 \<longleftrightarrow> i = 2" "\<not> (word_of_int i :: u32) > 2 \<longleftrightarrow> i = 0 \<or> i = 1 \<or> i = 2"
  using word32_small [of 0, OF _ assms] word32_small [of 1, OF _ assms] word32_small [of 2, OF _ assms]
  by (simp_all add: not_above_2) (simp_all add: fits_int32_def)

lemma role_fits: "i = 1 \<or> i = 2 \<Longrightarrow> fits_int32 i \<and> ((word_of_int i :: u32) = 1 \<or> (word_of_int i :: u32) = 2)"
  by (auto simp: fits_int32_def)

lemma state_fits: "i = 0 \<or> i = 1 \<or> i = 2 \<Longrightarrow> fits_int32 i \<and> \<not> (word_of_int i :: u32) > 2"
  by (auto simp: fits_int32_def)

lemma prefix_writtenD:
  "prefix (write_u32 b v) inp \<Longrightarrow> prefix b inp" "prefix (write_u64 b w) inp \<Longrightarrow> prefix b inp"
  "prefix (write_blob b x) inp \<Longrightarrow> prefix b inp" "prefix (write_string b s) inp \<Longrightarrow> prefix b inp"
  by (auto simp: write_u32_split write_u64_append write_blob_append write_string_blob dest: append_prefixD)

lemma read_each_sizes: "length b + 4 \<le> length (write_archive_item b a)" "length b + 4 \<le> length (write_member_token b t)"
  "length b + 4 \<le> length (write_introduced b i)" "length b + 4 \<le> length (write_issued_token b s)" "length b + 4 \<le> length (write_receipts b r)"
  "length b + 4 \<le> length (write_string b z)"
  by (simp_all add: write_archive_item_def write_member_token_def write_introduced_def write_issued_token_def write_receipts_def Let_def
      write_u32_split write_u64_append write_blob_append write_string_blob)

lemma bind_split:
  "Option.bind (read_string mx d off) f = Some z \<longleftrightarrow> (\<exists>x. read_string mx d off = Some x \<and> f x = Some z)"
  "Option.bind (reader_blob mx e a d off) g = Some z \<longleftrightarrow> (\<exists>x. reader_blob mx e a d off = Some x \<and> g x = Some z)"
  "Option.bind (read_u64 d off) h = Some z \<longleftrightarrow> (\<exists>x. read_u64 d off = Some x \<and> h x = Some z)"
  by (simp_all add: bind_eq_Some_conv)

lemma prefix_upto: "prefix z inp \<Longrightarrow> prefix x z \<Longrightarrow> prefix x inp"
  by (rule prefix_order.trans)

interpretation archive_items: sized_item read_archive_item write_archive_item archive_item_ok
proof
  show "prefix b (write_archive_item b a)" for b a by (simp add: write_archive_item_def Let_def prefix_intro)
  fix b inp :: bytes and a off
  assume "prefix b inp"
  then show "read_archive_item inp (length b) = Some (a, off) \<longleftrightarrow>
      archive_item_ok a \<and> off = length (write_archive_item b a) \<and> prefix (write_archive_item b a) inp"
    using prefix_upto [of "write_archive_item b a" inp]
    unfolding read_archive_item_def write_archive_item_def archive_item_ok_def Let_def
    apply (cases a) apply (simp add: bind_eq_Some_conv read_iff reader_blob_iff if_None_eq_Some sint_eq_iff32 split del: if_split cong: conj_cong)
    apply (rule iffI; elim conjE)
    apply (simp add: role_and_state)
    apply (intro conjI)
    apply (simp_all add: role_fits state_fits prefix_intro)
    apply auto
    done
qed (rule read_each_sizes)

interpretation member_tokens: sized_item read_member_token write_member_token member_token_ok
proof
  show "prefix b (write_member_token b t)" for b t by (simp add: write_member_token_def prefix_intro)
  fix b inp :: bytes and t off
  assume "prefix b inp"
  then show "read_member_token inp (length b) = Some (t, off) \<longleftrightarrow>
      member_token_ok t \<and> off = length (write_member_token b t) \<and> prefix (write_member_token b t) inp"
    using prefix_upto [of "write_member_token b t" inp] unfolding read_member_token_def write_member_token_def member_token_ok_def
    by (cases t) (simp add: bind_eq_Some_conv read_iff reader_blob_iff cong: conj_cong, rule iffI; elim conjE; simp add: prefix_intro)
qed (rule read_each_sizes)

interpretation introduced_items: sized_item read_introduced_item write_introduced introduced_ok
proof
  show "prefix b (write_introduced b i)" for b i by (simp add: write_introduced_def Let_def prefix_intro)
  fix b inp :: bytes and i off
  assume "prefix b inp"
  then show "read_introduced_item inp (length b) = Some (i, off) \<longleftrightarrow>
      introduced_ok i \<and> off = length (write_introduced b i) \<and> prefix (write_introduced b i) inp"
    using prefix_upto [of "write_introduced b i" inp] unfolding read_introduced_item_def write_introduced_def introduced_ok_def Let_def
    by (cases i) (simp add: bind_eq_Some_conv read_iff if_None_eq_Some sint_eq_iff64 split del: if_split cong: conj_cong,
        rule iffI; elim conjE; simp add: prefix_intro)
qed (rule read_each_sizes)

lemma not_above_1: "\<not> w > (1 :: u32) \<longleftrightarrow> w = 0 \<or> w = 1"
proof
  assume "\<not> w > 1"
  then have "unat w \<le> 1" by (simp add: word_less_nat_alt)
  then have "unat w = unat (0 :: u32) \<or> unat w = unat (1 :: u32)" by simp linarith
  then show "w = 0 \<or> w = 1" by (simp only: word_unat_eq_iff)
qed auto

lemma revoked_word: "\<not> w > (1 :: u32) \<and> (w = 1) = r \<longleftrightarrow> w = (if r then 1 else 0)"
  unfolding not_above_1 by (cases r; cases "w = 1") simp_all

lemma not_above_3: "\<not> w > (3 :: u32) \<longleftrightarrow> w = 0 \<or> w = 1 \<or> w = 2 \<or> w = 3"
proof
  assume "\<not> w > 3"
  then have "unat w \<le> 3" by (simp add: word_less_nat_alt)
  then have "unat w = unat (0 :: u32) \<or> unat w = unat (1 :: u32) \<or> unat w = unat (2 :: u32) \<or> unat w = unat (3 :: u32)" by simp linarith
  then show "w = 0 \<or> w = 1 \<or> w = 2 \<or> w = 3" by (simp only: word_unat_eq_iff)
qed auto

lemma flags_word: "\<not> w > (3 :: u32) \<and> (w AND 1 \<noteq> 0) = x \<and> (w AND 2 \<noteq> 0) = y \<longleftrightarrow> w = (if x then 1 else 0) OR (if y then 2 else 0)"
proof
  assume "\<not> w > 3 \<and> (w AND 1 \<noteq> 0) = x \<and> (w AND 2 \<noteq> 0) = y"
  then have "w = 0 \<or> w = 1 \<or> w = 2 \<or> w = 3" and "x = (w AND 1 \<noteq> 0)" and "y = (w AND 2 \<noteq> 0)" by (simp_all only: not_above_3)
  then show "w = (if x then 1 else 0) OR (if y then 2 else 0)" by (elim disjE) simp_all
qed (cases x; cases y; simp)

lemma read_revoked_iff:
  assumes "prefix b inp"
  shows "Option.bind (read_u32 inp (length b)) (\<lambda>(revoked, off). if revoked > 1 then None
      else Some (\<lparr> ks_hash = h, ks_label = l, ks_created_at = c, ks_bound_fp = f, ks_revoked = (revoked = 1) \<rparr>, off)) = Some (t, off') \<longleftrightarrow>
    (\<exists>r. \<lparr> ks_hash = h, ks_label = l, ks_created_at = c, ks_bound_fp = f, ks_revoked = r \<rparr> = t \<and>
       off' = length (write_u32 b (if r then 1 else 0)) \<and> prefix (write_u32 b (if r then 1 else 0)) inp)" (is "?l \<longleftrightarrow> ?r")
proof
  assume ?l
  then obtain w where w: "\<not> w > 1" "t = \<lparr> ks_hash = h, ks_label = l, ks_created_at = c, ks_bound_fp = f, ks_revoked = (w = 1) \<rparr>"
    "off' = length (write_u32 b w)" "prefix (write_u32 b w) inp"
    by (auto simp: bind_eq_Some_conv read_u32_iff [OF assms] split: if_splits)
  from w(1) have e: "(if w = 1 then 1 else 0) = w" using revoked_word [of w "w = 1"] by simp
  show ?r by (rule exI [of _ "w = 1"], unfold e) (use w(2-4) in simp)
next
  assume ?r
  then obtain r where r: "\<lparr> ks_hash = h, ks_label = l, ks_created_at = c, ks_bound_fp = f, ks_revoked = r \<rparr> = t"
    "off' = length (write_u32 b (if r then 1 else 0))" "prefix (write_u32 b (if r then 1 else 0)) inp" by blast
  then have "read_u32 inp (length b) = Some (if r then 1 else 0, off')" by (simp add: read_u32_iff [OF assms])
  then show ?l using r(1) by (cases r) simp_all
qed

lemma read_flags_iff:
  assumes "prefix b inp"
  shows "Option.bind (read_u32 inp (length b)) (\<lambda>(flags, off). if flags > 3 then None
      else Some (\<lparr> kr_conversation_id = c, kr_delivery = (flags AND 1 \<noteq> 0), kr_read = (flags AND 2 \<noteq> 0) \<rparr>, off)) = Some (r, off') \<longleftrightarrow>
    (\<exists>x y. r = \<lparr> kr_conversation_id = c, kr_delivery = x, kr_read = y \<rparr> \<and>
       off' = length (write_u32 b ((if x then 1 else 0) OR (if y then 2 else 0))) \<and> prefix (write_u32 b ((if x then 1 else 0) OR (if y then 2 else 0))) inp)"
    (is "?l \<longleftrightarrow> ?r")
proof
  assume ?l
  then obtain w where w: "\<not> w > 3" "r = \<lparr> kr_conversation_id = c, kr_delivery = (w AND 1 \<noteq> 0), kr_read = (w AND 2 \<noteq> 0) \<rparr>"
    "off' = length (write_u32 b w)" "prefix (write_u32 b w) inp"
    by (auto simp: bind_eq_Some_conv read_u32_iff [OF assms] split: if_splits)
  from w(1) have e: "(if w AND 1 \<noteq> 0 then 1 else 0) OR (if w AND 2 \<noteq> 0 then 2 else 0) = w"
    using flags_word [of w "w AND 1 \<noteq> 0" "w AND 2 \<noteq> 0"] by argo
  show ?r by (rule exI [of _ "w AND 1 \<noteq> 0"], rule exI [of _ "w AND 2 \<noteq> 0"], unfold e) (use w(2-4) in simp)
next
  assume ?r
  then obtain x y where r: "r = \<lparr> kr_conversation_id = c, kr_delivery = x, kr_read = y \<rparr>"
    "off' = length (write_u32 b ((if x then 1 else 0) OR (if y then 2 else 0)))" "prefix (write_u32 b ((if x then 1 else 0) OR (if y then 2 else 0))) inp" by blast
  then have "read_u32 inp (length b) = Some ((if x then 1 else 0) OR (if y then 2 else 0), off')" by (simp add: read_u32_iff [OF assms])
  then show ?l using r(1) by (cases x; cases y) simp_all
qed

interpretation issued_items: sized_item read_issued_token write_issued_token issued_token_ok
proof
  show "prefix b (write_issued_token b t)" for b t by (simp add: write_issued_token_def Let_def prefix_intro)
  fix b inp :: bytes and t off
  assume "prefix b inp"
  then show "read_issued_token inp (length b) = Some (t, off) \<longleftrightarrow>
      issued_token_ok t \<and> off = length (write_issued_token b t) \<and> prefix (write_issued_token b t) inp"
    using prefix_upto [of "write_issued_token b t" inp] unfolding read_issued_token_def write_issued_token_def issued_token_ok_def Let_def
    by (cases t) (simp add: bind_split read_revoked_iff read_iff reader_blob_iff sint_eq_iff64 split del: if_split cong: conj_cong,
        rule iffI; elim conjE; simp add: prefix_intro)
qed (rule read_each_sizes)

interpretation receipts_items: sized_item read_receipts write_receipts receipts_ok
proof
  show "prefix b (write_receipts b r)" for b r by (simp add: write_receipts_def prefix_intro)
  fix b inp :: bytes and r off
  assume "prefix b inp"
  then show "read_receipts inp (length b) = Some (r, off) \<longleftrightarrow>
      receipts_ok r \<and> off = length (write_receipts b r) \<and> prefix (write_receipts b r) inp"
    using prefix_upto [of "write_receipts b r" inp] unfolding read_receipts_def write_receipts_def receipts_ok_def
    by (cases r) (simp add: bind_split read_flags_iff read_iff reader_blob_iff split del: if_split cong: conj_cong,
        rule iffI; elim conjE; simp add: prefix_intro)
qed (rule read_each_sizes)

interpretation verified_items: sized_item "read_string 64" write_string "\<lambda>s. length s \<le> 64 \<and> length s < 2 ^ 32"
  by unfold_locales (rule read_each_sizes)

section \<open>The whole keyring\<close>

definition keyring_ok :: "Contents \<Rightarrow> bool" where
  "keyring_ok c \<longleftrightarrow> length (kc_archives c) \<le> KEYRING_MAX_ARCHIVES \<and> (\<forall>a\<in>set (kc_archives c). archive_item_ok a) \<and>
     length (kc_verified c) \<le> MAX_ENTRIES \<and> (\<forall>v\<in>set (kc_verified c). length v \<le> 64) \<and>
     length (kc_member_tokens c) \<le> MAX_ENTRIES \<and> (\<forall>t\<in>set (kc_member_tokens c). member_token_ok t) \<and>
     length (kc_introduced c) \<le> MAX_ENTRIES \<and> (\<forall>i\<in>set (kc_introduced c). introduced_ok i) \<and>
     length (kc_issued_tokens c) \<le> MAX_ENTRIES \<and> (\<forall>t\<in>set (kc_issued_tokens c). issued_token_ok t) \<and>
     length (kc_receipts c) \<le> MAX_ENTRIES \<and> (\<forall>r\<in>set (kc_receipts c). receipts_ok r)"

definition keyring_bytes :: "Contents \<Rightarrow> bytes" where
  "keyring_bytes c =
    (let b = write_u32 (write_string [] KEYRING_MAGIC_LABEL) KEYRING_VERSION; b = write_each write_archive_item b (kc_archives c);
         b = write_each write_string b (kc_verified c); b = write_each write_member_token b (kc_member_tokens c);
         b = write_each write_introduced b (kc_introduced c); b = write_each write_issued_token b (kc_issued_tokens c) in
     write_each write_receipts b (kc_receipts c))"

lemmas read_lists_iff =
  archive_items.read_each_iff verified_items.read_each_iff member_tokens.read_each_iff introduced_items.read_each_iff
  issued_items.read_each_iff receipts_items.read_each_iff

lemma prefix_write_items [prefix_intro]:
  "prefix a b \<Longrightarrow> prefix a (write_each write_archive_item b x1)" "prefix a b \<Longrightarrow> prefix a (write_each write_string b x2)"
  "prefix a b \<Longrightarrow> prefix a (write_each write_member_token b x3)" "prefix a b \<Longrightarrow> prefix a (write_each write_introduced b x4)"
  "prefix a b \<Longrightarrow> prefix a (write_each write_issued_token b x5)" "prefix a b \<Longrightarrow> prefix a (write_each write_receipts b x6)"
  using archive_items.prefix_write_each verified_items.prefix_write_each member_tokens.prefix_write_each introduced_items.prefix_write_each
    issued_items.prefix_write_each receipts_items.prefix_write_each by (meson prefix_order.trans)+

lemma parse_keyring_iff: "parse_keyring d = Some c \<longleftrightarrow> keyring_ok c \<and> d = keyring_bytes c"
  unfolding parse_keyring_def keyring_bytes_def keyring_ok_def Let_def
  by (cases c) (simp add: bind_eq_Some_conv read_iff read_lists_iff if_None_eq_Some split del: if_split cong: conj_cong,
      rule iffI; elim conjE; simp add: prefix_intro all_read)

interpretation keyring_codec: message_codec keyring_bytes parse_keyring keyring_ok
  by unfold_locales (rule parse_keyring_iff)

lemma put_items:
  "archive_item_ok a \<Longrightarrow> put_archive b a = Inr (write_archive_item b a)"
  "member_token_ok t \<Longrightarrow> put_member_token b t = Inr (write_member_token b t)"
  "introduced_ok i \<Longrightarrow> put_introduced b i = Inr (write_introduced b i)"
  "issued_token_ok s \<Longrightarrow> put_issued_token b s = Inr (write_issued_token b s)"
  "put_receipts b r = Inr (write_receipts b r)"
  "length v \<le> 64 \<Longrightarrow> put_text b v = Inr (write_string b v)"
  by (simp_all add: put_archive_def put_member_token_def put_introduced_def put_issued_token_def put_receipts_def put_text_def and_then_def Let_def
      archive_item_ok_def member_token_ok_def introduced_ok_def issued_token_ok_def
      write_archive_item_def write_member_token_def write_introduced_def write_issued_token_def write_receipts_def write_string_blob)

lemma serialize_keyring_ok:
  assumes "keyring_ok c"
  shows "serialize_keyring c = Inr (keyring_bytes c)"
  using assms unfolding serialize_keyring_def keyring_ok_def keyring_bytes_def Let_def
  by (simp add: archive_items.put_each_wr verified_items.put_each_wr member_tokens.put_each_wr introduced_items.put_each_wr
      issued_items.put_each_wr receipts_items.put_each_wr put_items and_then_def)

lemma open_seal_keyring:
  assumes "gcm_lawful L" and "seal_keyring L nonce key mailbox plain = Inr sealed"
  shows "open_keyring L key mailbox sealed = Some plain"
proof -
  from assms(2) obtain ct where ct: "encrypt L key nonce plain (keyring_aad mailbox) = Inr ct" "sealed = nonce @ ct"
    by (auto simp: seal_keyring_def and_then_Inr)
  then have "length nonce = 12" "length key = 32" by (simp_all add: encrypt_Inr)
  then show ?thesis using ct decrypt_encrypt [OF assms(1) ct(1)] encrypt_length [OF assms(1) ct(1)] by (simp add: open_keyring_def)
qed

text \<open>
  C38: A keyring comes back as it was. A keyring whose items have the sizes the program gives them is serialized without an
  error; what is sealed of it opens under the same key and mailbox and parses to the same contents.  The format is canonical:
  any bytes that parse are exactly what serializing the result gives, and only keyrings of those sizes are ever returned.
\<close>
theorem keyring_restored:
  assumes "gcm_lawful L" and "keyring_ok c" and "seal_keyring L nonce key mailbox (keyring_bytes c) = Inr sealed"
  shows "serialize_keyring c = Inr (keyring_bytes c) \<and> Option.bind (open_keyring L key mailbox sealed) parse_keyring = Some c \<and>
    (\<forall>d c'. parse_keyring d = Some c' \<longrightarrow> keyring_ok c' \<and> serialize_keyring c' = Inr d)"
  using assms(2) serialize_keyring_ok open_seal_keyring [OF assms(1, 3)] keyring_codec.dec_iff by auto

definition sample_keyring :: Contents where
  "sample_keyring = \<lparr>
     kc_archives = [\<lparr> ka_conversation_id = replicate 16 1, ka_relay_address = ''relay:7777'', ka_relay_id = replicate 32 2, ka_role = 1, ka_state = 0,
       ka_archive_key = replicate 32 3, ka_chat_public_key = [4], ka_chat_private_key = [5], ka_join_token = [] \<rparr>],
     kc_verified = [''ab''], kc_member_tokens = [], kc_introduced = [],
     kc_issued_tokens = [\<lparr> ks_hash = replicate 32 6, ks_label = ''Bob'', ks_created_at = 9, ks_bound_fp = [], ks_revoked = True \<rparr>],
     kc_receipts = [\<lparr> kr_conversation_id = replicate 16 1, kr_delivery = False, kr_read = True \<rparr>] \<rparr>"

theorem keyring_restored_witness:
  "\<exists>plain sealed. serialize_keyring sample_keyring = Inr plain \<and> seal_keyring sample_lib (replicate 12 7) (replicate 32 8) (replicate 16 9) plain = Inr sealed \<and>
     Option.bind (open_keyring sample_lib (replicate 32 8) (replicate 16 9) sealed) parse_keyring = Some sample_keyring"
proof -
  have ok: "keyring_ok sample_keyring"
    by (simp add: keyring_ok_def sample_keyring_def archive_item_ok_def issued_token_ok_def receipts_ok_def fits_int64_def)
  have "length (keyring_bytes sample_keyring) \<le> INT_MAX"
    by (simp add: keyring_bytes_def sample_keyring_def write_each_def write_archive_item_def write_issued_token_def write_receipts_def Let_def
        write_u32_split write_u64_append write_blob_append write_string_blob)
  then obtain sealed where s: "seal_keyring sample_lib (replicate 12 7) (replicate 32 8) (replicate 16 9) (keyring_bytes sample_keyring) = Inr sealed"
    by (auto simp: seal_keyring_def and_then_Inr encrypt_Inr keyring_aad_def write_blob_append write_string_blob)
  from keyring_restored [OF sample_lib_lawful ok s] s show ?thesis by blast
qed

end
