(* ===== verification/Identity_Bundle.thy ===== *)
theory Identity_Bundle
  imports Wire Crypto_Engine
begin

text \<open>
  Identity bundles (\<^verbatim>\<open>src/client/identity_bundle.cpp\<close>): the public keys of a person and where to write to them, signed with
  their own key.  A field that has been read, together with the flag that says so, is a value of an option type.  The
  parser returns the bundle, or the message it stores for its caller where it returns nothing.
\<close>

section \<open>The code\<close>

abbreviation (input) "BUNDLE_MAGIC \<equiv> (0x50514942 :: u32)"
abbreviation (input) "BUNDLE_VERSION \<equiv> (1 :: u32)"
abbreviation (input) "BUNDLE_LABEL \<equiv> ''pq-suite v3 identity bundle''"
abbreviation (input) "MAX_BODY_BYTES \<equiv> (16384 :: nat)"
abbreviation (input) "MAX_FIELDS \<equiv> (32 :: nat)"
abbreviation (input) "FIELD_SIGNING_KEY \<equiv> (1 :: u32)"
abbreviation (input) "FIELD_ENCRYPTION_KEY \<equiv> (2 :: u32)"
abbreviation (input) "FIELD_DISPLAY_NAME \<equiv> (3 :: u32)"
abbreviation (input) "FIELD_RELAY_ID \<equiv> (5 :: u32)"
abbreviation (input) "FIELD_MAILBOX_ID \<equiv> (6 :: u32)"
abbreviation (input) "FIELD_RELAY_HINT \<equiv> (16 :: u32)"
abbreviation (input) "MAX_DISPLAY_NAME_BYTES \<equiv> (64 :: nat)"
abbreviation (input) "MAX_RELAY_HINT_BYTES \<equiv> (255 :: nat)"

record IdentityBundle =
  ib_issued_at :: u64
  ib_signing_key :: bytes
  ib_encryption_key :: bytes
  ib_display_name :: string
  ib_relay_hint :: string
  ib_relay_id :: bytes
  ib_mailbox_id :: bytes
  ib_raw :: bytes

record BundleAddress =
  ba_relay_hint :: string
  ba_relay_id :: bytes
  ba_mailbox_id :: bytes

definition has_mailbox :: "IdentityBundle \<Rightarrow> bool" where
  "has_mailbox b \<longleftrightarrow> ib_relay_hint b \<noteq> [] \<and> ib_relay_id b \<noteq> [] \<and> ib_mailbox_id b \<noteq> []"

definition bundle_signing_input :: "bytes \<Rightarrow> bytes" where
  "bundle_signing_input body = write_bytes (write_string [] BUNDLE_LABEL) body (length body)"

definition write_field :: "bytes \<Rightarrow> u32 \<Rightarrow> bytes \<Rightarrow> bytes" where
  "write_field body type val = write_blob (write_u32 body type) val"

definition write_text_field :: "bytes \<Rightarrow> u32 \<Rightarrow> string \<Rightarrow> bytes" where
  "write_text_field body type val = write_field body type (bytes_of_string val)"

definition any_mailbox :: "BundleAddress \<Rightarrow> bool" where
  "any_mailbox address \<longleftrightarrow> ba_relay_id address \<noteq> [] \<or> ba_mailbox_id address \<noteq> []"

definition bundle_body :: "bytes \<Rightarrow> bytes \<Rightarrow> string \<Rightarrow> BundleAddress \<Rightarrow> u64 \<Rightarrow> bytes" where
  "bundle_body signing_public encryption_public display_name address issued_at =
    (let count = 2 + (if display_name = [] then 0 else 1) + (if ba_relay_hint address = [] then 0 else 1) + (if any_mailbox address then 2 else 0);
         body = write_u32 [] BUNDLE_MAGIC; body = write_u32 body BUNDLE_VERSION; body = write_u64 body issued_at; body = write_u32 body count;
         body = write_field body FIELD_SIGNING_KEY signing_public; body = write_field body FIELD_ENCRYPTION_KEY encryption_public;
         body = (if display_name \<noteq> [] then write_text_field body FIELD_DISPLAY_NAME display_name else body);
         body = (if any_mailbox address
                 then write_field (write_field body FIELD_RELAY_ID (ba_relay_id address)) FIELD_MAILBOX_ID (ba_mailbox_id address) else body) in
     if ba_relay_hint address \<noteq> [] then write_text_field body FIELD_RELAY_HINT (ba_relay_hint address) else body)"

definition create_identity_bundle ::
  "crypto_lib \<Rightarrow> bytes \<Rightarrow> bytes \<Rightarrow> bytes \<Rightarrow> string \<Rightarrow> BundleAddress \<Rightarrow> u64 \<Rightarrow> bytes \<Rightarrow> bytes thrown" where
  "create_identity_bundle L seed signing_public encryption_public display_name address issued_at signing_private =
    (if length signing_public \<noteq> sig_length_public_key L \<or> length encryption_public \<noteq> kem_length_public_key L
     then Inl ''The identity keys have the wrong size''
     else if length display_name > MAX_DISPLAY_NAME_BYTES then Inl ''The display name is too long''
     else if length (ba_relay_hint address) > MAX_RELAY_HINT_BYTES then Inl ''The relay address is too long''
     else if any_mailbox address \<and> (ba_relay_hint address = [] \<or> length (ba_relay_id address) \<noteq> 32 \<or> length (ba_mailbox_id address) \<noteq> 16)
     then Inl ''A mailbox address needs the relay address, the 32-byte relay ID and the 16-byte mailbox ID''
     else let body = bundle_body signing_public encryption_public display_name address issued_at in
       and_then (sign L seed (bundle_signing_input body) signing_private) (\<lambda>signature.
         let raw = write_blob [] body; raw = write_blob raw signature in Inr raw))"

definition create_identity_bundle_at ::
  "crypto_lib \<Rightarrow> bytes \<Rightarrow> bytes \<Rightarrow> bytes \<Rightarrow> string \<Rightarrow> string \<Rightarrow> u64 \<Rightarrow> bytes \<Rightarrow> bytes thrown" where
  "create_identity_bundle_at L seed signing_public encryption_public display_name relay_hint issued_at signing_private =
    create_identity_bundle L seed signing_public encryption_public display_name
      \<lparr> ba_relay_hint = relay_hint, ba_relay_id = [], ba_mailbox_id = [] \<rparr> issued_at signing_private"

text \<open>The fields read so far: \<open>None\<close> while the flag \<^verbatim>\<open>have_...\<close> is not set.\<close>

record bundle_fields =
  bf_signing :: "bytes option"
  bf_encryption :: "bytes option"
  bf_name :: "string option"
  bf_hint :: "string option"
  bf_relay_id :: "bytes option"
  bf_mailbox :: "bytes option"

definition no_fields :: bundle_fields where
  "no_fields = \<lparr> bf_signing = None, bf_encryption = None, bf_name = None, bf_hint = None, bf_relay_id = None, bf_mailbox = None \<rparr>"

definition take_field :: "u32 \<Rightarrow> bytes \<Rightarrow> bundle_fields \<Rightarrow> bundle_fields option" where
  "take_field type val f =
    (if type = FIELD_SIGNING_KEY then if bf_signing f \<noteq> None then None else Some (f \<lparr> bf_signing := Some val \<rparr>)
     else if type = FIELD_ENCRYPTION_KEY then if bf_encryption f \<noteq> None then None else Some (f \<lparr> bf_encryption := Some val \<rparr>)
     else if type = FIELD_DISPLAY_NAME then
       if bf_name f \<noteq> None \<or> length val > MAX_DISPLAY_NAME_BYTES then None else Some (f \<lparr> bf_name := Some (string_of_bytes val) \<rparr>)
     else if type = FIELD_RELAY_HINT then
       if bf_hint f \<noteq> None \<or> length val > MAX_RELAY_HINT_BYTES then None else Some (f \<lparr> bf_hint := Some (string_of_bytes val) \<rparr>)
     else if type = FIELD_RELAY_ID then if bf_relay_id f \<noteq> None \<or> length val \<noteq> 32 then None else Some (f \<lparr> bf_relay_id := Some val \<rparr>)
     else if type = FIELD_MAILBOX_ID then if bf_mailbox f \<noteq> None \<or> length val \<noteq> 16 then None else Some (f \<lparr> bf_mailbox := Some val \<rparr>)
     else Some f)"

fun read_fields :: "nat \<Rightarrow> bytes \<Rightarrow> nat \<Rightarrow> bundle_fields \<Rightarrow> (bundle_fields \<times> nat) option" where
  "read_fields 0 body b f = Some (f, b)"
| "read_fields (Suc n) body b f =
    do { (type, b) \<leftarrow> read_u32 body b;
         (val, b) \<leftarrow> read_blob MAX_BODY_BYTES body b;
         f \<leftarrow> take_field type val f;
         read_fields n body b f }"

definition or_empty :: "'a list option \<Rightarrow> 'a list" where
  "or_empty v = (case v of Some x \<Rightarrow> x | None \<Rightarrow> [])"

definition bundle_of :: "u64 \<Rightarrow> bundle_fields \<Rightarrow> bytes \<Rightarrow> IdentityBundle" where
  "bundle_of issued f raw =
    \<lparr> ib_issued_at = issued, ib_signing_key = or_empty (bf_signing f), ib_encryption_key = or_empty (bf_encryption f),
      ib_display_name = or_empty (bf_name f), ib_relay_hint = or_empty (bf_hint f), ib_relay_id = or_empty (bf_relay_id f),
      ib_mailbox_id = or_empty (bf_mailbox f), ib_raw = raw \<rparr>"

text \<open>The checks after the last field, and the signature.\<close>

definition check_bundle :: "crypto_lib \<Rightarrow> bytes \<Rightarrow> bytes \<Rightarrow> bytes \<Rightarrow> u64 \<Rightarrow> bundle_fields \<Rightarrow> IdentityBundle thrown" where
  "check_bundle L raw body signature issued f =
    (let bundle = bundle_of issued f raw in
     if bf_signing f = None \<or> bf_encryption f = None then Inl ''The identity bundle is missing a key''
     else if (bf_relay_id f \<noteq> None \<or> bf_mailbox f \<noteq> None) \<and> \<not> has_mailbox bundle then Inl ''The identity bundle has an incomplete mailbox address''
     else if length (ib_signing_key bundle) \<noteq> sig_length_public_key L \<or> length (ib_encryption_key bundle) \<noteq> kem_length_public_key L
     then Inl ''The keys in this bundle are not ML-DSA-65 / ML-KEM-768 public keys''
     else if \<not> verify L (bundle_signing_input body) signature (ib_signing_key bundle)
     then Inl ''The signature on this identity bundle is not valid. It may have been altered.''
     else Inr bundle)"

definition parse_bundle_body :: "crypto_lib \<Rightarrow> bytes \<Rightarrow> bytes \<Rightarrow> bytes \<Rightarrow> IdentityBundle thrown" where
  "parse_bundle_body L raw body signature =
    (case read_u32 body 0 of
       None \<Rightarrow> Inl ''That is not an identity bundle''
     | Some (magic, b) \<Rightarrow>
        if magic \<noteq> BUNDLE_MAGIC then Inl ''That is not an identity bundle''
        else case read_u32 body b of
          None \<Rightarrow> Inl ''The identity bundle is from an incompatible version''
        | Some (version, b) \<Rightarrow>
           if version \<noteq> BUNDLE_VERSION then Inl ''The identity bundle is from an incompatible version''
           else case do { (issued, b) \<leftarrow> read_u64 body b; (count, b) \<leftarrow> read_u32 body b;
                          if unat count > MAX_FIELDS then None
                          else do { (f, b) \<leftarrow> read_fields (unat count) body b no_fields; if b \<noteq> length body then None else Some (issued, f) } } of
             None \<Rightarrow> Inl ''The identity bundle is malformed''
           | Some (issued, f) \<Rightarrow> check_bundle L raw body signature issued f)"

definition parse_identity_bundle :: "crypto_lib \<Rightarrow> bytes \<Rightarrow> IdentityBundle thrown" where
  "parse_identity_bundle L raw =
    (case do { (body, off) \<leftarrow> read_blob MAX_BODY_BYTES raw 0; (signature, off) \<leftarrow> read_blob 8192 raw off;
               if off \<noteq> length raw then None else Some (body, signature) } of
       None \<Rightarrow> Inl ''The identity bundle is malformed''
     | Some (body, signature) \<Rightarrow> parse_bundle_body L raw body signature)"

definition bundle_fingerprint :: "crypto_lib \<Rightarrow> IdentityBundle \<Rightarrow> string" where
  "bundle_fingerprint L b = fingerprint L (ib_signing_key b)"

section \<open>Fields\<close>

definition put_fields :: "bytes \<Rightarrow> (u32 \<times> bytes) list \<Rightarrow> bytes" where
  "put_fields b fs = foldl (\<lambda>b (t, v). write_field b t v) b fs"

fun take_fields :: "(u32 \<times> bytes) list \<Rightarrow> bundle_fields \<Rightarrow> bundle_fields option" where
  "take_fields [] f = Some f"
| "take_fields ((t, v) # fs) f = Option.bind (take_field t v f) (take_fields fs)"

lemma put_fields_simps [simp]: "put_fields b [] = b" "put_fields b ((t, v) # fs) = put_fields (write_field b t v) fs"
  by (simp_all add: put_fields_def)

lemma prefix_put_fields: "prefix b (put_fields b fs)"
proof (induction fs arbitrary: b)
  case (Cons tv fs)
  obtain t v where tv: "tv = (t, v)" by force
  have "prefix b (write_field b t v)" by (simp add: write_field_def prefix_intro)
  then show ?case using Cons.IH [of "write_field b t v"] tv by (auto intro: prefix_order.trans)
qed simp

lemma prefix_put_fields_trans [prefix_intro]: "prefix a b \<Longrightarrow> prefix a (put_fields b fs)"
  using prefix_put_fields by (rule prefix_order.trans [rotated])

text \<open>The loop reads exactly what the fields written one after the other say.\<close>

lemma read_fields_put:
  assumes "prefix (put_fields b fs) inp" and "list_all (\<lambda>(t, v). length v \<le> MAX_BODY_BYTES) fs"
  shows "read_fields (length fs) inp (length b) f = map_option (\<lambda>f. (f, length (put_fields b fs))) (take_fields fs f)"
  using assms
proof (induction fs arbitrary: b f)
  case (Cons tv fs)
  obtain t v where tv: "tv = (t, v)" by force
  have p2: "prefix (write_blob (write_u32 b t) v) inp"
    using Cons.prems(1) prefix_put_fields [of "write_field b t v" fs] by (auto simp: tv write_field_def intro: prefix_order.trans)
  have p1: "prefix (write_u32 b t) inp" by (rule prefix_order.trans [OF prefix_write_blob p2])
  have p0: "prefix b inp" by (rule prefix_order.trans [OF prefix_write_u32 p1])
  have "read_u32 inp (length b) = Some (t, length (write_u32 b t))" using p0 p1 by (simp add: read_u32_iff)
  moreover have "read_blob MAX_BODY_BYTES inp (length (write_u32 b t)) = Some (v, length (write_field b t v))"
    using p1 p2 Cons.prems(2) by (simp add: read_blob_small_iff tv write_field_def)
  ultimately show ?case
    using Cons.IH [of "write_field b t v"] Cons.prems by (cases "take_field t v f") (simp_all add: tv)
qed simp

definition bundle_field_list :: "bytes \<Rightarrow> bytes \<Rightarrow> string \<Rightarrow> BundleAddress \<Rightarrow> (u32 \<times> bytes) list" where
  "bundle_field_list sk ek name a =
    [(FIELD_SIGNING_KEY, sk), (FIELD_ENCRYPTION_KEY, ek)] @ (if name \<noteq> [] then [(FIELD_DISPLAY_NAME, bytes_of_string name)] else []) @
    (if any_mailbox a then [(FIELD_RELAY_ID, ba_relay_id a), (FIELD_MAILBOX_ID, ba_mailbox_id a)] else []) @
    (if ba_relay_hint a \<noteq> [] then [(FIELD_RELAY_HINT, bytes_of_string (ba_relay_hint a))] else [])"

definition bundle_header :: "u64 \<Rightarrow> nat \<Rightarrow> bytes" where
  "bundle_header issued n = write_u32 (write_u64 (write_u32 (write_u32 [] BUNDLE_MAGIC) BUNDLE_VERSION) issued) (word_of_nat n)"

lemma bundle_body_put:
  "bundle_body sk ek name a issued =
   put_fields (bundle_header issued (length (bundle_field_list sk ek name a))) (bundle_field_list sk ek name a)"
  by (simp add: bundle_body_def bundle_field_list_def bundle_header_def Let_def put_fields_def write_text_field_def)

lemma take_bundle_field_list:
  assumes "length name \<le> MAX_DISPLAY_NAME_BYTES" and "length (ba_relay_hint a) \<le> MAX_RELAY_HINT_BYTES"
    and "any_mailbox a \<Longrightarrow> length (ba_relay_id a) = 32 \<and> length (ba_mailbox_id a) = 16"
  shows "take_fields (bundle_field_list sk ek name a) no_fields =
    Some \<lparr> bf_signing = Some sk, bf_encryption = Some ek, bf_name = (if name = [] then None else Some name),
           bf_hint = (if ba_relay_hint a = [] then None else Some (ba_relay_hint a)),
           bf_relay_id = (if any_mailbox a then Some (ba_relay_id a) else None),
           bf_mailbox = (if any_mailbox a then Some (ba_mailbox_id a) else None) \<rparr>"
  using assms by (cases "name = []"; cases "any_mailbox a"; cases "ba_relay_hint a = []")
    (simp_all add: bundle_field_list_def take_field_def no_fields_def)

lemma length_write_field: "length (write_field b t v) = length b + 8 + length v"
  by (simp add: write_field_def write_blob_append write_u32_split)

lemma length_put_fields: "length (put_fields b fs) = length b + (\<Sum>(t, v)\<leftarrow>fs. 8 + length v)"
  by (induction fs arbitrary: b) (auto simp: length_write_field)

lemma bundle_field_list_sizes:
  assumes "length name \<le> MAX_DISPLAY_NAME_BYTES" and "length (ba_relay_hint a) \<le> MAX_RELAY_HINT_BYTES"
    and "any_mailbox a \<Longrightarrow> length (ba_relay_id a) = 32 \<and> length (ba_mailbox_id a) = 16" and "length sk + length ek \<le> 15000"
  shows "length (bundle_field_list sk ek name a) \<le> 6" "list_all (\<lambda>(t, v). length v \<le> MAX_BODY_BYTES) (bundle_field_list sk ek name a)"
    "length (bundle_body sk ek name a issued) \<le> MAX_BODY_BYTES"
  using assms by (auto simp: bundle_body_put length_put_fields bundle_field_list_def bundle_header_def write_u32_split write_u64_append length_write_field)

section \<open>What a parsed bundle is\<close>

definition fields_ok :: "bundle_fields \<Rightarrow> bool" where
  "fields_ok f \<longleftrightarrow> (\<forall>n. bf_name f = Some n \<longrightarrow> length n \<le> MAX_DISPLAY_NAME_BYTES) \<and> (\<forall>h. bf_hint f = Some h \<longrightarrow> length h \<le> MAX_RELAY_HINT_BYTES) \<and>
     (\<forall>r. bf_relay_id f = Some r \<longrightarrow> length r = 32) \<and> (\<forall>m. bf_mailbox f = Some m \<longrightarrow> length m = 16)"

lemma take_field_ok: "take_field t v f = Some f' \<Longrightarrow> fields_ok f \<Longrightarrow> fields_ok f'"
  by (auto simp: take_field_def fields_ok_def split: if_splits)

lemma read_fields_ok: "read_fields n body b f = Some (f', b') \<Longrightarrow> fields_ok f \<Longrightarrow> fields_ok f'"
  by (induction n arbitrary: b f) (auto simp: bind_eq_Some_conv dest: take_field_ok)

definition bundle_ok :: "crypto_lib \<Rightarrow> IdentityBundle \<Rightarrow> bool" where
  "bundle_ok L b \<longleftrightarrow> length (ib_signing_key b) = sig_length_public_key L \<and> length (ib_encryption_key b) = kem_length_public_key L \<and>
     length (ib_display_name b) \<le> MAX_DISPLAY_NAME_BYTES \<and> length (ib_relay_hint b) \<le> MAX_RELAY_HINT_BYTES \<and>
     (if has_mailbox b then length (ib_relay_id b) = 32 \<and> length (ib_mailbox_id b) = 16 else ib_relay_id b = [] \<and> ib_mailbox_id b = [])"

lemma check_bundle_Inr:
  assumes "check_bundle L raw body signature issued f = Inr b" and "fields_ok f"
  shows "b = bundle_of issued f raw" "bundle_ok L b" "verify L (bundle_signing_input body) signature (ib_signing_key b)"
proof -
  from assms(1) show b: "b = bundle_of issued f raw" and "verify L (bundle_signing_input body) signature (ib_signing_key b)"
    by (auto simp: check_bundle_def Let_def split: if_splits)
  from assms(1) have c: "bf_relay_id f \<noteq> None \<or> bf_mailbox f \<noteq> None \<Longrightarrow> has_mailbox b" "length (ib_signing_key b) = sig_length_public_key L"
    "length (ib_encryption_key b) = kem_length_public_key L" by (auto simp: check_bundle_def Let_def split: if_splits)
  from assms(2) c show "bundle_ok L b"
    by (cases f) (auto simp: bundle_ok_def fields_ok_def b bundle_of_def has_mailbox_def or_empty_def split: option.splits)
qed

text \<open>What the body says does not depend on the rest: parsing with another signature checks the same fields.\<close>

lemma parse_bundle_body_Inr:
  assumes "parse_bundle_body L raw body signature = Inr b"
  obtains issued f where "fields_ok f" "\<And>raw' sig'. parse_bundle_body L raw' body sig' = check_bundle L raw' body sig' issued f"
proof -
  let ?fields = "\<lambda>b. do { (issued, b) \<leftarrow> read_u64 body b; (count, b) \<leftarrow> read_u32 body b;
      if unat count > MAX_FIELDS then None
      else do { (f, b) \<leftarrow> read_fields (unat count) body b no_fields; if b \<noteq> length body then None else Some (issued, f) } }"
  have ok: "fields_ok f" if "?fields b = Some (issued, f)" for b issued f
  proof -
    from that obtain n b1 b2 where "read_fields n body b1 no_fields = Some (f, b2)"
      by (auto simp: bind_eq_Some_conv split: if_splits)
    then show ?thesis by (rule read_fields_ok) (simp add: fields_ok_def no_fields_def)
  qed
  from assms obtain magic b1 where r1: "read_u32 body 0 = Some (magic, b1)" "magic = BUNDLE_MAGIC"
    by (auto simp: parse_bundle_body_def split: option.splits if_splits)
  from assms r1 obtain version b2 where r2: "read_u32 body b1 = Some (version, b2)" "version = BUNDLE_VERSION"
    by (auto simp: parse_bundle_body_def split: option.splits if_splits)
  from assms r1 r2 obtain issued f where f: "?fields b2 = Some (issued, f)"
    by (cases "?fields b2") (auto simp: parse_bundle_body_def)
  show thesis by (rule that [of f issued]) (use ok [OF f] r1 r2 f in \<open>simp_all add: parse_bundle_body_def\<close>)
qed

lemma parse_identity_bundle_blobs:
  assumes "length body \<le> MAX_BODY_BYTES" and "length signature \<le> 8192"
  shows "parse_identity_bundle L (write_blob (write_blob [] body) signature) =
    parse_bundle_body L (write_blob (write_blob [] body) signature) body signature"
proof -
  let ?raw = "write_blob (write_blob [] body) signature"
  have "read_blob MAX_BODY_BYTES ?raw 0 = Some (body, length (write_blob [] body))"
    using assms(1) read_blob_small_iff [of "[]" ?raw MAX_BODY_BYTES body "length (write_blob [] body)"] by (simp add: prefix_intro)
  moreover have "read_blob 8192 ?raw (length (write_blob [] body)) = Some (signature, length ?raw)"
    using assms(2) read_blob_small_iff [of "write_blob [] body" ?raw 8192 signature "length ?raw"] by (simp add: prefix_intro)
  ultimately show ?thesis by (simp add: parse_identity_bundle_def)
qed

lemma parse_identity_bundle_Inr:
  assumes "parse_identity_bundle L raw = Inr b"
  obtains body signature where "raw = write_blob (write_blob [] body) signature" "length body \<le> MAX_BODY_BYTES" "length signature \<le> 8192"
    "parse_bundle_body L raw body signature = Inr b"
proof -
  from assms obtain body signature where "Option.bind (read_blob MAX_BODY_BYTES raw 0) (\<lambda>(body, off).
      Option.bind (read_blob 8192 raw off) (\<lambda>(signature, off). if off \<noteq> length raw then None else Some (body, signature))) = Some (body, signature)"
    "parse_bundle_body L raw body signature = Inr b"
    by (auto simp: parse_identity_bundle_def split: option.splits prod.splits)
  then show thesis by (intro that [of body signature]) (auto simp: bind_eq_Some_conv read_iff all_read split: if_splits)
qed

text \<open>
  A bundle that was accepted is what its owner signed. The parsed bundle has keys of the right sizes, a name and an address within
  their limits and a mailbox that is complete or absent; the raw bytes are kept; they are a body and a
  signature that verifies under the very key in the bundle; and the body alone decides what the bundle says: the same body
  under another signature gives the same bundle or none.
\<close>
lemma parsed_bundle_well_formed:
  assumes "parse_identity_bundle L raw = Inr b"
  shows "bundle_ok L b \<and> ib_raw b = raw \<and>
    (\<exists>body signature. raw = write_blob (write_blob [] body) signature \<and> verify L (bundle_signing_input body) signature (ib_signing_key b) \<and>
      (\<forall>sig' b'. parse_identity_bundle L (write_blob (write_blob [] body) sig') = Inr b' \<longrightarrow> b' = b \<lparr> ib_raw := write_blob (write_blob [] body) sig' \<rparr>))"
proof -
  from assms obtain body signature where raw: "raw = write_blob (write_blob [] body) signature" "length body \<le> MAX_BODY_BYTES"
    and p: "parse_bundle_body L raw body signature = Inr b" by (rule parse_identity_bundle_Inr)
  from p obtain issued f where f: "fields_ok f" "\<And>raw' sig'. parse_bundle_body L raw' body sig' = check_bundle L raw' body sig' issued f"
    by (rule parse_bundle_body_Inr) blast
  note b = check_bundle_Inr [OF p [unfolded f(2)] f(1)]
  have "b' = b \<lparr> ib_raw := write_blob (write_blob [] body) sig' \<rparr>"
    if other: "parse_identity_bundle L (write_blob (write_blob [] body) sig') = Inr b'" for sig' b'
  proof -
    from other obtain body' sig'' where r: "write_blob (write_blob [] body) sig' = write_blob (write_blob [] body') sig''"
      and l: "length body' \<le> MAX_BODY_BYTES" and p': "parse_bundle_body L (write_blob (write_blob [] body) sig') body' sig'' = Inr b'"
      by (rule parse_identity_bundle_Inr)
    have "body' = body" using r l raw(2) blob_cancel [of body body' "blob_field sig'" "blob_field sig''"] by (simp add: write_blob_field)
    then show ?thesis using check_bundle_Inr(1) [OF p' [unfolded \<open>body' = body\<close> f(2)] f(1)] b(1) by (simp add: bundle_of_def)
  qed
  then show ?thesis using b raw(1) by (auto simp: bundle_of_def)
qed

section \<open>A bundle arrives\<close>

lemma parse_bundle_body_put:
  assumes "take_fields fs no_fields = Some f" and "length fs \<le> MAX_FIELDS" and "list_all (\<lambda>(t, v). length v \<le> MAX_BODY_BYTES) fs"
  shows "parse_bundle_body L raw (put_fields (bundle_header issued (length fs)) fs) signature =
    check_bundle L raw (put_fields (bundle_header issued (length fs)) fs) signature issued f"
proof -
  let ?body = "put_fields (bundle_header issued (length fs)) fs" and ?h = "write_u32 (write_u32 [] BUNDLE_MAGIC) BUNDLE_VERSION"
  have r: "read_u32 ?body 0 = Some (BUNDLE_MAGIC, length (write_u32 [] BUNDLE_MAGIC))"
    "read_u32 ?body (length (write_u32 [] BUNDLE_MAGIC)) = Some (BUNDLE_VERSION, length ?h)"
    "read_u64 ?body (length ?h) = Some (issued, length (write_u64 ?h issued))"
    "read_u32 ?body (length (write_u64 ?h issued)) = Some (word_of_nat (length fs), length (bundle_header issued (length fs)))"
    by (simp_all add: read_iff bundle_header_def prefix_intro)
  have n: "unat (word_of_nat (length fs) :: u32) = length fs" using assms(2) by simp
  have "read_fields (length fs) ?body (length (bundle_header issued (length fs))) no_fields = Some (f, length ?body)"
    using read_fields_put [OF prefix_order.refl assms(3), of "bundle_header issued (length fs)" no_fields] assms(1) by simp
  then show ?thesis using r n assms(2) by (simp add: parse_bundle_body_def)
qed

text \<open>
  C40: A bundle arrives as it was made. Whatever \<^verbatim>\<open>create_identity_bundle\<close> returns -- with or without a name, with a relay address,
  with a whole mailbox or with none -- is accepted, with the keys, the name, the address and the time that went in; an
  address that is only in part there is refused before anything is signed.
\<close>
theorem identity_bundle_round_trip:
  assumes "sig_pair L sk priv" and "sig_length_signature L \<le> 8192" and "sig_length_public_key L + kem_length_public_key L \<le> 15000"
    and "create_identity_bundle L seed sk ek name a issued priv = Inr raw"
  shows "parse_identity_bundle L raw = Inr \<lparr> ib_issued_at = issued, ib_signing_key = sk, ib_encryption_key = ek, ib_display_name = name,
      ib_relay_hint = ba_relay_hint a, ib_relay_id = ba_relay_id a, ib_mailbox_id = ba_mailbox_id a, ib_raw = raw \<rparr> \<and>
    (ba_relay_id a = [] \<and> ba_mailbox_id a = [] \<or> ba_relay_hint a \<noteq> [] \<and> length (ba_relay_id a) = 32 \<and> length (ba_mailbox_id a) = 16)"
proof -
  let ?body = "bundle_body sk ek name a issued"
  from assms(4) have len: "length sk = sig_length_public_key L" "length ek = kem_length_public_key L" "length name \<le> MAX_DISPLAY_NAME_BYTES"
      "length (ba_relay_hint a) \<le> MAX_RELAY_HINT_BYTES"
    and mb: "any_mailbox a \<Longrightarrow> ba_relay_hint a \<noteq> [] \<and> length (ba_relay_id a) = 32 \<and> length (ba_mailbox_id a) = 16"
    by (auto simp: create_identity_bundle_def split: if_splits)
  from assms(4) obtain signature where s: "sign L seed (bundle_signing_input ?body) priv = Inr signature"
    and raw: "raw = write_blob (write_blob [] ?body) signature"
    by (auto simp: create_identity_bundle_def Let_def and_then_Inr split: if_splits)
  have v: "verify L (bundle_signing_input ?body) signature sk" by (rule sign_verify [OF assms(1) s])
  then have "length signature \<le> 8192" using assms(2) by (auto simp: verify_def split: if_splits)
  moreover note sizes = bundle_field_list_sizes [OF len(3, 4) conjunct2 [OF mb], of sk ek]
  ultimately have "parse_identity_bundle L raw = parse_bundle_body L raw ?body signature"
    unfolding raw using assms(3) len by (intro parse_identity_bundle_blobs) simp_all
  also have "\<dots> = check_bundle L raw ?body signature issued
      \<lparr> bf_signing = Some sk, bf_encryption = Some ek, bf_name = (if name = [] then None else Some name),
        bf_hint = (if ba_relay_hint a = [] then None else Some (ba_relay_hint a)),
        bf_relay_id = (if any_mailbox a then Some (ba_relay_id a) else None),
        bf_mailbox = (if any_mailbox a then Some (ba_mailbox_id a) else None) \<rparr>"
    unfolding bundle_body_put by (rule parse_bundle_body_put [OF take_bundle_field_list]) (use len mb sizes assms(3) in auto)
  also have "\<dots> = Inr \<lparr> ib_issued_at = issued, ib_signing_key = sk, ib_encryption_key = ek, ib_display_name = name,
      ib_relay_hint = ba_relay_hint a, ib_relay_id = ba_relay_id a, ib_mailbox_id = ba_mailbox_id a, ib_raw = raw \<rparr>"
    using len mb v by (cases "any_mailbox a"; cases "name = []"; cases "ba_relay_hint a = []")
      (auto simp: check_bundle_def bundle_of_def or_empty_def has_mailbox_def any_mailbox_def Let_def)
  finally show ?thesis using mb by (auto simp: any_mailbox_def)
qed

definition sample_bundle :: IdentityBundle where
  "sample_bundle = \<lparr> ib_issued_at = 5, ib_signing_key = [9, 9, 9, 9], ib_encryption_key = [1, 2, 3, 4], ib_display_name = ''Ann'',
     ib_relay_hint = [], ib_relay_id = [], ib_mailbox_id = [], ib_raw = [] \<rparr>"

lemma sample_create:
  "\<exists>raw. create_identity_bundle_at sample_pk_lib [] [9, 9, 9, 9] [1, 2, 3, 4] ''Ann'' [] 5 [9, 9, 9, 9] = Inr raw"
  by (simp add: create_identity_bundle_at_def create_identity_bundle_def any_mailbox_def sign_def require_size_def and_then_def Let_def
      sample_pk_lib_def sample_lib_def)

theorem identity_bundle_round_trip_witness:
  "\<exists>raw. create_identity_bundle_at sample_pk_lib [] [9, 9, 9, 9] [1, 2, 3, 4] ''Ann'' [] 5 [9, 9, 9, 9] = Inr raw \<and>
     parse_identity_bundle sample_pk_lib raw = Inr (sample_bundle \<lparr> ib_raw := raw \<rparr>)"
proof -
  obtain raw where raw: "create_identity_bundle_at sample_pk_lib [] [9, 9, 9, 9] [1, 2, 3, 4] ''Ann'' [] 5 [9, 9, 9, 9] = Inr raw"
    using sample_create by blast
  have "sig_pair sample_pk_lib [9, 9, 9, 9] [9, 9, 9, 9]" by (rule sample_pk_lib_laws(3)) simp
  from identity_bundle_round_trip [OF this _ _ raw [unfolded create_identity_bundle_at_def]] raw show ?thesis
    by (simp add: sample_bundle_def sample_pk_lib_def sample_lib_def)
qed

end
