(* ===== verification/Spec2Isabelle.thy ===== *)
theory Spec2Isabelle
  imports Relay_Delivery Relay_Operators Transfer_Server_Spec Archive_Chain Message_Record Prekey_Vault Attachment Keyring Identity_Bundle
begin

text \<open>
  A verification of PQ file transfer: a server that relays files and messages it cannot read, and the formats and
  cryptography of the client.

  \<^bold>\<open>The program.\<close>  The server (\<^verbatim>\<open>src/server\<close>) has two halves behind one port.  The older half (\<^verbatim>\<open>main.cpp\<close>, protocol version 2) takes in an
  encrypted file in chunks, hands it to whoever knows its number and deletes it once that is confirmed, or after a day.  The newer half
  (\<^verbatim>\<open>relay_service.cpp\<close>, protocol version 3) keeps mailboxes, chat archives, prekeys, keyrings and attachments in a SQLite database
  (\<^verbatim>\<open>relay_store.cpp\<close>) and serves each client in a session of its own.  Both talk in the frames and payloads of \<^verbatim>\<open>src/protocol\<close>.  The
  client (\<^verbatim>\<open>src/client\<close>) makes what the server carries: identity bundles, signed message records, envelopes sealed for a mailbox with or
  without a prekey, archive entries chained by hashes, encrypted attachments and keyrings.

  \<^bold>\<open>Foundations.\<close>  \<^verbatim>\<open>Prelude\<close> names the machine types: bytes and unsigned integers are words, \<^verbatim>\<open>size_t\<close> is a natural number, \<^verbatim>\<open>int64_t\<close> an integer
  that is cast where the source casts it, a \<^verbatim>\<open>std::string\<close> a list of characters.  \<^verbatim>\<open>Codec\<close> has the interfaces of the formats as locales: \<open>cursor_item\<close> is a reader that
  is the exact inverse of a writer, \<open>message_codec\<close> a decoder that accepts exactly the encodings of well-formed values; \<open>sized_item\<close> (in
  \<^verbatim>\<open>Keyring\<close>) adds a least size, \<open>checked_codec\<close> (in \<^verbatim>\<open>Record_Payloads\<close>) an encoder that can throw.  Each is interpreted on the readers and writers of the program,
  some sixty times, and the facts the formats need come from there.  \<^verbatim>\<open>Wire\<close> models the primitives of \<^verbatim>\<open>protocol.cpp\<close>.

  \<^bold>\<open>Formats.\<close>
  \<^item> \<^verbatim>\<open>Relay_Payloads\<close>, \<^verbatim>\<open>Relay_Protocol\<close> (\<^verbatim>\<open>relay_protocol.h\<close>, \<^verbatim>\<open>relay_protocol.cpp\<close>): a record, an encoder and a decoder for each of the 29 payloads.
    Every decoder accepts exactly what the encoder makes of values within the limits (C15, C39).
  \<^item> \<^verbatim>\<open>Signing_Inputs\<close>: what is signed or hashed is never the same bytes for two purposes or for different fields (C16).
  \<^item> \<^verbatim>\<open>Transfer_Protocol\<close>, \<^verbatim>\<open>Socket_IO\<close> (\<^verbatim>\<open>messages.h\<close>, \<^verbatim>\<open>protocol.cpp\<close>): headers and chunks of version 2, and the loops over \<^verbatim>\<open>send\<close> and \<^verbatim>\<open>recv\<close>.  What the
    operating system answers is a list of events; messages arrive whole whatever the cuts are (C10).
  \<^item> \<^verbatim>\<open>Record_Payloads\<close>, \<^verbatim>\<open>Utf8_Labels\<close>, \<^verbatim>\<open>Message_Record\<close> (\<^verbatim>\<open>message_record.cpp\<close>): payloads (C34), labels against a reference encoder of UTF-8
    (C33), signed records (C30), and identifiers of chats and their members (C31).
  \<^item> \<^verbatim>\<open>Keyring\<close> (\<^verbatim>\<open>keyring.cpp\<close>, C38) and \<^verbatim>\<open>Identity_Bundle\<close> (\<^verbatim>\<open>identity_bundle.cpp\<close>, C40).

  \<^bold>\<open>Cryptography.\<close>  \<^verbatim>\<open>Crypto_Engine\<close> models \<^verbatim>\<open>crypto_engine.cpp\<close> over a record \<open>crypto_lib\<close> of the calls it makes to liboqs and OpenSSL.  The libraries are not modelled; what is relied
  on of them are named hypotheses (\<open>gcm_lawful\<close>, \<open>kem_pair\<close>, \<open>sig_pair\<close>, \<open>x25519_agrees\<close>), satisfied by concrete functions in the witnesses.  Random bytes are
  arguments, exceptions values of a sum type.  A protected secret comes back (C20).

  \<^bold>\<open>The relay.\<close>
  \<^item> \<^verbatim>\<open>Relay_Db\<close>, \<^verbatim>\<open>Relay_Store\<close>: the tables as lists of rows in the order of their row numbers, the SQL statements as functions on them, and one definition per method of \<^verbatim>\<open>RelayStore\<close>; the
    result \<open>None\<close> is an exception that rolls the transaction back.
  \<^item> \<^verbatim>\<open>Relay_Store_Inv\<close>, \<^verbatim>\<open>Relay_Store_Spec\<close>: \<open>store_step\<close> is one call of any method; every reachable database satisfies the invariant (C1).  What the methods promise: C6,
    C7, C13, C14, C35, C36, C37.
  \<^item> \<^verbatim>\<open>Rate_Limiter\<close> (C22), \<^verbatim>\<open>Relay_Service\<close>, \<^verbatim>\<open>Relay_Session\<close>: limits, the relay's key, the files of attachments, owners of connections, and a session with one definition for each case of the
    switch in \<^verbatim>\<open>handle_session\<close>.  \<open>session_turn\<close> is one round of its loop; what comes from outside (the message, the clock, random bytes, the disk's answers) are arguments.
  \<^item> \<^verbatim>\<open>Relay_Session_Effects\<close>: \<open>permitted\<close> is the policy of the relay, as rules.  A rule names the message that must have arrived, the credential it must carry or the
    sign-in there must be, and the one call of the store that follows, with its arguments; every turn keeps to it.
  \<^item> \<^verbatim>\<open>Relay_Session_Spec\<close>: what follows for clients: mailboxes are isolated from sessions that are not their owner's (C2, C4, C12), archives go only by the agreement of all
    members (C3), and who a client is has to be proved (C8).  \<^verbatim>\<open>Relay_Delivery\<close>: delivery is complete and in order (C9), a keyring comes back whole (C17).
    \<^verbatim>\<open>Relay_Operators\<close>: the commands of the operator, the sweep and the key file (C18, C19, C23).

  \<^bold>\<open>The transfer server.\<close>  \<^verbatim>\<open>Transfer_Server\<close> models \<^verbatim>\<open>main.cpp\<close>: a connection is a state machine, \<open>turn\<close> one step of it, \<open>server_step\<close> one step of some connection, an accepted client or
  the cleaner; \<open>boot\<close> is the start, which restores what is on disk without looking at the quota.  \<^verbatim>\<open>Transfer_Server_Spec\<close>: the accounts are exact in every interleaving (C5), files arrive as they were
  sent (C11), and a restart finds what was there (C21).

  \<^bold>\<open>The client.\<close>  \<^verbatim>\<open>Chat_Archive\<close>, \<^verbatim>\<open>Archive_Chain\<close> (\<^verbatim>\<open>archive.cpp\<close>): an accepted chain is pinned by its head (C26), and what the relay keeps is always accepted (C24).  \<^verbatim>\<open>Prekey\<close>, \<^verbatim>\<open>Envelope\<close>,
  \<^verbatim>\<open>Prekey_Vault\<close> (\<^verbatim>\<open>prekey.cpp\<close>, \<^verbatim>\<open>envelope.cpp\<close>, \<^verbatim>\<open>prekey_vault.cpp\<close>): envelopes open to what was sealed (C25), and no longer once the prekey is erased (C27).  \<^verbatim>\<open>File_Names\<close>,
  \<^verbatim>\<open>Attachment\<close> (\<^verbatim>\<open>attachment.cpp\<close>): names are safe (C32), only the signed file is saved (C28), and a file arrives whole (C29).

  \<^bold>\<open>Bounds.\<close>  No definition uses fuel; loops that are not structural have a termination proof, which for the delivery loop needs only that sequence numbers grow, and for the
  removal of invited members that their number is finite.  Hypotheses that bound sizes are far from what can happen: an archive has fewer than \<open>2 ^ 63 - 1\<close> entries (C6, C24), the quota of the transfer server is
  at most \<open>2 ^ 63\<close> bytes and its folder has at most \<open>2 ^ 27\<close> directories when it starts (C5, C21), keys and signatures have the sizes of the algorithms used or are smaller than the buffers the readers allow (C25,
  C27, C30, C40).

  \<^bold>\<open>What is simplified.\<close>  A turn of a session and a method of the store are atomic: the code holds a mutex for each method, and turns of different sessions
  interleave in the model as whole turns, although the code can interleave the methods within a turn.  A confirmed download and the cleaner remove a directory in the step that takes the transfer
  off the list; the code does so just after it has released the lock.  SQLite fails only by its constraints.  Closing an uploaded attachment at the relay does not fail in the model; for a downloaded one the bytes lost
  when the stream is closed are an argument.  Failures of the set-up calls of OpenSSL are one with the failure of the operation.

  \<^bold>\<open>What is not modelled.\<close>  The client's engines (\<^verbatim>\<open>messaging_engine.cpp\<close>, \<^verbatim>\<open>transfer_engine.cpp\<close>, \<^verbatim>\<open>relay_client.cpp\<close>), which are threads, sockets and callbacks around the modelled
  formats; its databases of history and keys (\<^verbatim>\<open>history_store.cpp\<close>, \<^verbatim>\<open>key_store.cpp\<close>); the text forms of cards and links (\<^verbatim>\<open>sharing.cpp\<close>); the keychain of the operating system; the graphical interface; the
  platform layer, the diagnostic tool, tests and packaging; and in the modelled parts: log lines, the command line, file permissions, migrations of old databases and the wiping of memory.
\<close>

end
